(* ===== verification/Frelay_Base.thy ===== *)
theory Frelay_Base
  imports "HOL-Library.Word"
begin

text \<open>
  Prelude of the frelay development: the types every component shares (bytes, the 16-, 32-
  and 64-bit integers of \<^verbatim>\<open><stdint.h>\<close>, C strings), the faults a C operation can end in,
  sequencing of fallible operations, and the generic list lemmas of the component proofs.

  A C function that may call \<^verbatim>\<open>exit()\<close> (through \<^verbatim>\<open>die_if\<close> of src/util.h) or that may
  leave the bounds of an object returns a value of type \<open>'a res\<close>: \<open>Inl\<close> of the
  fault or \<open>Inr\<close> of the result.
\<close>

unbundle bit_operations_syntax

section \<open>Machine types\<close>

type_synonym byte = "8 word"
type_synonym u16 = "16 word"
type_synonym u32 = "32 word"
type_synonym u64 = "64 word"

lemma unat_of_nat_u16: "n < 65536 \<Longrightarrow> unat (of_nat n :: u16) = n"
  by (simp add: unsigned_of_nat take_bit_nat_eq_self)

lemma unat_u16_less: "unat (w :: u16) < 65536"
  using unsigned_less [of w] by simp

section \<open>Faults and fallible operations\<close>

text \<open>
  \<open>Die\<close>: the process calls \<^verbatim>\<open>exit( EXIT_FAILURE )\<close> in \<^verbatim>\<open>die_if\<close>;
  \<open>OutOfBounds\<close>: an access outside an object; \<open>NullDeref\<close>: a null pointer is passed
  where a string is read; \<open>BadVarArg\<close>: \<^verbatim>\<open>va_arg\<close> reads another type than was passed.
  All but the first are undefined behaviour of C.
\<close>

datatype fault = Die | OutOfBounds | NullDeref | BadVarArg

type_synonym 'a res = "fault + 'a"

fun bindr :: "'a res \<Rightarrow> ('a \<Rightarrow> 'b res) \<Rightarrow> 'b res" where
  "bindr (Inl e) f = Inl e"
| "bindr (Inr x) f = f x"

fun is_ok :: "'a res \<Rightarrow> bool" where
  "is_ok (Inl e) = False"
| "is_ok (Inr x) = True"

lemma bindr_Inr_iff: "bindr r f = Inr y \<longleftrightarrow> (\<exists>x. r = Inr x \<and> f x = Inr y)"
  by (cases r) auto

lemma bindr_Inl_iff: "bindr r f = Inl e \<longleftrightarrow> r = Inl e \<or> (\<exists>x. r = Inr x \<and> f x = Inl e)"
  by (cases r) auto

lemma bindr_InrE [elim!]:
  assumes "bindr r f = Inr y"
  obtains x where "r = Inr x" and "f x = Inr y"
  using assms by (auto simp: bindr_Inr_iff)

lemma is_ok_iff: "is_ok r \<longleftrightarrow> (\<exists>x. r = Inr x)"
  by (cases r) auto

lemma is_okE [elim]: "is_ok r \<Longrightarrow> (\<And>x. r = Inr x \<Longrightarrow> P) \<Longrightarrow> P"
  by (cases r) auto

section \<open>C strings\<close>

text \<open>
  A C string is the list of its bytes without the terminating null byte. A string literal of
  the source is \<open>str ''...''\<close>. \<open>cstr_at bs i\<close> is the string a \<^verbatim>\<open>char *\<close> that
  points to index \<open>i\<close> of the object \<open>bs\<close> denotes: a reader runs to the next null
  byte, and leaves the object when there is none.
\<close>

type_synonym cstring = "byte list"

definition str :: "string \<Rightarrow> cstring" where
  "str s = map of_char s"

definition is_cstring :: "cstring \<Rightarrow> bool" where
  "is_cstring s \<longleftrightarrow> 0 \<notin> set s"

definition cstr_at :: "byte list \<Rightarrow> nat \<Rightarrow> cstring res" where
  "cstr_at bs i =
     (if 0 \<in> set (drop i bs) then Inr (takeWhile (\<lambda>c. c \<noteq> 0) (drop i bs)) else Inl OutOfBounds)"

lemma length_str [simp]: "length (str s) = length s"
  by (simp add: str_def)

lemma str_append: "str (s @ t) = str s @ str t"
  by (simp add: str_def)

lemma is_cstring_append [simp]: "is_cstring (s @ t) \<longleftrightarrow> is_cstring s \<and> is_cstring t"
  by (auto simp: is_cstring_def)

lemma of_char_byte_eq_iff: "(of_char c :: byte) = of_char d \<longleftrightarrow> c = d"
proof
  assume eq: "(of_char c :: byte) = of_char d"
  have "bit (of_char c :: byte) n = bit (of_char d :: byte) n" for n
    using eq by simp
  from this [of 0] this [of 1] this [of 2] this [of 3] this [of 4] this [of 5] this [of 6] this [of 7]
  show "c = d"
    by (intro char.expand) (simp add: of_char_def bit_horner_sum_bit_iff del: horner_sum_simps)
qed simp

lemma is_cstring_str: "is_cstring (str s) \<longleftrightarrow> CHR 0x00 \<notin> set s"
proof -
  have "(of_char c :: byte) = 0 \<longleftrightarrow> c = CHR 0x00" for c
    using of_char_byte_eq_iff [of c "CHR 0x00"] by simp
  then show ?thesis by (auto simp: is_cstring_def str_def image_iff)
qed

lemma str_eq_iff: "str s = str t \<longleftrightarrow> s = t"
  unfolding str_def by (rule inj_map_eq_map) (simp add: inj_def of_char_byte_eq_iff)

lemma cstr_at_is_cstring: "cstr_at bs i = Inr s \<Longrightarrow> is_cstring s"
  by (auto simp: cstr_at_def is_cstring_def split: if_splits dest: set_takeWhileD)

lemma takeWhile_nonzero: "is_cstring s \<Longrightarrow> takeWhile (\<lambda>c. c \<noteq> 0) (s @ 0 # t) = s"
  by (induction s) (auto simp: is_cstring_def)

lemma cstr_at_terminated:
  assumes "is_cstring s" and "drop i bs = s @ 0 # t"
  shows "cstr_at bs i = Inr s"
  using assms by (simp add: cstr_at_def takeWhile_nonzero)

section \<open>Lists\<close>

text \<open>\<open>overwrite bs i ds\<close>: the bytes \<open>ds\<close> stored from index \<open>i\<close> of the object \<open>bs\<close>.\<close>

definition overwrite :: "'a list \<Rightarrow> nat \<Rightarrow> 'a list \<Rightarrow> 'a list" where
  "overwrite bs i ds = take i bs @ ds @ drop (i + length ds) bs"

lemma length_overwrite [simp]:
  "i + length ds \<le> length bs \<Longrightarrow> length (overwrite bs i ds) = length bs"
  by (simp add: overwrite_def)

lemma overwrite_read:
  "i + length ds \<le> length bs \<Longrightarrow> take (length ds) (drop i (overwrite bs i ds)) = ds"
  by (simp add: overwrite_def)

lemma overwrite_frame:
  assumes "i + length ds \<le> length bs" and "j + n \<le> i \<or> i + length ds \<le> j"
  shows "take n (drop j (overwrite bs i ds)) = take n (drop j bs)"
proof (rule nth_equalityI)
  show "length (take n (drop j (overwrite bs i ds))) = length (take n (drop j bs))"
    using assms(1) by simp
next
  fix k assume "k < length (take n (drop j (overwrite bs i ds)))"
  then have k: "k < n" "j + k < length bs" using assms(1) by auto
  have "overwrite bs i ds ! (j + k) = bs ! (j + k)"
    using assms k by (auto simp: overwrite_def nth_append)
  then show "take n (drop j (overwrite bs i ds)) ! k = take n (drop j bs) ! k"
    using assms(1) k by simp
qed

lemma overwrite_append1:
  "i + length ds \<le> length bs \<Longrightarrow> overwrite (bs @ cs) i ds = overwrite bs i ds @ cs"
  by (simp add: overwrite_def)

lemma overwrite_append2:
  "overwrite (bs @ cs) (length bs + i) ds = bs @ overwrite cs i ds"
  by (simp add: overwrite_def)

lemma take_overwrite_below: "n \<le> i \<Longrightarrow> i \<le> length bs \<Longrightarrow> take n (overwrite bs i ds) = take n bs"
  by (simp add: overwrite_def min_def)

lemma drop_overwrite_above:
  "i + length ds \<le> n \<Longrightarrow> i + length ds \<le> length bs \<Longrightarrow> drop n (overwrite bs i ds) = drop n bs"
  by (simp add: overwrite_def)

lemma list_update_same_map: "i < length xs \<Longrightarrow> map f (xs[i := x]) = (map f xs)[i := f x]"
  by (rule map_update)

end
