(* ===== verification/Bendian.thy ===== *)
theory Bendian
  imports Frelay_Base
begin

text \<open>
  src/lib/bendian.h: conversion between network and host byte order, for both host orders the
  header distinguishes, and the native loads and stores the message macros combine it with.
  The lemmas show that a converted load is the big-endian reading of the bytes on either host,
  so the rest of the development is independent of the host's byte order.
\<close>

section \<open>Native memory accesses\<close>

datatype host_order = Little_Endian | Big_Endian

fun le_word :: "byte list \<Rightarrow> 'a::len word" where
  "le_word [] = 0"
| "le_word (b # bs) = ucast b OR push_bit 8 (le_word bs)"

definition be_word :: "byte list \<Rightarrow> 'a::len word" where
  "be_word bs = le_word (rev bs)"

definition le_bytes :: "nat \<Rightarrow> 'a::len word \<Rightarrow> byte list" where
  "le_bytes k w = map (\<lambda>i. ucast (drop_bit (8 * i) w)) [0..<k]"

definition be_bytes :: "nat \<Rightarrow> 'a::len word \<Rightarrow> byte list" where
  "be_bytes k w = rev (le_bytes k w)"

definition native_load :: "host_order \<Rightarrow> byte list \<Rightarrow> 'a::len word" where
  "native_load h bs = (case h of Little_Endian \<Rightarrow> le_word bs | Big_Endian \<Rightarrow> be_word bs)"

definition native_store :: "host_order \<Rightarrow> nat \<Rightarrow> 'a::len word \<Rightarrow> byte list" where
  "native_store h k w = (case h of Little_Endian \<Rightarrow> le_bytes k w | Big_Endian \<Rightarrow> be_bytes k w)"

section \<open>The conversion macros\<close>

definition SWAP2 :: "u16 \<Rightarrow> u16" where
  "SWAP2 v = (drop_bit 8 v AND 0x00FF) OR (push_bit 8 v AND 0xFF00)"

definition SWAP4 :: "u32 \<Rightarrow> u32" where
  "SWAP4 v =
     (drop_bit 24 v AND 0x000000FF) OR (drop_bit 8 v AND 0x0000FF00) OR
     (push_bit 8 v AND 0x00FF0000) OR (push_bit 24 v AND 0xFF000000)"

definition SWAP8 :: "u64 \<Rightarrow> u64" where
  "SWAP8 v =
     (drop_bit 56 v AND 0x00000000000000FF) OR (drop_bit 40 v AND 0x000000000000FF00) OR
     (drop_bit 24 v AND 0x0000000000FF0000) OR (drop_bit 8 v AND 0x00000000FF000000) OR
     (push_bit 8 v AND 0x000000FF00000000) OR (push_bit 24 v AND 0x0000FF0000000000) OR
     (push_bit 40 v AND 0x00FF000000000000) OR (push_bit 56 v AND 0xFF00000000000000)"

definition NTOH16 :: "host_order \<Rightarrow> u16 \<Rightarrow> u16" where
  "NTOH16 h v = (case h of Big_Endian \<Rightarrow> v | Little_Endian \<Rightarrow> SWAP2 v)"

definition NTOH32 :: "host_order \<Rightarrow> u32 \<Rightarrow> u32" where
  "NTOH32 h v = (case h of Big_Endian \<Rightarrow> v | Little_Endian \<Rightarrow> SWAP4 v)"

definition NTOH64 :: "host_order \<Rightarrow> u64 \<Rightarrow> u64" where
  "NTOH64 h v = (case h of Big_Endian \<Rightarrow> v | Little_Endian \<Rightarrow> SWAP8 v)"

definition HTON16 :: "host_order \<Rightarrow> u16 \<Rightarrow> u16" where
  "HTON16 h v = (case h of Big_Endian \<Rightarrow> v | Little_Endian \<Rightarrow> SWAP2 v)"

definition HTON32 :: "host_order \<Rightarrow> u32 \<Rightarrow> u32" where
  "HTON32 h v = (case h of Big_Endian \<Rightarrow> v | Little_Endian \<Rightarrow> SWAP4 v)"

definition HTON64 :: "host_order \<Rightarrow> u64 \<Rightarrow> u64" where
  "HTON64 h v = (case h of Big_Endian \<Rightarrow> v | Little_Endian \<Rightarrow> SWAP8 v)"

section \<open>Bits of loads and stores\<close>

lemma bit_byte_bound: "bit (b :: byte) n \<Longrightarrow> n < 8"
  using bit_imp_le_length [of b n] by simp

lemma bit_le_word:
  "bit (le_word bs :: 'a::len word) n \<longleftrightarrow>
     n < LENGTH('a) \<and> n div 8 < length bs \<and> bit (bs ! (n div 8)) (n mod 8)"
proof (induction bs arbitrary: n)
  case Nil
  then show ?case by simp
next
  case (Cons b bs)
  show ?case
  proof (cases "n < 8")
    case True
    then show ?thesis by (auto simp: bit_simps)
  next
    case False
    then have "n div 8 = Suc ((n - 8) div 8)" and "(n - 8) mod 8 = n mod 8"
      by (simp_all add: le_div_geq le_mod_geq)
    with False show ?thesis
      by (auto simp: bit_simps Cons.IH dest: bit_byte_bound)
  qed
qed

lemma length_le_bytes [simp]: "length (le_bytes k w) = k"
  by (simp add: le_bytes_def)

lemma length_be_bytes [simp]: "length (be_bytes k w) = k"
  by (simp add: be_bytes_def)

lemma le_word_le_bytes:
  fixes w :: "'a::len word"
  assumes "LENGTH('a) \<le> 8 * k"
  shows "le_word (le_bytes k w) = w"
proof (rule bit_word_eqI)
  fix n assume n: "n < LENGTH('a)"
  have "n div 8 < k" using n assms by (simp add: less_mult_imp_div_less)
  moreover have "8 * (n div 8) + n mod 8 = n" by simp
  ultimately show "bit (le_word (le_bytes k w) :: 'a word) n = bit w n"
    using n by (auto simp: bit_le_word le_bytes_def bit_simps)
qed

lemma be_word_be_bytes: "LENGTH('a) \<le> 8 * k \<Longrightarrow> be_word (be_bytes k w) = (w :: 'a::len word)"
  by (simp add: be_word_def be_bytes_def le_word_le_bytes)

lemma le_bytes_le_word:
  assumes "8 * length bs \<le> LENGTH('a)"
  shows "le_bytes (length bs) (le_word bs :: 'a::len word) = bs"
proof (rule nth_equalityI)
  fix i assume "i < length (le_bytes (length bs) (le_word bs :: 'a word))"
  then have i: "i < length bs" by simp
  show "le_bytes (length bs) (le_word bs :: 'a word) ! i = bs ! i"
  proof (rule bit_word_eqI)
    fix n assume "n < LENGTH(8)"
    then have n: "n < 8" by simp
    have "8 * i + n < LENGTH('a)" using i n assms by linarith
    then show "bit (le_bytes (length bs) (le_word bs :: 'a word) ! i) n = bit (bs ! i) n"
      using i n by (auto simp: le_bytes_def bit_simps bit_le_word)
  qed
qed simp

lemma be_bytes_be_word:
  assumes "8 * length bs \<le> LENGTH('a)"
  shows "be_bytes (length bs) (be_word bs :: 'a::len word) = bs"
  using le_bytes_le_word [of "rev bs", where 'a = 'a] assms
  by (simp add: be_bytes_def be_word_def)

section \<open>Converted loads and stores are big-endian on either host\<close>

text \<open>Equality of two words of known width, bit by bit: the simplifier evaluates every bit.\<close>

fun all_below :: "nat \<Rightarrow> (nat \<Rightarrow> bool) \<Rightarrow> bool" where
  "all_below 0 P = True"
| "all_below (Suc n) P = (P n \<and> all_below n P)"

lemma all_below_numeral [simp]:
  "all_below (numeral k) P = (P (pred_numeral k) \<and> all_below (pred_numeral k) P)"
  by (simp add: numeral_eq_Suc)

lemma all_belowD: "all_below n P \<Longrightarrow> i < n \<Longrightarrow> P i"
  by (induction n) (auto simp: less_Suc_eq)

lemma word_eq_by_bits:
  fixes v w :: "'a::len word"
  assumes "all_below LENGTH('a) (\<lambda>n. bit v n = bit w n)"
  shows "v = w"
  using assms by (intro bit_word_eqI) (rule all_belowD)

lemma bit_byte_high: "8 \<le> n \<Longrightarrow> \<not> bit (b :: byte) n"
  using bit_byte_bound not_le by blast

lemma SWAP2_le_word: "SWAP2 (le_word [b0, b1]) = le_word [b1, b0]"
  by (rule word_eq_by_bits) (simp add: SWAP2_def bit_simps bit_byte_high)

lemma SWAP4_le_word: "SWAP4 (le_word [b0, b1, b2, b3]) = le_word [b3, b2, b1, b0]"
  by (rule word_eq_by_bits) (simp add: SWAP4_def bit_simps bit_byte_high)

lemma SWAP8_le_word:
  "SWAP8 (le_word [b0, b1, b2, b3, b4, b5, b6, b7]) = le_word [b7, b6, b5, b4, b3, b2, b1, b0]"
  by (rule word_eq_by_bits) (simp add: SWAP8_def bit_simps bit_byte_high)

lemma list_of_length_2: "length bs = 2 \<Longrightarrow> \<exists>x y. bs = [x, y]"
  by (auto simp: numeral_2_eq_2 length_Suc_conv)

lemma list_of_length_4: "length bs = 4 \<Longrightarrow> \<exists>w x y z. bs = [w, x, y, z]"
  by (auto simp: eval_nat_numeral length_Suc_conv)

lemma list_of_length_8:
  "length bs = 8 \<Longrightarrow> \<exists>a b c d e f g h. bs = [a, b, c, d, e, f, g, h]"
  by (auto simp: eval_nat_numeral length_Suc_conv)

lemma NTOH16_load: "length bs = 2 \<Longrightarrow> NTOH16 h (native_load h bs) = be_word bs"
  by (cases h) (auto simp: NTOH16_def native_load_def be_word_def SWAP2_le_word
      simp del: le_word.simps dest!: list_of_length_2)

lemma NTOH32_load: "length bs = 4 \<Longrightarrow> NTOH32 h (native_load h bs) = be_word bs"
  by (cases h) (auto simp: NTOH32_def native_load_def be_word_def SWAP4_le_word
      simp del: le_word.simps dest!: list_of_length_4)

lemma NTOH64_load: "length bs = 8 \<Longrightarrow> NTOH64 h (native_load h bs) = be_word bs"
  by (cases h) (auto simp: NTOH64_def native_load_def be_word_def SWAP8_le_word
      simp del: le_word.simps dest!: list_of_length_8)

text \<open>A converted store puts the bytes of the value in network order.\<close>

lemma le_bytes_swap:
  fixes swap :: "'a::len word \<Rightarrow> 'a word"
  assumes len: "LENGTH('a) = 8 * k"
    and swap: "\<And>bs. length bs = k \<Longrightarrow> swap (le_word bs) = le_word (rev bs)"
  shows "le_bytes k (swap w) = be_bytes k w"
proof -
  have "swap w = swap (le_word (le_bytes k w))"
    using len by (simp add: le_word_le_bytes)
  also have "\<dots> = le_word (be_bytes k w)"
    by (simp add: swap be_bytes_def)
  finally have "le_bytes k (swap w) = le_bytes (length (be_bytes k w)) (le_word (be_bytes k w) :: 'a word)"
    by simp
  also have "\<dots> = be_bytes k w"
    using len by (intro le_bytes_le_word) simp
  finally show ?thesis .
qed

lemma HTON16_store: "native_store h 2 (HTON16 h v) = be_bytes 2 v"
proof (cases h)
  case Little_Endian
  have "le_bytes 2 (SWAP2 v) = be_bytes 2 v"
    by (rule le_bytes_swap)
      (auto simp: SWAP2_le_word simp del: le_word.simps dest!: list_of_length_2)
  with Little_Endian show ?thesis by (simp add: native_store_def HTON16_def)
next
  case Big_Endian
  then show ?thesis by (simp add: native_store_def HTON16_def)
qed

lemma HTON32_store: "native_store h 4 (HTON32 h v) = be_bytes 4 v"
proof (cases h)
  case Little_Endian
  have "le_bytes 4 (SWAP4 v) = be_bytes 4 v"
    by (rule le_bytes_swap)
      (auto simp: SWAP4_le_word simp del: le_word.simps dest!: list_of_length_4)
  with Little_Endian show ?thesis by (simp add: native_store_def HTON32_def)
next
  case Big_Endian
  then show ?thesis by (simp add: native_store_def HTON32_def)
qed

lemma HTON64_store: "native_store h 8 (HTON64 h v) = be_bytes 8 v"
proof (cases h)
  case Little_Endian
  have "le_bytes 8 (SWAP8 v) = be_bytes 8 v"
    by (rule le_bytes_swap)
      (auto simp: SWAP8_le_word simp del: le_word.simps dest!: list_of_length_8)
  with Little_Endian show ?thesis by (simp add: native_store_def HTON64_def)
next
  case Big_Endian
  then show ?thesis by (simp add: native_store_def HTON64_def)
qed

end
