(* ===== verification/Statcodes.thy ===== *)
theory Statcodes
  imports Frelay_Base
begin

text \<open>
  src/statcodes.h and src/statcodes.c: the status codes of error responses (borrowed from HTTP)
  and the text that goes with each. A C enumeration is an integer, so \<open>SC_ENUM\<close> is the
  number; the \<^verbatim>\<open>switch\<close> of \<^verbatim>\<open>sc_msgstr\<close> is a lookup in its table of cases, with the text
  after the \<^verbatim>\<open>switch\<close> for every other number. The lemmas show that every text is a proper C
  string, short enough for any error response.
\<close>

type_synonym SC_ENUM = u64

definition SC_CONTINUE :: SC_ENUM where "SC_CONTINUE = 100"
definition SC_SWITCHING_PROTOCOLS :: SC_ENUM where "SC_SWITCHING_PROTOCOLS = 101"
definition SC_PROCESSING :: SC_ENUM where "SC_PROCESSING = 102"
definition SC_OK :: SC_ENUM where "SC_OK = 200"
definition SC_CREATED :: SC_ENUM where "SC_CREATED = 201"
definition SC_ACCEPTED :: SC_ENUM where "SC_ACCEPTED = 202"
definition SC_NON_AUTHORITATIVE_INFORMATION :: SC_ENUM where "SC_NON_AUTHORITATIVE_INFORMATION = 203"
definition SC_NO_CONTENT :: SC_ENUM where "SC_NO_CONTENT = 204"
definition SC_RESET_CONTENT :: SC_ENUM where "SC_RESET_CONTENT = 205"
definition SC_PARTIAL_CONTENT :: SC_ENUM where "SC_PARTIAL_CONTENT = 206"
definition SC_MULTI_STATUS :: SC_ENUM where "SC_MULTI_STATUS = 207"
definition SC_ALREADY_REPORTED :: SC_ENUM where "SC_ALREADY_REPORTED = 208"
definition SC_IM_USED :: SC_ENUM where "SC_IM_USED = 226"
definition SC_MULTIPLE_CHOICES :: SC_ENUM where "SC_MULTIPLE_CHOICES = 300"
definition SC_MOVED_PERMANENTLY :: SC_ENUM where "SC_MOVED_PERMANENTLY = 301"
definition SC_FOUND :: SC_ENUM where "SC_FOUND = 302"
definition SC_SEE_OTHER :: SC_ENUM where "SC_SEE_OTHER = 303"
definition SC_NOT_MODIFIED :: SC_ENUM where "SC_NOT_MODIFIED = 304"
definition SC_USE_PROXY :: SC_ENUM where "SC_USE_PROXY = 305"
definition SC_TEMPORARY_REDIRECT :: SC_ENUM where "SC_TEMPORARY_REDIRECT = 307"
definition SC_PERMANENT_REDIRECT :: SC_ENUM where "SC_PERMANENT_REDIRECT = 308"
definition SC_BAD_REQUEST :: SC_ENUM where "SC_BAD_REQUEST = 400"
definition SC_UNAUTHORIZED :: SC_ENUM where "SC_UNAUTHORIZED = 401"
definition SC_PAYMENT_REQUIRED :: SC_ENUM where "SC_PAYMENT_REQUIRED = 402"
definition SC_FORBIDDEN :: SC_ENUM where "SC_FORBIDDEN = 403"
definition SC_NOT_FOUND :: SC_ENUM where "SC_NOT_FOUND = 404"
definition SC_METHOD_NOT_ALLOWED :: SC_ENUM where "SC_METHOD_NOT_ALLOWED = 405"
definition SC_NOT_ACCEPTABLE :: SC_ENUM where "SC_NOT_ACCEPTABLE = 406"
definition SC_PROXY_AUTHENTICATION_REQUIRED :: SC_ENUM where "SC_PROXY_AUTHENTICATION_REQUIRED = 407"
definition SC_REQUEST_TIMEOUT :: SC_ENUM where "SC_REQUEST_TIMEOUT = 408"
definition SC_CONFLICT :: SC_ENUM where "SC_CONFLICT = 409"
definition SC_GONE :: SC_ENUM where "SC_GONE = 410"
definition SC_LENGTH_REQUIRED :: SC_ENUM where "SC_LENGTH_REQUIRED = 411"
definition SC_PRECONDITION_FAILED :: SC_ENUM where "SC_PRECONDITION_FAILED = 412"
definition SC_PAYLOAD_TOO_LARGE :: SC_ENUM where "SC_PAYLOAD_TOO_LARGE = 413"
definition SC_URI_TOO_LONG :: SC_ENUM where "SC_URI_TOO_LONG = 414"
definition SC_UNSUPPORTED_MEDIA_TYPE :: SC_ENUM where "SC_UNSUPPORTED_MEDIA_TYPE = 415"
definition SC_RANGE_NOT_SATISFIABLE :: SC_ENUM where "SC_RANGE_NOT_SATISFIABLE = 416"
definition SC_EXPECTATION_FAILED :: SC_ENUM where "SC_EXPECTATION_FAILED = 417"
definition SC_I_AM_A_TEAPOT :: SC_ENUM where "SC_I_AM_A_TEAPOT = 418"
definition SC_MISDIRECTED_REQUEST :: SC_ENUM where "SC_MISDIRECTED_REQUEST = 421"
definition SC_UNPROCESSABLE_ENTITY :: SC_ENUM where "SC_UNPROCESSABLE_ENTITY = 422"
definition SC_LOCKED :: SC_ENUM where "SC_LOCKED = 423"
definition SC_FAILED_DEPENDENCY :: SC_ENUM where "SC_FAILED_DEPENDENCY = 424"
definition SC_UPGRADE_REQUIRED :: SC_ENUM where "SC_UPGRADE_REQUIRED = 426"
definition SC_PRECONDITION_REQUIRED :: SC_ENUM where "SC_PRECONDITION_REQUIRED = 428"
definition SC_TOO_MANY_REQUESTS :: SC_ENUM where "SC_TOO_MANY_REQUESTS = 429"
definition SC_REQUEST_HEADER_FIELDS_TOO_LARGE :: SC_ENUM where "SC_REQUEST_HEADER_FIELDS_TOO_LARGE = 431"
definition SC_UNAVAILABLE_FOR_LEGAL_REASONS :: SC_ENUM where "SC_UNAVAILABLE_FOR_LEGAL_REASONS = 451"
definition SC_INTERNAL_SERVER_ERROR :: SC_ENUM where "SC_INTERNAL_SERVER_ERROR = 500"
definition SC_NOT_IMPLEMENTED :: SC_ENUM where "SC_NOT_IMPLEMENTED = 501"
definition SC_BAD_GATEWAY :: SC_ENUM where "SC_BAD_GATEWAY = 502"
definition SC_SERVICE_UNAVAILABLE :: SC_ENUM where "SC_SERVICE_UNAVAILABLE = 503"
definition SC_GATEWAY_TIMEOUT :: SC_ENUM where "SC_GATEWAY_TIMEOUT = 504"
definition SC_HTTP_VERSION_NOT_SUPPORTED :: SC_ENUM where "SC_HTTP_VERSION_NOT_SUPPORTED = 505"
definition SC_VARIANT_ALSO_NEGOTIATES :: SC_ENUM where "SC_VARIANT_ALSO_NEGOTIATES = 506"
definition SC_INSUFFICIENT_STORAGE :: SC_ENUM where "SC_INSUFFICIENT_STORAGE = 507"
definition SC_LOOP_DETECTED :: SC_ENUM where "SC_LOOP_DETECTED = 508"
definition SC_NOT_EXTENDED :: SC_ENUM where "SC_NOT_EXTENDED = 510"
definition SC_NETWORK_AUTHENTICATION_REQUIRED :: SC_ENUM where "SC_NETWORK_AUTHENTICATION_REQUIRED = 511"

lemmas sc_values =
  SC_CONTINUE_def SC_SWITCHING_PROTOCOLS_def SC_PROCESSING_def
  SC_OK_def SC_CREATED_def SC_ACCEPTED_def
  SC_NON_AUTHORITATIVE_INFORMATION_def SC_NO_CONTENT_def SC_RESET_CONTENT_def
  SC_PARTIAL_CONTENT_def SC_MULTI_STATUS_def SC_ALREADY_REPORTED_def
  SC_IM_USED_def SC_MULTIPLE_CHOICES_def SC_MOVED_PERMANENTLY_def
  SC_FOUND_def SC_SEE_OTHER_def SC_NOT_MODIFIED_def
  SC_USE_PROXY_def SC_TEMPORARY_REDIRECT_def SC_PERMANENT_REDIRECT_def
  SC_BAD_REQUEST_def SC_UNAUTHORIZED_def SC_PAYMENT_REQUIRED_def
  SC_FORBIDDEN_def SC_NOT_FOUND_def SC_METHOD_NOT_ALLOWED_def
  SC_NOT_ACCEPTABLE_def SC_PROXY_AUTHENTICATION_REQUIRED_def SC_REQUEST_TIMEOUT_def
  SC_CONFLICT_def SC_GONE_def SC_LENGTH_REQUIRED_def
  SC_PRECONDITION_FAILED_def SC_PAYLOAD_TOO_LARGE_def SC_URI_TOO_LONG_def
  SC_UNSUPPORTED_MEDIA_TYPE_def SC_RANGE_NOT_SATISFIABLE_def SC_EXPECTATION_FAILED_def
  SC_I_AM_A_TEAPOT_def SC_MISDIRECTED_REQUEST_def SC_UNPROCESSABLE_ENTITY_def
  SC_LOCKED_def SC_FAILED_DEPENDENCY_def SC_UPGRADE_REQUIRED_def
  SC_PRECONDITION_REQUIRED_def SC_TOO_MANY_REQUESTS_def SC_REQUEST_HEADER_FIELDS_TOO_LARGE_def
  SC_UNAVAILABLE_FOR_LEGAL_REASONS_def SC_INTERNAL_SERVER_ERROR_def SC_NOT_IMPLEMENTED_def
  SC_BAD_GATEWAY_def SC_SERVICE_UNAVAILABLE_def SC_GATEWAY_TIMEOUT_def
  SC_HTTP_VERSION_NOT_SUPPORTED_def SC_VARIANT_ALSO_NEGOTIATES_def SC_INSUFFICIENT_STORAGE_def
  SC_LOOP_DETECTED_def SC_NOT_EXTENDED_def SC_NETWORK_AUTHENTICATION_REQUIRED_def

definition sc_cases :: "(SC_ENUM \<times> string) list" where
  "sc_cases =
    [(SC_CONTINUE, ''Continue''),
     (SC_SWITCHING_PROTOCOLS, ''Switching Protocols''),
     (SC_PROCESSING, ''Processing''),
     (SC_OK, ''OK''),
     (SC_CREATED, ''Created''),
     (SC_ACCEPTED, ''Accepted''),
     (SC_NON_AUTHORITATIVE_INFORMATION, ''Non-Authoritative Information''),
     (SC_NO_CONTENT, ''No Content''),
     (SC_RESET_CONTENT, ''Reset Content''),
     (SC_PARTIAL_CONTENT, ''Partial Content''),
     (SC_MULTI_STATUS, ''Multi-Status''),
     (SC_ALREADY_REPORTED, ''Already Reported''),
     (SC_IM_USED, ''IM Used''),
     (SC_MULTIPLE_CHOICES, ''Multiple Choices''),
     (SC_MOVED_PERMANENTLY, ''Moved Permanently''),
     (SC_FOUND, ''Found''),
     (SC_SEE_OTHER, ''See Other''),
     (SC_NOT_MODIFIED, ''Not Modified''),
     (SC_USE_PROXY, ''Use Proxy''),
     (SC_TEMPORARY_REDIRECT, ''Temporary Redirect''),
     (SC_PERMANENT_REDIRECT, ''Permanent Redirect''),
     (SC_BAD_REQUEST, ''Bad Request''),
     (SC_UNAUTHORIZED, ''Unauthorized''),
     (SC_PAYMENT_REQUIRED, ''Payment Required''),
     (SC_FORBIDDEN, ''Forbidden''),
     (SC_NOT_FOUND, ''Not Found''),
     (SC_METHOD_NOT_ALLOWED, ''Method Not Allowed''),
     (SC_NOT_ACCEPTABLE, ''Not Acceptable''),
     (SC_PROXY_AUTHENTICATION_REQUIRED, ''Proxy Authentication Required''),
     (SC_REQUEST_TIMEOUT, ''Request Timeout''),
     (SC_CONFLICT, ''Conflict''),
     (SC_GONE, ''Gone''),
     (SC_LENGTH_REQUIRED, ''Length Required''),
     (SC_PRECONDITION_FAILED, ''Precondition Failed''),
     (SC_PAYLOAD_TOO_LARGE, ''Payload Too Large''),
     (SC_URI_TOO_LONG, ''URI Too Long''),
     (SC_UNSUPPORTED_MEDIA_TYPE, ''Unsupported Media Type''),
     (SC_RANGE_NOT_SATISFIABLE, ''Range Not Satisfiable''),
     (SC_EXPECTATION_FAILED, ''Expectation Failed''),
     (SC_I_AM_A_TEAPOT, ''I'' @ [CHR 0x27] @ ''m a teapot''),
     (SC_MISDIRECTED_REQUEST, ''Misdirected Request''),
     (SC_UNPROCESSABLE_ENTITY, ''Unprocessable Entity''),
     (SC_LOCKED, ''Locked''),
     (SC_FAILED_DEPENDENCY, ''Failed Dependency''),
     (SC_UPGRADE_REQUIRED, ''Upgrade Required''),
     (SC_PRECONDITION_REQUIRED, ''Precondition Required''),
     (SC_TOO_MANY_REQUESTS, ''Too Many Requests''),
     (SC_REQUEST_HEADER_FIELDS_TOO_LARGE, ''Request Header Fields Too Large''),
     (SC_UNAVAILABLE_FOR_LEGAL_REASONS, ''Unavailable For Legal Reasons''),
     (SC_INTERNAL_SERVER_ERROR, ''Internal Server Error''),
     (SC_NOT_IMPLEMENTED, ''Not Implemented''),
     (SC_BAD_GATEWAY, ''Bad Gateway''),
     (SC_SERVICE_UNAVAILABLE, ''Service Unavailable''),
     (SC_GATEWAY_TIMEOUT, ''Gateway Timeout''),
     (SC_HTTP_VERSION_NOT_SUPPORTED, ''HTTP Version Not Supported''),
     (SC_VARIANT_ALSO_NEGOTIATES, ''Variant Also Negotiates''),
     (SC_INSUFFICIENT_STORAGE, ''Insufficient Storage''),
     (SC_LOOP_DETECTED, ''Loop Detected''),
     (SC_NOT_EXTENDED, ''Not Extended''),
     (SC_NETWORK_AUTHENTICATION_REQUIRED, ''Network Authentication Required'')]"

definition sc_msgstr :: "SC_ENUM \<Rightarrow> cstring" where
  "sc_msgstr sc = (case map_of sc_cases sc of Some s \<Rightarrow> str s | None \<Rightarrow> str ''Unknown Error'')"

lemma distinct_sc_cases: "distinct (map fst sc_cases)"
proof -
  have "successively (<) (map fst sc_cases)"
    by (simp add: sc_cases_def sc_values)
  then have "sorted_wrt (<) (map fst sc_cases)"
    by (simp add: successively_conv_sorted_wrt)
  then show ?thesis
    by (simp add: strict_sorted_iff)
qed

lemma sc_cases_texts: "\<forall>(sc, s) \<in> set sc_cases. length s \<le> 31 \<and> is_cstring (str s)"
  by (simp add: sc_cases_def is_cstring_str)

lemma sc_msgstr_case: "(sc, s) \<in> set sc_cases \<Longrightarrow> sc_msgstr sc = str s"
  by (simp add: sc_msgstr_def map_of_is_SomeI [OF distinct_sc_cases])

lemma length_sc_msgstr: "length (sc_msgstr sc) \<le> 31"
  using sc_cases_texts by (auto simp: sc_msgstr_def split: option.splits dest!: map_of_SomeD)

lemma is_cstring_sc_msgstr [simp]: "is_cstring (sc_msgstr sc)"
proof (cases "map_of sc_cases sc")
  case None
  then show ?thesis by (simp add: sc_msgstr_def is_cstring_str)
next
  case (Some s)
  with sc_cases_texts show ?thesis
    by (auto simp: sc_msgstr_def dest!: map_of_SomeD)
qed

end
