(* ===== verification/Message.thy ===== *)
theory Message
  imports Bendian Statcodes
begin

text \<open>
  src/message.h and src/message.c: message buffers (\<open>mbuf\<close>), the header fields and their
  accessors, the composition of requests, responses and error responses, and the encoding and
  decoding of attributes. Values are read and written through the native loads, stores and
  conversion macros of \<open>Bendian\<close>, as the C macros do. The lemmas relate the buffer
  operations to an abstract encoding of attributes (type, length, value, padding), bound every
  access, and give the header fields of every message the program composes.
\<close>

section \<open>Constants\<close>

abbreviation (input) MSG_HDR_SIZE :: nat where "MSG_HDR_SIZE \<equiv> 40"
abbreviation (input) MSG_MAX_PAY_SIZE :: nat where "MSG_MAX_PAY_SIZE \<equiv> 65400"
abbreviation (input) MSG_MAX_SIZE :: nat where "MSG_MAX_SIZE \<equiv> 65440"

definition ROUNDUP8 :: "nat \<Rightarrow> nat" where
  "ROUNDUP8 n = (n + 7) div 8 * 8"

abbreviation (input) HDR_OFF_TYPE :: nat where "HDR_OFF_TYPE \<equiv> 0"
abbreviation (input) HDR_OFF_PAYLEN :: nat where "HDR_OFF_PAYLEN \<equiv> 2"
abbreviation (input) HDR_OFF_RFU :: nat where "HDR_OFF_RFU \<equiv> 4"
abbreviation (input) HDR_OFF_TS :: nat where "HDR_OFF_TS \<equiv> 8"
abbreviation (input) HDR_OFF_SRCID :: nat where "HDR_OFF_SRCID \<equiv> 16"
abbreviation (input) HDR_OFF_DSTID :: nat where "HDR_OFF_DSTID \<equiv> 24"
abbreviation (input) HDR_OFF_TRFID :: nat where "HDR_OFF_TRFID \<equiv> 32"

text \<open>Message classes and types.\<close>

definition MCLASS_IND :: u16 where "MCLASS_IND = 0x0000"
definition MCLASS_REQ :: u16 where "MCLASS_REQ = 0x0001"
definition MCLASS_RES :: u16 where "MCLASS_RES = 0x0002"
definition MCLASS_ERR :: u16 where "MCLASS_ERR = 0x000a"

definition MTYPE_LOGIN :: u16 where "MTYPE_LOGIN = 0x0010"
definition MTYPE_AUTH :: u16 where "MTYPE_AUTH = 0x0020"
definition MTYPE_LOGOUT :: u16 where "MTYPE_LOGOUT = 0x0030"
definition MTYPE_REGISTER :: u16 where "MTYPE_REGISTER = 0x0040"
definition MTYPE_DROP :: u16 where "MTYPE_DROP = 0x0050"
definition MTYPE_PEERLIST :: u16 where "MTYPE_PEERLIST = 0x00a0"
definition MTYPE_OFFER :: u16 where "MTYPE_OFFER = 0x0110"
definition MTYPE_GETFILE :: u16 where "MTYPE_GETFILE = 0x0120"
definition MTYPE_PING :: u16 where "MTYPE_PING = 0x0200"

definition MTYPE_GET_CLASS :: "u16 \<Rightarrow> u16" where "MTYPE_GET_CLASS t = t AND 0x000f"
definition MTYPE_CUT_CLASS :: "u16 \<Rightarrow> u16" where "MTYPE_CUT_CLASS t = t AND 0xfff0"

definition MCLASS_IS_REQ :: "u16 \<Rightarrow> bool" where
  "MCLASS_IS_REQ t \<longleftrightarrow> MCLASS_REQ = MTYPE_GET_CLASS t"
definition MCLASS_IS_RES :: "u16 \<Rightarrow> bool" where
  "MCLASS_IS_RES t \<longleftrightarrow> MCLASS_RES = MTYPE_GET_CLASS t"
definition MCLASS_IS_ERR :: "u16 \<Rightarrow> bool" where
  "MCLASS_IS_ERR t \<longleftrightarrow> MCLASS_ERR = MTYPE_GET_CLASS t"

definition MCLASS_TO_RES :: "u16 \<Rightarrow> u16" where "MCLASS_TO_RES t = MTYPE_CUT_CLASS t OR 0x0002"
definition MCLASS_TO_ERR :: "u16 \<Rightarrow> u16" where "MCLASS_TO_ERR t = MTYPE_CUT_CLASS t OR 0x000a"

definition MSG_TYPE_LOGIN_REQ :: u16 where "MSG_TYPE_LOGIN_REQ = MTYPE_LOGIN OR MCLASS_REQ"
definition MSG_TYPE_LOGIN_RES :: u16 where "MSG_TYPE_LOGIN_RES = MTYPE_LOGIN OR MCLASS_RES"
definition MSG_TYPE_LOGIN_ERR :: u16 where "MSG_TYPE_LOGIN_ERR = MTYPE_LOGIN OR MCLASS_ERR"
definition MSG_TYPE_AUTH_REQ :: u16 where "MSG_TYPE_AUTH_REQ = MTYPE_AUTH OR MCLASS_REQ"
definition MSG_TYPE_AUTH_RES :: u16 where "MSG_TYPE_AUTH_RES = MTYPE_AUTH OR MCLASS_RES"
definition MSG_TYPE_AUTH_ERR :: u16 where "MSG_TYPE_AUTH_ERR = MTYPE_AUTH OR MCLASS_ERR"
definition MSG_TYPE_LOGOUT_REQ :: u16 where "MSG_TYPE_LOGOUT_REQ = MTYPE_LOGOUT OR MCLASS_REQ"
definition MSG_TYPE_LOGOUT_RES :: u16 where "MSG_TYPE_LOGOUT_RES = MTYPE_LOGOUT OR MCLASS_RES"
definition MSG_TYPE_LOGOUT_ERR :: u16 where "MSG_TYPE_LOGOUT_ERR = MTYPE_LOGOUT OR MCLASS_ERR"
definition MSG_TYPE_REGISTER_REQ :: u16 where "MSG_TYPE_REGISTER_REQ = MTYPE_REGISTER OR MCLASS_REQ"
definition MSG_TYPE_REGISTER_RES :: u16 where "MSG_TYPE_REGISTER_RES = MTYPE_REGISTER OR MCLASS_RES"
definition MSG_TYPE_REGISTER_ERR :: u16 where "MSG_TYPE_REGISTER_ERR = MTYPE_REGISTER OR MCLASS_ERR"
definition MSG_TYPE_DROP_REQ :: u16 where "MSG_TYPE_DROP_REQ = MTYPE_DROP OR MCLASS_REQ"
definition MSG_TYPE_DROP_RES :: u16 where "MSG_TYPE_DROP_RES = MTYPE_DROP OR MCLASS_RES"
definition MSG_TYPE_DROP_ERR :: u16 where "MSG_TYPE_DROP_ERR = MTYPE_DROP OR MCLASS_ERR"
definition MSG_TYPE_PEERLIST_REQ :: u16 where "MSG_TYPE_PEERLIST_REQ = MTYPE_PEERLIST OR MCLASS_REQ"
definition MSG_TYPE_PEERLIST_RES :: u16 where "MSG_TYPE_PEERLIST_RES = MTYPE_PEERLIST OR MCLASS_RES"
definition MSG_TYPE_PEERLIST_ERR :: u16 where "MSG_TYPE_PEERLIST_ERR = MTYPE_PEERLIST OR MCLASS_ERR"
definition MSG_TYPE_OFFER_IND :: u16 where "MSG_TYPE_OFFER_IND = MTYPE_OFFER OR MCLASS_IND"
definition MSG_TYPE_OFFER_REQ :: u16 where "MSG_TYPE_OFFER_REQ = MTYPE_OFFER OR MCLASS_REQ"
definition MSG_TYPE_OFFER_RES :: u16 where "MSG_TYPE_OFFER_RES = MTYPE_OFFER OR MCLASS_RES"
definition MSG_TYPE_OFFER_ERR :: u16 where "MSG_TYPE_OFFER_ERR = MTYPE_OFFER OR MCLASS_ERR"
definition MSG_TYPE_GETFILE_REQ :: u16 where "MSG_TYPE_GETFILE_REQ = MTYPE_GETFILE OR MCLASS_REQ"
definition MSG_TYPE_GETFILE_RES :: u16 where "MSG_TYPE_GETFILE_RES = MTYPE_GETFILE OR MCLASS_RES"
definition MSG_TYPE_GETFILE_ERR :: u16 where "MSG_TYPE_GETFILE_ERR = MTYPE_GETFILE OR MCLASS_ERR"
definition MSG_TYPE_PING_IND :: u16 where "MSG_TYPE_PING_IND = MTYPE_PING OR MCLASS_IND"
definition MSG_TYPE_PING_REQ :: u16 where "MSG_TYPE_PING_REQ = MTYPE_PING OR MCLASS_REQ"
definition MSG_TYPE_PING_RES :: u16 where "MSG_TYPE_PING_RES = MTYPE_PING OR MCLASS_RES"
definition MSG_TYPE_PING_ERR :: u16 where "MSG_TYPE_PING_ERR = MTYPE_PING OR MCLASS_ERR"

text \<open>Attribute types.\<close>

definition MSG_ATTR_INVALID :: u16 where "MSG_ATTR_INVALID = 0x0000"
definition MSG_ATTR_USERNAME :: u16 where "MSG_ATTR_USERNAME = 0x0001"
definition MSG_ATTR_PUBKEY :: u16 where "MSG_ATTR_PUBKEY = 0x0002"
definition MSG_ATTR_CHALLENGE :: u16 where "MSG_ATTR_CHALLENGE = 0x0003"
definition MSG_ATTR_DIGEST :: u16 where "MSG_ATTR_DIGEST = 0x0004"
definition MSG_ATTR_SIGNATURE :: u16 where "MSG_ATTR_SIGNATURE = 0x0005"
definition MSG_ATTR_PEERID :: u16 where "MSG_ATTR_PEERID = 0x0010"
definition MSG_ATTR_PEERNAME :: u16 where "MSG_ATTR_PEERNAME = 0x0011"
definition MSG_ATTR_OFFERID :: u16 where "MSG_ATTR_OFFERID = 0x0021"
definition MSG_ATTR_FILENAME :: u16 where "MSG_ATTR_FILENAME = 0x0022"
definition MSG_ATTR_SIZE :: u16 where "MSG_ATTR_SIZE = 0x0023"
definition MSG_ATTR_OFFSET :: u16 where "MSG_ATTR_OFFSET = 0x0025"
definition MSG_ATTR_DATA :: u16 where "MSG_ATTR_DATA = 0x0026"
definition MSG_ATTR_OK :: u16 where "MSG_ATTR_OK = 0x0041"
definition MSG_ATTR_ERROR :: u16 where "MSG_ATTR_ERROR = 0x0042"
definition MSG_ATTR_NOTICE :: u16 where "MSG_ATTR_NOTICE = 0x0043"

text \<open>src/auth.h: what a challenge with a plain-text key begins with.\<close>

definition AUTH_KEY_PLAINTEXT :: cstring where "AUTH_KEY_PLAINTEXT = str ''plain-text ''"

lemmas msg_types =
  MCLASS_IND_def MCLASS_REQ_def MCLASS_RES_def
  MCLASS_ERR_def MTYPE_LOGIN_def MTYPE_AUTH_def
  MTYPE_LOGOUT_def MTYPE_REGISTER_def MTYPE_DROP_def
  MTYPE_PEERLIST_def MTYPE_OFFER_def MTYPE_GETFILE_def
  MTYPE_PING_def MSG_TYPE_LOGIN_REQ_def MSG_TYPE_LOGIN_RES_def
  MSG_TYPE_LOGIN_ERR_def MSG_TYPE_AUTH_REQ_def MSG_TYPE_AUTH_RES_def
  MSG_TYPE_AUTH_ERR_def MSG_TYPE_LOGOUT_REQ_def MSG_TYPE_LOGOUT_RES_def
  MSG_TYPE_LOGOUT_ERR_def MSG_TYPE_REGISTER_REQ_def MSG_TYPE_REGISTER_RES_def
  MSG_TYPE_REGISTER_ERR_def MSG_TYPE_DROP_REQ_def MSG_TYPE_DROP_RES_def
  MSG_TYPE_DROP_ERR_def MSG_TYPE_PEERLIST_REQ_def MSG_TYPE_PEERLIST_RES_def
  MSG_TYPE_PEERLIST_ERR_def MSG_TYPE_OFFER_IND_def MSG_TYPE_OFFER_REQ_def
  MSG_TYPE_OFFER_RES_def MSG_TYPE_OFFER_ERR_def MSG_TYPE_GETFILE_REQ_def
  MSG_TYPE_GETFILE_RES_def MSG_TYPE_GETFILE_ERR_def MSG_TYPE_PING_IND_def
  MSG_TYPE_PING_REQ_def MSG_TYPE_PING_RES_def MSG_TYPE_PING_ERR_def

lemmas msg_attrs =
  MSG_ATTR_INVALID_def MSG_ATTR_USERNAME_def MSG_ATTR_PUBKEY_def
  MSG_ATTR_CHALLENGE_def MSG_ATTR_DIGEST_def MSG_ATTR_SIGNATURE_def
  MSG_ATTR_PEERID_def MSG_ATTR_PEERNAME_def MSG_ATTR_OFFERID_def
  MSG_ATTR_FILENAME_def MSG_ATTR_SIZE_def MSG_ATTR_OFFSET_def
  MSG_ATTR_DATA_def MSG_ATTR_OK_def MSG_ATTR_ERROR_def
  MSG_ATTR_NOTICE_def

section \<open>Message buffers and header accessors\<close>

text \<open>
  \<open>MBUF_T_STRUCT\<close>: the link \<^verbatim>\<open>next\<close> is the subject of theory \<open>Msg_Queue\<close>;
  \<open>bdata\<close> is the object \<^verbatim>\<open>b\<close> points to, \<open>bsize\<close> and \<open>boff\<close> are the
  fields of the same name. Sizes are natural numbers: every size the program passes on is the
  size of an object in memory, so \<^verbatim>\<open>size_t\<close> arithmetic on them cannot wrap around.
\<close>

record mbuf =
  bsize :: nat
  boff :: nat
  bdata :: "byte list"

definition HOST :: host_order where "HOST = Little_Endian"

definition ADDOFF :: "mbuf \<Rightarrow> nat \<Rightarrow> nat \<Rightarrow> byte list" where
  "ADDOFF p off n = take n (drop off (bdata p))"

definition HDR_GET_TYPE :: "mbuf \<Rightarrow> u16" where
  "HDR_GET_TYPE p = NTOH16 HOST (native_load HOST (ADDOFF p HDR_OFF_TYPE 2))"
definition HDR_GET_PAYLEN :: "mbuf \<Rightarrow> u16" where
  "HDR_GET_PAYLEN p = NTOH16 HOST (native_load HOST (ADDOFF p HDR_OFF_PAYLEN 2))"
definition HDR_GET_RFU :: "mbuf \<Rightarrow> u32" where
  "HDR_GET_RFU p = NTOH32 HOST (native_load HOST (ADDOFF p HDR_OFF_RFU 4))"
definition HDR_GET_TS :: "mbuf \<Rightarrow> u64" where
  "HDR_GET_TS p = NTOH64 HOST (native_load HOST (ADDOFF p HDR_OFF_TS 8))"
definition HDR_GET_SRCID :: "mbuf \<Rightarrow> u64" where
  "HDR_GET_SRCID p = NTOH64 HOST (native_load HOST (ADDOFF p HDR_OFF_SRCID 8))"
definition HDR_GET_DSTID :: "mbuf \<Rightarrow> u64" where
  "HDR_GET_DSTID p = NTOH64 HOST (native_load HOST (ADDOFF p HDR_OFF_DSTID 8))"
definition HDR_GET_TRFID :: "mbuf \<Rightarrow> u64" where
  "HDR_GET_TRFID p = NTOH64 HOST (native_load HOST (ADDOFF p HDR_OFF_TRFID 8))"

definition HDR_SET_TYPE :: "u16 \<Rightarrow> mbuf \<Rightarrow> mbuf" where
  "HDR_SET_TYPE v p =
     p\<lparr>bdata := overwrite (bdata p) HDR_OFF_TYPE (native_store HOST 2 (HTON16 HOST v))\<rparr>"
definition HDR_SET_PAYLEN :: "u16 \<Rightarrow> mbuf \<Rightarrow> mbuf" where
  "HDR_SET_PAYLEN v p =
     p\<lparr>bdata := overwrite (bdata p) HDR_OFF_PAYLEN (native_store HOST 2 (HTON16 HOST v))\<rparr>"
definition HDR_SET_RFU :: "u32 \<Rightarrow> mbuf \<Rightarrow> mbuf" where
  "HDR_SET_RFU v p =
     p\<lparr>bdata := overwrite (bdata p) HDR_OFF_RFU (native_store HOST 4 (HTON32 HOST v))\<rparr>"
definition HDR_SET_TS :: "u64 \<Rightarrow> mbuf \<Rightarrow> mbuf" where
  "HDR_SET_TS v p =
     p\<lparr>bdata := overwrite (bdata p) HDR_OFF_TS (native_store HOST 8 (HTON64 HOST v))\<rparr>"
definition HDR_SET_SRCID :: "u64 \<Rightarrow> mbuf \<Rightarrow> mbuf" where
  "HDR_SET_SRCID v p =
     p\<lparr>bdata := overwrite (bdata p) HDR_OFF_SRCID (native_store HOST 8 (HTON64 HOST v))\<rparr>"
definition HDR_SET_DSTID :: "u64 \<Rightarrow> mbuf \<Rightarrow> mbuf" where
  "HDR_SET_DSTID v p =
     p\<lparr>bdata := overwrite (bdata p) HDR_OFF_DSTID (native_store HOST 8 (HTON64 HOST v))\<rparr>"
definition HDR_SET_TRFID :: "u64 \<Rightarrow> mbuf \<Rightarrow> mbuf" where
  "HDR_SET_TRFID v p =
     p\<lparr>bdata := overwrite (bdata p) HDR_OFF_TRFID (native_store HOST 8 (HTON64 HOST v))\<rparr>"

definition HDR_CLASS_TO_RES :: "mbuf \<Rightarrow> mbuf" where
  "HDR_CLASS_TO_RES p = HDR_SET_TYPE (MCLASS_TO_RES (HDR_GET_TYPE p)) p"
definition HDR_CLASS_TO_ERR :: "mbuf \<Rightarrow> mbuf" where
  "HDR_CLASS_TO_ERR p = HDR_SET_TYPE (MCLASS_TO_ERR (HDR_GET_TYPE p)) p"

lemmas hdr_get_defs = HDR_GET_TYPE_def HDR_GET_PAYLEN_def HDR_GET_RFU_def HDR_GET_TS_def
  HDR_GET_SRCID_def HDR_GET_DSTID_def HDR_GET_TRFID_def
lemmas hdr_set_defs = HDR_SET_TYPE_def HDR_SET_PAYLEN_def HDR_SET_RFU_def HDR_SET_TS_def
  HDR_SET_SRCID_def HDR_SET_DSTID_def HDR_SET_TRFID_def

section \<open>Buffer management\<close>

text \<open>
  \<open>junk\<close> stands for the contents of memory that \<^verbatim>\<open>malloc()\<close> or \<^verbatim>\<open>realloc()\<close>
  hands out, which C leaves indeterminate. Where the caller overwrites all of it the model passes
  zeros; lemmas \<open>mbuf_compose_junk\<close> and \<open>mbuf_grow_junk\<close> show that nothing depends on it.
\<close>

definition mbuf_new :: "(nat \<Rightarrow> byte) \<Rightarrow> mbuf" where
  "mbuf_new junk = \<lparr>bsize = MSG_HDR_SIZE, boff = 0, bdata = map junk [0..<MSG_HDR_SIZE]\<rparr>"

definition mbuf_resize :: "(nat \<Rightarrow> byte) \<Rightarrow> nat \<Rightarrow> mbuf \<Rightarrow> mbuf res" where
  "mbuf_resize junk paylen p =
     (let n = paylen + MSG_HDR_SIZE in
      if MSG_MAX_SIZE < n then Inl Die
      else Inr (p\<lparr>bsize := n,
                  boff := (if boff p > n then n else boff p),
                  bdata := take n (bdata p) @ map junk [length (bdata p)..<n]\<rparr>))"

definition mbuf_grow :: "nat \<Rightarrow> mbuf \<Rightarrow> mbuf res" where
  "mbuf_grow amount p =
     bindr (mbuf_resize (\<lambda>_. 0) (bsize p - MSG_HDR_SIZE + amount) p) (\<lambda>p.
     Inr (p\<lparr>bdata := overwrite (bdata p) (bsize p - amount) (replicate amount 0)\<rparr>))"

definition mbuf_compose :: "u64 \<Rightarrow> mbuf option \<Rightarrow> u16 \<Rightarrow> u64 \<Rightarrow> u64 \<Rightarrow> u64 \<Rightarrow> mbuf res" where
  "mbuf_compose now pp type srcid dstid trfid =
     bindr (case pp of None \<Rightarrow> Inr (mbuf_new (\<lambda>_. 0)) | Some p \<Rightarrow> mbuf_resize (\<lambda>_. 0) 0 p) (\<lambda>p.
     Inr (HDR_SET_TRFID trfid (HDR_SET_DSTID dstid (HDR_SET_SRCID srcid (HDR_SET_TS now
          (HDR_SET_RFU 0 (HDR_SET_PAYLEN 0 (HDR_SET_TYPE type (p\<lparr>boff := 0\<rparr>)))))))))"

definition mbuf_to_response :: "u64 \<Rightarrow> mbuf \<Rightarrow> mbuf res" where
  "mbuf_to_response now p =
     bindr (mbuf_resize (\<lambda>_. 0) 0 p) (\<lambda>p.
     let p = HDR_SET_TS now (HDR_SET_RFU 0 (HDR_SET_PAYLEN 0 (HDR_CLASS_TO_RES (p\<lparr>boff := 0\<rparr>))));
         srcid = HDR_GET_SRCID p
     in Inr (HDR_SET_DSTID srcid (HDR_SET_SRCID (HDR_GET_DSTID p) p)))"

section \<open>Attributes\<close>

datatype AVTYPE = AVTYPE_NONE | AVTYPE_UI64 | AVTYPE_STR | AVTYPE_BLOB

text \<open>The variadic argument of \<open>mbuf_addattrib\<close>, by the type the caller passes.\<close>

datatype va_value = VA_NULL | VA_UI64 u64 | VA_STR cstring | VA_BLOB "byte list"

text \<open>The first \<^verbatim>\<open>switch\<close>: kind of the value and corrected length, none for an unknown type.\<close>

definition attr_avtype :: "u16 \<Rightarrow> nat \<Rightarrow> (AVTYPE \<times> nat) option" where
  "attr_avtype attype len =
     (if attype = MSG_ATTR_USERNAME then Some (AVTYPE_STR, len)
      else if attype = MSG_ATTR_PUBKEY then Some (AVTYPE_BLOB, len)
      else if attype = MSG_ATTR_CHALLENGE then Some (AVTYPE_BLOB, len)
      else if attype = MSG_ATTR_DIGEST then Some (AVTYPE_BLOB, len)
      else if attype = MSG_ATTR_SIGNATURE then Some (AVTYPE_BLOB, len)
      else if attype = MSG_ATTR_PEERID then Some (AVTYPE_UI64, 8)
      else if attype = MSG_ATTR_PEERNAME then Some (AVTYPE_STR, len)
      else if attype = MSG_ATTR_OFFERID then Some (AVTYPE_UI64, 8)
      else if attype = MSG_ATTR_FILENAME then Some (AVTYPE_STR, len)
      else if attype = MSG_ATTR_SIZE then Some (AVTYPE_UI64, 8)
      else if attype = MSG_ATTR_OFFSET then Some (AVTYPE_UI64, 8)
      else if attype = MSG_ATTR_DATA then Some (AVTYPE_BLOB, len)
      else if attype = MSG_ATTR_OK then Some (AVTYPE_NONE, 0)
      else if attype = MSG_ATTR_ERROR then Some (AVTYPE_UI64, 8)
      else if attype = MSG_ATTR_NOTICE then Some (AVTYPE_STR, len)
      else None)"

definition mb_store :: "nat \<Rightarrow> byte list \<Rightarrow> mbuf \<Rightarrow> mbuf res" where
  "mb_store off ds p =
     (if off + length ds \<le> length (bdata p)
      then Inr (p\<lparr>bdata := overwrite (bdata p) off ds\<rparr>) else Inl OutOfBounds)"

text \<open>The second \<^verbatim>\<open>switch\<close>: the value is stored at offset \<open>vo\<close> of the buffer.\<close>

fun put_avalue :: "AVTYPE \<Rightarrow> nat \<Rightarrow> nat \<Rightarrow> va_value \<Rightarrow> mbuf \<Rightarrow> mbuf res" where
  "put_avalue AVTYPE_UI64 vo len (VA_UI64 v) p = mb_store vo (native_store HOST 8 (HTON64 HOST v)) p"
| "put_avalue AVTYPE_STR vo len (VA_STR v) p = mb_store vo (v @ [0]) p"
| "put_avalue AVTYPE_BLOB vo len (VA_BLOB v) p =
     (if 0 < len then (if length v < len then Inl OutOfBounds else mb_store vo (take len v) p)
      else Inr p)"
| "put_avalue AVTYPE_NONE vo len v p = Inr p"
| "put_avalue _ vo len v p = Inl BadVarArg"

definition mbuf_addattrib :: "u16 \<Rightarrow> nat \<Rightarrow> va_value \<Rightarrow> mbuf \<Rightarrow> mbuf res" where
  "mbuf_addattrib attype alen v p =
     (case attr_avtype attype alen of
        None \<Rightarrow> Inl Die
      | Some (avtype, len) \<Rightarrow>
          (let aoff = bsize p in
           bindr (mbuf_grow (ROUNDUP8 len + 8) p) (\<lambda>p.
           bindr (mb_store aoff (native_store HOST 2 (HTON16 HOST attype))
                    (HDR_SET_PAYLEN (of_nat (bsize p - MSG_HDR_SIZE)) p)) (\<lambda>p.
           bindr (mb_store (aoff + 2) (native_store HOST 2 (HTON16 HOST (of_nat len))) p) (\<lambda>p.
           bindr (mb_store (aoff + 4) (native_store HOST 4 (HTON32 HOST 0)) p) (\<lambda>p.
           put_avalue avtype (aoff + 8) len v p))))))"

definition mbuf_to_error_response :: "u64 \<Rightarrow> SC_ENUM \<Rightarrow> mbuf \<Rightarrow> mbuf res" where
  "mbuf_to_error_response now ec p =
     bindr (mbuf_to_response now p) (\<lambda>p.
     let errmsg = sc_msgstr ec in
     bindr (mbuf_addattrib MSG_ATTR_ERROR 8 (VA_UI64 ec) (HDR_CLASS_TO_ERR p)) (\<lambda>p.
     mbuf_addattrib MSG_ATTR_NOTICE (length errmsg + 1) (VA_STR errmsg) p))"

text \<open>
  \<^verbatim>\<open>mbuf_getnextattrib\<close>: none for the return value -1, else type, length and the offset
  \<^verbatim>\<open>*pval\<close> points to.
\<close>

definition mbuf_getnextattrib :: "mbuf \<Rightarrow> (u16 \<times> nat \<times> nat) option \<times> mbuf" where
  "mbuf_getnextattrib p =
     (if bsize p < boff p + 8 then (None, p)
      else let plen = unat (NTOH16 HOST (native_load HOST (ADDOFF p (boff p + 2) 2))) in
        if bsize p < boff p + 8 + plen then (None, p)
        else (Some (NTOH16 HOST (native_load HOST (ADDOFF p (boff p) 2)), plen, boff p + 8),
              p\<lparr>boff := boff p + 8 + ROUNDUP8 plen\<rparr>))"

definition mbuf_resetgetattrib :: "mbuf \<Rightarrow> mbuf" where
  "mbuf_resetgetattrib p = p\<lparr>boff := MSG_HDR_SIZE\<rparr>"

text \<open>The readers of attribute values: \<^verbatim>\<open>NTOH64( *(uint64_t * )av )\<close> and a string at \<open>av\<close>.\<close>

definition av_u64 :: "mbuf \<Rightarrow> nat \<Rightarrow> u64 res" where
  "av_u64 p av =
     (if av + 8 \<le> length (bdata p) then Inr (NTOH64 HOST (native_load HOST (ADDOFF p av 8)))
      else Inl OutOfBounds)"

definition av_str :: "mbuf \<Rightarrow> nat \<Rightarrow> cstring res" where
  "av_str p av = cstr_at (bdata p) av"

section \<open>Names of types and classes\<close>

definition mtype2str :: "u16 \<Rightarrow> string" where
  "mtype2str mtype =
     (let t = MTYPE_CUT_CLASS mtype in
      if t = MTYPE_REGISTER then ''REGISTER'' else if t = MTYPE_LOGIN then ''LOGIN''
      else if t = MTYPE_AUTH then ''AUTH'' else if t = MTYPE_LOGOUT then ''LOGOUT''
      else if t = MTYPE_PEERLIST then ''PEERLIST'' else if t = MTYPE_OFFER then ''OFFER''
      else if t = MTYPE_GETFILE then ''GETFILE'' else if t = MTYPE_PING then ''PING''
      else ''UNKNOWN'')"

definition mclass2str :: "u16 \<Rightarrow> string" where
  "mclass2str mtype =
     (let c = MTYPE_GET_CLASS mtype in
      if c = MCLASS_IND then ''IND'' else if c = MCLASS_REQ then ''REQ''
      else if c = MCLASS_RES then ''RES'' else if c = MCLASS_ERR then ''ERR'' else ''INVALID'')"

section \<open>Header lemmas\<close>

definition hdr_ok :: "mbuf \<Rightarrow> bool" where
  "hdr_ok p \<longleftrightarrow> MSG_HDR_SIZE \<le> length (bdata p)"

lemma length_ADDOFF [simp]: "off + n \<le> length (bdata p) \<Longrightarrow> length (ADDOFF p off n) = n"
  by (simp add: ADDOFF_def)

text \<open>The accessors read and write the big-endian value of their bytes.\<close>

lemma hdr_get_be:
  assumes "hdr_ok p"
  shows "HDR_GET_TYPE p = be_word (take 2 (bdata p))"
    and "HDR_GET_PAYLEN p = be_word (take 2 (drop 2 (bdata p)))"
    and "HDR_GET_RFU p = be_word (take 4 (drop 4 (bdata p)))"
    and "HDR_GET_TS p = be_word (take 8 (drop 8 (bdata p)))"
    and "HDR_GET_SRCID p = be_word (take 8 (drop 16 (bdata p)))"
    and "HDR_GET_DSTID p = be_word (take 8 (drop 24 (bdata p)))"
    and "HDR_GET_TRFID p = be_word (take 8 (drop 32 (bdata p)))"
  using assms
  by (simp_all add: hdr_get_defs hdr_ok_def ADDOFF_def NTOH16_load NTOH32_load NTOH64_load)

lemma hdr_set_be:
  "HDR_SET_TYPE t p = p\<lparr>bdata := overwrite (bdata p) 0 (be_bytes 2 t)\<rparr>"
  "HDR_SET_PAYLEN l p = p\<lparr>bdata := overwrite (bdata p) 2 (be_bytes 2 l)\<rparr>"
  "HDR_SET_RFU r p = p\<lparr>bdata := overwrite (bdata p) 4 (be_bytes 4 r)\<rparr>"
  "HDR_SET_TS ts p = p\<lparr>bdata := overwrite (bdata p) 8 (be_bytes 8 ts)\<rparr>"
  "HDR_SET_SRCID s p = p\<lparr>bdata := overwrite (bdata p) 16 (be_bytes 8 s)\<rparr>"
  "HDR_SET_DSTID d p = p\<lparr>bdata := overwrite (bdata p) 24 (be_bytes 8 d)\<rparr>"
  "HDR_SET_TRFID x p = p\<lparr>bdata := overwrite (bdata p) 32 (be_bytes 8 x)\<rparr>"
  by (simp_all add: hdr_set_defs HTON16_store HTON32_store HTON64_store)

lemma hdr_set_fields [simp]:
  "bsize (HDR_SET_TYPE t p) = bsize p" "boff (HDR_SET_TYPE t p) = boff p"
  "bsize (HDR_SET_PAYLEN l p) = bsize p" "boff (HDR_SET_PAYLEN l p) = boff p"
  "bsize (HDR_SET_RFU r p) = bsize p" "boff (HDR_SET_RFU r p) = boff p"
  "bsize (HDR_SET_TS ts p) = bsize p" "boff (HDR_SET_TS ts p) = boff p"
  "bsize (HDR_SET_SRCID s p) = bsize p" "boff (HDR_SET_SRCID s p) = boff p"
  "bsize (HDR_SET_DSTID d p) = bsize p" "boff (HDR_SET_DSTID d p) = boff p"
  "bsize (HDR_SET_TRFID x p) = bsize p" "boff (HDR_SET_TRFID x p) = boff p"
  by (simp_all add: hdr_set_defs)

lemma hdr_set_length [simp]:
  assumes "hdr_ok p"
  shows "length (bdata (HDR_SET_TYPE t p)) = length (bdata p)"
    and "length (bdata (HDR_SET_PAYLEN l p)) = length (bdata p)"
    and "length (bdata (HDR_SET_RFU r p)) = length (bdata p)"
    and "length (bdata (HDR_SET_TS ts p)) = length (bdata p)"
    and "length (bdata (HDR_SET_SRCID s p)) = length (bdata p)"
    and "length (bdata (HDR_SET_DSTID d p)) = length (bdata p)"
    and "length (bdata (HDR_SET_TRFID x p)) = length (bdata p)"
  using assms by (simp_all add: hdr_set_be hdr_ok_def)

lemma hdr_ok_set [simp]:
  assumes "hdr_ok p"
  shows "hdr_ok (HDR_SET_TYPE t p)" "hdr_ok (HDR_SET_PAYLEN l p)" "hdr_ok (HDR_SET_RFU r p)"
    "hdr_ok (HDR_SET_TS ts p)" "hdr_ok (HDR_SET_SRCID s p)" "hdr_ok (HDR_SET_DSTID d p)"
    "hdr_ok (HDR_SET_TRFID x p)" "hdr_ok (p\<lparr>boff := n\<rparr>)" "hdr_ok (p\<lparr>bsize := k\<rparr>)"
  using assms by (simp_all add: hdr_ok_def [where p = "HDR_SET_TYPE t p"]
      hdr_ok_def [where p = "HDR_SET_PAYLEN l p"] hdr_ok_def [where p = "HDR_SET_RFU r p"]
      hdr_ok_def [where p = "HDR_SET_TS ts p"] hdr_ok_def [where p = "HDR_SET_SRCID s p"]
      hdr_ok_def [where p = "HDR_SET_DSTID d p"] hdr_ok_def [where p = "HDR_SET_TRFID x p"])
    (simp_all add: hdr_ok_def)

text \<open>Bytes after the header are untouched.\<close>

lemma hdr_set_payload [simp]:
  assumes "hdr_ok p"
  shows "drop 40 (bdata (HDR_SET_TYPE t p)) = drop 40 (bdata p)"
    and "drop 40 (bdata (HDR_SET_PAYLEN l p)) = drop 40 (bdata p)"
    and "drop 40 (bdata (HDR_SET_RFU r p)) = drop 40 (bdata p)"
    and "drop 40 (bdata (HDR_SET_TS ts p)) = drop 40 (bdata p)"
    and "drop 40 (bdata (HDR_SET_SRCID s p)) = drop 40 (bdata p)"
    and "drop 40 (bdata (HDR_SET_DSTID d p)) = drop 40 (bdata p)"
    and "drop 40 (bdata (HDR_SET_TRFID x p)) = drop 40 (bdata p)"
  using assms by (simp_all add: hdr_set_be hdr_ok_def drop_overwrite_above)

text \<open>Reading a field after writing it, and after writing another one.\<close>

lemma field_read_same:
  "off + k \<le> length bs \<Longrightarrow> LENGTH('a) = 8 * k \<Longrightarrow>
     be_word (take k (drop off (overwrite bs off (be_bytes k (v :: 'a::len word))))) = v"
  using overwrite_read [of off "be_bytes k v" bs] by (simp add: be_word_be_bytes)

lemmas field_read_same_0 = field_read_same [of 0, simplified]

lemma field_read_other:
  "i + k \<le> length bs \<Longrightarrow> j + n \<le> i \<or> i + k \<le> j \<Longrightarrow>
     take n (drop j (overwrite bs i (be_bytes k v))) = take n (drop j bs)"
  by (rule overwrite_frame) simp_all

lemmas field_read_other_0 = field_read_other [where j = 0, simplified]

lemma hdr_get_set_same [simp]:
  assumes "hdr_ok p"
  shows "HDR_GET_TYPE (HDR_SET_TYPE t p) = t" "HDR_GET_PAYLEN (HDR_SET_PAYLEN l p) = l"
    "HDR_GET_RFU (HDR_SET_RFU r p) = r" "HDR_GET_TS (HDR_SET_TS ts p) = ts"
    "HDR_GET_SRCID (HDR_SET_SRCID s p) = s" "HDR_GET_DSTID (HDR_SET_DSTID d p) = d"
    "HDR_GET_TRFID (HDR_SET_TRFID x p) = x"
  using assms 
  by (simp_all only: hdr_get_be hdr_ok_set)
    (simp_all add: hdr_set_be hdr_ok_def field_read_same field_read_same_0)

lemma hdr_get_set_other [simp]:
  assumes "hdr_ok p"
  shows
    "HDR_GET_PAYLEN (HDR_SET_TYPE v0 p) = HDR_GET_PAYLEN p" "HDR_GET_RFU (HDR_SET_TYPE v0 p) = HDR_GET_RFU p" "HDR_GET_TS (HDR_SET_TYPE v0 p) = HDR_GET_TS p"
    "HDR_GET_SRCID (HDR_SET_TYPE v0 p) = HDR_GET_SRCID p" "HDR_GET_DSTID (HDR_SET_TYPE v0 p) = HDR_GET_DSTID p" "HDR_GET_TRFID (HDR_SET_TYPE v0 p) = HDR_GET_TRFID p"
    "HDR_GET_TYPE (HDR_SET_PAYLEN v1 p) = HDR_GET_TYPE p" "HDR_GET_RFU (HDR_SET_PAYLEN v1 p) = HDR_GET_RFU p" "HDR_GET_TS (HDR_SET_PAYLEN v1 p) = HDR_GET_TS p"
    "HDR_GET_SRCID (HDR_SET_PAYLEN v1 p) = HDR_GET_SRCID p" "HDR_GET_DSTID (HDR_SET_PAYLEN v1 p) = HDR_GET_DSTID p" "HDR_GET_TRFID (HDR_SET_PAYLEN v1 p) = HDR_GET_TRFID p"
    "HDR_GET_TYPE (HDR_SET_RFU v2 p) = HDR_GET_TYPE p" "HDR_GET_PAYLEN (HDR_SET_RFU v2 p) = HDR_GET_PAYLEN p" "HDR_GET_TS (HDR_SET_RFU v2 p) = HDR_GET_TS p"
    "HDR_GET_SRCID (HDR_SET_RFU v2 p) = HDR_GET_SRCID p" "HDR_GET_DSTID (HDR_SET_RFU v2 p) = HDR_GET_DSTID p" "HDR_GET_TRFID (HDR_SET_RFU v2 p) = HDR_GET_TRFID p"
    "HDR_GET_TYPE (HDR_SET_TS v3 p) = HDR_GET_TYPE p" "HDR_GET_PAYLEN (HDR_SET_TS v3 p) = HDR_GET_PAYLEN p" "HDR_GET_RFU (HDR_SET_TS v3 p) = HDR_GET_RFU p"
    "HDR_GET_SRCID (HDR_SET_TS v3 p) = HDR_GET_SRCID p" "HDR_GET_DSTID (HDR_SET_TS v3 p) = HDR_GET_DSTID p" "HDR_GET_TRFID (HDR_SET_TS v3 p) = HDR_GET_TRFID p"
    "HDR_GET_TYPE (HDR_SET_SRCID v4 p) = HDR_GET_TYPE p" "HDR_GET_PAYLEN (HDR_SET_SRCID v4 p) = HDR_GET_PAYLEN p" "HDR_GET_RFU (HDR_SET_SRCID v4 p) = HDR_GET_RFU p" "HDR_GET_TS (HDR_SET_SRCID v4 p) = HDR_GET_TS p"
    "HDR_GET_DSTID (HDR_SET_SRCID v4 p) = HDR_GET_DSTID p" "HDR_GET_TRFID (HDR_SET_SRCID v4 p) = HDR_GET_TRFID p"
    "HDR_GET_TYPE (HDR_SET_DSTID v5 p) = HDR_GET_TYPE p" "HDR_GET_PAYLEN (HDR_SET_DSTID v5 p) = HDR_GET_PAYLEN p" "HDR_GET_RFU (HDR_SET_DSTID v5 p) = HDR_GET_RFU p" "HDR_GET_TS (HDR_SET_DSTID v5 p) = HDR_GET_TS p"
    "HDR_GET_SRCID (HDR_SET_DSTID v5 p) = HDR_GET_SRCID p" "HDR_GET_TRFID (HDR_SET_DSTID v5 p) = HDR_GET_TRFID p"
    "HDR_GET_TYPE (HDR_SET_TRFID v6 p) = HDR_GET_TYPE p" "HDR_GET_PAYLEN (HDR_SET_TRFID v6 p) = HDR_GET_PAYLEN p" "HDR_GET_RFU (HDR_SET_TRFID v6 p) = HDR_GET_RFU p" "HDR_GET_TS (HDR_SET_TRFID v6 p) = HDR_GET_TS p"
    "HDR_GET_SRCID (HDR_SET_TRFID v6 p) = HDR_GET_SRCID p" "HDR_GET_DSTID (HDR_SET_TRFID v6 p) = HDR_GET_DSTID p"
  using assms
  by (simp_all only: hdr_get_be hdr_ok_set)
    (simp_all add: hdr_set_be hdr_ok_def field_read_other field_read_other_0)

lemma hdr_get_fields [simp]:
  "HDR_GET_TYPE (p\<lparr>boff := n\<rparr>) = HDR_GET_TYPE p" "HDR_GET_TYPE (p\<lparr>bsize := n\<rparr>) = HDR_GET_TYPE p"
  "HDR_GET_PAYLEN (p\<lparr>boff := n\<rparr>) = HDR_GET_PAYLEN p" "HDR_GET_PAYLEN (p\<lparr>bsize := n\<rparr>) = HDR_GET_PAYLEN p"
  "HDR_GET_RFU (p\<lparr>boff := n\<rparr>) = HDR_GET_RFU p" "HDR_GET_RFU (p\<lparr>bsize := n\<rparr>) = HDR_GET_RFU p"
  "HDR_GET_TS (p\<lparr>boff := n\<rparr>) = HDR_GET_TS p" "HDR_GET_TS (p\<lparr>bsize := n\<rparr>) = HDR_GET_TS p"
  "HDR_GET_SRCID (p\<lparr>boff := n\<rparr>) = HDR_GET_SRCID p" "HDR_GET_SRCID (p\<lparr>bsize := n\<rparr>) = HDR_GET_SRCID p"
  "HDR_GET_DSTID (p\<lparr>boff := n\<rparr>) = HDR_GET_DSTID p" "HDR_GET_DSTID (p\<lparr>bsize := n\<rparr>) = HDR_GET_DSTID p"
  "HDR_GET_TRFID (p\<lparr>boff := n\<rparr>) = HDR_GET_TRFID p" "HDR_GET_TRFID (p\<lparr>bsize := n\<rparr>) = HDR_GET_TRFID p"
  by (simp_all add: hdr_get_defs ADDOFF_def)

text \<open>The header fields only depend on the first 40 bytes.\<close>

lemma hdr_get_cong:
  assumes "take 40 (bdata p) = take 40 (bdata q)"
  shows "HDR_GET_TYPE p = HDR_GET_TYPE q" "HDR_GET_PAYLEN p = HDR_GET_PAYLEN q"
    "HDR_GET_RFU p = HDR_GET_RFU q" "HDR_GET_TS p = HDR_GET_TS q"
    "HDR_GET_SRCID p = HDR_GET_SRCID q" "HDR_GET_DSTID p = HDR_GET_DSTID q"
    "HDR_GET_TRFID p = HDR_GET_TRFID q"
proof -
  have "ADDOFF p off n = ADDOFF q off n" if "off + n \<le> 40" for off n
  proof -
    have "take n (drop off (take 40 (bdata p))) = take n (drop off (take 40 (bdata q)))"
      using assms by simp
    then show ?thesis using that by (simp add: ADDOFF_def drop_take min_def split: if_splits)
  qed
  then show "HDR_GET_TYPE p = HDR_GET_TYPE q" "HDR_GET_PAYLEN p = HDR_GET_PAYLEN q"
    "HDR_GET_RFU p = HDR_GET_RFU q" "HDR_GET_TS p = HDR_GET_TS q"
    "HDR_GET_SRCID p = HDR_GET_SRCID q" "HDR_GET_DSTID p = HDR_GET_DSTID q"
    "HDR_GET_TRFID p = HDR_GET_TRFID q"
    by (simp_all add: hdr_get_defs)
qed

section \<open>Well-formed buffers\<close>

text \<open>
  \<open>mbuf_wf\<close>: the size field is the size of the object, which holds a header and is within the
  limit. \<open>mbuf_framed\<close>: the payload length in the header is that of the payload, as a
  receiver of the message relies on.
\<close>

definition mbuf_wf :: "mbuf \<Rightarrow> bool" where
  "mbuf_wf p \<longleftrightarrow> bsize p = length (bdata p) \<and> MSG_HDR_SIZE \<le> bsize p \<and>
     bsize p \<le> MSG_MAX_SIZE \<and> boff p \<le> bsize p"

definition mbuf_framed :: "mbuf \<Rightarrow> bool" where
  "mbuf_framed p \<longleftrightarrow> bsize p = length (bdata p) \<and> MSG_HDR_SIZE \<le> bsize p \<and>
     bsize p \<le> MSG_MAX_SIZE \<and> unat (HDR_GET_PAYLEN p) = bsize p - MSG_HDR_SIZE"

lemma mbuf_wf_hdr_ok: "mbuf_wf p \<Longrightarrow> hdr_ok p"
  by (simp add: mbuf_wf_def hdr_ok_def)

lemma mbuf_framed_hdr_ok: "mbuf_framed p \<Longrightarrow> hdr_ok p"
  by (simp add: mbuf_framed_def hdr_ok_def)

lemma mbuf_framed_boff [simp]: "mbuf_framed (p\<lparr>boff := n\<rparr>) = mbuf_framed p"
  by (simp add: mbuf_framed_def)

lemma mbuf_new_wf: "mbuf_wf (mbuf_new junk)"
  by (simp add: mbuf_wf_def mbuf_new_def)

lemma mbuf_resize_wf:
  assumes "mbuf_resize junk n p = Inr q"
  shows "mbuf_wf q" "bsize q = n + MSG_HDR_SIZE" "n \<le> MSG_MAX_PAY_SIZE"
    "boff q = min (boff p) (n + MSG_HDR_SIZE)"
  using assms by (auto simp: mbuf_resize_def mbuf_wf_def Let_def split: if_splits)

lemma mbuf_resize_Inl_iff: "mbuf_resize junk n p = Inl e \<longleftrightarrow> MSG_MAX_PAY_SIZE < n \<and> e = Die"
  by (auto simp: mbuf_resize_def Let_def)

text \<open>Cutting the payload off, as every response does, never fails and keeps the header.\<close>

lemma mbuf_resize_0:
  "hdr_ok p \<Longrightarrow> mbuf_resize junk 0 p =
     Inr (p\<lparr>bsize := 40, boff := min (boff p) 40, bdata := take 40 (bdata p)\<rparr>)"
  by (simp add: mbuf_resize_def hdr_ok_def min_def)

lemma mbuf_grow_eq:
  assumes "mbuf_wf p" and "bsize p + n \<le> MSG_MAX_SIZE"
  shows "mbuf_grow n p = Inr (p\<lparr>bsize := bsize p + n, bdata := bdata p @ replicate n 0\<rparr>)"
  using assms
  by (simp add: mbuf_grow_def mbuf_resize_def mbuf_wf_def overwrite_def Let_def)

lemma mbuf_grow_Die: "mbuf_wf p \<Longrightarrow> MSG_MAX_SIZE < bsize p + n \<Longrightarrow> mbuf_grow n p = Inl Die"
  by (simp add: mbuf_grow_def mbuf_resize_def mbuf_wf_def)

lemma mbuf_grow_junk:
  assumes "mbuf_wf p"
  shows "mbuf_grow n p =
     bindr (mbuf_resize junk (bsize p - MSG_HDR_SIZE + n) p) (\<lambda>p.
     Inr (p\<lparr>bdata := overwrite (bdata p) (bsize p - n) (replicate n 0)\<rparr>))"
  using assms
  by (simp add: mbuf_grow_def mbuf_resize_def mbuf_wf_def overwrite_def Let_def)

section \<open>Composed headers\<close>

definition hdr_bytes :: "u16 \<Rightarrow> u16 \<Rightarrow> u32 \<Rightarrow> u64 \<Rightarrow> u64 \<Rightarrow> u64 \<Rightarrow> u64 \<Rightarrow> byte list" where
  "hdr_bytes t l r ts s d x = be_bytes 2 t @ be_bytes 2 l @ be_bytes 4 r @ be_bytes 8 ts @
     be_bytes 8 s @ be_bytes 8 d @ be_bytes 8 x"

lemma length_hdr_bytes [simp]: "length (hdr_bytes t l r ts s d x) = 40"
  by (simp add: hdr_bytes_def)

lemma take_drop_split: "i + n = j \<Longrightarrow> drop i bs = take n (drop i bs) @ drop j bs"
  by (metis append_take_drop_id drop_drop add.commute)

lemma be_bytes_field:
  "off + k \<le> length bs \<Longrightarrow> 8 * k = LENGTH('a::len) \<Longrightarrow>
     be_bytes k (be_word (take k (drop off bs)) :: 'a word) = take k (drop off bs)"
  using be_bytes_be_word [of "take k (drop off bs)", where 'a = 'a] by simp

text \<open>A header is the encoding of its fields.\<close>

lemma hdr_bytes_of_fields:
  assumes "hdr_ok p"
  shows "take 40 (bdata p) = hdr_bytes (HDR_GET_TYPE p) (HDR_GET_PAYLEN p) (HDR_GET_RFU p)
    (HDR_GET_TS p) (HDR_GET_SRCID p) (HDR_GET_DSTID p) (HDR_GET_TRFID p)"
proof -
  have len: "40 \<le> length (bdata p)" using assms by (simp add: hdr_ok_def)
  let ?b = "take 40 (bdata p)"
  have "?b = take 2 ?b @ take 2 (drop 2 ?b) @ take 4 (drop 4 ?b) @ take 8 (drop 8 ?b) @
      take 8 (drop 16 ?b) @ take 8 (drop 24 ?b) @ take 8 (drop 32 ?b)"
    using len take_drop_split [of 0 2 2 ?b] take_drop_split [of 2 2 4 ?b] take_drop_split [of 4 4 8 ?b]
      take_drop_split [of 8 8 16 ?b] take_drop_split [of 16 8 24 ?b] take_drop_split [of 24 8 32 ?b]
    by simp
  also have "\<dots> = hdr_bytes (HDR_GET_TYPE p) (HDR_GET_PAYLEN p) (HDR_GET_RFU p)
      (HDR_GET_TS p) (HDR_GET_SRCID p) (HDR_GET_DSTID p) (HDR_GET_TRFID p)"
    using len assms be_bytes_field [of 0 2 "bdata p", where 'a = 16]
    by (simp add: hdr_bytes_def hdr_get_be be_bytes_field drop_take)
  finally show ?thesis .
qed

lemma hdr_fields_of_bytes:
  assumes "take 40 (bdata p) = hdr_bytes t l r ts s d x"
  shows "HDR_GET_TYPE p = t" "HDR_GET_PAYLEN p = l" "HDR_GET_RFU p = r" "HDR_GET_TS p = ts"
    "HDR_GET_SRCID p = s" "HDR_GET_DSTID p = d" "HDR_GET_TRFID p = x"
proof -
  let ?q = "\<lparr>bsize = 40, boff = 0, bdata = hdr_bytes t l r ts s d x\<rparr>"
  have "hdr_ok ?q" by (simp add: hdr_ok_def)
  then have "HDR_GET_TYPE ?q = t" "HDR_GET_PAYLEN ?q = l" "HDR_GET_RFU ?q = r" "HDR_GET_TS ?q = ts"
    "HDR_GET_SRCID ?q = s" "HDR_GET_DSTID ?q = d" "HDR_GET_TRFID ?q = x"
    by (simp_all add: hdr_get_be hdr_bytes_def be_word_be_bytes)
  moreover have "take 40 (bdata p) = take 40 (bdata ?q)"
    using assms by simp
  ultimately show "HDR_GET_TYPE p = t" "HDR_GET_PAYLEN p = l" "HDR_GET_RFU p = r"
    "HDR_GET_TS p = ts" "HDR_GET_SRCID p = s" "HDR_GET_DSTID p = d" "HDR_GET_TRFID p = x"
    using hdr_get_cong [of p ?q] by simp_all
qed

lemma hdr_all_set:
  assumes "length (bdata p) = 40"
  shows "bdata (HDR_SET_TRFID x (HDR_SET_DSTID d (HDR_SET_SRCID s (HDR_SET_TS ts
          (HDR_SET_RFU r (HDR_SET_PAYLEN l (HDR_SET_TYPE t p))))))) = hdr_bytes t l r ts s d x"
proof -
  let ?q = "HDR_SET_TRFID x (HDR_SET_DSTID d (HDR_SET_SRCID s (HDR_SET_TS ts
          (HDR_SET_RFU r (HDR_SET_PAYLEN l (HDR_SET_TYPE t p))))))"
  have ok: "hdr_ok p" using assms by (simp add: hdr_ok_def)
  then have "take 40 (bdata ?q) = hdr_bytes t l r ts s d x"
    by (subst hdr_bytes_of_fields) simp_all
  then show ?thesis using ok assms by simp
qed

text \<open>
  \<open>mbuf_compose\<close> never fails on a buffer the program holds; the result is a header without
  payload, whatever the buffer held before (\<open>mbuf_compose_junk\<close>: or was allocated with).
\<close>

definition composed :: "u16 \<Rightarrow> u64 \<Rightarrow> u64 \<Rightarrow> u64 \<Rightarrow> u64 \<Rightarrow> mbuf" where
  "composed t ts s d x = \<lparr>bsize = 40, boff = 0, bdata = hdr_bytes t 0 0 ts s d x\<rparr>"

lemma composed_fields [simp]:
  "bsize (composed t ts s d x) = 40" "boff (composed t ts s d x) = 0"
  "length (bdata (composed t ts s d x)) = 40"
  by (simp_all add: composed_def)

lemma mbuf_compose_eq:
  assumes "\<And>p. pp = Some p \<Longrightarrow> hdr_ok p"
  shows "mbuf_compose now pp t s d x = Inr (composed t now s d x)"
proof (cases pp)
  case None
  then show ?thesis
    by (simp add: mbuf_compose_def composed_def mbuf_new_def hdr_all_set mbuf.equality)
next
  case (Some p)
  with assms have "hdr_ok p" by simp
  then have "mbuf_resize (\<lambda>_. 0) 0 p =
     Inr (p\<lparr>bsize := 40, boff := min (boff p) 40, bdata := take 40 (bdata p)\<rparr>)"
    and "40 \<le> length (bdata p)"
    by (simp_all add: mbuf_resize_0 hdr_ok_def)
  with Some show ?thesis
    by (simp add: mbuf_compose_def composed_def hdr_all_set mbuf.equality)
qed

lemma mbuf_compose_junk:
  "HDR_SET_TRFID x (HDR_SET_DSTID d (HDR_SET_SRCID s (HDR_SET_TS now
     (HDR_SET_RFU 0 (HDR_SET_PAYLEN 0 (HDR_SET_TYPE t ((mbuf_new junk)\<lparr>boff := 0\<rparr>))))))) =
   composed t now s d x"
  by (simp add: composed_def mbuf_new_def hdr_all_set mbuf.equality)

lemma composed_wf: "mbuf_wf (composed t ts s d x)" "mbuf_framed (composed t ts s d x)"
proof -
  have "HDR_GET_PAYLEN (composed t ts s d x) = 0"
    by (rule hdr_fields_of_bytes [of _ t _ 0 ts s d x]) (simp add: composed_def)
  then show "mbuf_wf (composed t ts s d x)" "mbuf_framed (composed t ts s d x)"
    by (simp_all add: mbuf_wf_def mbuf_framed_def composed_def)
qed

lemma composed_get [simp]:
  "HDR_GET_TYPE (composed t ts s d x) = t" "HDR_GET_PAYLEN (composed t ts s d x) = 0"
  "HDR_GET_SRCID (composed t ts s d x) = s" "HDR_GET_DSTID (composed t ts s d x) = d"
  "HDR_GET_TRFID (composed t ts s d x) = x" "HDR_GET_TS (composed t ts s d x) = ts"
  "HDR_GET_RFU (composed t ts s d x) = 0"
  by (rule hdr_fields_of_bytes [of _ t 0 0 ts s d x], simp add: composed_def)+

text \<open>A response is the request's header with class, source and destination exchanged.\<close>

definition response_of :: "u64 \<Rightarrow> mbuf \<Rightarrow> mbuf" where
  "response_of now p = composed (MCLASS_TO_RES (HDR_GET_TYPE p)) now
     (HDR_GET_DSTID p) (HDR_GET_SRCID p) (HDR_GET_TRFID p)"

lemma mbuf_eqI40:
  assumes "bsize p = bsize q" "boff p = boff q" "length (bdata p) = 40" "length (bdata q) = 40"
    "HDR_GET_TYPE p = HDR_GET_TYPE q" "HDR_GET_PAYLEN p = HDR_GET_PAYLEN q"
    "HDR_GET_RFU p = HDR_GET_RFU q" "HDR_GET_TS p = HDR_GET_TS q"
    "HDR_GET_SRCID p = HDR_GET_SRCID q" "HDR_GET_DSTID p = HDR_GET_DSTID q"
    "HDR_GET_TRFID p = HDR_GET_TRFID q"
  shows "p = (q :: mbuf)"
proof -
  have "take 40 (bdata p) = take 40 (bdata q)"
    using assms by (subst (1 2) hdr_bytes_of_fields) (simp_all add: hdr_ok_def)
  with assms show ?thesis by (intro mbuf.equality) simp_all
qed

lemma mbuf_to_response_eq:
  assumes "hdr_ok p"
  shows "mbuf_to_response now p = Inr (response_of now p)"
proof -
  let ?p = "p\<lparr>bsize := 40, bdata := take 40 (bdata p), boff := 0\<rparr>"
  have ok: "hdr_ok ?p" and len: "length (bdata ?p) = 40"
    using assms by (simp_all add: hdr_ok_def)
  have same: "HDR_GET_TYPE ?p = HDR_GET_TYPE p" "HDR_GET_SRCID ?p = HDR_GET_SRCID p"
    "HDR_GET_DSTID ?p = HDR_GET_DSTID p" "HDR_GET_TRFID ?p = HDR_GET_TRFID p"
    by (rule hdr_get_cong, simp)+
  let ?t = "HDR_SET_TS now (HDR_SET_RFU 0 (HDR_SET_PAYLEN 0 (HDR_CLASS_TO_RES ?p)))"
  have "mbuf_to_response now p =
      Inr (HDR_SET_DSTID (HDR_GET_SRCID ?t) (HDR_SET_SRCID (HDR_GET_DSTID ?t) ?t))"
    using assms by (simp add: mbuf_to_response_def mbuf_resize_0 Let_def)
  also have "HDR_SET_DSTID (HDR_GET_SRCID ?t) (HDR_SET_SRCID (HDR_GET_DSTID ?t) ?t) =
      response_of now p"
    using ok len same
    by (intro mbuf_eqI40) (simp_all add: HDR_CLASS_TO_RES_def response_of_def)
  finally show ?thesis .
qed

section \<open>Attributes: the abstract encoding\<close>

text \<open>
  An attribute is its type and its value; \<open>tlv_encode\<close> is its encoding (type, length, four zero
  bytes of option flags, value, padding to a multiple of eight), \<open>tlv_decode\<close> reads a payload
  as the list of its attributes, stopping at the first one that does not fit.
\<close>

type_synonym attrib = "u16 \<times> byte list"

definition tlv_encode :: "attrib \<Rightarrow> byte list" where
  "tlv_encode a =
     be_bytes 2 (fst a) @ be_bytes 2 (of_nat (length (snd a)) :: u16) @ replicate 4 0 @ snd a @
     replicate (ROUNDUP8 (length (snd a)) - length (snd a)) 0"

lemma ROUNDUP8_ge: "n \<le> ROUNDUP8 n"
  unfolding ROUNDUP8_def by linarith

lemma ROUNDUP8_less: "ROUNDUP8 n < n + 8"
  unfolding ROUNDUP8_def by linarith

lemma ROUNDUP8_dvd: "8 dvd ROUNDUP8 n"
  by (simp add: ROUNDUP8_def)

lemma ROUNDUP8_mono: "m \<le> n \<Longrightarrow> ROUNDUP8 m \<le> ROUNDUP8 n"
  unfolding ROUNDUP8_def by (intro mult_le_mono1 div_le_mono) simp

function tlv_decode :: "byte list \<Rightarrow> attrib list" where
  "tlv_decode bs =
     (if length bs < 8 then []
      else let len = unat (be_word (take 2 (drop 2 bs)) :: u16) in
        if length bs < 8 + len then []
        else (be_word (take 2 bs), take len (drop 8 bs)) # tlv_decode (drop (8 + ROUNDUP8 len) bs))"
  by pat_completeness auto
termination
  by (relation "measure length") auto

declare tlv_decode.simps [simp del]

lemma length_tlv_encode: "length (tlv_encode a) = 8 + ROUNDUP8 (length (snd a))"
  using ROUNDUP8_ge [of "length (snd a)"] by (simp add: tlv_encode_def)

lemma tlv_decode_encode:
  assumes "length (snd a) < 65536"
  shows "tlv_decode (tlv_encode a @ bs) = a # tlv_decode bs"
proof -
  let ?n = "length (snd a)"
  have n: "unat (of_nat ?n :: u16) = ?n"
    using assms by (simp add: unat_of_nat_u16)
  have "take 2 (drop 2 (tlv_encode a @ bs)) = be_bytes 2 (of_nat ?n :: u16)"
    and "take 2 (tlv_encode a @ bs) = be_bytes 2 (fst a)"
    and v: "take ?n (drop 8 (tlv_encode a @ bs)) = snd a"
    by (simp_all add: tlv_encode_def)
  then have l: "unat (be_word (take 2 (drop 2 (tlv_encode a @ bs))) :: u16) = ?n"
    and t: "be_word (take 2 (tlv_encode a @ bs)) = fst a"
    by (simp_all add: be_word_be_bytes n)
  have d: "drop (8 + ROUNDUP8 ?n) (tlv_encode a @ bs) = bs"
    by (simp add: length_tlv_encode)
  have "8 + ?n \<le> length (tlv_encode a @ bs)"
    using ROUNDUP8_ge [of ?n] by (simp add: length_tlv_encode)
  with l t v d show ?thesis
    by (subst tlv_decode.simps) (simp add: Let_def)
qed

lemma tlv_decode_encode_all:
  "(\<forall>a \<in> set as. length (snd a) < 65536) \<Longrightarrow>
     tlv_decode (concat (map tlv_encode as) @ bs) = as @ tlv_decode bs"
  by (induction as) (simp_all add: tlv_decode_encode)

lemma tlv_decode_Nil [simp]: "tlv_decode [] = []"
  by (subst tlv_decode.simps) simp

text \<open>\<open>attrs\<close>: the attributes of a message, as its reader sees them.\<close>

definition attrs :: "mbuf \<Rightarrow> attrib list" where
  "attrs p = tlv_decode (drop MSG_HDR_SIZE (bdata p))"

lemma attrs_boff [simp]: "attrs (p\<lparr>boff := n\<rparr>) = attrs p"
  by (simp add: attrs_def)

section \<open>Reading attributes\<close>

text \<open>
  \<open>pending_attrs\<close>: what is left to read from the current offset. Each call of
  \<open>mbuf_getnextattrib\<close> returns the next one, inside the buffer, or reports the end.
\<close>

definition pending_attrs :: "mbuf \<Rightarrow> attrib list" where
  "pending_attrs p = tlv_decode (drop (boff p) (bdata p))"

definition attr_scan :: "mbuf \<Rightarrow> bool" where
  "attr_scan p \<longleftrightarrow> bsize p = length (bdata p)"

lemma pending_attrs_reset: "pending_attrs (mbuf_resetgetattrib p) = attrs p"
  by (simp add: pending_attrs_def attrs_def mbuf_resetgetattrib_def)

lemma ADDOFF_u16:
  "off + 2 \<le> length (bdata p) \<Longrightarrow>
     NTOH16 HOST (native_load HOST (ADDOFF p off 2)) = be_word (take 2 (drop off (bdata p)))"
  by (subst NTOH16_load) (simp_all add: ADDOFF_def)

lemma mbuf_getnextattrib_None:
  assumes "attr_scan p" and "mbuf_getnextattrib p = (None, q)"
  shows "q = p" and "pending_attrs p = []"
proof -
  show "q = p" using assms(2) by (auto simp: mbuf_getnextattrib_def Let_def split: if_splits)
  show "pending_attrs p = []"
  proof (cases "bsize p < boff p + 8")
    case True
    with assms(1) show ?thesis
      by (simp add: pending_attrs_def attr_scan_def tlv_decode.simps less_diff_conv)
  next
    case False
    let ?l = "unat (be_word (take 2 (drop 2 (drop (boff p) (bdata p)))) :: u16)"
    have "NTOH16 HOST (native_load HOST (ADDOFF p (boff p + 2) 2)) =
        be_word (take 2 (drop 2 (drop (boff p) (bdata p))))"
      using False assms(1) by (simp add: ADDOFF_u16 attr_scan_def add.commute)
    with False assms(2) have "bsize p < boff p + 8 + ?l"
      by (auto simp: mbuf_getnextattrib_def Let_def split: if_splits)
    then have "length (drop (boff p) (bdata p)) < 8 + ?l"
      using assms(1) False by (simp add: attr_scan_def)
    then show ?thesis
      by (simp add: pending_attrs_def tlv_decode.simps [of "drop (boff p) (bdata p)"] Let_def)
  qed
qed

lemma mbuf_getnextattrib_Some:
  assumes "attr_scan p" and "mbuf_getnextattrib p = (Some (at, al, av), q)"
  shows "q = p\<lparr>boff := boff q\<rparr>"
    and "av = boff p + 8" and "av + al \<le> length (bdata p)"
    and "pending_attrs p = (at, take al (drop av (bdata p))) # pending_attrs q"
    and "boff p + 8 \<le> boff q" and "al < 65536"
proof -
  let ?bs = "drop (boff p) (bdata p)"
  have nb: "\<not> bsize p < boff p + 8"
    using assms(2) by (auto simp: mbuf_getnextattrib_def split: if_splits)
  let ?l = "unat (be_word (take 2 (drop 2 ?bs)) :: u16)"
  have l: "NTOH16 HOST (native_load HOST (ADDOFF p (boff p + 2) 2)) = be_word (take 2 (drop 2 ?bs))"
    using nb assms(1) by (simp add: ADDOFF_u16 attr_scan_def add.commute)
  have t: "NTOH16 HOST (native_load HOST (ADDOFF p (boff p) 2)) = be_word (take 2 ?bs)"
    using nb assms(1) by (simp add: ADDOFF_u16 attr_scan_def)
  have fits: "\<not> bsize p < boff p + 8 + ?l" and al: "al = ?l" and av: "av = boff p + 8"
    and at: "at = be_word (take 2 ?bs)" and q: "q = p\<lparr>boff := boff p + 8 + ROUNDUP8 ?l\<rparr>"
    using assms(2) nb l t by (auto simp: mbuf_getnextattrib_def Let_def split: if_splits)
  show "q = p\<lparr>boff := boff q\<rparr>" and "boff p + 8 \<le> boff q" using q by simp_all
  show "av = boff p + 8" by (rule av)
  show "av + al \<le> length (bdata p)"
    using fits al av assms(1) by (simp add: attr_scan_def)
  show "al < 65536" using unat_u16_less al by simp
  have "8 + ?l \<le> length ?bs" using fits nb assms(1) by (simp add: attr_scan_def)
  then show "pending_attrs p = (at, take al (drop av (bdata p))) # pending_attrs q"
    using q al av at
    by (simp add: pending_attrs_def tlv_decode.simps [of ?bs] Let_def ac_simps)
qed

section \<open>Adding attributes\<close>

text \<open>
  \<open>attr_call at n v\<close>: the value a call of \<open>mbuf_addattrib\<close> encodes, for the calls whose
  arguments fit together (a string with its length including the terminator, an object of at least
  the given length). \<open>append_attr\<close> is the effect of such a call.
\<close>

definition attr_call :: "u16 \<Rightarrow> nat \<Rightarrow> va_value \<Rightarrow> byte list option" where
  "attr_call at n v =
     (case attr_avtype at n of
        Some (AVTYPE_UI64, _) \<Rightarrow> (case v of VA_UI64 x \<Rightarrow> Some (be_bytes 8 x) | _ \<Rightarrow> None)
      | Some (AVTYPE_STR, l) \<Rightarrow>
          (case v of VA_STR s \<Rightarrow> if l = length s + 1 then Some (s @ [0]) else None | _ \<Rightarrow> None)
      | Some (AVTYPE_BLOB, l) \<Rightarrow>
          (case v of VA_BLOB d \<Rightarrow> if l \<le> length d then Some (take l d) else None | _ \<Rightarrow> None)
      | Some (AVTYPE_NONE, _) \<Rightarrow> Some []
      | None \<Rightarrow> None)"

definition append_attr :: "attrib \<Rightarrow> mbuf \<Rightarrow> mbuf" where
  "append_attr a p =
     HDR_SET_PAYLEN (of_nat (bsize p + length (tlv_encode a) - MSG_HDR_SIZE))
       (p\<lparr>bsize := bsize p + length (tlv_encode a), bdata := bdata p @ tlv_encode a\<rparr>)"

lemma attr_avtype_ui64: "attr_avtype at n = Some (AVTYPE_UI64, l) \<Longrightarrow> l = 8"
  by (auto simp: attr_avtype_def split: if_splits)

lemma attr_avtype_none: "attr_avtype at n = Some (AVTYPE_NONE, l) \<Longrightarrow> l = 0"
  by (auto simp: attr_avtype_def split: if_splits)

lemma attr_call_avtype:
  assumes "attr_call at n v = Some val"
  obtains avt where "attr_avtype at n = Some (avt, length val)"
    and "\<And>vo p. put_avalue avt vo (length val) v p = mb_store vo val p \<or>
           (val = [] \<and> put_avalue avt vo (length val) v p = Inr p)"
proof -
  obtain avt l where av: "attr_avtype at n = Some (avt, l)"
    using assms by (auto simp: attr_call_def split: option.splits)
  have "l = length val \<and> (\<forall>vo p. put_avalue avt vo (length val) v p = mb_store vo val p \<or>
           (val = [] \<and> put_avalue avt vo (length val) v p = Inr p))"
    using assms av attr_avtype_ui64 [of at n l] attr_avtype_none [of at n l]
    by (cases avt; cases v)
      (auto simp: attr_call_def HTON64_store min_def split: if_splits)
  with av that show thesis by blast
qed

lemma overwrite_at_end:
  "length ds \<le> n \<Longrightarrow>
     overwrite (pre @ replicate n 0) (length pre) ds = (pre @ ds) @ replicate (n - length ds) 0"
  by (simp add: overwrite_def)

lemma mb_store_at_end:
  assumes "bdata p = pre @ replicate n 0" and "length ds \<le> n" and "off = length pre"
  shows "mb_store off ds p = Inr (p\<lparr>bdata := (pre @ ds) @ replicate (n - length ds) 0\<rparr>)"
  using assms overwrite_at_end [of ds n pre] by (simp add: mb_store_def)

lemma be_bytes_0 [simp]: "be_bytes k 0 = replicate k 0"
  by (simp add: be_bytes_def le_bytes_def map_replicate_const)

lemma put_avalue_at_end:
  assumes "bdata p = pre @ replicate n 0" and "length val \<le> n" and "off = length pre"
    and "put_avalue avt off l v p = mb_store off val p \<or> (val = [] \<and> put_avalue avt off l v p = Inr p)"
  shows "put_avalue avt off l v p = Inr (p\<lparr>bdata := (pre @ val) @ replicate (n - length val) 0\<rparr>)"
proof (cases "put_avalue avt off l v p = mb_store off val p")
  case True
  with mb_store_at_end [OF assms(1-3)] show ?thesis by simp
next
  case False
  with assms show ?thesis by simp
qed

lemma mbuf_addattrib_ok:
  assumes wf: "mbuf_wf p" and call: "attr_call at n v = Some val"
    and fits: "bsize p + 8 + ROUNDUP8 (length val) \<le> MSG_MAX_SIZE"
  shows "mbuf_addattrib at n v p = Inr (append_attr (at, val) p)"
proof -
  obtain avt where avt: "attr_avtype at n = Some (avt, length val)"
    and put: "\<And>vo p. put_avalue avt vo (length val) v p = mb_store vo val p \<or>
           (val = [] \<and> put_avalue avt vo (length val) v p = Inr p)"
    using attr_call_avtype [OF call] by blast
  let ?k = "ROUNDUP8 (length val) + 8"
  have k: "length val \<le> ROUNDUP8 (length val)" by (rule ROUNDUP8_ge)
  have len: "bsize p = length (bdata p)" "40 \<le> length (bdata p)"
    using wf by (simp_all add: mbuf_wf_def)
  let ?pl = "of_nat (bsize p + ?k - 40) :: u16"
  let ?h = "overwrite (bdata p) 2 (be_bytes 2 ?pl)"
  have h: "length ?h = length (bdata p)" using len by simp
  have grow: "mbuf_grow ?k p = Inr (p\<lparr>bsize := bsize p + ?k, bdata := bdata p @ replicate ?k 0\<rparr>)"
    using fits by (intro mbuf_grow_eq [OF wf]) simp
  let ?p1 = "p\<lparr>bsize := bsize p + ?k, bdata := ?h @ replicate ?k 0\<rparr>"
  have p1: "HDR_SET_PAYLEN ?pl (p\<lparr>bsize := bsize p + ?k, bdata := bdata p @ replicate ?k 0\<rparr>) = ?p1"
    using len by (simp add: hdr_set_be overwrite_append1)
  let ?p2 = "p\<lparr>bsize := bsize p + ?k, bdata := (?h @ be_bytes 2 at) @ replicate (?k - 2) 0\<rparr>"
  have s1: "mb_store (bsize p) (native_store HOST 2 (HTON16 HOST at)) ?p1 = Inr ?p2"
    by (subst mb_store_at_end [of _ ?h ?k]) (use h len in \<open>simp_all add: HTON16_store\<close>)
  let ?p3 = "p\<lparr>bsize := bsize p + ?k, bdata := ((?h @ be_bytes 2 at) @
      be_bytes 2 (of_nat (length val) :: u16)) @ replicate (?k - 2 - 2) 0\<rparr>"
  have s2: "mb_store (bsize p + 2) (native_store HOST 2 (HTON16 HOST (of_nat (length val)))) ?p2
      = Inr ?p3"
    by (subst mb_store_at_end [of _ "?h @ be_bytes 2 at" "?k - 2"])
      (use h len in \<open>simp_all add: HTON16_store\<close>)
  let ?p4 = "p\<lparr>bsize := bsize p + ?k, bdata := (((?h @ be_bytes 2 at) @
      be_bytes 2 (of_nat (length val) :: u16)) @ replicate 4 0) @ replicate (?k - 2 - 2 - 4) 0\<rparr>"
  have s3: "mb_store (bsize p + 4) (native_store HOST 4 (HTON32 HOST 0)) ?p3 = Inr ?p4"
    by (subst mb_store_at_end [of _ "(?h @ be_bytes 2 at) @ be_bytes 2 (of_nat (length val) :: u16)"
          "?k - 2 - 2"]) (use h len in \<open>simp_all add: HTON32_store\<close>)
  have s4: "put_avalue avt (bsize p + 8) (length val) v ?p4 =
      Inr (p\<lparr>bsize := bsize p + ?k, bdata := ?h @ tlv_encode (at, val)\<rparr>)"
    by (subst put_avalue_at_end [where val = val and n = "?k - 2 - 2 - 4" and
          pre = "((?h @ be_bytes 2 at) @ be_bytes 2 (of_nat (length val) :: u16)) @ replicate 4 0"])
      (use h len k put in \<open>simp_all add: tlv_encode_def\<close>)
  have "mbuf_addattrib at n v p =
      Inr (p\<lparr>bsize := bsize p + ?k, bdata := ?h @ tlv_encode (at, val)\<rparr>)"
    using s1 s2 s3 s4 p1 by (simp add: mbuf_addattrib_def avt grow Let_def)
  also have "p\<lparr>bsize := bsize p + ?k, bdata := ?h @ tlv_encode (at, val)\<rparr> = append_attr (at, val) p"
    using len by (simp add: append_attr_def hdr_set_be overwrite_append1 length_tlv_encode ac_simps)
  finally show ?thesis .
qed

lemma mbuf_addattrib_Die:
  assumes "mbuf_wf p" and "attr_call at n v = Some val"
    and "MSG_MAX_SIZE < bsize p + 8 + ROUNDUP8 (length val)"
  shows "mbuf_addattrib at n v p = Inl Die"
proof -
  obtain avt where "attr_avtype at n = Some (avt, length val)"
    using attr_call_avtype [OF assms(2)] by blast
  moreover have "mbuf_grow (ROUNDUP8 (length val) + 8) p = Inl Die"
    using assms by (intro mbuf_grow_Die) simp_all
  ultimately show ?thesis by (simp add: mbuf_addattrib_def)
qed

text \<open>The effect of adding an attribute on what a reader of the message sees.\<close>

text \<open>\<open>tlv_full as bs\<close>: the payload \<open>bs\<close> is the encoding of \<open>as\<close>, with no bytes left over.\<close>

definition tlv_full :: "attrib list \<Rightarrow> mbuf \<Rightarrow> bool" where
  "tlv_full as p \<longleftrightarrow> drop MSG_HDR_SIZE (bdata p) = concat (map tlv_encode as) \<and>
     (\<forall>a \<in> set as. length (snd a) < 65536)"

lemma tlv_full_attrs: "tlv_full as p \<Longrightarrow> attrs p = as"
  using tlv_decode_encode_all [of as "[]"] by (simp add: attrs_def tlv_full_def)

lemma tlv_full_composed [simp]: "tlv_full [] (composed t ts s d x)"
  by (simp add: tlv_full_def composed_def)

lemma append_attr_props:
  assumes p: "mbuf_framed p" and fits: "bsize p + 8 + ROUNDUP8 (length (snd a)) \<le> MSG_MAX_SIZE"
  shows "mbuf_framed (append_attr a p)"
    and "bsize (append_attr a p) = bsize p + 8 + ROUNDUP8 (length (snd a))"
    and "boff (append_attr a p) = boff p"
    and "HDR_GET_TYPE (append_attr a p) = HDR_GET_TYPE p"
    and "HDR_GET_SRCID (append_attr a p) = HDR_GET_SRCID p"
    and "HDR_GET_DSTID (append_attr a p) = HDR_GET_DSTID p"
    and "HDR_GET_TRFID (append_attr a p) = HDR_GET_TRFID p"
    and "HDR_GET_TS (append_attr a p) = HDR_GET_TS p"
    and "tlv_full as p \<Longrightarrow> tlv_full (as @ [a]) (append_attr a p)"
proof -
  let ?q = "p\<lparr>bsize := bsize p + length (tlv_encode a), bdata := bdata p @ tlv_encode a\<rparr>"
  have len: "40 \<le> length (bdata p)" "bsize p = length (bdata p)"
    using p by (simp_all add: mbuf_framed_def)
  have ok: "hdr_ok ?q" using len by (simp add: hdr_ok_def)
  have same: "HDR_GET_TYPE ?q = HDR_GET_TYPE p" "HDR_GET_SRCID ?q = HDR_GET_SRCID p"
    "HDR_GET_DSTID ?q = HDR_GET_DSTID p" "HDR_GET_TRFID ?q = HDR_GET_TRFID p"
    "HDR_GET_TS ?q = HDR_GET_TS p"
    by (rule hdr_get_cong, use len in simp)+
  have eq: "append_attr a p = HDR_SET_PAYLEN (of_nat (bsize ?q - 40)) ?q"
    by (simp add: append_attr_def)
  show "bsize (append_attr a p) = bsize p + 8 + ROUNDUP8 (length (snd a))"
    and "boff (append_attr a p) = boff p"
    by (simp_all add: eq length_tlv_encode)
  show "HDR_GET_TYPE (append_attr a p) = HDR_GET_TYPE p"
    "HDR_GET_SRCID (append_attr a p) = HDR_GET_SRCID p"
    "HDR_GET_DSTID (append_attr a p) = HDR_GET_DSTID p"
    "HDR_GET_TRFID (append_attr a p) = HDR_GET_TRFID p"
    "HDR_GET_TS (append_attr a p) = HDR_GET_TS p"
    using ok same by (simp_all only: eq hdr_get_set_other)
  have "bsize ?q \<le> 65440" using fits by (simp add: length_tlv_encode)
  then have "unat (of_nat (bsize ?q - 40) :: u16) = bsize ?q - 40"
    by (intro unat_of_nat_u16) linarith
  then show "mbuf_framed (append_attr a p)"
    using ok len fits by (simp add: mbuf_framed_def eq length_tlv_encode)
  have "drop 40 (bdata (append_attr a p)) = drop 40 (bdata p) @ tlv_encode a"
    using ok len by (simp add: eq)
  moreover have "length (snd a) < 65536"
    using fits ROUNDUP8_ge [of "length (snd a)"] by linarith
  ultimately show "tlv_full (as @ [a]) (append_attr a p)" if "tlv_full as p"
    using that by (auto simp: tlv_full_def)
qed

text \<open>
  \<open>tlv_msg h as q\<close>: the message \<open>q\<close> has the header fields of \<open>h\<close>, a consistent frame and
  exactly the attributes \<open>as\<close>.
\<close>

definition tlv_msg :: "mbuf \<Rightarrow> attrib list \<Rightarrow> mbuf \<Rightarrow> bool" where
  "tlv_msg h as q \<longleftrightarrow> mbuf_framed q \<and> boff q = 0 \<and> tlv_full as q \<and>
     bsize q = 40 + length (concat (map tlv_encode as)) \<and>
     HDR_GET_TYPE q = HDR_GET_TYPE h \<and> HDR_GET_SRCID q = HDR_GET_SRCID h \<and>
     HDR_GET_DSTID q = HDR_GET_DSTID h \<and> HDR_GET_TRFID q = HDR_GET_TRFID h \<and>
     HDR_GET_TS q = HDR_GET_TS h"

lemma mbuf_framed_wf: "mbuf_framed p \<Longrightarrow> boff p = 0 \<Longrightarrow> mbuf_wf p"
  by (simp add: mbuf_framed_def mbuf_wf_def)

lemma tlv_msg_composed: "tlv_msg (composed t ts s d x) [] (composed t ts s d x)"
  by (simp add: tlv_msg_def composed_wf)

lemma tlv_msg_add:
  assumes m: "tlv_msg h as p" and call: "attr_call at n v = Some val"
    and fits: "48 + length (concat (map tlv_encode as)) + ROUNDUP8 (length val) \<le> MSG_MAX_SIZE"
  obtains q where "mbuf_addattrib at n v p = Inr q" and "tlv_msg h (as @ [(at, val)]) q"
proof
  have p: "mbuf_framed p" "mbuf_wf p" "bsize p = 40 + length (concat (map tlv_encode as))"
    using m mbuf_framed_wf by (simp_all add: tlv_msg_def)
  then have fits': "bsize p + 8 + ROUNDUP8 (length val) \<le> MSG_MAX_SIZE" using fits by simp
  show "mbuf_addattrib at n v p = Inr (append_attr (at, val) p)"
    by (rule mbuf_addattrib_ok [OF p(2) call fits'])
  show "tlv_msg h (as @ [(at, val)]) (append_attr (at, val) p)"
    using m p append_attr_props [OF p(1), of "(at, val)"] fits'
    by (simp add: tlv_msg_def length_tlv_encode)
qed

lemma tlv_msg_attrs: "tlv_msg h as q \<Longrightarrow> attrs q = as"
  by (simp add: tlv_msg_def tlv_full_attrs)

lemma tlv_msg_Die:
  assumes "tlv_msg h as p" and "attr_call at n v = Some val"
    and "MSG_MAX_SIZE < 48 + length (concat (map tlv_encode as)) + ROUNDUP8 (length val)"
  shows "mbuf_addattrib at n v p = Inl Die"
proof -
  have "mbuf_wf p" "bsize p = 40 + length (concat (map tlv_encode as))"
    using assms(1) mbuf_framed_wf by (simp_all add: tlv_msg_def)
  with assms(2,3) show ?thesis by (intro mbuf_addattrib_Die) simp_all
qed

section \<open>Responses\<close>

lemma MCLASS_TO_ERR_RES [simp]: "MCLASS_TO_ERR (MCLASS_TO_RES t) = MCLASS_TO_ERR t"
  by (rule word_eq_by_bits) (simp add: MCLASS_TO_ERR_def MCLASS_TO_RES_def MTYPE_CUT_CLASS_def bit_simps)

lemma MCLASS_of_response [simp]:
  "MCLASS_IS_RES (MCLASS_TO_RES t)" "MCLASS_IS_ERR (MCLASS_TO_ERR t)"
  "MTYPE_CUT_CLASS (MCLASS_TO_RES t) = MTYPE_CUT_CLASS t"
  "MTYPE_CUT_CLASS (MCLASS_TO_ERR t) = MTYPE_CUT_CLASS t"
  unfolding MCLASS_IS_RES_def MCLASS_IS_ERR_def
  by (rule word_eq_by_bits,
      simp add: MCLASS_TO_ERR_def MCLASS_TO_RES_def MTYPE_CUT_CLASS_def MTYPE_GET_CLASS_def
        MCLASS_RES_def MCLASS_ERR_def bit_simps)+

lemma response_of_wf: "mbuf_framed (response_of now p)" "mbuf_wf (response_of now p)"
  by (simp_all add: response_of_def composed_wf)

lemma response_of_tlv: "tlv_msg (response_of now p) [] (response_of now p)"
  by (simp add: response_of_def tlv_msg_composed)

definition error_header :: "u64 \<Rightarrow> mbuf \<Rightarrow> mbuf" where
  "error_header now p = composed (MCLASS_TO_ERR (HDR_GET_TYPE p)) now
     (HDR_GET_DSTID p) (HDR_GET_SRCID p) (HDR_GET_TRFID p)"

definition error_attrs :: "SC_ENUM \<Rightarrow> attrib list" where
  "error_attrs ec = [(MSG_ATTR_ERROR, be_bytes 8 ec), (MSG_ATTR_NOTICE, sc_msgstr ec @ [0])]"

lemma attr_calls:
  "attr_call MSG_ATTR_ERROR n (VA_UI64 x) = Some (be_bytes 8 x)"
  "attr_call MSG_ATTR_PEERID n (VA_UI64 x) = Some (be_bytes 8 x)"
  "attr_call MSG_ATTR_OFFERID n (VA_UI64 x) = Some (be_bytes 8 x)"
  "attr_call MSG_ATTR_SIZE n (VA_UI64 x) = Some (be_bytes 8 x)"
  "attr_call MSG_ATTR_OFFSET n (VA_UI64 x) = Some (be_bytes 8 x)"
  "attr_call MSG_ATTR_OK n v = Some []"
  "n = length s + 1 \<Longrightarrow> attr_call MSG_ATTR_NOTICE n (VA_STR s) = Some (s @ [0])"
  "n = length s + 1 \<Longrightarrow> attr_call MSG_ATTR_PEERNAME n (VA_STR s) = Some (s @ [0])"
  "n = length s + 1 \<Longrightarrow> attr_call MSG_ATTR_USERNAME n (VA_STR s) = Some (s @ [0])"
  "n = length s + 1 \<Longrightarrow> attr_call MSG_ATTR_FILENAME n (VA_STR s) = Some (s @ [0])"
  "n \<le> length d \<Longrightarrow> attr_call MSG_ATTR_CHALLENGE n (VA_BLOB d) = Some (take n d)"
  "n \<le> length d \<Longrightarrow> attr_call MSG_ATTR_DIGEST n (VA_BLOB d) = Some (take n d)"
  "n \<le> length d \<Longrightarrow> attr_call MSG_ATTR_PUBKEY n (VA_BLOB d) = Some (take n d)"
  "n \<le> length d \<Longrightarrow> attr_call MSG_ATTR_DATA n (VA_BLOB d) = Some (take n d)"
  by (simp_all add: attr_call_def attr_avtype_def msg_attrs)

lemma error_header_eq: "HDR_CLASS_TO_ERR (response_of now p) = error_header now p"
proof -
  have "hdr_ok (response_of now p)"
    by (simp add: mbuf_framed_hdr_ok response_of_wf)
  then show ?thesis
    by (intro mbuf_eqI40) (simp_all add: HDR_CLASS_TO_ERR_def response_of_def error_header_def)
qed

lemma mbuf_to_error_response_ok:
  assumes "hdr_ok p"
  obtains q where "mbuf_to_error_response now ec p = Inr q"
    and "tlv_msg (error_header now p) (error_attrs ec) q"
proof -
  let ?h = "error_header now p"
  have h: "tlv_msg ?h [] ?h"
    by (simp add: error_header_def tlv_msg_composed)
  obtain q1 where q1: "mbuf_addattrib MSG_ATTR_ERROR 8 (VA_UI64 ec) ?h = Inr q1"
    "tlv_msg ?h [(MSG_ATTR_ERROR, be_bytes 8 ec)] q1"
    using tlv_msg_add [OF h attr_calls(1) [of 8 ec]] by (auto simp: ROUNDUP8_def)
  have n: "ROUNDUP8 (length (sc_msgstr ec @ [0])) \<le> 32"
    using ROUNDUP8_mono [of "length (sc_msgstr ec) + 1" 32] length_sc_msgstr [of ec]
    by (simp add: ROUNDUP8_def)
  obtain q where q: "mbuf_addattrib MSG_ATTR_NOTICE (length (sc_msgstr ec) + 1)
       (VA_STR (sc_msgstr ec)) q1 = Inr q" "tlv_msg ?h (error_attrs ec) q"
    using tlv_msg_add [OF q1(2) attr_calls(7) [OF refl, of "sc_msgstr ec"]] n
    by (auto simp: error_attrs_def length_tlv_encode ROUNDUP8_def)
  have "mbuf_to_error_response now ec p = Inr q"
    using assms q1 q
    by (simp add: mbuf_to_error_response_def mbuf_to_response_eq error_header_eq Let_def)
  then show thesis using q that by blast
qed

section \<open>Round trip of a message\<close>

text \<open>
  \<open>add_all\<close>: the calls of \<open>mbuf_addattrib\<close> a composer makes in sequence;
  \<open>read_all\<close>: the loop of a reader that takes attributes until \<open>mbuf_getnextattrib\<close>
  reports the end.
\<close>

fun add_all :: "(u16 \<times> nat \<times> va_value) list \<Rightarrow> mbuf \<Rightarrow> mbuf res" where
  "add_all [] p = Inr p"
| "add_all ((at, n, v) # cs) p = bindr (mbuf_addattrib at n v p) (add_all cs)"

function read_all :: "mbuf \<Rightarrow> attrib list" where
  "read_all p = (case mbuf_getnextattrib p of
       (None, _) \<Rightarrow> []
     | (Some (at, al, av), q) \<Rightarrow> (at, take al (drop av (bdata p))) # read_all q)"
  by pat_completeness auto
termination
  by (relation "measure (\<lambda>p. bsize p - boff p)")
    (auto simp: mbuf_getnextattrib_def Let_def split: if_splits)

declare read_all.simps [simp del]

lemma mbuf_getnextattrib_scan:
  "attr_scan p \<Longrightarrow> mbuf_getnextattrib p = (r, q) \<Longrightarrow> attr_scan q"
  by (auto simp: mbuf_getnextattrib_def attr_scan_def Let_def split: if_splits)

lemma read_all_pending: "attr_scan p \<Longrightarrow> read_all p = pending_attrs p"
proof (induction p rule: read_all.induct)
  case (1 p)
  obtain r q where g: "mbuf_getnextattrib p = (r, q)" by force
  show ?case
  proof (cases r)
    case None
    with g 1(2) show ?thesis
      using mbuf_getnextattrib_None(2) [of p q] by (simp add: read_all.simps [of p])
  next
    case (Some a)
    obtain at al av where a: "a = (at, al, av)" by (cases a)
    with g Some have g': "mbuf_getnextattrib p = (Some (at, al, av), q)" by simp
    have "attr_scan q"
      using mbuf_getnextattrib_scan [OF 1(2) g] .
    then have "read_all q = pending_attrs q" using 1(1) g' by simp
    with g' mbuf_getnextattrib_Some(4) [OF 1(2) g'] show ?thesis
      by (simp add: read_all.simps [of p])
  qed
qed

lemma add_all_ok:
  assumes "tlv_msg h as p"
    and "list_all2 (\<lambda>(at, n, v) a. fst a = at \<and> attr_call at n v = Some (snd a)) cs bs"
    and "40 + length (concat (map tlv_encode (as @ bs))) \<le> MSG_MAX_SIZE"
  shows "\<exists>q. add_all cs p = Inr q \<and> tlv_msg h (as @ bs) q"
  using assms
proof (induction cs arbitrary: as bs p)
  case Nil
  then show ?case by simp
next
  case (Cons c cs)
  obtain at n v where c: "c = (at, n, v)" by (cases c)
  from Cons.prems(2) c obtain val bs' where bs: "bs = (at, val) # bs'"
    and call: "attr_call at n v = Some val"
    and rest: "list_all2 (\<lambda>(at, n, v) a. fst a = at \<and> attr_call at n v = Some (snd a)) cs bs'"
    by (cases bs) auto
  from Cons.prems(3) bs have "48 + length (concat (map tlv_encode as)) + ROUNDUP8 (length val) \<le> 65440"
    by (simp add: length_tlv_encode)
  then obtain q where q: "mbuf_addattrib at n v p = Inr q" "tlv_msg h (as @ [(at, val)]) q"
    using tlv_msg_add [OF Cons.prems(1) call] by blast
  with Cons.IH [OF q(2) rest] Cons.prems(3) bs c show ?case by simp
qed

lemma message_read_back:
  assumes "tlv_msg h as q"
  shows "read_all (mbuf_resetgetattrib q) = as"
proof -
  have "attr_scan (mbuf_resetgetattrib q)"
    using assms by (simp add: attr_scan_def mbuf_resetgetattrib_def tlv_msg_def mbuf_framed_def)
  then show ?thesis
    using assms by (simp add: read_all_pending pending_attrs_reset tlv_msg_attrs)
qed

text \<open>Whatever is added, a message stays well framed, and its header fields stay the same.\<close>

lemma mb_store_framed:
  assumes "mbuf_framed p" and "40 \<le> off" and "mb_store off ds p = Inr q"
  shows "mbuf_framed q" and "take 40 (bdata q) = take 40 (bdata p)" and "boff q = boff p"
    and "bsize q = bsize p"
proof -
  have b: "off + length ds \<le> length (bdata p)" "q = p\<lparr>bdata := overwrite (bdata p) off ds\<rparr>"
    using assms(3) by (auto simp: mb_store_def split: if_splits)
  then show t: "take 40 (bdata q) = take 40 (bdata p)" "boff q = boff p" "bsize q = bsize p"
    using assms(2) by (auto simp: take_overwrite_below)
  have "HDR_GET_PAYLEN q = HDR_GET_PAYLEN p" by (rule hdr_get_cong(2) [OF t(1)])
  then show "mbuf_framed q" using assms(1) b by (simp add: mbuf_framed_def)
qed

lemma put_avalue_framed:
  assumes "mbuf_framed p" and "40 \<le> off" and "put_avalue avt off len v p = Inr q"
  shows "mbuf_framed q \<and> take 40 (bdata q) = take 40 (bdata p) \<and> boff q = boff p \<and> bsize q = bsize p"
  using assms mb_store_framed [OF assms(1,2)]
  by (cases "(avt, off, len, v, p)" rule: put_avalue.cases) (auto split: if_splits)

lemma mbuf_addattrib_framed:
  assumes p: "mbuf_framed p" "boff p \<le> bsize p" and r: "mbuf_addattrib at n v p = Inr q"
  shows "mbuf_framed q" and "boff q = boff p" and "bsize p \<le> bsize q" and "HDR_GET_TYPE q = HDR_GET_TYPE p"
    and "HDR_GET_SRCID q = HDR_GET_SRCID p" and "HDR_GET_DSTID q = HDR_GET_DSTID p"
    and "HDR_GET_TRFID q = HDR_GET_TRFID p" and "HDR_GET_TS q = HDR_GET_TS p"
proof -
  obtain avt len where avt: "attr_avtype at n = Some (avt, len)"
    using r by (auto simp: mbuf_addattrib_def split: option.splits)
  let ?n = "ROUNDUP8 len + 8"
  have wf: "mbuf_wf p" using p by (simp add: mbuf_wf_def mbuf_framed_def)
  have fits: "bsize p + ?n \<le> 65440"
  proof (rule ccontr)
    assume "\<not> bsize p + ?n \<le> 65440"
    with mbuf_grow_Die [OF wf, of ?n] r avt show False by (simp add: mbuf_addattrib_def Let_def)
  qed
  let ?p1 = "p\<lparr>bsize := bsize p + ?n, bdata := bdata p @ replicate ?n 0\<rparr>"
  let ?p2 = "HDR_SET_PAYLEN (of_nat (bsize p + ?n - 40)) ?p1"
  have g: "mbuf_grow ?n p = Inr ?p1" by (rule mbuf_grow_eq [OF wf fits])
  obtain q1 q2 q3 where s: "mb_store (bsize p) (native_store HOST 2 (HTON16 HOST at)) ?p2 = Inr q1"
    "mb_store (bsize p + 2) (native_store HOST 2 (HTON16 HOST (of_nat len))) q1 = Inr q2"
    "mb_store (bsize p + 4) (native_store HOST 4 (HTON32 HOST 0)) q2 = Inr q3"
    "put_avalue avt (bsize p + 8) len v q3 = Inr q"
    using r avt g by (auto simp: mbuf_addattrib_def Let_def)
  have b40: "40 \<le> bsize p" using p(1) by (simp add: mbuf_framed_def)
  have ok1: "hdr_ok ?p1" using p(1) by (simp add: mbuf_framed_def hdr_ok_def)
  have "unat (of_nat (bsize p + ?n - 40) :: u16) = bsize p + ?n - 40"
    using fits by (intro unat_of_nat_u16) linarith
  then have f2: "mbuf_framed ?p2"
    using p(1) fits ok1 by (simp add: mbuf_framed_def)
  have f3: "mbuf_framed q3" "take 40 (bdata q3) = take 40 (bdata ?p2)" "boff q3 = boff ?p2" "bsize q3 = bsize ?p2"
    using mb_store_framed [OF f2 b40 s(1)] mb_store_framed [OF _ _ s(2)] mb_store_framed [OF _ _ s(3)] b40 by auto
  have b48: "40 \<le> bsize p + 8" using b40 by simp
  have f4: "mbuf_framed q" "take 40 (bdata q) = take 40 (bdata ?p2)" "boff q = boff ?p2" "bsize q = bsize ?p2"
    using put_avalue_framed [OF f3(1) b48 s(4)] f3 by auto
  then show "mbuf_framed q" "boff q = boff p" "bsize p \<le> bsize q" by simp_all
  have t40: "take 40 (bdata ?p1) = take 40 (bdata p)" using p(1) by (simp add: mbuf_framed_def)
  show "HDR_GET_TYPE q = HDR_GET_TYPE p" "HDR_GET_SRCID q = HDR_GET_SRCID p"
    "HDR_GET_DSTID q = HDR_GET_DSTID p" "HDR_GET_TRFID q = HDR_GET_TRFID p" "HDR_GET_TS q = HDR_GET_TS p"
    using hdr_get_cong [OF f4(2)] hdr_get_set_other [OF ok1] hdr_get_cong [OF t40] by simp_all
qed

lemma add_all_framed:
  "mbuf_framed p \<Longrightarrow> boff p = 0 \<Longrightarrow> add_all as p = Inr q \<Longrightarrow>
     mbuf_framed q \<and> boff q = 0 \<and> HDR_GET_TYPE q = HDR_GET_TYPE p \<and> HDR_GET_SRCID q = HDR_GET_SRCID p \<and>
     HDR_GET_DSTID q = HDR_GET_DSTID p \<and> HDR_GET_TRFID q = HDR_GET_TRFID p \<and> HDR_GET_TS q = HDR_GET_TS p"
proof (induction as arbitrary: p)
  case (Cons a as)
  obtain at n v where a: "a = (at, n, v)" by (cases a)
  obtain p1 where p1: "mbuf_addattrib at n v p = Inr p1" "add_all as p1 = Inr q"
    using Cons.prems(3) a by auto
  show ?case using mbuf_addattrib_framed [OF Cons.prems(1) _ p1(1)] Cons.IH [OF _ _ p1(2)] Cons.prems(2) by simp
qed simp

text \<open>A string value ends at its first null octet.\<close>

lemma av_str_value:
  assumes "take (length v) (drop av (bdata p)) = v" and "0 \<in> set v"
  shows "av_str p av = Inr (takeWhile (\<lambda>c. c \<noteq> 0) v)"
proof -
  have split: "drop av (bdata p) = v @ drop (length v) (drop av (bdata p))"
    using assms(1) by (metis append_take_drop_id)
  have "takeWhile (\<lambda>c. c \<noteq> 0) (v @ xs) = takeWhile (\<lambda>c. c \<noteq> 0) v" for xs
    using assms(2) by (intro takeWhile_append1) auto
  moreover have "0 \<in> set (drop av (bdata p))" using assms(2) by (subst split) simp
  ultimately show ?thesis unfolding av_str_def cstr_at_def by (subst (2) split) simp
qed

end
