(* ===== verification/Msg_Queue.thy ===== *)
theory Msg_Queue
  imports Message
begin

text \<open>
  The send queues of the server (src/srvmain.c, \<^verbatim>\<open>enqueue_msg\<close> and \<^verbatim>\<open>dequeue_msg\<close> on
  the pointers \<^verbatim>\<open>qhead\<close> and \<^verbatim>\<open>qtail\<close> of a client), as singly linked lists of
  message buffers in a store of addresses. The interface \<open>msg_queue\<close> states what the rest of
  the program relies on; the linked list and the plain list that the server and client models
  use both satisfy it.
\<close>

section \<open>The interface\<close>

locale msg_queue =
  fixes content :: "'q \<Rightarrow> mbuf list"
    and inv :: "'q \<Rightarrow> bool"
    and enq :: "mbuf \<Rightarrow> 'q \<Rightarrow> 'q"
    and deq :: "'q \<Rightarrow> 'q res"
  assumes content_enq: "inv q \<Longrightarrow> content (enq m q) = content q @ [m\<lparr>boff := 0\<rparr>]"
    and inv_enq: "inv q \<Longrightarrow> inv (enq m q)"
    and deq_ok: "inv q \<Longrightarrow> content q \<noteq> [] \<Longrightarrow>
          \<exists>q'. deq q = Inr q' \<and> inv q' \<and> content q' = tl (content q)"
    and deq_empty: "inv q \<Longrightarrow> content q = [] \<Longrightarrow> deq q = Inl NullDeref"
begin

fun enq_all :: "mbuf list \<Rightarrow> 'q \<Rightarrow> 'q" where
  "enq_all [] q = q"
| "enq_all (m # ms) q = enq_all ms (enq m q)"

fun deq_n :: "nat \<Rightarrow> 'q \<Rightarrow> 'q res" where
  "deq_n 0 q = Inr q"
| "deq_n (Suc n) q = bindr (deq q) (deq_n n)"

lemma enq_all_content:
  "inv q \<Longrightarrow> inv (enq_all ms q) \<and> content (enq_all ms q) = content q @ map (\<lambda>m. m\<lparr>boff := 0\<rparr>) ms"
  by (induction ms arbitrary: q) (simp_all add: content_enq inv_enq)

lemma deq_n_content:
  "inv q \<Longrightarrow> n \<le> length (content q) \<Longrightarrow>
     \<exists>q'. deq_n n q = Inr q' \<and> inv q' \<and> content q' = drop n (content q)"
proof (induction n arbitrary: q)
  case 0
  then show ?case by simp
next
  case (Suc n)
  then have "content q \<noteq> []" by auto
  with Suc.prems obtain q1 where q1: "deq q = Inr q1" "inv q1" "content q1 = tl (content q)"
    using deq_ok by blast
  then have "n \<le> length (content q1)" using Suc.prems by simp
  with Suc.IH [OF q1(2)] q1 show ?case by (auto simp: drop_Suc)
qed

text \<open>First in, first out: what is queued after \<open>q\<close>'s own messages leaves after them, in order.\<close>

lemma fifo:
  assumes "inv q"
  shows "\<exists>q'. deq_n (length (content q)) (enq_all ms q) = Inr q' \<and>
           content q' = map (\<lambda>m. m\<lparr>boff := 0\<rparr>) ms"
proof -
  have e: "inv (enq_all ms q)" "content (enq_all ms q) = content q @ map (\<lambda>m. m\<lparr>boff := 0\<rparr>) ms"
    using enq_all_content [OF assms] by simp_all
  with deq_n_content [of "enq_all ms q" "length (content q)"] show ?thesis by auto
qed

lemma never_empty_deq: "inv q \<Longrightarrow> deq_n (length (content q) + 1) q = Inl NullDeref"
proof (induction "content q" arbitrary: q)
  case Nil
  then show ?case by (simp add: deq_empty)
next
  case (Cons m ms)
  then obtain q1 where q1: "deq q = Inr q1" "inv q1" "content q1 = tl (content q)"
    using deq_ok by (metis list.distinct(1))
  with Cons have "deq_n (length ms + 1) q1 = Inl NullDeref"
    by (metis list.sel(3))
  with q1 Cons(2) show ?case by (metis Suc_eq_plus1 bindr.simps(2) deq_n.simps(2) length_Cons)
qed

end

section \<open>The plain list\<close>

definition list_enq :: "mbuf \<Rightarrow> mbuf list \<Rightarrow> mbuf list" where
  "list_enq m ms = ms @ [m\<lparr>boff := 0\<rparr>]"

definition list_deq :: "mbuf list \<Rightarrow> mbuf list res" where
  "list_deq ms = (case ms of [] \<Rightarrow> Inl NullDeref | m # ms' \<Rightarrow> Inr ms')"

interpretation lq: msg_queue "\<lambda>ms. ms" "\<lambda>_. True" list_enq list_deq
  by unfold_locales (auto simp: list_enq_def list_deq_def split: list.splits)

section \<open>The linked list\<close>

type_synonym addr = nat

record qnode =
  qn_msg :: mbuf
  qn_next :: "addr option"

record ptr_queue =
  q_store :: "addr \<rightharpoonup> qnode"
  q_head :: "addr option"
  q_tail :: "addr option"

text \<open>
  \<open>enqueue_msg\<close>: \<open>m\<close> is the address of the message. Its offset and link are cleared, the old
  tail is linked to it, and it becomes the tail, and the head of an empty queue.
\<close>

definition set_next :: "addr \<Rightarrow> addr option \<Rightarrow> (addr \<rightharpoonup> qnode) \<Rightarrow> (addr \<rightharpoonup> qnode)" where
  "set_next a n h = (case h a of None \<Rightarrow> h | Some nd \<Rightarrow> h(a \<mapsto> nd\<lparr>qn_next := n\<rparr>))"

definition enqueue_msg :: "addr \<Rightarrow> ptr_queue \<Rightarrow> ptr_queue res" where
  "enqueue_msg m q =
     (case q_store q m of
        None \<Rightarrow> Inl NullDeref
      | Some nd \<Rightarrow>
          (let h = (q_store q)(m \<mapsto> nd\<lparr>qn_msg := (qn_msg nd)\<lparr>boff := 0\<rparr>, qn_next := None\<rparr>);
               linked = (case q_tail q of
                   None \<Rightarrow> Inr h
                 | Some t \<Rightarrow> if h t = None then Inl OutOfBounds else Inr (set_next t (Some m) h))
           in bindr linked (\<lambda>h.
              Inr (q\<lparr>q_store := h, q_tail := Some m,
                     q_head := (if q_head q = None then Some m else q_head q)\<rparr>))))"

definition dequeue_msg :: "ptr_queue \<Rightarrow> ptr_queue res" where
  "dequeue_msg q =
     (case q_head q of
        None \<Rightarrow> Inl NullDeref
      | Some a \<Rightarrow>
         (case q_store q a of
            None \<Rightarrow> Inl NullDeref
          | Some nd \<Rightarrow> Inr (q\<lparr>q_tail := (if q_tail q = q_head q then None else q_tail q),
                              q_store := (q_store q)(a := None),
                              q_head := qn_next nd\<rparr>)))"

text \<open>\<open>chain h a as\<close>: following the links from \<open>a\<close> visits exactly the addresses \<open>as\<close>.\<close>

fun chain :: "(addr \<rightharpoonup> qnode) \<Rightarrow> addr option \<Rightarrow> addr list \<Rightarrow> bool" where
  "chain h a [] \<longleftrightarrow> a = None"
| "chain h a (x # xs) \<longleftrightarrow> a = Some x \<and> (\<exists>nd. h x = Some nd \<and> chain h (qn_next nd) xs)"

definition ptr_inv :: "ptr_queue \<Rightarrow> addr list \<Rightarrow> bool" where
  "ptr_inv q as \<longleftrightarrow> chain (q_store q) (q_head q) as \<and> distinct as \<and>
     q_tail q = (if as = [] then None else Some (last as))"

definition ptr_msgs :: "ptr_queue \<Rightarrow> addr list \<Rightarrow> mbuf list" where
  "ptr_msgs q as = map (\<lambda>a. qn_msg (the (q_store q a))) as"

lemma chain_upd: "x \<notin> set xs \<Longrightarrow> chain (h(x := v)) a xs = chain h a xs"
  by (induction xs arbitrary: a) auto

lemma chain_dom: "chain h a xs \<Longrightarrow> x \<in> set xs \<Longrightarrow> h x \<noteq> None"
  by (induction xs arbitrary: a) auto

lemma chain_snoc:
  assumes "chain h a xs" and "distinct xs" and "m \<notin> set xs" and "h m = Some nd" and "qn_next nd = None"
  shows "chain (if xs = [] then h else set_next (last xs) (Some m) h)
           (if xs = [] then Some m else a) (xs @ [m])"
  using assms
proof (induction xs arbitrary: a)
  case Nil
  then show ?case by simp
next
  case (Cons x xs)
  then obtain ndx where x: "a = Some x" "h x = Some ndx" "chain h (qn_next ndx) xs" by auto
  show ?case
  proof (cases "xs = []")
    case True
    with Cons.prems x show ?thesis by (auto simp: set_next_def)
  next
    case False
    then have l: "last xs \<noteq> x" "last xs \<in> set xs" using Cons.prems by auto
    with x have "set_next (last xs) (Some m) h x = Some ndx"
      by (auto simp: set_next_def split: option.splits)
    with Cons.IH [OF x(3)] Cons.prems False x show ?thesis by simp
  qed
qed

lemma set_next_msg: "map_option qn_msg (set_next t n h a) = map_option qn_msg (h a)"
  by (auto simp: set_next_def split: option.splits)

lemma map_option_the: "map_option f x = map_option f y \<Longrightarrow> y \<noteq> None \<Longrightarrow> f (the x) = f (the y)"
  by (cases x; cases y) auto

text \<open>Each operation does to the linked list what the list operation does to its contents.\<close>

lemma enqueue_msg_refines:
  assumes inv: "ptr_inv q as" and m: "q_store q m = Some nd" "m \<notin> set as"
  shows "\<exists>q'. enqueue_msg m q = Inr q' \<and> ptr_inv q' (as @ [m]) \<and>
           ptr_msgs q' (as @ [m]) = list_enq (qn_msg nd) (ptr_msgs q as)"
proof -
  let ?nd = "nd\<lparr>qn_msg := (qn_msg nd)\<lparr>boff := 0\<rparr>, qn_next := None\<rparr>"
  let ?h = "(q_store q)(m \<mapsto> ?nd)"
  let ?h' = "if as = [] then ?h else set_next (last as) (Some m) ?h"
  let ?q = "q\<lparr>q_store := ?h', q_tail := Some m, q_head := (if as = [] then Some m else q_head q)\<rparr>"
  have c: "chain ?h (q_head q) as" and d: "distinct as"
    and t: "q_tail q = (if as = [] then None else Some (last as))"
    using inv m by (simp_all add: ptr_inv_def chain_upd)
  have hd: "(q_head q = None) = (as = [])"
    using c by (cases as) auto
  have "q_store q (last as) \<noteq> None" if "as \<noteq> []"
    using that inv chain_dom [of "q_store q" "q_head q" as "last as"] by (simp add: ptr_inv_def)
  then have e: "enqueue_msg m q = Inr ?q"
    using m t hd by (cases "as = []") (auto simp: enqueue_msg_def Let_def)
  have "chain ?h' (if as = [] then Some m else q_head q) (as @ [m])"
    by (rule chain_snoc [OF c d m(2), of ?nd]) simp_all
  then have i: "ptr_inv ?q (as @ [m])"
    using d m by (simp add: ptr_inv_def)
  have msg: "map_option qn_msg (?h' a) = map_option qn_msg (?h a)" for a
    by (cases "as = []") (simp_all only: set_next_msg if_True if_False simp_thms)
  have old: "qn_msg (the (?h' a)) = qn_msg (the (q_store q a))" if "a \<in> set as" for a
  proof -
    have "a \<noteq> m" using that m by auto
    then have "map_option qn_msg (?h' a) = map_option qn_msg (q_store q a)" using msg by simp
    moreover have "q_store q a \<noteq> None"
      using inv chain_dom that by (auto simp: ptr_inv_def)
    ultimately show ?thesis by (rule map_option_the)
  qed
  have new: "qn_msg (the (?h' m)) = (qn_msg nd)\<lparr>boff := 0\<rparr>"
  proof -
    have "map_option qn_msg (?h' m) = Some ((qn_msg nd)\<lparr>boff := 0\<rparr>)"
      using msg [of m] by simp
    then show ?thesis using map_option_the [of qn_msg "?h' m" "?h m"] msg [of m] by simp
  qed
  have "ptr_msgs ?q (as @ [m]) = list_enq (qn_msg nd) (ptr_msgs q as)"
    using old new by (simp add: ptr_msgs_def list_enq_def)
  with e i show ?thesis by blast
qed

lemma dequeue_msg_refines:
  assumes inv: "ptr_inv q (a # as)"
  shows "\<exists>q'. dequeue_msg q = Inr q' \<and> ptr_inv q' as \<and> q_store q' a = None \<and>
           list_deq (ptr_msgs q (a # as)) = Inr (ptr_msgs q' as)"
proof -
  obtain nd where h: "q_head q = Some a" "q_store q a = Some nd" "chain (q_store q) (qn_next nd) as"
    using inv by (auto simp: ptr_inv_def)
  have d: "a \<notin> set as" "distinct as" and t: "q_tail q = Some (last (a # as))"
    using inv by (auto simp: ptr_inv_def)
  have "(q_tail q = q_head q) = (as = [])"
    using h t d by (cases as rule: rev_cases) auto
  with h t d have "dequeue_msg q = Inr (q\<lparr>q_tail := (if as = [] then None else q_tail q),
       q_store := (q_store q)(a := None), q_head := qn_next nd\<rparr>)" (is "_ = Inr ?q")
    by (simp add: dequeue_msg_def)
  moreover have "ptr_inv ?q as"
    using h t d by (simp add: ptr_inv_def chain_upd)
  moreover have "ptr_msgs ?q as = ptr_msgs q as"
    using d by (auto simp: ptr_msgs_def)
  ultimately show ?thesis
    by (simp add: list_deq_def ptr_msgs_def)
qed

lemma dequeue_msg_empty: "ptr_inv q [] \<Longrightarrow> dequeue_msg q = Inl NullDeref"
  by (simp add: ptr_inv_def dequeue_msg_def)

end
