(* ===== verification/Framing.thy ===== *)
theory Framing
  imports Msg_Queue
begin

text \<open>
  Framing of messages on the byte stream: the receive and send parts that \<^verbatim>\<open>handle_io\<close> of
  src/srvmain.c and \<^verbatim>\<open>handle_srvio\<close> of src/cltmain.c share. A receive buffer first collects
  the 40 bytes of a header, is then resized to hold the payload the header announces, and is
  handed on when it is full; the head of a send queue is written from its offset on and removed
  when it is completely written. The lemmas show that the frames recovered do not depend on how
  the kernel cuts the stream into reads and writes.
\<close>

section \<open>Results of read() and write()\<close>

text \<open>
  \<open>Rd_Error True\<close>: a transient error (\<^verbatim>\<open>EAGAIN\<close>, \<^verbatim>\<open>EWOULDBLOCK\<close>, \<^verbatim>\<open>EINTR\<close>);
  \<open>Rd_Data []\<close>: end of file.
\<close>

datatype read_res = Rd_Error bool | Rd_Data "byte list"
datatype write_res = Wr_Error bool | Wr_Count nat

section \<open>Receiving\<close>

datatype rx = Rx_Partial mbuf | Rx_Done mbuf

text \<open>The bytes that arrived are stored at the offset, which advances.\<close>

definition rx_store :: "byte list \<Rightarrow> mbuf \<Rightarrow> mbuf res" where
  "rx_store d p =
     bindr (mb_store (boff p) d p) (\<lambda>p. Inr (p\<lparr>boff := boff p + length d\<rparr>))"

text \<open>Buffer filled: make room for the payload, or the message is complete.\<close>

definition rx_advance :: "(nat \<Rightarrow> byte) \<Rightarrow> mbuf \<Rightarrow> rx res" where
  "rx_advance junk p =
     (if boff p = bsize p then
        bindr (if boff p = MSG_HDR_SIZE then
                 (let paylen = HDR_GET_PAYLEN p in
                  if paylen > 0 then mbuf_resize junk (unat paylen) p else Inr p)
               else Inr p)
          (\<lambda>p. Inr (if boff p = bsize p then Rx_Done p else Rx_Partial p))
      else Inr (Rx_Partial p))"

definition rx_recv :: "(nat \<Rightarrow> byte) \<Rightarrow> byte list \<Rightarrow> mbuf \<Rightarrow> rx res" where
  "rx_recv junk d p = bindr (rx_store d p) (rx_advance junk)"

text \<open>One \<^verbatim>\<open>read()\<close>: the connection is closed, there is nothing yet, or the buffer is fuller.\<close>

datatype rd_step = Rd_Closed | Rd_Skip | Rd_Got mbuf

definition read_client :: "read_res \<Rightarrow> mbuf \<Rightarrow> rd_step res" where
  "read_client rd p =
     (if boff p < bsize p then
        (case rd of
           Rd_Error transient \<Rightarrow> Inr (if transient then Rd_Skip else Rd_Closed)
         | Rd_Data d \<Rightarrow>
             let d = take (bsize p - boff p) d in
             if d = [] then Inr Rd_Closed else bindr (rx_store d p) (\<lambda>p. Inr (Rd_Got p)))
      else Inr (Rd_Got p))"

text \<open>Invariant of a receive buffer between reads, and the bytes it holds.\<close>

definition rx_inv :: "mbuf \<Rightarrow> bool" where
  "rx_inv p \<longleftrightarrow> mbuf_wf p \<and>
     (bsize p = MSG_HDR_SIZE \<and> boff p < MSG_HDR_SIZE \<or>
      MSG_HDR_SIZE \<le> boff p \<and> boff p < bsize p \<and>
        unat (HDR_GET_PAYLEN p) = bsize p - MSG_HDR_SIZE)"

definition rx_bytes :: "mbuf \<Rightarrow> byte list" where
  "rx_bytes p = take (boff p) (bdata p)"

lemma rx_inv_new: "rx_inv (mbuf_new junk)" "rx_bytes (mbuf_new junk) = []"
  by (simp_all add: rx_inv_def mbuf_new_wf) (simp_all add: mbuf_new_def rx_bytes_def)

lemma rx_inv_room: "rx_inv p \<Longrightarrow> boff p < bsize p \<and> bsize p = length (bdata p)"
  by (auto simp: rx_inv_def mbuf_wf_def)

lemma rx_store_ok:
  assumes "rx_inv p" and "length d \<le> bsize p - boff p"
  obtains q where "rx_store d p = Inr q" and "rx_bytes q = rx_bytes p @ d"
    and "bsize q = bsize p" and "boff q = boff p + length d" and "length (bdata q) = length (bdata p)"
    and "bsize p \<noteq> MSG_HDR_SIZE \<Longrightarrow> HDR_GET_PAYLEN q = HDR_GET_PAYLEN p"
proof
  let ?q = "p\<lparr>bdata := overwrite (bdata p) (boff p) d, boff := boff p + length d\<rparr>"
  have len: "boff p + length d \<le> length (bdata p)"
    using assms rx_inv_room [OF assms(1)] by linarith
  then show "rx_store d p = Inr ?q"
    by (simp add: rx_store_def mb_store_def)
  show "rx_bytes ?q = rx_bytes p @ d"
    using len by (simp add: rx_bytes_def overwrite_def)
  show "bsize ?q = bsize p" "boff ?q = boff p + length d"
    by simp_all
  show "length (bdata ?q) = length (bdata p)" using len by simp
  show "HDR_GET_PAYLEN ?q = HDR_GET_PAYLEN p" if "bsize p \<noteq> MSG_HDR_SIZE"
  proof -
    have "40 \<le> boff p" using assms(1) that by (auto simp: rx_inv_def)
    then have "take 40 (bdata ?q) = take 40 (bdata p)"
      using len by (simp add: take_overwrite_below)
    then show ?thesis by (rule hdr_get_cong)
  qed
qed

text \<open>
  One read. The buffer either stays a receive buffer holding the old and the new bytes, or is a
  complete frame of exactly these bytes; the process exits if the header announces a payload
  above the limit, and only then.
\<close>

lemma rx_recv_cases:
  assumes inv: "rx_inv p" and d: "length d \<le> bsize p - boff p"
  shows "(\<exists>q. rx_recv junk d p = Inr (Rx_Partial q) \<and> rx_inv q \<and> rx_bytes q = rx_bytes p @ d) \<or>
    (\<exists>q. rx_recv junk d p = Inr (Rx_Done q) \<and> mbuf_framed q \<and> boff q = bsize q \<and>
         bdata q = rx_bytes p @ d) \<or>
    (rx_recv junk d p = Inl Die \<and> length (rx_bytes p @ d) = MSG_HDR_SIZE \<and>
         MSG_MAX_PAY_SIZE < unat (be_word (take 2 (drop 2 (rx_bytes p @ d))) :: u16))"
proof -
  obtain q where q: "rx_store d p = Inr q" "rx_bytes q = rx_bytes p @ d"
    "bsize q = bsize p" "boff q = boff p + length d" "length (bdata q) = length (bdata p)"
    and pl: "bsize p \<noteq> MSG_HDR_SIZE \<Longrightarrow> HDR_GET_PAYLEN q = HDR_GET_PAYLEN p"
    using rx_store_ok [OF inv d] by blast
  have wf: "mbuf_wf q"
    using inv q rx_inv_room [OF inv] d by (auto simp: rx_inv_def mbuf_wf_def)
  then have len: "bsize q = length (bdata q)" and ok: "hdr_ok q"
    by (simp_all add: mbuf_wf_def mbuf_wf_hdr_ok)
  have recv: "rx_recv junk d p = rx_advance junk q"
    by (simp add: rx_recv_def q)
  show ?thesis
  proof (cases "boff q = bsize q")
    case False
    then have "rx_inv q"
      using inv q wf pl rx_inv_room [OF inv] d by (auto simp: rx_inv_def)
    with False recv q(2) show ?thesis by (simp add: rx_advance_def)
  next
    case full: True
    then have all: "bdata q = rx_bytes p @ d"
      using q(2) len by (simp add: rx_bytes_def)
    show ?thesis
    proof (cases "bsize q = MSG_HDR_SIZE")
      case False
      with full have "rx_advance junk q = Inr (Rx_Done q)" by (simp add: rx_advance_def)
      moreover have "mbuf_framed q"
        using False wf inv pl q by (auto simp: mbuf_framed_def mbuf_wf_def rx_inv_def)
      ultimately show ?thesis using recv all full by simp
    next
      case hdr: True
      have pv: "HDR_GET_PAYLEN q = be_word (take 2 (drop 2 (rx_bytes p @ d)))"
        using hdr_get_be(2) [OF ok] all by simp
      show ?thesis
      proof (cases "HDR_GET_PAYLEN q = 0")
        case True
        then have "mbuf_framed q" using hdr wf by (simp add: mbuf_framed_def mbuf_wf_def)
        with True full hdr recv all show ?thesis by (simp add: rx_advance_def)
      next
        case nz: False
        then have pos: "0 < HDR_GET_PAYLEN q" "0 < unat (HDR_GET_PAYLEN q)"
          by (simp_all add: word_neq_0_conv unat_gt_0)
        then have adv: "rx_advance junk q =
            bindr (mbuf_resize junk (unat (HDR_GET_PAYLEN q)) q)
              (\<lambda>p. Inr (if boff p = bsize p then Rx_Done p else Rx_Partial p))"
          using full hdr by (simp add: rx_advance_def Let_def)
        show ?thesis
        proof (cases "mbuf_resize junk (unat (HDR_GET_PAYLEN q)) q")
          case (Inl e)
          then have "MSG_MAX_PAY_SIZE < unat (HDR_GET_PAYLEN q)" "e = Die"
            by (simp_all add: mbuf_resize_Inl_iff)
          with Inl adv recv pv all hdr len show ?thesis by simp
        next
          case (Inr r)
          note r = mbuf_resize_wf [OF Inr]
          have "take 40 (bdata r) = take 40 (bdata q)"
            using Inr hdr len by (auto simp: mbuf_resize_def Let_def split: if_splits)
          then have "HDR_GET_PAYLEN r = HDR_GET_PAYLEN q" by (rule hdr_get_cong)
          moreover have "boff r = 40" using r full hdr by simp
          ultimately have "rx_inv r" using r pos by (simp add: rx_inv_def)
          moreover have "rx_bytes r = rx_bytes p @ d"
          proof -
            have "take 40 (bdata q) = bdata q" using hdr len by simp
            with \<open>take 40 (bdata r) = _\<close> \<open>boff r = 40\<close> all show ?thesis
              by (simp only: rx_bytes_def [of r])
          qed
          moreover have "boff r \<noteq> bsize r"
            using r pos \<open>boff r = 40\<close> by linarith
          ultimately show ?thesis
            using Inr adv recv by simp
        qed
      qed
    qed
  qed
qed

lemma rx_take_room: "rx_inv p \<Longrightarrow> length (take (bsize p - boff p) d) \<le> bsize p - boff p"
  by simp

lemma read_client_cases:
  assumes "rx_inv p"
  obtains (closed) "read_client rd p = Inr Rd_Closed" | (skip) "read_client rd p = Inr Rd_Skip"
  | (got) d q where "read_client rd p = Inr (Rd_Got q)" and "rx_store d p = Inr q"
      and "length d \<le> bsize p - boff p"
proof -
  have room: "boff p < bsize p" using rx_inv_room [OF assms] by blast
  show thesis
  proof (cases rd)
    case (Rd_Error t)
    with room that show thesis by (cases t) (auto simp: read_client_def)
  next
    case (Rd_Data d)
    show thesis
    proof (cases "take (bsize p - boff p) d = []")
      case True
      with Rd_Data room closed show thesis by (simp add: read_client_def)
    next
      case False
      obtain q where "rx_store (take (bsize p - boff p) d) p = Inr q"
        using rx_store_ok [OF assms rx_take_room [OF assms, of d]] by metis
      with False Rd_Data room got [of q "take (bsize p - boff p) d"] show thesis
        by (simp add: read_client_def Let_def)
    qed
  qed
qed

section \<open>Receiving a stream\<close>

text \<open>
  \<open>rx_stream junk p ks bs\<close>: the reads that take the available stream \<open>bs\<close>, the kernel
  returning at most \<open>k + 1\<close> bytes at a read for each \<open>k\<close> of \<open>ks\<close>, and never more than
  the room in the buffer, which is the count the program passes. Result: the messages handed on,
  the receive buffer and the bytes not yet read.
\<close>

fun rx_stream :: "(nat \<Rightarrow> byte) \<Rightarrow> mbuf \<Rightarrow> nat list \<Rightarrow> byte list \<Rightarrow>
    (mbuf list \<times> mbuf \<times> byte list) res" where
  "rx_stream junk p [] bs = Inr ([], p, bs)"
| "rx_stream junk p (k # ks) bs =
     (if bs = [] then Inr ([], p, bs)
      else let n = min (Suc k) (bsize p - boff p) in
        bindr (rx_recv junk (take n bs) p) (\<lambda>r.
        case r of
          Rx_Partial q \<Rightarrow> rx_stream junk q ks (drop n bs)
        | Rx_Done m \<Rightarrow> bindr (rx_stream junk (mbuf_new junk) ks (drop n bs))
                        (\<lambda>(ms, q, rest). Inr (m # ms, q, rest))))"

text \<open>Nothing is lost, reordered or invented, whatever the stream and the reads.\<close>

lemma rx_stream_sound:
  "rx_inv p \<Longrightarrow> rx_stream junk p ks bs = Inr (ms, q, rest) \<Longrightarrow>
     rx_inv q \<and> (\<forall>m \<in> set ms. mbuf_framed m) \<and>
     concat (map bdata ms) @ rx_bytes q @ rest = rx_bytes p @ bs"
proof (induction ks arbitrary: p bs ms)
  case Nil
  then show ?case by auto
next
  case (Cons k ks)
  show ?case
  proof (cases "bs = []")
    case True
    with Cons.prems show ?thesis by auto
  next
    case False
    define n where "n = min (Suc k) (bsize p - boff p)"
    have "length (take n bs) \<le> bsize p - boff p" by (simp add: n_def)
    note c = rx_recv_cases [OF Cons.prems(1) this, of junk]
    have split: "take n bs @ drop n bs = bs" by simp
    from Cons.prems(2) False obtain r where r: "rx_recv junk (take n bs) p = Inr r"
      by (auto simp: n_def Let_def)
    show ?thesis
    proof (cases r)
      case (Rx_Partial p')
      with c r have p': "rx_inv p'" "rx_bytes p' = rx_bytes p @ take n bs" by auto
      have "rx_stream junk p' ks (drop n bs) = Inr (ms, q, rest)"
        using Cons.prems(2) False r Rx_Partial by (simp add: n_def Let_def)
      from Cons.IH [OF p'(1) this] p'(2) split show ?thesis by simp
    next
      case (Rx_Done m)
      with c r have m: "mbuf_framed m" "bdata m = rx_bytes p @ take n bs" by auto
      obtain ms' where ms: "ms = m # ms'"
        and rest: "rx_stream junk (mbuf_new junk) ks (drop n bs) = Inr (ms', q, rest)"
        using Cons.prems(2) False r Rx_Done by (auto simp: n_def Let_def)
      from Cons.IH [OF rx_inv_new(1) rest] ms m split show ?thesis
        by (simp add: rx_inv_new)
    qed
  qed
qed

text \<open>Two frames at the start of one stream are the same.\<close>

lemma framed_prefix_unique:
  assumes m: "mbuf_framed m" and n: "mbuf_framed n" and eq: "bdata m @ bs = bdata n @ cs"
  shows "bdata m = bdata n"
proof -
  have len: "40 \<le> length (bdata m)" "40 \<le> length (bdata n)"
    using m n by (simp_all add: mbuf_framed_def)
  have "take 40 (bdata m @ bs) = take 40 (bdata n @ cs)" using eq by simp
  then have "take 40 (bdata m) = take 40 (bdata n)" using len by simp
  then have "HDR_GET_PAYLEN m = HDR_GET_PAYLEN n" by (rule hdr_get_cong)
  then have "length (bdata m) = length (bdata n)"
    using m n by (auto simp: mbuf_framed_def)
  with eq show ?thesis by simp
qed

lemma framed_paylen_le: "mbuf_framed m \<Longrightarrow> unat (HDR_GET_PAYLEN m) \<le> MSG_MAX_PAY_SIZE"
  by (auto simp: mbuf_framed_def)

text \<open>Which messages a buffer may hold the beginning of: it is shorter than the first one.\<close>

lemma rx_partial_shorter:
  assumes p: "rx_inv p" and m: "mbuf_framed m" and eq: "rx_bytes p @ bs = bdata m @ cs"
  shows "boff p < length (bdata m)"
proof (cases "bsize p = MSG_HDR_SIZE \<and> boff p < MSG_HDR_SIZE")
  case True
  with m show ?thesis by (simp add: mbuf_framed_def)
next
  case False
  with p have b: "40 \<le> boff p" "boff p < bsize p" "unat (HDR_GET_PAYLEN p) = bsize p - 40"
    and l: "bsize p = length (bdata p)"
    by (auto simp: rx_inv_def mbuf_wf_def)
  have "40 \<le> length (bdata m)" using m by (simp add: mbuf_framed_def)
  moreover have "take 40 (rx_bytes p @ bs) = take 40 (bdata m @ cs)" using eq by simp
  ultimately have "take 40 (bdata p) = take 40 (bdata m)"
    using b l by (simp add: rx_bytes_def min_def)
  then have "HDR_GET_PAYLEN p = HDR_GET_PAYLEN m" by (rule hdr_get_cong)
  then have "bsize p = length (bdata m)"
    using b m by (auto simp: mbuf_framed_def)
  with b show ?thesis by simp
qed

text \<open>
  A stream that consists of frames is recovered completely, by as many reads as it has bytes:
  the process does not exit, the messages are those that were sent and nothing is left over.
\<close>

lemma rx_stream_complete:
  "rx_inv p \<Longrightarrow> rx_bytes p @ bs = concat (map bdata ms) \<Longrightarrow> \<forall>m \<in> set ms. mbuf_framed m \<Longrightarrow>
   length bs \<le> length ks \<Longrightarrow>
     \<exists>ms' q. rx_stream junk p ks bs = Inr (ms', q, []) \<and> map bdata ms' = map bdata ms \<and>
       rx_bytes q = []"
proof (induction ks arbitrary: p bs ms)
  case Nil
  then have bs: "bs = []" by simp
  show ?case
  proof (cases ms)
    case Nil
    with Nil.prems bs show ?thesis by simp
  next
    case (Cons m ms')
    with Nil.prems bs have "boff p < length (bdata m)"
      using rx_partial_shorter [of p m bs "concat (map bdata ms')"] by simp
    moreover have "length (rx_bytes p) = length (bdata m) + length (concat (map bdata ms'))"
      using Nil.prems(2) bs Cons by simp
    ultimately show ?thesis by (simp add: rx_bytes_def)
  qed
next
  case (Cons k ks)
  show ?case
  proof (cases "bs = []")
    case True
    have "ms = []"
    proof (rule ccontr)
      assume "ms \<noteq> []"
      then obtain m ms' where ms: "ms = m # ms'" by (cases ms) auto
      with Cons.prems True have "boff p < length (bdata m)"
        using rx_partial_shorter [of p m bs "concat (map bdata ms')"] by simp
      moreover have "length (rx_bytes p) = length (bdata m) + length (concat (map bdata ms'))"
        using Cons.prems(2) True ms by simp
      ultimately show False by (simp add: rx_bytes_def)
    qed
    with Cons.prems True show ?thesis by simp
  next
    case False
    define n where "n = min (Suc k) (bsize p - boff p)"
    have room: "boff p < bsize p" using rx_inv_room [OF Cons.prems(1)] by simp
    have n: "0 < n" using room by (simp add: n_def)
    have "length (take n bs) \<le> bsize p - boff p" by (simp add: n_def)
    note c = rx_recv_cases [OF Cons.prems(1) this, of junk]
    have split: "take n bs @ drop n bs = bs" by simp
    have fuel: "length (drop n bs) \<le> length ks" using n False Cons.prems(4) by simp
    have "rx_bytes p @ bs \<noteq> []" using False by simp
    then obtain m ms' where ms: "ms = m # ms'" using Cons.prems(2) by (cases ms) auto
    have m: "mbuf_framed m" using Cons.prems(3) ms by simp
    have eq: "(rx_bytes p @ take n bs) @ drop n bs = bdata m @ concat (map bdata ms')"
      using Cons.prems(2) ms by simp
    have nodie: "rx_recv junk (take n bs) p \<noteq> Inl Die"
    proof
      assume "rx_recv junk (take n bs) p = Inl Die"
      with c have l: "length (rx_bytes p @ take n bs) = 40"
        and big: "65400 < unat (be_word (take 2 (drop 2 (rx_bytes p @ take n bs))) :: u16)" by auto
      have m40: "40 \<le> length (bdata m)" using m by (simp add: mbuf_framed_def)
      have "rx_bytes p @ take n bs = take 40 ((rx_bytes p @ take n bs) @ drop n bs)"
        using l by (metis append_eq_conv_conj)
      also have "\<dots> = take 40 (bdata m)" using eq m40 by (simp del: append_assoc)
      finally have h: "rx_bytes p @ take n bs = take 40 (bdata m)" .
      have "take 2 (drop 2 (take 40 (bdata m))) = take 2 (drop 2 (bdata m))"
        by (simp add: drop_take)
      then have "HDR_GET_PAYLEN m = be_word (take 2 (drop 2 (rx_bytes p @ take n bs)))"
        using hdr_get_be(2) [OF mbuf_framed_hdr_ok [OF m]] h by simp
      with big framed_paylen_le [OF m] show False by simp
    qed
    from c nodie show ?thesis
    proof (elim disjE exE conjE)
      fix p' assume r: "rx_recv junk (take n bs) p = Inr (Rx_Partial p')"
        and p': "rx_inv p'" "rx_bytes p' = rx_bytes p @ take n bs"
      have "rx_bytes p' @ drop n bs = concat (map bdata ms)"
        using p' Cons.prems(2) by simp
      from Cons.IH [OF p'(1) this Cons.prems(3) fuel] show ?thesis
        using r False by (simp add: n_def Let_def)
    next
      fix q assume r: "rx_recv junk (take n bs) p = Inr (Rx_Done q)"
        and q: "mbuf_framed q" "bdata q = rx_bytes p @ take n bs"
      have qm: "bdata q = bdata m"
        using framed_prefix_unique [OF q(1) m] eq q(2) by metis
      have "bdata m @ drop n bs = bdata m @ concat (map bdata ms')"
        using eq q(2) qm by (simp del: append_assoc)
      then have "rx_bytes (mbuf_new junk) @ drop n bs = concat (map bdata ms')"
        by (simp add: rx_inv_new)
      from Cons.IH [OF rx_inv_new(1) this _ fuel] Cons.prems(3) ms qm show ?thesis
        using r False by (force simp: n_def Let_def)
    qed simp
  qed
qed

section \<open>Sending\<close>

text \<open>\<open>w\<close> bytes of the head of the queue were written: the offset advances, and the message is
  removed when it is complete.\<close>

definition tx_advance :: "nat \<Rightarrow> mbuf list \<Rightarrow> mbuf list res" where
  "tx_advance w ms =
     (case ms of
        [] \<Rightarrow> Inl NullDeref
      | m # ms' \<Rightarrow>
          (let m = m\<lparr>boff := boff m + w\<rparr> in
           if boff m = bsize m then list_deq (m # ms') else Inr (m # ms')))"

definition tx_pending :: "mbuf list \<Rightarrow> byte list" where
  "tx_pending ms = concat (map (\<lambda>m. drop (boff m) (bdata m)) ms)"

definition tx_inv :: "mbuf list \<Rightarrow> bool" where
  "tx_inv ms \<longleftrightarrow> (\<forall>m \<in> set ms. mbuf_framed m \<and> boff m < bsize m) \<and> (\<forall>m \<in> set (tl ms). boff m = 0)"

text \<open>The bytes \<open>write()\<close> takes from the head, at most \<open>w\<close>.\<close>

definition tx_bytes :: "nat \<Rightarrow> mbuf list \<Rightarrow> byte list" where
  "tx_bytes w ms = (case ms of [] \<Rightarrow> [] | m # _ \<Rightarrow> take w (drop (boff m) (bdata m)))"

lemma tx_inv_enq: "tx_inv ms \<Longrightarrow> mbuf_framed m \<Longrightarrow> tx_inv (list_enq m ms)"
  by (cases ms) (auto simp: tx_inv_def list_enq_def mbuf_framed_def)

lemma tx_pending_enq: "tx_pending (list_enq m ms) = tx_pending ms @ bdata m"
  by (simp add: tx_pending_def list_enq_def)

lemma tx_advance_ok:
  assumes inv: "tx_inv (m # ms)" and w: "w \<le> bsize m - boff m"
  obtains ms' where "tx_advance w (m # ms) = Inr ms'" and "tx_inv ms'"
    and "tx_bytes w (m # ms) @ tx_pending ms' = tx_pending (m # ms)"
proof -
  have m: "mbuf_framed m" "boff m < bsize m" "bsize m = length (bdata m)"
    and ms: "\<forall>x \<in> set ms. mbuf_framed x \<and> boff x < bsize x \<and> boff x = 0"
    using inv by (auto simp: tx_inv_def mbuf_framed_def)
  show thesis
  proof (cases "boff m + w = bsize m")
    case True
    have "tx_inv ms" using ms by (cases ms) (auto simp: tx_inv_def)
    moreover have "tx_bytes w (m # ms) = drop (boff m) (bdata m)"
      using True m by (simp add: tx_bytes_def)
    ultimately show thesis
      using that [of ms] True by (simp add: tx_advance_def list_deq_def tx_pending_def)
  next
    case False
    with w m have "boff m + w < bsize m" by simp
    then have "tx_inv (m\<lparr>boff := boff m + w\<rparr> # ms)"
      using m ms by (fastforce simp: tx_inv_def)
    moreover have "tx_bytes w (m # ms) @ drop (boff m + w) (bdata m) = drop (boff m) (bdata m)"
      by (simp add: tx_bytes_def add.commute flip: drop_drop)
    ultimately show thesis
      using that [of "m\<lparr>boff := boff m + w\<rparr> # ms"] False
      by (simp add: tx_advance_def tx_pending_def)
  qed
qed

text \<open>
  \<open>tx_stream ws ms\<close>: writes until the queue is empty, the kernel taking at most
  \<open>w + 1\<close> bytes at a write for each \<open>w\<close> of \<open>ws\<close>. Result: the bytes on the wire and the queue.
\<close>

fun tx_stream :: "nat list \<Rightarrow> mbuf list \<Rightarrow> (byte list \<times> mbuf list) res" where
  "tx_stream [] ms = Inr ([], ms)"
| "tx_stream (w # ws) [] = Inr ([], [])"
| "tx_stream (w # ws) (m # ms) =
     (let n = min (Suc w) (bsize m - boff m) in
      bindr (tx_advance n (m # ms)) (\<lambda>ms'.
      bindr (tx_stream ws ms') (\<lambda>(bs, ms''). Inr (tx_bytes n (m # ms) @ bs, ms''))))"

lemma tx_stream_ok:
  "tx_inv ms \<Longrightarrow>
     \<exists>bs ms'. tx_stream ws ms = Inr (bs, ms') \<and> tx_inv ms' \<and> bs @ tx_pending ms' = tx_pending ms \<and>
       (length (tx_pending ms) \<le> length ws \<longrightarrow> ms' = [])"
proof (induction ws arbitrary: ms)
  case Nil
  show ?case
  proof (cases ms)
    case (Cons m ms')
    with Nil have "drop (boff m) (bdata m) \<noteq> []"
      by (auto simp: tx_inv_def mbuf_framed_def)
    with Cons Nil show ?thesis by (simp add: tx_pending_def)
  qed (use Nil in simp)
next
  case (Cons w ws)
  show ?case
  proof (cases ms)
    case Nil
    then show ?thesis by (simp add: tx_inv_def)
  next
    case (Cons m ms0)
    define n where "n = min (Suc w) (bsize m - boff m)"
    have m: "boff m < bsize m" "bsize m = length (bdata m)"
      using Cons.prems Cons by (auto simp: tx_inv_def mbuf_framed_def)
    obtain ms' where ms': "tx_advance n (m # ms0) = Inr ms'" "tx_inv ms'"
      "tx_bytes n (m # ms0) @ tx_pending ms' = tx_pending (m # ms0)"
      using tx_advance_ok [of m ms0 n] Cons.prems Cons by (auto simp: n_def)
    obtain bs ms'' where r: "tx_stream ws ms' = Inr (bs, ms'')" "tx_inv ms''"
      "bs @ tx_pending ms'' = tx_pending ms'" "length (tx_pending ms') \<le> length ws \<longrightarrow> ms'' = []"
      using Cons.IH [OF ms'(2)] by blast
    have "0 < length (tx_bytes n (m # ms0))"
      using m by (simp add: tx_bytes_def n_def)
    then have "length (tx_pending ms') < length (tx_pending ms)"
      using arg_cong [OF ms'(3), of length] Cons by (simp del: length_greater_0_conv)
    with r ms' Cons show ?thesis
      by (auto simp: n_def Let_def)
  qed
qed

end
