(* ===== verification/Ntime.thy ===== *)
theory Ntime
  imports Frelay_Base "HOL-Library.Signed_Division"
begin

text \<open>
  src/lib/ntime.h and src/lib/ntime.c: nanosecond times as 64-bit integers and their conversion
  to and from seconds with microseconds or nanoseconds. C division truncates towards zero
  (\<open>sdiv\<close>, \<open>smod\<close>). Times are integers; every conversion stays within 64 bits for the times
  the header promises (years up to 2262). What \<^verbatim>\<open>clock_gettime()\<close> and \<^verbatim>\<open>clock_getres()\<close> give is an
  argument, \<open>None\<close> when they fail.
\<close>

type_synonym ntime_t = int

definition NT_NS_PER_S :: int where "NT_NS_PER_S = 1000 * 1000 * 1000"
definition NT_NS_PER_US :: int where "NT_NS_PER_US = 1000"

definition NT_NS_PER_MS :: int where "NT_NS_PER_MS = 1000 * 1000"
definition NT_US_PER_S :: int where "NT_US_PER_S = 1000 * 1000"
definition NT_US_PER_MS :: int where "NT_US_PER_MS = 1000"
definition NT_MS_PER_S :: int where "NT_MS_PER_S = 1000"

definition ntime_to_us :: "ntime_t \<Rightarrow> int" where "ntime_to_us ns = ns sdiv NT_NS_PER_US"
definition ntime_to_s :: "ntime_t \<Rightarrow> int" where "ntime_to_s ns = ns sdiv NT_NS_PER_S"

definition ntime_to_ms :: "ntime_t \<Rightarrow> int" where "ntime_to_ms ns = ns sdiv NT_NS_PER_MS"
definition ntime_from_us :: "int \<Rightarrow> ntime_t" where "ntime_from_us us = us * NT_NS_PER_US"
definition ntime_from_ms :: "int \<Rightarrow> ntime_t" where "ntime_from_ms ms = ms * NT_NS_PER_MS"
definition ntime_from_s :: "int \<Rightarrow> ntime_t" where "ntime_from_s s = s * NT_NS_PER_S"

record timeval = tv_sec :: int  tv_usec :: int
record timespec = ts_sec :: int  ts_nsec :: int

definition ntime_to_timeval :: "ntime_t \<Rightarrow> timeval" where
  "ntime_to_timeval t = \<lparr>tv_sec = t sdiv NT_NS_PER_S, tv_usec = t smod NT_NS_PER_S sdiv NT_NS_PER_US\<rparr>"

definition ntime_from_timeval :: "timeval \<Rightarrow> ntime_t" where
  "ntime_from_timeval tv = tv_sec tv * NT_NS_PER_S + tv_usec tv * NT_NS_PER_US"

definition ntime_to_timespec :: "ntime_t \<Rightarrow> timespec" where
  "ntime_to_timespec t = \<lparr>ts_sec = t sdiv NT_NS_PER_S, ts_nsec = t smod NT_NS_PER_S\<rparr>"

definition ntime_from_timespec :: "timespec \<Rightarrow> ntime_t" where
  "ntime_from_timespec ts = ts_sec ts * NT_NS_PER_S + ts_nsec ts"

text \<open>Reading a clock or its resolution.\<close>

definition ntime_get :: "timespec option \<Rightarrow> ntime_t" where
  "ntime_get clk = (case clk of None \<Rightarrow> - 1 | Some ts \<Rightarrow> ntime_from_timespec ts)"

definition ntime_res :: "timespec option \<Rightarrow> ntime_t" where
  "ntime_res clk = (case clk of None \<Rightarrow> - 1 | Some ts \<Rightarrow> ntime_from_timespec ts)"

definition nclock_get :: "timespec option \<Rightarrow> ntime_t" where
  "nclock_get clk = (case clk of None \<Rightarrow> - 1 | Some ts \<Rightarrow> ntime_from_timespec ts)"

definition nclock_res :: "timespec option \<Rightarrow> ntime_t" where
  "nclock_res clk = (case clk of None \<Rightarrow> - 1 | Some ts \<Rightarrow> ntime_from_timespec ts)"

lemmas ntime_consts = NT_NS_PER_S_def NT_NS_PER_US_def

lemma sdiv_smod_eq: "(x :: int) sdiv d * d + x smod d = x"
  by (simp add: sdiv_mult_smod_eq)

lemma smod_lower: "0 \<le> (x :: int) \<Longrightarrow> 0 < d \<Longrightarrow> x smod d = x mod d \<and> x sdiv d = x div d"
  by (simp add: signed_modulo_int_def signed_divide_int_def sgn_if)

lemma ntime_from_to:
  "ntime_to_us (ntime_from_us t) = t" "ntime_to_ms (ntime_from_ms t) = t" "ntime_to_s (ntime_from_s t) = t"
proof -
  have "(t * d) sdiv d = t" if "0 < d" for d :: int
    using that by (simp add: signed_divide_int_def sgn_mult abs_mult) (auto simp: sgn_if)
  then show "ntime_to_us (ntime_from_us t) = t" "ntime_to_ms (ntime_from_ms t) = t" "ntime_to_s (ntime_from_s t) = t"
    by (simp_all add: ntime_to_us_def ntime_from_us_def ntime_to_ms_def ntime_from_ms_def ntime_to_s_def
        ntime_from_s_def ntime_consts NT_NS_PER_MS_def)
qed

end
