(* ===== verification/Stricmp.thy ===== *)
theory Stricmp
  imports Frelay_Base
begin

text \<open>
  src/lib/stricmp.c: comparison of C strings without regard to case. The loops read one character
  of each string at a time, the terminator included; \<open>char_at\<close> is the character a pointer to
  the rest of a string points to. The lemmas show that the results are zero exactly for strings
  (or prefixes) that agree after conversion to lower case, and that the order is antisymmetric.
\<close>

definition tolower :: "byte \<Rightarrow> byte" where
  "tolower c = (if 65 \<le> c \<and> c \<le> 90 then c + 32 else c)"

definition char_at :: "cstring \<Rightarrow> byte" where
  "char_at s = (case s of [] \<Rightarrow> 0 | c # _ \<Rightarrow> c)"

lemma char_at_simps [simp]: "char_at [] = 0" "char_at (c # s) = c"
  by (simp_all add: char_at_def)

function stricmp :: "cstring \<Rightarrow> cstring \<Rightarrow> int" where
  "stricmp s1 s2 =
     (let r = int (unat (tolower (char_at s1))) - int (unat (tolower (char_at s2))) in
      if r = 0 \<and> char_at s1 \<noteq> 0 \<and> char_at s2 \<noteq> 0 then stricmp (tl s1) (tl s2) else r)"
  by pat_completeness auto
termination
  by (relation "measure (\<lambda>(s1, s2). length s1)") (auto simp: char_at_def split: list.splits)

function strnicmp_loop :: "cstring \<Rightarrow> cstring \<Rightarrow> nat \<Rightarrow> int" where
  "strnicmp_loop s1 s2 n =
     (let r = int (unat (tolower (char_at s1))) - int (unat (tolower (char_at s2))) in
      if r = 0 \<and> n - 1 \<noteq> 0 \<and> char_at s1 \<noteq> 0 \<and> char_at s2 \<noteq> 0
      then strnicmp_loop (tl s1) (tl s2) (n - 1) else r)"
  by pat_completeness auto
termination
  by (relation "measure (\<lambda>(s1, s2, n). n)") auto

definition strnicmp :: "cstring \<Rightarrow> cstring \<Rightarrow> nat \<Rightarrow> int" where
  "strnicmp s1 s2 n = (if n = 0 then 0 else strnicmp_loop s1 s2 n)"

declare stricmp.simps [simp del] strnicmp_loop.simps [simp del]

lemma unat_diff_zero: "int (unat (v :: byte)) - int (unat w) = 0 \<longleftrightarrow> v = w"
  by (simp add: word_uint_eq_iff)

lemma uint_byte_simps: "uint (v :: byte) = uint w \<longleftrightarrow> v = w" "uint (v :: byte) = 0 \<longleftrightarrow> v = 0"
    "0 = uint (v :: byte) \<longleftrightarrow> v = 0"
  using word_uint_eq_iff [of v w] uint_0_iff [of v] by auto

lemma tolower_0 [simp]: "tolower 0 = 0"
  by (simp add: tolower_def)

lemma tolower_eq_0 [simp]: "tolower c = 0 \<longleftrightarrow> c = 0"
proof -
  have "c + 32 \<noteq> 0" if "65 \<le> c" "c \<le> 90"
  proof
    assume "c + 32 = 0"
    then have "c = - 32" by (simp add: eq_neg_iff_add_eq_0)
    with that show False by simp
  qed
  then show ?thesis by (auto simp: tolower_def)
qed

lemma tolower_idem [simp]: "tolower (tolower c) = tolower c"
proof (cases "65 \<le> c \<and> c \<le> 90")
  case True
  then have "unat c + 32 \<le> 122" "97 \<le> unat c + 32"
    by (simp_all add: word_le_nat_alt)
  then have "unat (c + 32) = unat c + 32" by (simp add: unat_word_ariths)
  with True \<open>97 \<le> unat c + 32\<close> have "\<not> c + 32 \<le> 90" by (simp add: word_le_nat_alt)
  with True show ?thesis by (simp add: tolower_def)
qed (simp add: tolower_def)

lemma stricmp_eq_0_iff:
  "is_cstring s \<Longrightarrow> is_cstring t \<Longrightarrow> stricmp s t = 0 \<longleftrightarrow> map tolower s = map tolower t"
proof (induction s arbitrary: t)
  case Nil
  then show ?case
    by (cases t) (auto simp: stricmp.simps [of "[]"] is_cstring_def Let_def uint_byte_simps)
next
  case (Cons c s)
  show ?case
  proof (cases t)
    case Nil
    with Cons show ?thesis
      by (auto simp: stricmp.simps [of "c # s"] is_cstring_def Let_def uint_byte_simps)
  next
    case (Cons d u)
    with Cons.prems Cons.IH [of u] show ?thesis
      by (auto simp: stricmp.simps [of "c # s"] is_cstring_def Let_def uint_byte_simps)
  qed
qed

lemma stricmp_antisym: "stricmp s t = - stricmp t s"
proof (induction s t rule: stricmp.induct)
  case (1 s t)
  then show ?case
    by (auto simp: stricmp.simps [of s t] stricmp.simps [of t s] Let_def)
qed

lemma strnicmp_loop_eq_0_iff:
  "is_cstring s \<Longrightarrow> is_cstring t \<Longrightarrow> 0 < n \<Longrightarrow>
     strnicmp_loop s t n = 0 \<longleftrightarrow> take n (map tolower s) = take n (map tolower t)"
proof (induction n arbitrary: s t)
  case 0
  then show ?case by simp
next
  case (Suc n)
  show ?case
  proof (cases s)
    case Nil
    with Suc.prems show ?thesis
      by (cases t) (auto simp: strnicmp_loop.simps [of "[]"] is_cstring_def Let_def uint_byte_simps)
  next
    case s: (Cons c cs)
    show ?thesis
    proof (cases t)
      case Nil
      with Suc.prems s show ?thesis
        by (auto simp: strnicmp_loop.simps [of "c # cs"] is_cstring_def Let_def uint_byte_simps)
    next
      case t: (Cons d ds)
      show ?thesis
      proof (cases "n = 0")
        case True
        with s t show ?thesis
          by (simp add: strnicmp_loop.simps [of "c # cs"] Let_def uint_byte_simps)
      next
        case False
        with Suc.prems s t Suc.IH [of cs ds] show ?thesis
          by (auto simp: strnicmp_loop.simps [of "c # cs"] is_cstring_def Let_def uint_byte_simps)
      qed
    qed
  qed
qed

lemma strnicmp_eq_0_iff:
  "is_cstring s \<Longrightarrow> is_cstring t \<Longrightarrow>
     strnicmp s t n = 0 \<longleftrightarrow> take n (map tolower s) = take n (map tolower t)"
  by (cases n) (simp_all add: strnicmp_def strnicmp_loop_eq_0_iff)

end
