(* ===== verification/Wire_Properties.thy ===== *)
theory Wire_Properties
  imports Framing Ntime Stricmp Prng
begin

text \<open>
  The properties of the layers below the two programs: messages and their attributes
  (src/message.c), byte order (src/lib/bendian.h), the send queues and the read and write loops of
  \<^verbatim>\<open>handle_io\<close> and \<^verbatim>\<open>handle_srvio\<close>, and the small libraries (src/lib/stricmp.c,
  src/lib/prng.c, src/lib/ntime.c, src/statcodes.c). Each one rests on the lemmas of the theory of its component.
\<close>

section \<open>Messages on the wire\<close>

text \<open>A ping request of 40 octets, and two of them in a row, as concrete messages.\<close>

definition ping_msg :: mbuf where
  "ping_msg = composed MSG_TYPE_PING_REQ 5 1 2 3"

lemma ping_msg_framed: "mbuf_framed ping_msg" "length (bdata ping_msg) = 40"
  by (simp_all add: ping_msg_def composed_wf)

text \<open>C8: Messages put into the send queue reach the other side unchanged and in order: however
  the kernel splits the writes of the sender and the reads of the receiver, the receiver
  reassembles exactly the messages that were enqueued, and nothing is left over.\<close>

theorem messages_cross_the_wire:
  assumes "\<forall>m \<in> set ms. mbuf_framed m"
    and "length (concat (map bdata ms)) \<le> length ws"
    and "length (concat (map bdata ms)) \<le> length ks"
  shows "\<exists>wire ms' q. tx_stream ws (lq.enq_all ms []) = Inr (wire, []) \<and>
    rx_stream junk (mbuf_new junk) ks wire = Inr (ms', q, []) \<and>
    map bdata ms' = map bdata ms \<and> rx_bytes q = []"
proof -
  have queue: "lq.enq_all ms [] = map (\<lambda>m. m\<lparr>boff := 0\<rparr>) ms"
    using lq.enq_all_content [OF TrueI, of ms "[]"] by simp
  have inv: "tx_inv (lq.enq_all ms [])"
    unfolding queue using assms(1) by (cases ms) (auto simp: tx_inv_def mbuf_framed_def)
  have pending: "tx_pending (lq.enq_all ms []) = concat (map bdata ms)"
    by (simp add: queue tx_pending_def comp_def)
  obtain wire where wire: "tx_stream ws (lq.enq_all ms []) = Inr (wire, [])"
    "wire = concat (map bdata ms)"
    using tx_stream_ok [OF inv, of ws] assms(2) unfolding pending
    by (auto simp: tx_pending_def [of "[]"])
  then show ?thesis
    using rx_stream_complete [OF rx_inv_new(1), of junk wire ms ks junk] assms(1,3)
    by (simp add: rx_inv_new(2))
qed

theorem messages_cross_the_wire_witness:
  "\<exists>wire ms' q. tx_stream (replicate 80 6) (lq.enq_all [ping_msg, ping_msg] []) = Inr (wire, []) \<and>
    rx_stream (\<lambda>_. 0) (mbuf_new (\<lambda>_. 0)) (replicate 80 2) wire = Inr (ms', q, []) \<and>
    map bdata ms' = [bdata ping_msg, bdata ping_msg] \<and> rx_bytes q = []"
  using messages_cross_the_wire [of "[ping_msg, ping_msg]" "replicate 80 6" "replicate 80 2" "\<lambda>_. 0"]
  by (simp add: ping_msg_framed)

text \<open>C15: Whatever bytes a peer sends, and however they arrive, the receive loop hands on only
  well-framed messages, and these together with the buffer and the unread rest are exactly the
  bytes that came in: nothing is lost, reordered or invented.\<close>

theorem receive_loop_sound:
  assumes "rx_stream junk (mbuf_new junk) ks bs = Inr (ms, q, rest)"
  shows "(\<forall>m \<in> set ms. mbuf_framed m) \<and> rx_inv q \<and>
    concat (map bdata ms) @ rx_bytes q @ rest = bs"
  using rx_stream_sound [OF rx_inv_new(1) assms] by (simp add: rx_inv_new(2))

text \<open>Three reads take a message and the first two bytes of the next one.\<close>

theorem receive_loop_sound_witness:
  "\<exists>m q. rx_stream (\<lambda>_. 0) (mbuf_new (\<lambda>_. 0)) [14, 30, 8] (bdata ping_msg @ [1, 2]) = Inr ([m], q, []) \<and>
     mbuf_framed m \<and> bdata m @ rx_bytes q = bdata ping_msg @ [1, 2]"
proof -
  have "case rx_stream (\<lambda>_. 0) (mbuf_new (\<lambda>_. 0)) [14, 30, 8] (bdata ping_msg @ [1, 2]) of
      Inr (ms, q, rest) \<Rightarrow> length ms = 1 \<and> rest = [] | _ \<Rightarrow> False"
    by code_simp
  then obtain m q where run: "rx_stream (\<lambda>_. 0) (mbuf_new (\<lambda>_. 0)) [14, 30, 8] (bdata ping_msg @ [1, 2]) = Inr ([m], q, [])"
    by (auto split: sum.splits simp: length_Suc_conv)
  from receive_loop_sound [OF this] run show ?thesis by simp
qed

lemma length_rx_bytes: "rx_inv p \<Longrightarrow> length (rx_bytes p) = boff p"
  by (auto simp: rx_inv_def rx_bytes_def mbuf_wf_def)

text \<open>C24: Of the reads that complete a header, exactly those with a payload length above
  65400 end the program: \<open>mbuf_resize\<close> refuses them by \<^verbatim>\<open>die_if\<close>. The bytes come from
  the network, and the peer need not be authenticated.\<close>

theorem oversized_header_kills:
  assumes "rx_inv p" and "length d \<le> bsize p - boff p"
    and "length (rx_bytes p @ d) = MSG_HDR_SIZE"
  shows "rx_recv junk d p = Inl Die \<longleftrightarrow>
    MSG_MAX_PAY_SIZE < unat (be_word (take 2 (drop 2 (rx_bytes p @ d))) :: u16)"
proof -
  have small: "\<not> MSG_MAX_PAY_SIZE < unat (be_word (take 2 (drop 2 (rx_bytes p @ d))) :: u16)"
    if "mbuf_framed m \<or> rx_inv m" and "take MSG_HDR_SIZE (bdata m) = rx_bytes p @ d"
      and "MSG_HDR_SIZE \<le> boff m" for m
  proof -
    have "hdr_ok m" using that by (auto simp: mbuf_framed_hdr_ok rx_inv_def mbuf_wf_hdr_ok)
    then have "HDR_GET_PAYLEN m = be_word (take 2 (drop 2 (take MSG_HDR_SIZE (bdata m))))"
      by (simp add: hdr_get_be drop_take)
    with that show ?thesis
      by (auto simp: mbuf_framed_def rx_inv_def mbuf_wf_def)
  qed
  consider (partial) q where "rx_recv junk d p = Inr (Rx_Partial q)" "rx_inv q"
      "rx_bytes q = rx_bytes p @ d"
    | (complete) q where "rx_recv junk d p = Inr (Rx_Done q)" "mbuf_framed q" "boff q = bsize q"
      "bdata q = rx_bytes p @ d"
    | (die) "rx_recv junk d p = Inl Die"
      "MSG_MAX_PAY_SIZE < unat (be_word (take 2 (drop 2 (rx_bytes p @ d))) :: u16)"
    using rx_recv_cases [OF assms(1,2), of junk] by blast
  then show ?thesis
  proof cases
    case partial
    have "boff q = MSG_HDR_SIZE"
      using length_rx_bytes [OF partial(2)] partial(3) assms(3) by simp
    with small [of q] partial show ?thesis by (simp add: rx_bytes_def)
  next
    case complete
    with small [of q] assms(3) show ?thesis by (simp add: mbuf_framed_def)
  qed simp
qed

theorem oversized_header_kills_witness:
  "rx_recv (\<lambda>_. 0) ([0, 1, 0xff, 0xff] @ replicate 36 0) (mbuf_new (\<lambda>_. 0)) = Inl Die"
proof -
  have "be_word [0xff, 0xff :: byte] = (0xffff :: u16)"
    by (simp add: be_word_def)
  then show ?thesis
    using oversized_header_kills [of "mbuf_new (\<lambda>_. 0)" "[0, 1, 0xff, 0xff] @ replicate 36 0" "\<lambda>_. 0"]
    using rx_inv_new [of "\<lambda>_. 0"] by (simp add: mbuf_new_def)
qed
text \<open>C19: A message built by \<open>mbuf_compose\<close> and a series of \<open>mbuf_addattrib\<close> calls is
  well framed, carries the header it was given, and reading its attributes back gives exactly the
  types and values that were added, in order.\<close>

theorem compose_then_read:
  assumes "list_all2 (\<lambda>(at, n, v) a. fst a = at \<and> attr_call at n v = Some (snd a)) calls as"
    and "MSG_HDR_SIZE + length (concat (map tlv_encode as)) \<le> MSG_MAX_SIZE"
  shows "\<exists>q. bindr (mbuf_compose now None t src dst trf) (add_all calls) = Inr q \<and> mbuf_framed q \<and>
    HDR_GET_TYPE q = t \<and> HDR_GET_TS q = now \<and> HDR_GET_SRCID q = src \<and> HDR_GET_DSTID q = dst \<and>
    HDR_GET_TRFID q = trf \<and> read_all (mbuf_resetgetattrib q) = as"
proof -
  obtain q where q: "add_all calls (composed t now src dst trf) = Inr q"
    "tlv_msg (composed t now src dst trf) as q"
    using add_all_ok [OF tlv_msg_composed [of t now src dst trf] assms(1)] assms(2) by auto
  moreover have "read_all (mbuf_resetgetattrib q) = as"
    using q(2) by (rule message_read_back)
  moreover have "mbuf_compose now None t src dst trf = Inr (composed t now src dst trf)"
    by (rule mbuf_compose_eq) simp
  ultimately show ?thesis by (simp add: tlv_msg_def)
qed

theorem compose_then_read_witness:
  "\<exists>q. bindr (mbuf_compose 7 None MSG_TYPE_LOGIN_REQ 0 0 1)
      (add_all [(MSG_ATTR_USERNAME, 4, VA_STR [98, 111, 98]), (MSG_ATTR_OK, 0, VA_NULL)]) = Inr q \<and>
    mbuf_framed q \<and> HDR_GET_TYPE q = MSG_TYPE_LOGIN_REQ \<and> HDR_GET_TS q = 7 \<and>
    HDR_GET_SRCID q = 0 \<and> HDR_GET_DSTID q = 0 \<and> HDR_GET_TRFID q = 1 \<and>
    read_all (mbuf_resetgetattrib q) = [(MSG_ATTR_USERNAME, [98, 111, 98, 0]), (MSG_ATTR_OK, [])]"
  by (rule compose_then_read) (simp_all add: attr_calls length_tlv_encode ROUNDUP8_def)

text \<open>C25: \<open>mbuf_addattrib\<close> succeeds exactly as long as the message stays within the maximum
  size of 65440 octets, padding included; the next octet ends the program.\<close>

theorem addattrib_limit:
  assumes "mbuf_framed p" and "boff p = 0" and "attr_call at n v = Some val"
  shows "mbuf_addattrib at n v p =
    (if bsize p + 8 + ROUNDUP8 (length val) \<le> MSG_MAX_SIZE then Inr (append_attr (at, val) p)
     else Inl Die)"
  using mbuf_addattrib_ok [OF mbuf_framed_wf [OF assms(1,2)] assms(3)]
    mbuf_addattrib_Die [OF mbuf_framed_wf [OF assms(1,2)] assms(3)] by auto

theorem addattrib_limit_witness:
  "mbuf_addattrib MSG_ATTR_DATA 65392 (VA_BLOB (replicate 65392 0)) ping_msg =
     Inr (append_attr (MSG_ATTR_DATA, replicate 65392 0) ping_msg) \<and>
   mbuf_addattrib MSG_ATTR_DATA 65393 (VA_BLOB (replicate 65393 0)) ping_msg = Inl Die"
  using addattrib_limit [OF ping_msg_framed(1), of MSG_ATTR_DATA 65392 "VA_BLOB (replicate 65392 0)"
      "replicate 65392 0"]
    addattrib_limit [OF ping_msg_framed(1), of MSG_ATTR_DATA 65393 "VA_BLOB (replicate 65393 0)"
      "replicate 65393 0"]
  by (simp add: attr_calls ping_msg_def ROUNDUP8_def)

text \<open>C26: Reading an attribute of any received message, malformed ones included, gives a slice
  of the buffer: the value lies within it, the header of eight octets before it does too, and the
  offset only advances. (A scan therefore ends.)\<close>

theorem getnextattrib_within_buffer:
  assumes "mbuf_framed p" and "mbuf_getnextattrib p = (Some (at, al, av), q)"
  shows "av = boff p + 8 \<and> av + al \<le> length (bdata p) \<and> boff p < boff q \<and>
    bdata q = bdata p \<and> bsize q = bsize p \<and> al < 65536"
proof -
  have scan: "attr_scan p" using assms(1) by (simp add: mbuf_framed_def attr_scan_def)
  note mbuf_getnextattrib_Some [OF scan assms(2)]
  then show ?thesis by (cases q) auto
qed

theorem getnextattrib_within_buffer_witness:
  "\<exists>at al av q. mbuf_getnextattrib (mbuf_resetgetattrib (append_attr (MSG_ATTR_OK, []) ping_msg)) =
     (Some (at, al, av), q) \<and> av = 48 \<and> av + al \<le> 48"
proof -
  define p where "p = mbuf_resetgetattrib (append_attr (MSG_ATTR_OK, []) ping_msg)"
  note props = append_attr_props [OF ping_msg_framed(1), of "(MSG_ATTR_OK, [])"]
  have framed: "mbuf_framed p" and off: "boff p = 40" and "bsize p = 48"
    using props(1,2) by (simp_all add: p_def ping_msg_def ROUNDUP8_def mbuf_resetgetattrib_def)
  have "attrs (append_attr (MSG_ATTR_OK, []) ping_msg) = [(MSG_ATTR_OK, [])]"
    using props(9) [of "[]"] by (simp add: ping_msg_def ROUNDUP8_def tlv_full_attrs)
  then have "pending_attrs p \<noteq> []" by (simp add: p_def pending_attrs_reset)
  moreover have "attr_scan p" using framed by (simp add: attr_scan_def mbuf_framed_def)
  ultimately obtain at al av q where "mbuf_getnextattrib p = (Some (at, al, av), q)"
    using mbuf_getnextattrib_None [of p] by (metis option.exhaust prod.exhaust)
  with getnextattrib_within_buffer [OF framed this] framed off \<open>bsize p = 48\<close> show ?thesis
    unfolding p_def [symmetric] by (auto simp: mbuf_framed_def)
qed

text \<open>\<open>mbuf_to_error_response\<close> turns any message with a header into a well-framed answer:
  the class becomes ERR, source and destination are swapped, the exchange id is kept, and its
  attributes are the status code and its text.\<close>

lemma error_response_answers:
  assumes "mbuf_framed p"
  shows "\<exists>q. mbuf_to_error_response now sc p = Inr q \<and> mbuf_framed q \<and> boff q = 0 \<and>
    HDR_GET_TYPE q = MCLASS_TO_ERR (HDR_GET_TYPE p) \<and> HDR_GET_SRCID q = HDR_GET_DSTID p \<and>
    HDR_GET_DSTID q = HDR_GET_SRCID p \<and> HDR_GET_TRFID q = HDR_GET_TRFID p \<and>
    attrs q = [(MSG_ATTR_ERROR, be_bytes 8 sc), (MSG_ATTR_NOTICE, sc_msgstr sc @ [0])]"
proof -
  obtain q where "mbuf_to_error_response now sc p = Inr q"
    "tlv_msg (error_header now p) (error_attrs sc) q"
    using mbuf_to_error_response_ok [OF mbuf_framed_hdr_ok [OF assms]] by blast
  then show ?thesis
    by (simp add: tlv_msg_attrs) (simp add: tlv_msg_def error_header_def error_attrs_def)
qed

lemma error_response_answers_example:
  "\<exists>q. mbuf_to_error_response 9 SC_FORBIDDEN ping_msg = Inr q \<and> mbuf_framed q \<and> boff q = 0 \<and>
    HDR_GET_TYPE q = MSG_TYPE_PING_ERR \<and> HDR_GET_SRCID q = 2 \<and> HDR_GET_DSTID q = 1 \<and>
    HDR_GET_TRFID q = 3 \<and>
    attrs q = [(MSG_ATTR_ERROR, be_bytes 8 SC_FORBIDDEN), (MSG_ATTR_NOTICE, str ''Forbidden'' @ [0])]"
proof -
  have "sc_msgstr SC_FORBIDDEN = str ''Forbidden''"
    by (rule sc_msgstr_case) (simp add: sc_cases_def)
  moreover have "MCLASS_TO_ERR MSG_TYPE_PING_REQ = MSG_TYPE_PING_ERR"
    by (simp add: MCLASS_TO_ERR_def MTYPE_CUT_CLASS_def MSG_TYPE_PING_REQ_def MSG_TYPE_PING_ERR_def
        MTYPE_PING_def MCLASS_REQ_def MCLASS_ERR_def)
  ultimately show ?thesis
    using error_response_answers [OF ping_msg_framed(1), of 9 SC_FORBIDDEN]
    by (simp add: ping_msg_def)
qed
section \<open>Queues\<close>

text \<open>C33: The linked list of a connection (\<open>enqueue_msg\<close>, \<open>dequeue_msg\<close> over a heap of nodes
  with a head and a tail pointer) implements the abstract queue: each operation keeps the list
  well formed, has the effect of the queue operation on the sequence of messages, dequeuing frees
  exactly the head node, and the head of an empty list is dereferenced.\<close>

theorem linked_list_refines_queue:
  assumes "ptr_inv q as"
  shows "(\<forall>m nd. q_store q m = Some nd \<and> m \<notin> set as \<longrightarrow>
      (\<exists>q'. enqueue_msg m q = Inr q' \<and> ptr_inv q' (as @ [m]) \<and>
         ptr_msgs q' (as @ [m]) = list_enq (qn_msg nd) (ptr_msgs q as))) \<and>
    (case as of
       [] \<Rightarrow> dequeue_msg q = Inl NullDeref
     | a # as' \<Rightarrow> \<exists>q'. dequeue_msg q = Inr q' \<and> ptr_inv q' as' \<and> q_store q' a = None \<and>
         list_deq (ptr_msgs q as) = Inr (ptr_msgs q' as'))"
proof (cases as)
  case Nil
  with assms show ?thesis
    using enqueue_msg_refines [OF assms] dequeue_msg_empty by auto
next
  case (Cons a as')
  with assms show ?thesis
    using enqueue_msg_refines [OF assms] dequeue_msg_refines [of q a as'] by auto
qed

theorem linked_list_refines_queue_witness:
  "let q = \<lparr>q_store = [7 \<mapsto> \<lparr>qn_msg = ping_msg, qn_next = None\<rparr>], q_head = None, q_tail = None\<rparr> in
   dequeue_msg q = Inl NullDeref \<and>
   (\<exists>q'. enqueue_msg 7 q = Inr q' \<and> ptr_inv q' [7] \<and> ptr_msgs q' [7] = list_enq ping_msg [])"
proof -
  let ?q = "\<lparr>q_store = [7 \<mapsto> \<lparr>qn_msg = ping_msg, qn_next = None\<rparr>], q_head = None, q_tail = None\<rparr>"
  have "ptr_inv ?q []" by (simp add: ptr_inv_def)
  note refines = linked_list_refines_queue [OF this]
  have "dequeue_msg ?q = Inl NullDeref" using refines by simp
  moreover have "\<exists>q'. enqueue_msg 7 ?q = Inr q' \<and> ptr_inv q' [7] \<and> ptr_msgs q' [7] = list_enq ping_msg []"
    using refines [THEN conjunct1, rule_format, of 7 "\<lparr>qn_msg = ping_msg, qn_next = None\<rparr>"]
    by (simp add: ptr_msgs_def)
  ultimately show ?thesis by simp
qed

section \<open>Byte order\<close>

text \<open>C39: The conversions give the same wire format on hosts of either byte order: what
  \<open>HTONx\<close> stores is the big-endian representation, and \<open>NTOHx\<close> of a load is the
  value those octets represent; so a value survives the passage between any two hosts.\<close>

theorem byte_order_portable:
  "NTOH16 h' (native_load h' (native_store h 2 (HTON16 h a))) = a \<and>
   NTOH32 h' (native_load h' (native_store h 4 (HTON32 h b))) = b \<and>
   NTOH64 h' (native_load h' (native_store h 8 (HTON64 h c))) = c \<and>
   native_store h 2 (HTON16 h a) = be_bytes 2 a \<and> native_store h 4 (HTON32 h b) = be_bytes 4 b \<and>
   native_store h 8 (HTON64 h c) = be_bytes 8 c"
  by (simp add: HTON16_store HTON32_store HTON64_store NTOH16_load NTOH32_load NTOH64_load
      be_word_be_bytes)

section \<open>Small libraries\<close>

text \<open>C40: \<open>stricmp\<close> and \<open>strnicmp\<close> are zero exactly for strings, or prefixes of \<open>n\<close>
  characters, that agree after conversion to lower case; and \<open>stricmp\<close> changes its sign with the
  order of its arguments.\<close>

theorem stricmp_correct:
  assumes "is_cstring s" and "is_cstring t"
  shows "(stricmp s t = 0 \<longleftrightarrow> map tolower s = map tolower t) \<and>
    (strnicmp s t n = 0 \<longleftrightarrow> take n (map tolower s) = take n (map tolower t)) \<and>
    stricmp s t = - stricmp t s"
  using stricmp_eq_0_iff [OF assms] strnicmp_eq_0_iff [OF assms] stricmp_antisym by blast

theorem stricmp_correct_witness: "stricmp [97, 66] [65, 98] = 0 \<and> strnicmp [97, 66] [65, 99] 1 = 0"
  using stricmp_correct [of "[97, 66]" "[65, 98]" 2] stricmp_correct [of "[97, 66]" "[65, 99]" 1]
  by (simp add: is_cstring_def tolower_def)

text \<open>The transition of the random generator is a bijection on its states, so it never
  loses one, and distinct seeds give distinct generators.\<close>

lemma prng_keeps_entropy:
  "bij (\<lambda>ctx. snd (prng_random_r ctx)) \<and> inj prng_srandom_r"
  using bij_prng_step prng_srandom_r_inj by blast

text \<open>Every reply code has its own text of at most 31 characters, as listed, and any
  other value is answered by \<open>Unknown Error\<close>; so the notice of an error response always fits.\<close>

lemma status_texts:
  "length (sc_msgstr sc) \<le> 31 \<and> is_cstring (sc_msgstr sc) \<and>
   (sc_msgstr sc = str ''Unknown Error'' \<or> sc \<in> fst ` set sc_cases) \<and> distinct (map fst sc_cases)"
proof -
  have "sc_msgstr sc = str ''Unknown Error'' \<or> sc \<in> fst ` set sc_cases"
    unfolding sc_msgstr_def
    by (cases "map_of sc_cases sc") (auto simp del: set_map dest: map_of_SomeD intro: image_eqI [rotated])
  then show ?thesis using length_sc_msgstr distinct_sc_cases is_cstring_sc_msgstr by blast
qed

text \<open>Times survive their conversions: seconds with nanoseconds represent a time exactly,
  seconds with microseconds up to the truncated nanoseconds, the small fields are normalised for
  times after the epoch, and a normalised pair comes back from the time it denotes.\<close>

lemma time_round_trips:
  "ntime_from_timespec (ntime_to_timespec t) = t \<and>
   (0 \<le> t \<longrightarrow> ntime_from_timeval (ntime_to_timeval t) = t - t mod NT_NS_PER_US \<and>
      0 \<le> ts_nsec (ntime_to_timespec t) \<and> ts_nsec (ntime_to_timespec t) < NT_NS_PER_S \<and>
      0 \<le> tv_usec (ntime_to_timeval t) \<and> tv_usec (ntime_to_timeval t) < 1000000) \<and>
   (0 \<le> ts_sec ts \<and> 0 \<le> ts_nsec ts \<and> ts_nsec ts < NT_NS_PER_S \<longrightarrow>
      ntime_to_timespec (ntime_from_timespec ts) = ts)"
proof (intro conjI impI)
  show "ntime_from_timespec (ntime_to_timespec t) = t"
    by (simp add: ntime_from_timespec_def ntime_to_timespec_def sdiv_smod_eq)
next
  assume t: "0 \<le> t"
  note eqs = smod_lower [OF t, of NT_NS_PER_S] smod_lower [of "t mod NT_NS_PER_S" NT_NS_PER_US]
  have "(t mod 1000000000) div 1000 * 1000 = t mod 1000000000 - t mod 1000"
    by (simp add: minus_mod_eq_div_mult [symmetric] mod_mod_cancel)
  then show "ntime_from_timeval (ntime_to_timeval t) = t - t mod NT_NS_PER_US"
    using eqs div_mult_mod_eq [of t 1000000000]
    by (simp add: ntime_from_timeval_def ntime_to_timeval_def ntime_consts)
  show "0 \<le> ts_nsec (ntime_to_timespec t)" "ts_nsec (ntime_to_timespec t) < NT_NS_PER_S"
    "0 \<le> tv_usec (ntime_to_timeval t)" "tv_usec (ntime_to_timeval t) < 1000000"
    using eqs div_mult_mod_eq [of "t mod 1000000000" 1000] pos_mod_bound [of 1000000000 t]
      pos_mod_sign [of 1000 "t mod 1000000000"]
    by (simp_all add: ntime_to_timespec_def ntime_to_timeval_def ntime_consts
        pos_imp_zdiv_nonneg_iff)
next
  assume ts: "0 \<le> ts_sec ts \<and> 0 \<le> ts_nsec ts \<and> ts_nsec ts < NT_NS_PER_S"
  then have "0 \<le> ntime_from_timespec ts"
    by (simp add: ntime_from_timespec_def ntime_consts)
  from smod_lower [OF this, of NT_NS_PER_S] ts
  show "ntime_to_timespec (ntime_from_timespec ts) = ts"
    by (simp add: ntime_from_timespec_def ntime_to_timespec_def ntime_consts)
qed

lemma time_round_trips_example:
  "ntime_from_timeval (ntime_to_timeval 1234567890) = 1234567890 - 890 \<and>
   ntime_to_timespec (ntime_from_timespec \<lparr>ts_sec = 3, ts_nsec = 5\<rparr>) = \<lparr>ts_sec = 3, ts_nsec = 5\<rparr>"
  using time_round_trips [of 1234567890 "\<lparr>ts_sec = 3, ts_nsec = 5\<rparr>"] by (simp add: ntime_consts)

lemma card_residue:
  assumes "k < u"
  shows "card {r :: nat. r < q * u \<and> r mod u = k} = q"
proof -
  have "{r. r < q * u \<and> r mod u = k} = (\<lambda>i. i * u + k) ` {..<q}"
  proof (intro set_eqI iffI)
    fix r assume "r \<in> {r. r < q * u \<and> r mod u = k}"
    then show "r \<in> (\<lambda>i. i * u + k) ` {..<q}"
      using div_mult_mod_eq [of r u] by (intro image_eqI [of _ _ "r div u"]) (auto simp: less_mult_imp_div_less)
  next
    fix r assume "r \<in> (\<lambda>i. i * u + k) ` {..<q}"
    then obtain i where i: "i < q" "r = i * u + k" by auto
    then have "(i + 1) * u \<le> q * u" by (intro mult_le_mono1) simp
    with i assms show "r \<in> {r. r < q * u \<and> r mod u = k}" by simp
  qed
  moreover have "inj_on (\<lambda>i. i * u + k) {..<q}"
    using assms by (auto simp: inj_on_def)
  ultimately show ?thesis by (simp add: card_image)
qed

text \<open>A draw below a bound is below it and comes from an accepted number of the generator,
  and every value below the bound is the residue of the same number of accepted numbers: the draw
  has no modulo bias.\<close>

lemma uniform_draw:
  assumes "1 < upper"
  shows "(\<forall>v ctx'. prng_random_uni_r ctx upper = Some (v, ctx') \<longrightarrow> v < upper \<and>
      (\<exists>r. uni_draw ctx upper = Some (r, ctx') \<and> v = r mod upper \<and>
           r < PRNG_RANDOM_MAX - PRNG_RANDOM_MAX mod upper)) \<and>
    (\<forall>k < upper. card {r. r < PRNG_RANDOM_MAX - PRNG_RANDOM_MAX mod upper \<and> r mod upper = k} =
       unat (PRNG_RANDOM_MAX div upper))"
proof (intro conjI allI impI)
  fix v ctx' assume draw: "prng_random_uni_r ctx upper = Some (v, ctx')"
  with assms show "v < upper"
    by (auto simp: prng_random_uni_r_def word_less_nat_alt unat_mod)
  from draw assms show "\<exists>r. uni_draw ctx upper = Some (r, ctx') \<and> v = r mod upper \<and>
           r < PRNG_RANDOM_MAX - PRNG_RANDOM_MAX mod upper"
    by (auto simp: prng_random_uni_r_def dest: uni_draw_accepted)
next
  fix k assume k: "k < upper"
  let ?M = "PRNG_RANDOM_MAX"
  have lim: "unat (?M - ?M mod upper) = unat (?M div upper) * unat upper"
  proof -
    have "?M mod upper \<le> ?M" by (simp add: word_le_nat_alt unat_mod)
    then have "unat (?M - ?M mod upper) = unat ?M - unat (?M mod upper)" by (rule unat_sub)
    then show ?thesis by (simp only: unat_mod unat_div minus_mod_eq_div_mult)
  qed
  have "unat ` {r. r < ?M - ?M mod upper \<and> r mod upper = k} =
      {r. r < unat (?M div upper) * unat upper \<and> r mod unat upper = unat k}"
  proof (intro set_eqI iffI)
    fix n assume n: "n \<in> {r. r < unat (?M div upper) * unat upper \<and> r mod unat upper = unat k}"
    then have "n < 2 ^ LENGTH(64)" using lim unsigned_less [where w = "?M - ?M mod upper" and 'a = nat]
      by simp
    then have "unat (of_nat n :: u64) = n" by (simp add: unat_of_nat)
    with n show "n \<in> unat ` {r. r < ?M - ?M mod upper \<and> r mod upper = k}"
      by (intro image_eqI [of _ _ "of_nat n"]) (auto simp: word_less_nat_alt lim word_unat_eq_iff unat_mod)
  qed (auto simp: word_less_nat_alt lim unat_mod)
  then have "card (unat ` {r. r < ?M - ?M mod upper \<and> r mod upper = k}) = unat (?M div upper)"
    using k card_residue [of "unat k" "unat upper"] by (simp add: word_less_nat_alt)
  then show "card {r. r < ?M - ?M mod upper \<and> r mod upper = k} = unat (?M div upper)"
    by (subst (asm) card_image) (auto simp: inj_on_def word_unat_eq_iff)
qed

lemma uniform_draw_example:
  "card {r. r < PRNG_RANDOM_MAX - PRNG_RANDOM_MAX mod 6 \<and> r mod 6 = 2} = unat (PRNG_RANDOM_MAX div 6)"
  using uniform_draw [of 6] by simp

end
