(* ===== verification/Clib.thy ===== *)
theory Clib
  imports Frelay_Base
begin

text \<open>
  The functions of the C library that the program's parsers and printers rely on, for the arguments
  the program passes: reading lines, character classes, and numbers in text.
\<close>

section \<open>Lines\<close>

text \<open>
  \<open>fgets n\<close>: the bytes \<^verbatim>\<open>fgets( buf, n + 1, fp )\<close> stores, and what is left of the file.
\<close>

fun fgets :: "nat \<Rightarrow> byte list \<Rightarrow> byte list \<times> byte list" where
  "fgets 0 bs = ([], bs)"
| "fgets (Suc n) [] = ([], [])"
| "fgets (Suc n) (c # bs) =
     (if c = 10 then ([c], bs) else (case fgets n bs of (l, r) \<Rightarrow> (c # l, r)))"

section \<open>Characters and numbers\<close>

definition isspace :: "byte \<Rightarrow> bool" where
  "isspace c \<longleftrightarrow> c = 32 \<or> 9 \<le> c \<and> c \<le> 13"

definition xdigit :: "byte \<Rightarrow> nat option" where
  "xdigit c =
     (if 48 \<le> c \<and> c \<le> 57 then Some (unat c - 48)
      else if 97 \<le> c \<and> c \<le> 102 then Some (unat c - 87)
      else if 65 \<le> c \<and> c \<le> 70 then Some (unat c - 55)
      else None)"

definition hexval :: "cstring \<Rightarrow> nat" where
  "hexval ds = foldl (\<lambda>v c. v * 16 + the (xdigit c)) 0 ds"

definition strtoull16 :: "cstring \<Rightarrow> u64 \<times> cstring" where
  "strtoull16 s =
     (let t = dropWhile isspace s;
          neg = (t \<noteq> [] \<and> hd t = 45);
          t = (if t \<noteq> [] \<and> (hd t = 45 \<or> hd t = 43) then tl t else t);
          t = (case t of a # b # c # _ \<Rightarrow>
                 if a = 48 \<and> (b = 120 \<or> b = 88) \<and> xdigit c \<noteq> None then drop 2 t else t
               | _ \<Rightarrow> t);
          ds = takeWhile (\<lambda>c. xdigit c \<noteq> None) t
      in if ds = [] then (0, s)
         else (if 2 ^ 64 \<le> hexval ds then - 1
               else if neg then - of_nat (hexval ds) else of_nat (hexval ds),
               drop (length ds) t))"

text \<open>The decimal and octal digits, and \<^verbatim>\<open>strtol( s, NULL, 0 )\<close> for a 64-bit \<^verbatim>\<open>long\<close>.\<close>

definition digit :: "nat \<Rightarrow> byte \<Rightarrow> nat option" where
  "digit b c = (case xdigit c of Some d \<Rightarrow> if d < b then Some d else None | None \<Rightarrow> None)"

definition digits_val :: "nat \<Rightarrow> cstring \<Rightarrow> nat" where
  "digits_val b s = foldl (\<lambda>v c. v * b + the (digit b c)) 0 (takeWhile (\<lambda>c. digit b c \<noteq> None) s)"

definition strtol0_digits :: "cstring \<Rightarrow> nat" where
  "strtol0_digits t =
     (case t of
        a # b # c # _ \<Rightarrow>
          if a = 48 \<and> (b = 120 \<or> b = 88) \<and> xdigit c \<noteq> None then digits_val 16 (drop 2 t)
          else if a = 48 then digits_val 8 t else digits_val 10 t
      | a # _ \<Rightarrow> if a = 48 then digits_val 8 t else digits_val 10 t
      | [] \<Rightarrow> 0)"

definition strtol0 :: "cstring \<Rightarrow> int" where
  "strtol0 s =
     (let t = dropWhile isspace s;
          neg = (t \<noteq> [] \<and> hd t = 45);
          t = (if t \<noteq> [] \<and> (hd t = 45 \<or> hd t = 43) then tl t else t);
          v = (if neg then - int (strtol0_digits t) else int (strtol0_digits t))
      in max (- (2 ^ 63)) (min (2 ^ 63 - 1) v))"

text \<open>\<^verbatim>\<open>%016PRIx64\<close> and \<^verbatim>\<open>%d\<close>.\<close>

fun hex_digits :: "nat \<Rightarrow> nat \<Rightarrow> cstring" where
  "hex_digits 0 v = []"
| "hex_digits (Suc n) v =
     hex_digits n (v div 16) @ [if v mod 16 < 10 then of_nat (48 + v mod 16) else of_nat (87 + v mod 16)]"

function dec_digits :: "nat \<Rightarrow> cstring" where
  "dec_digits v = (if v < 10 then [of_nat (48 + v)] else dec_digits (v div 10) @ [of_nat (48 + v mod 10)])"
  by pat_completeness auto
termination
  by (relation "measure id") auto

declare dec_digits.simps [simp del]

definition print_int :: "int \<Rightarrow> cstring" where
  "print_int v = (if v < 0 then 45 # dec_digits (nat (- v)) else dec_digits (nat v))"

section \<open>Lemmas\<close>

lemma fgets_length: "fgets n bs = (l, r) \<Longrightarrow> length l + length r = length bs"
  by (induction n bs arbitrary: l r rule: fgets.induct) (auto split: if_splits prod.splits)

lemma fgets_progress: "0 < n \<Longrightarrow> bs \<noteq> [] \<Longrightarrow> length (snd (fgets n bs)) < length bs"
  by (cases n; cases bs)
    (auto split: prod.splits dest!: fgets_length)
lemma fgets_smaller: "(l, r) = fgets (Suc n) bs \<Longrightarrow> bs \<noteq> [] \<Longrightarrow> length r < length bs"
  using fgets_progress [of "Suc n" bs] by (metis snd_conv zero_less_Suc)

section \<open>Numbers written and read\<close>

lemma of_nat_byte_eq_iff: "a < 256 \<Longrightarrow> b < 256 \<Longrightarrow> ((of_nat a :: byte) = of_nat b) = (a = b)"
  by (simp add: word_of_nat_eq_iff take_bit_nat_eq_self)

lemma unat_of_nat_byte: "n < 256 \<Longrightarrow> unat (of_nat n :: byte) = n"
  by (simp add: unsigned_of_nat take_bit_nat_eq_self)

lemma digit_ten: "k < 10 \<Longrightarrow> digit 10 (of_nat (48 + k)) = Some k"
  by (simp add: digit_def xdigit_def word_le_nat_alt unat_of_nat_byte del: of_nat_add)

lemma dec_digits_digits: "\<forall>c \<in> set (dec_digits v). \<exists>k < 10. c = of_nat (48 + k)"
proof (induction v rule: dec_digits.induct)
  case (1 v)
  show ?case
  proof (cases "v < 10")
    case True
    then show ?thesis by (subst dec_digits.simps) (auto simp del: of_nat_add)
  next
    case False
    then show ?thesis using 1
      by (subst dec_digits.simps) (auto simp del: of_nat_add intro: exI [of _ "v mod 10"])
  qed
qed

lemma dec_digits_not_Nil [simp]: "dec_digits v \<noteq> []"
  by (subst dec_digits.simps) simp

lemma foldl_digits: "foldl (\<lambda>v c. v * 10 + the (digit 10 c)) 0 (dec_digits v) = v"
proof (induction v rule: dec_digits.induct)
  case (1 v)
  show ?case
  proof (cases "v < 10")
    case True
    then show ?thesis by (subst dec_digits.simps) (simp add: digit_ten del: of_nat_add)
  next
    case False
    then show ?thesis using 1
      by (subst dec_digits.simps) (simp add: digit_ten del: of_nat_add)
  qed
qed

lemma takeWhile_all: "\<forall>c \<in> set s. P c \<Longrightarrow> takeWhile P s = s"
  by simp

lemma digits_val_dec: "digits_val 10 (dec_digits v) = v"
proof -
  have "\<forall>c \<in> set (dec_digits v). digit 10 c \<noteq> None"
    using dec_digits_digits [of v] digit_ten by fastforce
  then have "takeWhile (\<lambda>c. digit 10 c \<noteq> None) (dec_digits v) = dec_digits v"
    by simp
  then show ?thesis unfolding digits_val_def by (simp only: foldl_digits)
qed

lemma hd_dec_digits: "v \<noteq> 0 \<Longrightarrow> hd (dec_digits v) \<noteq> 48"
proof (induction v rule: dec_digits.induct)
  case (1 v)
  show ?case
  proof (cases "v < 10")
    case True
    then show ?thesis using 1(2) of_nat_byte_eq_iff [of "48 + v" 48]
      by (subst dec_digits.simps) simp
  next
    case False
    then show ?thesis using 1 by (subst dec_digits.simps) simp
  qed
qed

lemma dec_digits_0: "dec_digits 0 = [48]"
  by (simp add: dec_digits.simps)

text \<open>A digit is neither a sign nor a space.\<close>

lemma dec_digit_char:
  assumes "c \<in> set (dec_digits v)"
  shows "c \<noteq> 45" "c \<noteq> 43" "\<not> isspace c" "c \<noteq> 0" "c \<noteq> 10"
proof -
  obtain k where k: "k < 10" "c = of_nat (48 + k)" using dec_digits_digits assms by blast
  have "unat c = 48 + k" using k by (simp add: unat_of_nat_byte del: of_nat_add)
  then show "c \<noteq> 45" "c \<noteq> 43" "\<not> isspace c" "c \<noteq> 0" "c \<noteq> 10"
    using k(1) by (auto simp: isspace_def word_le_nat_alt)
qed

lemma dropWhile_hd: "s = [] \<or> \<not> P (hd s) \<Longrightarrow> dropWhile P s = s"
  by (cases s) auto

lemma strtol0_print_int:
  assumes "- (2 ^ 63) \<le> v" and "v < 2 ^ 63"
  shows "strtol0 (print_int v) = v"
proof -
  define n where "n = nat \<bar>v\<bar>"
  let ?d = "dec_digits n"
  have hd: "hd ?d \<in> set ?d" by simp
  note c = dec_digit_char [OF hd]
  obtain h t where ht: "?d = h # t" by (cases ?d) auto
  have val: "strtol0_digits ?d = n"
  proof (cases "n = 0")
    case True
    then show ?thesis by (simp add: dec_digits_0 digits_val_def digit_def xdigit_def strtol0_digits_def)
  next
    case False
    then have "h \<noteq> 48" using hd_dec_digits [of n] ht by simp
    then show ?thesis using ht digits_val_dec [of n] by (auto simp: strtol0_digits_def split: list.split)
  qed
  show ?thesis
  proof (cases "v < 0")
    case True
    then have s: "print_int v = 45 # ?d" by (simp add: print_int_def n_def)
    have "strtol0 (print_int v) = max (- (2 ^ 63)) (min (2 ^ 63 - 1) (- int n))"
      unfolding strtol0_def s Let_def by (simp add: dropWhile_hd isspace_def val)
    then show ?thesis using True assms by (simp add: n_def)
  next
    case False
    then have s: "print_int v = ?d" by (simp add: print_int_def n_def)
    have ws: "dropWhile isspace ?d = ?d" using c by (intro dropWhile_hd) simp
    have "strtol0 (print_int v) = max (- (2 ^ 63)) (min (2 ^ 63 - 1) (int n))"
      unfolding strtol0_def s Let_def ws using c by (simp add: val)
    then show ?thesis using False assms by (simp add: n_def)
  qed
qed

text \<open>The hexadecimal digits printed are read back.\<close>

definition hex_digit :: "nat \<Rightarrow> byte" where
  "hex_digit v = (if v < 10 then of_nat (48 + v) else of_nat (87 + v))"

lemma hex_digits_Suc: "hex_digits (Suc n) v = hex_digits n (v div 16) @ [hex_digit (v mod 16)]"
  by (simp add: hex_digit_def)

declare hex_digits.simps(2) [simp del]
declare hex_digits_Suc [simp]

lemma xdigit_hex_digit: "v < 16 \<Longrightarrow> xdigit (hex_digit v) = Some v"
proof -
  have "list_all (\<lambda>v. xdigit (hex_digit v) = Some v) [0..<16]" by code_simp
  then show "v < 16 \<Longrightarrow> xdigit (hex_digit v) = Some v" by (simp add: list_all_iff)
qed

lemma length_hex_digits [simp]: "length (hex_digits n v) = n"
  by (induction n arbitrary: v) simp_all

lemma hex_digits_xdigit: "c \<in> set (hex_digits n v) \<Longrightarrow> xdigit c \<noteq> None"
  by (induction n arbitrary: v) (auto simp: xdigit_hex_digit)

lemma hexval_snoc: "hexval (ds @ [c]) = hexval ds * 16 + the (xdigit c)"
  by (simp add: hexval_def)

lemma hexval_hex_digits: "v < 16 ^ n \<Longrightarrow> hexval (hex_digits n v) = v"
proof (induction n arbitrary: v)
  case 0
  then show ?case by (simp add: hexval_def)
next
  case (Suc n)
  then have "v div 16 < 16 ^ n" by (simp add: less_mult_imp_div_less)
  with Suc show ?case by (simp add: hexval_snoc xdigit_hex_digit)
qed

lemma xdigit_Some: "xdigit c \<noteq> None \<Longrightarrow> \<not> isspace c \<and> c \<noteq> 45 \<and> c \<noteq> 43 \<and> c \<noteq> 120 \<and> c \<noteq> 88"
  by (auto simp: xdigit_def isspace_def word_le_nat_alt split: if_splits)

lemma strtoull16_digits:
  assumes ds: "ds = a # b # cs" "\<And>c. c \<in> set ds \<Longrightarrow> xdigit c \<noteq> None" and v: "hexval ds < 2 ^ 64"
    and rest: "rs = [] \<or> xdigit (hd rs) = None"
  shows "strtoull16 (ds @ rs) = (of_nat (hexval ds), rs)"
proof -
  have a: "\<not> isspace a" "a \<noteq> 45" "a \<noteq> 43" "b \<noteq> 120" "b \<noteq> 88"
    using ds(2) [of a] ds(2) [of b] ds(1) xdigit_Some by auto
  have t: "takeWhile (\<lambda>c. xdigit c \<noteq> None) (ds @ rs) = ds"
    using ds(2) rest by (cases rs) (auto simp: takeWhile_tail)
  have "strtoull16 (ds @ rs) =
      (let ds' = takeWhile (\<lambda>c. xdigit c \<noteq> None) (ds @ rs) in
       (of_nat (hexval ds'), drop (length ds') (ds @ rs)))"
    using a v t unfolding strtoull16_def ds(1)
    by (auto simp: Let_def split: list.splits) (metis append_eq_conv_conj)
  with t show ?thesis by simp
qed

lemma strtoull16_hex16:
  fixes v :: u64
  assumes "rs = [] \<or> xdigit (hd rs) = None"
  shows "strtoull16 (hex_digits 16 (unat v) @ rs) = (v, rs)"
proof -
  let ?ds = "hex_digits 16 (unat v)"
  have v: "unat v < 16 ^ 16" using unsigned_less [of v] by simp
  have len: "length ?ds = 16" by (rule length_hex_digits)
  then obtain a ds1 where ds1: "?ds = a # ds1" by (cases ?ds) simp_all
  with len obtain b cs where "ds1 = b # cs" by (cases ds1) simp_all
  with ds1 have ds: "?ds = a # b # cs" by simp
  show ?thesis
    using strtoull16_digits [OF ds hex_digits_xdigit _ assms] v
    by (simp add: hexval_hex_digits [OF v])
qed

lemma fgets_line: "10 \<notin> set l \<Longrightarrow> length l < n \<Longrightarrow> fgets n (l @ 10 # r) = (l @ [10], r)"
proof (induction l arbitrary: n)
  case Nil
  then show ?case by (cases n) auto
next
  case (Cons c l)
  then show ?case by (cases n) auto
qed

section \<open>Output of commands\<close>

text \<open>The strings that \<^verbatim>\<open>pcmd\<close> (src/util.c) hands to its callback one after another when the
  command has written \<open>out\<close>: the pieces \<^verbatim>\<open>fgets\<close> reads into a buffer of 1000 octets.\<close>

function pcmd_pieces :: "byte list \<Rightarrow> cstring list" where
  "pcmd_pieces out =
     (if out = [] then []
      else let (buf, rest) = fgets 999 out in takeWhile (\<lambda>c. c \<noteq> 0) buf # pcmd_pieces rest)"
  by pat_completeness auto
termination
  by (relation "measure length") (auto dest: sym dest!: fgets_progress [of 999, simplified])

declare pcmd_pieces.simps [simp del]

lemma pcmd_pieces_lines:
  "\<forall>l \<in> set ls. 0 \<notin> set l \<and> 10 \<notin> set l \<and> length l < 999 \<Longrightarrow>
     pcmd_pieces (concat (map (\<lambda>l. l @ [10]) ls)) = map (\<lambda>l. l @ [10]) ls"
proof (induction ls)
  case Nil
  show ?case by (simp add: pcmd_pieces.simps)
next
  case (Cons l ls)
  have tw: "takeWhile (\<lambda>c. c \<noteq> 0) (l @ [10]) = l @ [10]"
    using Cons.prems by (subst takeWhile_eq_all_conv) auto
  show ?case
    using Cons by (subst pcmd_pieces.simps) (simp add: fgets_line tw del: takeWhile_append)
qed

lemma length_concat_last: "ss \<noteq> [] \<Longrightarrow> length (concat ss) = length (concat (butlast ss)) + length (last ss)"
  by (induction ss) auto

lemma fgets_append: "fst (fgets n s) @ snd (fgets n s) = s" "length (fst (fgets n s)) \<le> n"
  by (induction n s rule: fgets.induct) (auto split: prod.splits)

lemma pcmd_pieces_Nil [simp]: "pcmd_pieces [] = []"
  by (simp add: pcmd_pieces.simps)

lemma pcmd_pieces_Nil_iff: "pcmd_pieces out = [] \<longleftrightarrow> out = []"
  by (subst pcmd_pieces.simps) (simp add: case_prod_beta Let_def)

lemma pcmd_pieces_step:
  "out \<noteq> [] \<Longrightarrow> pcmd_pieces out = takeWhile (\<lambda>c. c \<noteq> 0) (fst (fgets 999 out)) # pcmd_pieces (snd (fgets 999 out))"
  by (subst pcmd_pieces.simps) (simp add: case_prod_beta Let_def)

lemma pcmd_induct [case_names Nil pieces]:
  assumes "P []" and "\<And>out. out \<noteq> [] \<Longrightarrow> P (snd (fgets 999 out)) \<Longrightarrow> P out"
  shows "P out"
  by (induction out rule: measure_induct_rule [of length])
    (metis assms fgets_progress zero_less_numeral)

lemma pcmd_pieces_cstring: "s \<in> set (pcmd_pieces out) \<Longrightarrow> is_cstring s \<and> length s \<le> 999"
proof (induction out rule: pcmd_induct)
  case (pieces out)
  have "length (takeWhile (\<lambda>c. c \<noteq> 0) (fst (fgets 999 out))) \<le> 999"
    using fgets_append(2) [of 999 out] length_takeWhile_le le_trans by blast
  then show ?case using pieces by (auto simp: pcmd_pieces_step is_cstring_def dest: set_takeWhileD)
qed simp

lemma pcmd_pieces_length: "length (concat (pcmd_pieces out)) \<le> length out"
proof (induction out rule: pcmd_induct)
  case (pieces out)
  have "length out = length (fst (fgets 999 out)) + length (snd (fgets 999 out))"
    by (metis fgets_append(1) length_append)
  then show ?case using pieces length_takeWhile_le [of "\<lambda>c. c \<noteq> 0" "fst (fgets 999 out)"]
    by (simp add: pcmd_pieces_step)
qed simp

lemma pcmd_pieces_concat: "0 \<notin> set out \<Longrightarrow> concat (pcmd_pieces out) = out"
proof (induction out rule: pcmd_induct)
  case (pieces out)
  have sp: "set out = set (fst (fgets 999 out)) \<union> set (snd (fgets 999 out))"
    by (metis fgets_append(1) set_append)
  then have "takeWhile (\<lambda>c. c \<noteq> 0) (fst (fgets 999 out)) = fst (fgets 999 out)"
    using pieces(3) by (subst takeWhile_eq_all_conv) auto
  moreover have "concat (pcmd_pieces (snd (fgets 999 out))) = snd (fgets 999 out)"
    using pieces(2,3) sp by blast
  ultimately show ?case using fgets_append(1) [of 999 out] pcmd_pieces_step [OF pieces(1)] by (metis concat.simps(2))
qed simp

end
