(* ===== verification/Userdb.thy ===== *)
theory Userdb
  imports Clib
begin

text \<open>
  src/srvuserdb.c: the user database of the server. The singly linked list \<^verbatim>\<open>userdb\<close> is the
  list of its entries, newest first; the file system is a map from paths to files, a file being
  the bytes \<^verbatim>\<open>fopen( path, "r" )\<close> gives access to (none: it fails) and whether it can be opened
  for writing. Writes to an open file succeed, as the code assumes. The functions of the C library
  the parser uses are those of theory Clib; \<^verbatim>\<open>regexec\<close> is written out for the one
  expression the code compiles.
\<close>

section \<open>State\<close>

record udb_t =
  u_id :: u64
  u_name :: cstring
  u_key :: cstring

record db_file =
  f_content :: "byte list option"
  f_writable :: bool

record udb =
  userdb :: "udb_t list"
  userdb_path :: "cstring option"
  next_id :: u64
  udb_fs :: "cstring \<Rightarrow> db_file"

datatype udb_error = EINVAL | EEXIST

definition udb_start :: "(cstring \<Rightarrow> db_file) \<Rightarrow> udb" where
  "udb_start fs = \<lparr>userdb = [], userdb_path = None, next_id = 1, udb_fs = fs\<rparr>"

definition DELIM :: byte where "DELIM = 0x7c"

section \<open>Names\<close>

definition name_char :: "byte \<Rightarrow> bool" where
  "name_char c \<longleftrightarrow> 97 \<le> c \<and> c \<le> 122 \<or> 65 \<le> c \<and> c \<le> 90 \<or> c = 95 \<or> 48 \<le> c \<and> c \<le> 57"

text \<open>
  The pattern is anchored at both ends and compiled with \<^verbatim>\<open>REG_NEWLINE\<close>: the anchors also
  match after and before a newline, and no class of characters matches one, so the expression
  matches when one line of the string does.
\<close>

fun re_lines :: "cstring \<Rightarrow> cstring list" where
  "re_lines [] = [[]]"
| "re_lines (c # s) =
     (if c = 10 then [] # re_lines s
      else (case re_lines s of [] \<Rightarrow> [[c]] | l # ls \<Rightarrow> (c # l) # ls))"

definition UNAME_RE :: "cstring \<Rightarrow> bool" where
  "UNAME_RE l \<longleftrightarrow> 3 \<le> length l \<and> length l \<le> 31 \<and> list_all name_char l"

definition udb_nameisvalid :: "cstring \<Rightarrow> int" where
  "udb_nameisvalid s = (if list_ex UNAME_RE (re_lines s) then 0 else 1)"

section \<open>The list of entries\<close>

fun lookupname :: "udb_t list \<Rightarrow> cstring \<Rightarrow> udb_t option" where
  "lookupname [] s = None"
| "lookupname (p # ps) s = (if s = u_name p then Some p else lookupname ps s)"

definition udb_lookupname_i :: "udb \<Rightarrow> cstring \<Rightarrow> udb_t option" where
  "udb_lookupname_i d s = lookupname (userdb d) s"

definition udb_addentry_i ::
    "udb \<Rightarrow> u64 \<Rightarrow> cstring option \<Rightarrow> cstring option \<Rightarrow> (udb_error + udb_t) \<times> udb" where
  "udb_addentry_i d i name key =
     (case (name, key) of
        (Some n, Some k) \<Rightarrow>
          if udb_nameisvalid n \<noteq> 0 then (Inl EINVAL, d)
          else if udb_lookupname_i d n \<noteq> None then (Inl EEXIST, d)
          else let p = \<lparr>u_id = (if i \<noteq> 0 then i else next_id d), u_name = n, u_key = k\<rparr>;
                   d = (if next_id d \<le> u_id p then d\<lparr>next_id := u_id p + 1\<rparr> else d)
               in (Inr p, d\<lparr>userdb := p # userdb d\<rparr>)
      | _ \<Rightarrow> (Inl EINVAL, d))"

fun dropname :: "cstring \<Rightarrow> udb_t list \<Rightarrow> udb_t list option" where
  "dropname name [] = None"
| "dropname name (p # ps) =
     (if name = u_name p then Some ps else map_option ((#) p) (dropname name ps))"

definition udb_dropentry_i :: "udb \<Rightarrow> cstring \<Rightarrow> int \<times> udb" where
  "udb_dropentry_i d name =
     (case dropname name (userdb d) of
        Some ps \<Rightarrow> (0, d\<lparr>userdb := ps\<rparr>)
      | None \<Rightarrow> (- 1, d))"

section \<open>Loading\<close>

text \<open>One line of the file: identifier, name and key, or nothing when the line is ignored.\<close>

definition load_line :: "cstring \<Rightarrow> (u64 \<times> cstring \<times> cstring) option" where
  "load_line line =
     (let (i, name) = strtoull16 line in
      if i = 0 \<or> name = [] \<or> hd name \<noteq> DELIM \<or> DELIM \<notin> set (tl name) then None
      else let name = tl name;
               key = tl (dropWhile (\<lambda>c. c \<noteq> DELIM) name);
               name = takeWhile (\<lambda>c. c \<noteq> DELIM) name;
               key = (if 13 \<in> set key then takeWhile (\<lambda>c. c \<noteq> 13) key
                      else takeWhile (\<lambda>c. c \<noteq> 10) key)
           in Some (i, name, key))"

function load_lines :: "byte list \<Rightarrow> udb \<Rightarrow> udb" where
  "load_lines bs d =
     (if bs = [] then d
      else let (buf, rest) = fgets 15999 bs;
               line = takeWhile (\<lambda>c. c \<noteq> 0) buf;
               d = (case load_line line of
                      None \<Rightarrow> d
                    | Some (i, name, key) \<Rightarrow> snd (udb_addentry_i d i (Some name) (Some key)))
           in load_lines rest d)"
  by pat_completeness auto
termination
  by (relation "measure (\<lambda>(bs, d). length bs)") (auto dest: sym simp: fgets_progress dest!: fgets_progress [of 15999, simplified])

declare load_lines.simps [simp del]

definition udb_load :: "udb \<Rightarrow> cstring option \<Rightarrow> (int \<times> udb) res" where
  "udb_load d path =
     (case path of
        None \<Rightarrow> Inl Die
      | Some p \<Rightarrow>
          if userdb d \<noteq> [] then Inr (0, d)
          else case f_content (udb_fs d p) of
                 None \<Rightarrow> Inr (- 1, d)
               | Some bs \<Rightarrow> Inr (0, load_lines bs d))"

section \<open>Saving\<close>

definition save_line :: "udb_t \<Rightarrow> byte list" where
  "save_line p = hex_digits 16 (unat (u_id p)) @ [DELIM] @ u_name p @ [DELIM] @ u_key p @ [10]"

definition udb_save :: "udb \<Rightarrow> cstring option \<Rightarrow> (int \<times> udb) res" where
  "udb_save d path =
     (case path of
        None \<Rightarrow> Inl Die
      | Some p \<Rightarrow>
          if \<not> f_writable (udb_fs d p) then Inr (- 1, d)
          else Inr (0, d\<lparr>udb_fs := (udb_fs d)
                 (p := (udb_fs d p)\<lparr>f_content := Some (concat (map save_line (userdb d)))\<rparr>)\<rparr>))"

section \<open>The interface of the module\<close>

definition udb_init :: "udb \<Rightarrow> cstring \<Rightarrow> (int \<times> udb) res" where
  "udb_init d dbpath = (let d = d\<lparr>userdb_path := Some dbpath\<rparr> in udb_load d (userdb_path d))"

definition udb_lookupname :: "udb \<Rightarrow> cstring \<Rightarrow> (udb_t option \<times> udb) res" where
  "udb_lookupname d s =
     bindr (udb_load d (userdb_path d)) (\<lambda>(_, d). Inr (udb_lookupname_i d s, d))"

definition udb_addentry ::
    "udb \<Rightarrow> u64 \<Rightarrow> cstring option \<Rightarrow> cstring option \<Rightarrow> ((udb_error + udb_t) \<times> udb) res" where
  "udb_addentry d i name key =
     bindr (udb_load d (userdb_path d)) (\<lambda>(_, d).
     case udb_addentry_i d i name key of (u, d) \<Rightarrow>
     bindr (udb_save d (userdb_path d)) (\<lambda>(_, d). Inr (u, d)))"

definition udb_dropentry :: "udb \<Rightarrow> cstring \<Rightarrow> (int \<times> udb) res" where
  "udb_dropentry d name =
     bindr (udb_load d (userdb_path d)) (\<lambda>(_, d).
     case udb_dropentry_i d name of (r, d) \<Rightarrow>
     if r = 0 then bindr (udb_save d (userdb_path d)) (\<lambda>(_, d). Inr (r, d)) else Inr (r, d))"

definition udb_gettempid :: "udb \<Rightarrow> (u64 \<times> udb) res" where
  "udb_gettempid d =
     bindr (udb_load d (userdb_path d)) (\<lambda>(_, d). Inr (next_id d, d\<lparr>next_id := next_id d + 1\<rparr>))"

section \<open>Names and lookup\<close>

definition udb_map :: "udb \<Rightarrow> cstring \<Rightarrow> udb_t option" where
  "udb_map d = lookupname (userdb d)"

lemma lookupname_SomeD: "lookupname ps s = Some p \<Longrightarrow> p \<in> set ps \<and> u_name p = s"
  by (induction ps) (auto split: if_splits)

lemma lookupname_None_iff: "lookupname ps s = None \<longleftrightarrow> s \<notin> u_name ` set ps"
  by (induction ps) auto

lemma lookupname_in_set:
  "distinct (map u_name ps) \<Longrightarrow> p \<in> set ps \<Longrightarrow> lookupname ps (u_name p) = Some p"
  by (induction ps) (auto simp: image_iff)

lemma dropname_None_iff: "dropname name ps = None \<longleftrightarrow> lookupname ps name = None"
  by (induction ps) auto

lemma dropname_Some:
  "dropname name ps = Some qs \<Longrightarrow> distinct (map u_name ps) \<Longrightarrow>
     lookupname qs = (lookupname ps)(name := None) \<and> distinct (map u_name qs) \<and> set qs \<subseteq> set ps"
proof (induction ps arbitrary: qs)
  case Nil
  then show ?case by simp
next
  case (Cons p ps)
  show ?case
  proof (cases "name = u_name p")
    case True
    with Cons.prems show ?thesis
      by (auto simp: fun_eq_iff lookupname_None_iff)
  next
    case False
    with Cons.prems obtain rs where rs: "dropname name ps = Some rs" "qs = p # rs" by auto
    with Cons.IH [of rs] Cons.prems False show ?thesis by (auto simp: fun_eq_iff)
  qed
qed

lemma re_lines_nonempty: "re_lines s \<noteq> []"
  by (induction s) (auto split: list.splits)

lemma re_lines_single: "10 \<notin> set s \<Longrightarrow> re_lines s = [s]"
  by (induction s) auto

lemma name_char_not_newline: "\<not> name_char 10"
  by (simp add: name_char_def)

lemma name_char_cases: "name_char c \<Longrightarrow> c \<noteq> 10 \<and> c \<noteq> 13 \<and> c \<noteq> 0 \<and> c \<noteq> DELIM"
  by (auto simp: name_char_def DELIM_def)

text \<open>For strings of one line the check is the documented one.\<close>

lemma udb_nameisvalid_line: "10 \<notin> set s \<Longrightarrow> udb_nameisvalid s = 0 \<longleftrightarrow> UNAME_RE s"
  by (simp add: udb_nameisvalid_def re_lines_single)

lemma udb_nameisvalid_UNAME_RE: "UNAME_RE s \<Longrightarrow> udb_nameisvalid s = 0"
  by (subst udb_nameisvalid_line) (auto simp: UNAME_RE_def list_all_iff name_char_not_newline)

section \<open>Adding an entry\<close>

definition new_entry :: "udb \<Rightarrow> u64 \<Rightarrow> cstring \<Rightarrow> cstring \<Rightarrow> udb_t" where
  "new_entry d i n k = \<lparr>u_id = (if i \<noteq> 0 then i else next_id d), u_name = n, u_key = k\<rparr>"

definition can_add :: "udb \<Rightarrow> cstring \<Rightarrow> bool" where
  "can_add d n \<longleftrightarrow> udb_nameisvalid n = 0 \<and> udb_map d n = None"

lemma udb_addentry_i_cases:
  obtains (added) "can_add d n"
      "udb_addentry_i d i (Some n) (Some k) =
         (Inr (new_entry d i n k),
          d\<lparr>userdb := new_entry d i n k # userdb d,
            next_id := (if next_id d \<le> u_id (new_entry d i n k) then u_id (new_entry d i n k) + 1 else next_id d)\<rparr>)"
  | (invalid) "\<not> can_add d n" "udb_nameisvalid n \<noteq> 0" "udb_addentry_i d i (Some n) (Some k) = (Inl EINVAL, d)"
  | (exists) "\<not> can_add d n" "udb_nameisvalid n = 0" "udb_addentry_i d i (Some n) (Some k) = (Inl EEXIST, d)"
proof (cases "can_add d n")
  case True
  then show ?thesis
    by (intro added) (auto simp: can_add_def udb_addentry_i_def udb_lookupname_i_def udb_map_def new_entry_def Let_def)
next
  case False
  then show ?thesis
    using invalid exists
    by (cases "udb_nameisvalid n = 0")
      (auto simp: can_add_def udb_addentry_i_def udb_lookupname_i_def udb_map_def)
qed

lemma udb_addentry_i_frame:
  "udb_addentry_i d i nm k = (r, d') \<Longrightarrow> userdb_path d' = userdb_path d \<and> udb_fs d' = udb_fs d"
  by (auto simp: udb_addentry_i_def Let_def split: option.splits if_splits)

section \<open>Files as lists of entries\<close>

function file_entries :: "byte list \<Rightarrow> (u64 \<times> cstring \<times> cstring) list" where
  "file_entries bs =
     (if bs = [] then []
      else let (buf, rest) = fgets 15999 bs in
        (case load_line (takeWhile (\<lambda>c. c \<noteq> 0) buf) of None \<Rightarrow> [] | Some e \<Rightarrow> [e]) @ file_entries rest)"
  by pat_completeness auto
termination
  by (relation "measure length") (auto dest: sym dest!: fgets_progress [of 15999, simplified])

declare file_entries.simps [simp del]

fun add_loaded :: "u64 \<times> cstring \<times> cstring \<Rightarrow> udb \<Rightarrow> udb" where
  "add_loaded (i, n, k) d = snd (udb_addentry_i d i (Some n) (Some k))"

lemma load_lines_entries: "load_lines bs d = fold add_loaded (file_entries bs) d"
proof (induction bs d rule: load_lines.induct)
  case (1 bs d)
  show ?case
  proof (cases "bs = []")
    case False
    obtain buf rest where f: "fgets 15999 bs = (buf, rest)" by force
    show ?thesis
      using False 1 [OF False f [symmetric] refl refl] f
      by (subst load_lines.simps, subst file_entries.simps) (auto simp: Let_def split: option.splits)
  qed (simp add: load_lines.simps file_entries.simps)
qed

lemma file_entries_Nil [simp]: "file_entries [] = []"
  by (simp add: file_entries.simps)

lemma load_line_id: "load_line l = Some (i, n, k) \<Longrightarrow> i \<noteq> 0"
  by (auto simp: load_line_def Let_def split: prod.splits if_splits)

lemma file_entries_id: "(i, n, k) \<in> set (file_entries bs) \<Longrightarrow> i \<noteq> 0"
proof (induction bs rule: file_entries.induct)
  case (1 bs)
  show ?case
  proof (cases "bs = []")
    case False
    obtain buf rest where f: "fgets 15999 bs = (buf, rest)" by force
    have "(i, n, k) \<in> set (file_entries rest) \<or> load_line (takeWhile (\<lambda>c. c \<noteq> 0) buf) = Some (i, n, k)"
      using 1(2) False f by (subst (asm) file_entries.simps) (auto split: option.splits)
    with 1(1) [OF False f [symmetric] refl] load_line_id show ?thesis by blast
  qed (use 1 in simp)
qed

lemma add_loaded_frame:
  "userdb_path (add_loaded e d) = userdb_path d \<and> udb_fs (add_loaded e d) = udb_fs d"
proof -
  obtain i n k where e: "e = (i, n, k)" by (cases e)
  obtain r d' where "udb_addentry_i d i (Some n) (Some k) = (r, d')" by force
  with e udb_addentry_i_frame [OF this] show ?thesis by simp
qed

lemma fold_add_loaded_frame:
  "userdb_path (fold add_loaded es d) = userdb_path d \<and> udb_fs (fold add_loaded es d) = udb_fs d"
  by (induction es arbitrary: d) (simp_all add: add_loaded_frame)

section \<open>Well-formed databases\<close>

definition udb_wf :: "udb \<Rightarrow> bool" where
  "udb_wf d \<longleftrightarrow> distinct (map u_name (userdb d)) \<and> (\<forall>p \<in> set (userdb d). udb_nameisvalid (u_name p) = 0)"

definition ids_below :: "udb \<Rightarrow> bool" where
  "ids_below d \<longleftrightarrow> next_id d \<noteq> 0 \<and> (\<forall>p \<in> set (userdb d). u_id p \<noteq> 0 \<and> u_id p < next_id d)"

lemma udb_addentry_i_wf:
  assumes "udb_wf d"
  shows "udb_wf (snd (udb_addentry_i d i (Some n) (Some k)))"
  using assms
  by (cases rule: udb_addentry_i_cases [of d n i k])
    (auto simp: udb_wf_def can_add_def new_entry_def udb_map_def lookupname_None_iff image_iff)

lemma word_Suc_less:
  assumes "(x :: u64) \<noteq> - 1"
  shows "x < x + 1"
proof -
  have m: "unat (- 1 :: u64) = 2 ^ 64 - 1" by (simp add: unsigned_minus_1_eq_mask mask_eq_exp_minus_1)
  have "unat x \<noteq> 2 ^ 64 - 1"
    using assms unfolding m [symmetric] word_unat_eq_iff [of x] .
  moreover have "unat x < 2 ^ 64" using unsigned_less [of x] by simp
  ultimately have "unat x + unat (1 :: u64) < 2 ^ LENGTH(64)" by simp
  then have "x \<le> x + 1" by (rule no_olen_add_nat [THEN iffD2])
  then show ?thesis by (simp add: order.strict_iff_order)
qed

lemma udb_addentry_i_ids:
  assumes "ids_below d" and "i \<noteq> - 1" and "next_id d \<noteq> - 1"
  shows "ids_below (snd (udb_addentry_i d i (Some n) (Some k)))"
proof (cases rule: udb_addentry_i_cases [of d n i k])
  case added
  let ?i = "u_id (new_entry d i n k)"
  have i: "?i \<noteq> 0" "?i \<noteq> - 1"
    using assms by (auto simp: new_entry_def ids_below_def)
  then have "?i < ?i + 1" "?i + 1 \<noteq> 0" using word_Suc_less [of ?i] by auto
  with assms(1) i(1) show ?thesis
    unfolding added(2) by (auto simp: ids_below_def)
qed (use assms in simp_all)

lemma fold_add_loaded_wf: "udb_wf d \<Longrightarrow> udb_wf (fold add_loaded es d)"
proof (induction es arbitrary: d)
  case (Cons e es)
  obtain i n k where e: "e = (i, n, k)" by (cases e)
  show ?case
    using Cons.IH [of "add_loaded e d"] Cons.prems e udb_addentry_i_wf by simp
qed simp

definition no_accounts :: "byte list \<Rightarrow> bool" where
  "no_accounts bs \<longleftrightarrow> list_all (\<lambda>(i, n, k). udb_nameisvalid n \<noteq> 0) (file_entries bs)"

lemma fold_add_loaded_invalid:
  "list_all (\<lambda>(i, n, k). udb_nameisvalid n \<noteq> 0) es \<Longrightarrow> fold add_loaded es d = d"
proof (induction es)
  case (Cons e es)
  obtain i n k where e: "e = (i, n, k)" by (cases e)
  with Cons.prems have "add_loaded e d = d"
    by (cases rule: udb_addentry_i_cases [of d n i k]) (simp_all add: can_add_def)
  with Cons show ?case by simp
qed simp

text \<open>
  \<open>udb_inv\<close>: the database is well-formed, its file can be written, and when no account is
  left there is none in the file either, so that the load every operation starts with is void.
\<close>

definition udb_inv :: "udb \<Rightarrow> bool" where
  "udb_inv d \<longleftrightarrow> udb_wf d \<and>
     (\<exists>p. userdb_path d = Some p \<and> f_writable (udb_fs d p) \<and>
       (userdb d = [] \<longrightarrow> (\<forall>bs. f_content (udb_fs d p) = Some bs \<longrightarrow> no_accounts bs)))"

lemma udb_load_inv: "udb_inv d \<Longrightarrow> \<exists>r. udb_load d (userdb_path d) = Inr (r, d)"
  by (auto simp: udb_inv_def udb_load_def load_lines_entries no_accounts_def fold_add_loaded_invalid
      split: option.splits)

lemma udb_save_inv:
  assumes "udb_wf d" and "userdb_path d = Some p" and "f_writable (udb_fs d p)"
  obtains d' where "udb_save d (userdb_path d) = Inr (0, d')" and "udb_inv d'"
    and "userdb d' = userdb d" and "next_id d' = next_id d" and "userdb_path d' = userdb_path d"
    and "f_content (udb_fs d' p) = Some (concat (map save_line (userdb d)))"
  using assms by (auto simp: udb_save_def udb_inv_def udb_wf_def no_accounts_def)

lemma udb_lookupname_inv: "udb_inv d \<Longrightarrow> udb_lookupname d s = Inr (udb_map d s, d)"
  using udb_load_inv [of d] by (auto simp: udb_lookupname_def udb_lookupname_i_def udb_map_def)

lemma udb_gettempid_inv:
  "udb_inv d \<Longrightarrow> udb_gettempid d = Inr (next_id d, d\<lparr>next_id := next_id d + 1\<rparr>)"
  using udb_load_inv [of d] by (auto simp: udb_gettempid_def)

lemma udb_inv_next_id [simp]: "udb_inv (d\<lparr>next_id := i\<rparr>) = udb_inv d" "udb_map (d\<lparr>next_id := i\<rparr>) = udb_map d"
  by (auto simp: udb_inv_def udb_wf_def udb_map_def)
section \<open>The operations on well-formed databases\<close>

lemma udb_map_userdb: "userdb d = userdb d' \<Longrightarrow> udb_map d = udb_map d'"
  by (simp add: udb_map_def)

lemma udb_addentry_added:
  assumes inv: "udb_inv d" and can: "can_add d n"
  obtains d' where "udb_addentry d i (Some n) (Some k) = Inr (Inr (new_entry d i n k), d')"
    and "udb_inv d'" and "userdb d' = new_entry d i n k # userdb d"
    and "udb_map d' = (udb_map d)(n \<mapsto> new_entry d i n k)"
    and "next_id d' = (if next_id d \<le> u_id (new_entry d i n k)
                       then u_id (new_entry d i n k) + 1 else next_id d)"
proof -
  obtain r where load: "udb_load d (userdb_path d) = Inr (r, d)"
    using udb_load_inv [OF inv] by blast
  let ?e = "new_entry d i n k"
  let ?d = "d\<lparr>userdb := ?e # userdb d,
      next_id := (if next_id d \<le> u_id ?e then u_id ?e + 1 else next_id d)\<rparr>"
  have add: "udb_addentry_i d i (Some n) (Some k) = (Inr ?e, ?d)"
    using can by (cases rule: udb_addentry_i_cases [of d n i k]) simp_all
  have wf: "udb_wf ?d"
    using udb_addentry_i_wf [of d i n k] inv add by (simp add: udb_inv_def)
  obtain p where p: "userdb_path ?d = Some p" "f_writable (udb_fs ?d p)"
    using inv by (auto simp: udb_inv_def)
  obtain d' where d': "udb_save ?d (userdb_path ?d) = Inr (0, d')" "udb_inv d'"
      "userdb d' = userdb ?d" "next_id d' = next_id ?d"
    using udb_save_inv [OF wf p] by metis
  show thesis
  proof (rule that [of d'])
    show "udb_addentry d i (Some n) (Some k) = Inr (Inr ?e, d')"
      using load add d'(1) by (simp add: udb_addentry_def)
    show "udb_map d' = (udb_map d)(n \<mapsto> ?e)"
      using d'(3) by (auto simp: udb_map_def fun_eq_iff new_entry_def)
  qed (use d' in auto)
qed

lemma udb_addentry_refused:
  assumes inv: "udb_inv d" and can: "\<not> can_add d n"
  obtains e d' where "udb_addentry d i (Some n) (Some k) = Inr (Inl e, d')"
    and "udb_inv d'" and "userdb d' = userdb d" and "next_id d' = next_id d"
proof -
  obtain r where load: "udb_load d (userdb_path d) = Inr (r, d)"
    using udb_load_inv [OF inv] by blast
  obtain e where add: "udb_addentry_i d i (Some n) (Some k) = (Inl e, d)"
    using can by (cases rule: udb_addentry_i_cases [of d n i k]) simp_all
  obtain p where p: "udb_wf d" "userdb_path d = Some p" "f_writable (udb_fs d p)"
    using inv by (auto simp: udb_inv_def)
  obtain d' where d': "udb_save d (userdb_path d) = Inr (0, d')" "udb_inv d'"
      "userdb d' = userdb d" "next_id d' = next_id d"
    using udb_save_inv [OF p] by metis
  with load add show thesis by (intro that [of e d']) (simp_all add: udb_addentry_def)
qed

lemma udb_dropentry_found:
  assumes inv: "udb_inv d" and found: "udb_map d n \<noteq> None"
  obtains d' where "udb_dropentry d n = Inr (0, d')" and "udb_inv d'"
    and "udb_map d' = (udb_map d)(n := None)" and "next_id d' = next_id d"
    and "set (userdb d') \<subseteq> set (userdb d)"
proof -
  obtain r where load: "udb_load d (userdb_path d) = Inr (r, d)"
    using udb_load_inv [OF inv] by blast
  obtain qs where qs: "dropname n (userdb d) = Some qs"
    using found dropname_None_iff [of n "userdb d"] by (auto simp: udb_map_def)
  have props: "lookupname qs = (lookupname (userdb d))(n := None)" "distinct (map u_name qs)"
      "set qs \<subseteq> set (userdb d)"
    using dropname_Some [OF qs] inv by (simp_all add: udb_inv_def udb_wf_def)
  let ?d = "d\<lparr>userdb := qs\<rparr>"
  have wf: "udb_wf ?d" using props inv by (auto simp: udb_inv_def udb_wf_def)
  obtain p where p: "userdb_path ?d = Some p" "f_writable (udb_fs ?d p)"
    using inv by (auto simp: udb_inv_def)
  obtain d' where d': "udb_save ?d (userdb_path ?d) = Inr (0, d')" "udb_inv d'"
      "userdb d' = userdb ?d" "next_id d' = next_id ?d"
    using udb_save_inv [OF wf p] by metis
  show thesis
  proof (rule that [of d'])
    show "udb_dropentry d n = Inr (0, d')"
      using load qs d'(1) by (simp add: udb_dropentry_def udb_dropentry_i_def)
  qed (use d' props in \<open>simp_all add: udb_map_def\<close>)
qed

lemma udb_dropentry_missing:
  assumes "udb_inv d" and "udb_map d n = None"
  shows "udb_dropentry d n = Inr (- 1, d)"
  using udb_load_inv [OF assms(1)] assms(2) dropname_None_iff [of n "userdb d"]
  by (auto simp: udb_dropentry_def udb_dropentry_i_def udb_map_def)

section \<open>The interface the server relies on\<close>

datatype store_op = Add_Account u64 cstring cstring | Drop_Account cstring

locale user_store =
  fixes accounts :: "'d \<Rightarrow> cstring \<Rightarrow> udb_t option"
    and inv :: "'d \<Rightarrow> bool"
    and valid :: "cstring \<Rightarrow> bool"
    and add :: "'d \<Rightarrow> u64 \<Rightarrow> cstring \<Rightarrow> cstring \<Rightarrow> (bool \<times> 'd) res"
    and remove :: "'d \<Rightarrow> cstring \<Rightarrow> (int \<times> 'd) res"
  assumes add_ok: "inv d \<Longrightarrow> valid n \<Longrightarrow> accounts d n = None \<Longrightarrow>
        \<exists>e d'. add d i n k = Inr (True, d') \<and> inv d' \<and> accounts d' = (accounts d)(n \<mapsto> e) \<and>
          u_name e = n \<and> u_key e = k \<and> (i \<noteq> 0 \<longrightarrow> u_id e = i)"
    and add_refused: "inv d \<Longrightarrow> \<not> valid n \<or> accounts d n \<noteq> None \<Longrightarrow>
        \<exists>d'. add d i n k = Inr (False, d') \<and> inv d' \<and> accounts d' = accounts d"
    and remove_ok: "inv d \<Longrightarrow> accounts d n \<noteq> None \<Longrightarrow>
        \<exists>d'. remove d n = Inr (0, d') \<and> inv d' \<and> accounts d' = (accounts d)(n := None)"
    and remove_missing: "inv d \<Longrightarrow> accounts d n = None \<Longrightarrow> remove d n = Inr (- 1, d)"
begin

fun run_op :: "store_op \<Rightarrow> 'd \<Rightarrow> 'd res" where
  "run_op (Add_Account i n k) d = bindr (add d i n k) (\<lambda>(_, d). Inr d)"
| "run_op (Drop_Account n) d = bindr (remove d n) (\<lambda>(_, d). Inr d)"

fun run_ops :: "store_op list \<Rightarrow> 'd \<Rightarrow> 'd res" where
  "run_ops [] d = Inr d"
| "run_ops (x # xs) d = bindr (run_op x d) (run_ops xs)"

lemma remove_total:
  assumes "inv d"
  obtains r d' where "remove d n = Inr (r, d')" and "inv d'" and "accounts d' = (accounts d)(n := None)"
proof (cases "accounts d n = None")
  case True
  with remove_missing [OF assms] assms that show thesis by (metis fun_upd_idem)
next
  case False
  with remove_ok [OF assms] that show thesis by blast
qed

lemma add_total:
  assumes "inv d"
  obtains r d' where "add d i n k = Inr (r, d')" and "inv d'"
    and "\<And>m. accounts d m \<noteq> None \<or> m \<noteq> n \<Longrightarrow> accounts d' m = accounts d m"
proof (cases "valid n \<and> accounts d n = None")
  case True
  then obtain e d' where "add d i n k = Inr (True, d')" "inv d'" "accounts d' = (accounts d)(n \<mapsto> e)"
    using add_ok [OF assms, of n i k] by blast
  with that True show thesis by fastforce
next
  case False
  then obtain d' where "add d i n k = Inr (False, d')" "inv d'" "accounts d' = accounts d"
    using add_refused [OF assms, of n i k] by blast
  with that show thesis by metis
qed

lemma run_op_total:
  assumes "inv d"
  obtains d' where "run_op x d = Inr d'" and "inv d'"
    and "\<And>m. accounts d m \<noteq> None \<Longrightarrow> x \<noteq> Drop_Account m \<Longrightarrow> accounts d' m = accounts d m"
proof (cases x)
  case (Add_Account i n k)
  from add_total [OF assms, of i n k] obtain r d' where
    "add d i n k = Inr (r, d')" "inv d'"
    "\<And>m. accounts d m \<noteq> None \<or> m \<noteq> n \<Longrightarrow> accounts d' m = accounts d m" by blast
  with Add_Account that [of d'] show thesis by simp
next
  case (Drop_Account n)
  from remove_total [OF assms, of n] obtain r d' where
    "remove d n = Inr (r, d')" "inv d'" "accounts d' = (accounts d)(n := None)" .
  with Drop_Account that show thesis by simp
qed

text \<open>Whatever is added or removed under other names, an account keeps its identifier and key.\<close>

lemma account_stable:
  "inv d \<Longrightarrow> accounts d n = Some e \<Longrightarrow> Drop_Account n \<notin> set xs \<Longrightarrow>
     \<exists>d'. run_ops xs d = Inr d' \<and> inv d' \<and> accounts d' n = Some e"
proof (induction xs arbitrary: d)
  case (Cons x xs)
  from run_op_total [OF Cons.prems(1), of x] obtain d1 where d1: "run_op x d = Inr d1" "inv d1"
      "\<And>m. accounts d m \<noteq> None \<Longrightarrow> x \<noteq> Drop_Account m \<Longrightarrow> accounts d1 m = accounts d m" by blast
  with Cons.prems have "accounts d1 n = Some e" by auto
  with Cons.IH [OF d1(2)] Cons.prems d1(1) show ?case by simp
qed simp

lemma reregister:
  assumes "inv d" and "valid n" and "i \<noteq> 0"
  shows "\<exists>d' e. run_ops [Drop_Account n, Add_Account i n k] d = Inr d' \<and> inv d' \<and>
    accounts d' = (accounts d)(n \<mapsto> e) \<and> u_id e = i \<and> u_name e = n \<and> u_key e = k"
proof -
  from remove_total [OF assms(1), of n] obtain r d1 where d1:
    "remove d n = Inr (r, d1)" "inv d1" "accounts d1 = (accounts d)(n := None)" .
  obtain e d' where "add d1 i n k = Inr (True, d')" "inv d'" "accounts d' = (accounts d1)(n \<mapsto> e)"
      "u_name e = n" "u_key e = k" "u_id e = i"
    using add_ok [OF d1(2) assms(2), of i k] d1(3) assms(3) by auto
  with d1 show ?thesis by auto
qed

end

definition udb_register :: "udb \<Rightarrow> u64 \<Rightarrow> cstring \<Rightarrow> cstring \<Rightarrow> (bool \<times> udb) res" where
  "udb_register d i n k =
     bindr (udb_addentry d i (Some n) (Some k)) (\<lambda>(u, d). Inr (is_ok (map_sum (\<lambda>_. Die) id u), d))"

interpretation us: user_store udb_map udb_inv "\<lambda>n. udb_nameisvalid n = 0" udb_register udb_dropentry
proof unfold_locales
  fix d i n k
  assume inv: "udb_inv d"
  show "\<exists>e d'. udb_register d i n k = Inr (True, d') \<and> udb_inv d' \<and> udb_map d' = (udb_map d)(n \<mapsto> e) \<and>
      u_name e = n \<and> u_key e = k \<and> (i \<noteq> 0 \<longrightarrow> u_id e = i)"
    if "udb_nameisvalid n = 0" "udb_map d n = None"
  proof -
    from that have "can_add d n" by (simp add: can_add_def)
    from udb_addentry_added [OF inv this, of i k] obtain d' where
      "udb_addentry d i (Some n) (Some k) = Inr (Inr (new_entry d i n k), d')" "udb_inv d'"
      "udb_map d' = (udb_map d)(n \<mapsto> new_entry d i n k)" by metis
    then show ?thesis
      by (intro exI [of _ "new_entry d i n k"] exI [of _ d']) (simp add: udb_register_def new_entry_def)
  qed
  show "\<exists>d'. udb_register d i n k = Inr (False, d') \<and> udb_inv d' \<and> udb_map d' = udb_map d"
    if "udb_nameisvalid n \<noteq> 0 \<or> udb_map d n \<noteq> None"
  proof -
    from that have "\<not> can_add d n" by (auto simp: can_add_def)
    from udb_addentry_refused [OF inv this, of i k] obtain e d' where
      "udb_addentry d i (Some n) (Some k) = Inr (Inl e, d')" "udb_inv d'" "userdb d' = userdb d" by metis
    then show ?thesis
      by (intro exI [of _ d']) (simp add: udb_register_def udb_map_def)
  qed
  show "\<exists>d'. udb_dropentry d n = Inr (0, d') \<and> udb_inv d' \<and> udb_map d' = (udb_map d)(n := None)"
    if "udb_map d n \<noteq> None"
    using udb_dropentry_found [OF inv that] by blast
qed (rule udb_dropentry_missing)
section \<open>Reading back what was saved\<close>

definition storable :: "udb_t \<Rightarrow> bool" where
  "storable p \<longleftrightarrow> u_id p \<noteq> 0 \<and> UNAME_RE (u_name p) \<and> is_cstring (u_key p) \<and>
     10 \<notin> set (u_key p) \<and> 13 \<notin> set (u_key p) \<and> length (u_name p) + length (u_key p) < 15981"

lemma load_save_line:
  assumes "storable p"
  shows "load_line (save_line p) = Some (u_id p, u_name p, u_key p)"
proof -
  let ?ds = "hex_digits 16 (unat (u_id p))"
  have st: "strtoull16 (?ds @ DELIM # u_name p @ DELIM # u_key p @ [10]) =
      (u_id p, DELIM # u_name p @ DELIM # u_key p @ [10])"
    by (simp add: strtoull16_hex16 DELIM_def xdigit_def)
  have nm: "c \<noteq> DELIM" if "c \<in> set (u_name p)" for c
    using assms that name_char_cases by (auto simp: storable_def UNAME_RE_def list_all_iff)
  have k: "takeWhile (\<lambda>c. c \<noteq> 10) (u_key p @ [10]) = u_key p" "13 \<notin> set (u_key p @ [10])"
    using assms by (auto simp: storable_def takeWhile_tail)
  show ?thesis
    using assms nm k st
    by (simp add: load_line_def save_line_def storable_def Let_def takeWhile_tail dropWhile_append3)
qed

lemma file_entries_save_line:
  assumes "storable p"
  shows "file_entries (save_line p @ r) = (u_id p, u_name p, u_key p) # file_entries r"
proof -
  let ?l = "hex_digits 16 (unat (u_id p)) @ [DELIM] @ u_name p @ [DELIM] @ u_key p"
  have hex: "c \<noteq> 0 \<and> c \<noteq> 10" if "c \<in> set (hex_digits 16 (unat (u_id p)))" for c
    using hex_digits_xdigit [OF that] by (auto simp: xdigit_def split: if_splits)
  have nm: "c \<noteq> 0 \<and> c \<noteq> 10" if "c \<in> set (u_name p)" for c
    using assms that name_char_cases by (auto simp: storable_def UNAME_RE_def list_all_iff)
  have l10: "10 \<notin> set ?l" and l0: "0 \<notin> set ?l"
    using assms hex nm by (auto simp: storable_def is_cstring_def DELIM_def)
  have "length ?l < 15999" using assms by (auto simp: storable_def)
  then have f: "fgets 15999 (save_line p @ r) = (save_line p, r)"
    using fgets_line [OF l10, of 15999 r] by (simp add: save_line_def)
  have "c \<noteq> 0" if "c \<in> set (save_line p)" for c
    using l0 that by (auto simp: save_line_def)
  then have "takeWhile (\<lambda>c. c \<noteq> 0) (save_line p) = save_line p"
    by (simp add: takeWhile_eq_all_conv)
  with f load_save_line [OF assms] show ?thesis
    by (subst file_entries.simps) (simp add: save_line_def)
qed

lemma file_entries_saved:
  "(\<forall>p \<in> set ps. storable p) \<Longrightarrow>
     file_entries (concat (map save_line ps)) = map (\<lambda>p. (u_id p, u_name p, u_key p)) ps"
  by (induction ps) (simp_all add: file_entries_save_line)

lemma load_saved_entries:
  "(\<forall>p \<in> set ps. storable p) \<Longrightarrow> distinct (map u_name (userdb d @ ps)) \<Longrightarrow>
     userdb (fold add_loaded (map (\<lambda>p. (u_id p, u_name p, u_key p)) ps) d) = rev ps @ userdb d"
proof (induction ps arbitrary: d)
  case (Cons p ps)
  have can: "can_add d (u_name p)"
    using Cons.prems udb_nameisvalid_UNAME_RE
    by (auto simp: can_add_def udb_map_def lookupname_None_iff storable_def)
  have "new_entry d (u_id p) (u_name p) (u_key p) = p"
    using Cons.prems by (auto simp: new_entry_def storable_def)
  then have "userdb (add_loaded (u_id p, u_name p, u_key p) d) = p # userdb d"
    using can by (cases rule: udb_addentry_i_cases [of d "u_name p" "u_id p" "u_key p"]) simp_all
  with Cons show ?case by (auto simp: image_iff)
qed simp

lemma lookupname_rev:
  "distinct (map u_name ps) \<Longrightarrow> lookupname (rev ps) = lookupname ps"
proof
  fix s assume d: "distinct (map u_name ps)"
  show "lookupname (rev ps) s = lookupname ps s"
  proof (cases "lookupname ps s")
    case None
    then show ?thesis using lookupname_None_iff [of "rev ps" s] lookupname_None_iff [of ps s] by simp
  next
    case (Some p)
    from lookupname_SomeD [OF this] Some lookupname_in_set [of "rev ps" p] d show ?thesis
      by (simp add: rev_map [symmetric])
  qed
qed

lemma fold_add_loaded_ids:
  "ids_below d \<Longrightarrow> next_id d \<noteq> - 1 \<Longrightarrow> (\<forall>(i, n, k) \<in> set es. i \<noteq> 0 \<and> i < bound) \<Longrightarrow>
     next_id d \<le> bound \<Longrightarrow> bound \<noteq> - 1 \<Longrightarrow>
     ids_below (fold add_loaded es d) \<and> next_id (fold add_loaded es d) \<le> bound"
proof (induction es arbitrary: d)
  case (Cons e es)
  obtain i n k where e: "e = (i, n, k)" by (cases e)
  with Cons.prems have i: "i \<noteq> 0" "i < bound" by auto
  then have i1: "i \<noteq> - 1" "i + 1 \<le> bound" using inc_le by auto
  let ?d = "add_loaded e d"
  have "ids_below ?d"
    using udb_addentry_i_ids [OF Cons.prems(1) i1(1) Cons.prems(2)] e by simp
  moreover have "next_id ?d \<le> bound"
    using i i1 Cons.prems e
    by (cases rule: udb_addentry_i_cases [of d n i k]) (auto simp: new_entry_def)
  moreover from this have "next_id ?d \<noteq> - 1" using Cons.prems(5) by (metis order_antisym word_n1_ge)
  ultimately show ?case using Cons.IH [of ?d] Cons.prems by simp
qed simp

text \<open>A restarted server finds the accounts it saved.\<close>

definition udb_synced :: "udb \<Rightarrow> cstring \<Rightarrow> bool" where
  "udb_synced d p \<longleftrightarrow> userdb_path d = Some p \<and>
     f_content (udb_fs d p) = Some (concat (map save_line (userdb d)))"

lemma udb_restart:
  assumes wf: "udb_wf d" and sync: "udb_synced d p" and st: "\<forall>e \<in> set (userdb d). storable e"
    and ids: "ids_below d" "next_id d \<noteq> - 1"
  obtains d' where "udb_init (udb_start (udb_fs d)) p = Inr (0, d')"
    and "udb_map d' = udb_map d" and "ids_below d'" and "udb_wf d'"
    and "set (userdb d') = set (userdb d)"
proof -
  let ?s = "(udb_start (udb_fs d))\<lparr>userdb_path := Some p\<rparr>"
  let ?es = "map (\<lambda>p. (u_id p, u_name p, u_key p)) (userdb d)"
  let ?d = "fold add_loaded ?es ?s"
  have init: "udb_init (udb_start (udb_fs d)) p = Inr (0, ?d)"
    using sync st
    by (simp add: udb_init_def udb_load_def udb_start_def udb_synced_def load_lines_entries file_entries_saved)
  have dist: "distinct (map u_name (userdb d))" using wf by (simp add: udb_wf_def)
  then have db: "userdb ?d = rev (userdb d)"
    using load_saved_entries [OF st, of ?s] by (simp add: udb_start_def)
  have "udb_wf ?s" by (simp add: udb_wf_def udb_start_def)
  then have "udb_wf ?d" by (rule fold_add_loaded_wf)
  have "1 \<le> next_id d" using ids by (metis ids_below_def word_gt_0 inc_le add_0)
  moreover have "ids_below ?s" "next_id ?s \<noteq> - 1" by (simp_all add: ids_below_def udb_start_def)
  ultimately have "ids_below ?d"
    using ids st fold_add_loaded_ids [of ?s ?es "next_id d"]
    by (auto simp: ids_below_def udb_start_def)
  with init db \<open>udb_wf ?d\<close> lookupname_rev [OF dist] show thesis
    by (intro that [of ?d]) (simp_all add: udb_map_def)
qed

end
