(* ===== verification/Server.thy ===== *)
theory Server
  imports Framing Userdb Stricmp
begin

text \<open>
  The state of the relay server (src/srvmain.c) and the operations that manage clients: the
  message of the day, closing, accepting and resynchronising clients, the periodic upkeep that
  drops idle clients and compacts the array, and the send queues with their descriptor sets.

  The array \<^verbatim>\<open>clients\<close> of \<^verbatim>\<open>cfg.max_clients\<close> slots is a list of that length; a slot is
  in use when its descriptor is not negative. A set of descriptors is a set of integers.
  \<open>open_fds\<close> records which descriptors of accepted connections the process holds open. The
  address of a peer is only logged and not part of the model. The time and what the system calls
  return are arguments of the operations.
\<close>

section \<open>State\<close>

datatype CLT_STATE = CLT_INVALID | CLT_PRE_LOGIN | CLT_LOGIN_OK | CLT_AUTH_OK

record client_t =
  cl_fd :: int
  cl_id :: u64
  cl_name :: "cstring option"
  cl_key :: "cstring option"
  cl_st :: CLT_STATE
  cl_act :: int
  cl_rbuf :: "mbuf option"
  cl_queue :: "mbuf list"

record motd_t =
  motd_buf :: "byte list"
  motd_sz :: u64

record srv_cfg =
  select_timeout :: int
  msg_timeout :: int
  conn_timeout :: int

record server =
  cfg :: srv_cfg
  clients :: "client_t list"
  m_rfds :: "int set"
  m_wfds :: "int set"
  maxfd :: int
  open_fds :: "int set"
  srv_udb :: udb
  srv_motd :: motd_t

abbreviation (input) FD_SETSIZE :: int where "FD_SETSIZE \<equiv> 1024"

definition max_clients :: "server \<Rightarrow> nat" where
  "max_clients s = length (clients s)"

definition upd_client :: "nat \<Rightarrow> (client_t \<Rightarrow> client_t) \<Rightarrow> server \<Rightarrow> server" where
  "upd_client i f s = s\<lparr>clients := (clients s)[i := f (clients s ! i)]\<rparr>"

definition in_use :: "client_t \<Rightarrow> bool" where
  "in_use c \<longleftrightarrow> 0 \<le> cl_fd c"

section \<open>Initialisation\<close>

definition zero_client :: client_t where
  "zero_client = \<lparr>cl_fd = 0, cl_id = 0, cl_name = None, cl_key = None, cl_st = CLT_INVALID,
     cl_act = 0, cl_rbuf = None, cl_queue = []\<rparr>"

definition motd_start :: motd_t where
  "motd_start = \<lparr>motd_buf = overwrite (replicate 4000 0) 0 (str ''Welcome!''), motd_sz = 0\<rparr>"

text \<open>
  \<open>init_server\<close> and the start of \<^verbatim>\<open>main\<close>: the array is allocated, at most \<^verbatim>\<open>FD_SETSIZE\<close>
  slots, every slot unused; the listening socket is watched for reading.
\<close>

definition init_server :: "srv_cfg \<Rightarrow> nat \<Rightarrow> int \<Rightarrow> udb \<Rightarrow> server" where
  "init_server conf maxc lfd db =
     \<lparr>cfg = conf, clients = replicate (min maxc (nat FD_SETSIZE)) (zero_client\<lparr>cl_fd := - 1\<rparr>),
      m_rfds = insert lfd {}, m_wfds = {}, maxfd = - 1, open_fds = {}, srv_udb = db,
      srv_motd = motd_start\<rparr>"

section \<open>The message of the day\<close>

definition motd_cb :: "cstring \<Rightarrow> motd_t \<Rightarrow> motd_t res" where
  "motd_cb s m =
     bindr (if (of_nat (length s) :: u64) < 4000 - motd_sz m then
              (if unat (motd_sz m) + length s + 1 \<le> length (motd_buf m)
               then Inr (m\<lparr>motd_buf := overwrite (motd_buf m) (unat (motd_sz m)) (s @ [0])\<rparr>)
               else Inl OutOfBounds)
            else Inr m)
       (\<lambda>m. Inr (m\<lparr>motd_sz := motd_sz m + of_nat (length s)\<rparr>))"

text \<open>
  \<open>pcmd\<close> hands the output of the command to the callback in pieces of at most 999 bytes
  (\<^verbatim>\<open>fgets\<close>), each as a C string; the output is an argument, none when \<^verbatim>\<open>popen\<close> fails.
\<close>

fun motd_cb_all :: "cstring list \<Rightarrow> motd_t \<Rightarrow> motd_t res" where
  "motd_cb_all [] m = Inr m"
| "motd_cb_all (s # ss) m = bindr (motd_cb s m) (motd_cb_all ss)"

definition motd_get :: "byte list option \<Rightarrow> motd_t \<Rightarrow> motd_t res" where
  "motd_get out m =
     (let m = m\<lparr>motd_sz := 0\<rparr> in
      case out of None \<Rightarrow> Inr m | Some bs \<Rightarrow> motd_cb_all (pcmd_pieces bs) m)"

section \<open>Clients\<close>

definition close_client :: "nat \<Rightarrow> server \<Rightarrow> server" where
  "close_client i s =
     (let fd = cl_fd (clients s ! i);
          s = s\<lparr>m_rfds := m_rfds s - {fd}, m_wfds := m_wfds s - {fd}, open_fds := open_fds s - {fd}\<rparr>
      in upd_client i (\<lambda>_. zero_client\<lparr>cl_fd := - 1, cl_st := CLT_INVALID\<rparr>) s)"

text \<open>The first slot from \<open>i\<close> on that satisfies a condition, or the number of slots.\<close>

fun find_slot :: "(client_t \<Rightarrow> bool) \<Rightarrow> client_t list \<Rightarrow> nat" where
  "find_slot P [] = 0"
| "find_slot P (c # cs) = (if P c then 0 else Suc (find_slot P cs))"

text \<open>
  \<open>fd\<close> is the result of \<^verbatim>\<open>accept()\<close>, \<open>nonblock\<close> that of \<open>set_nonblocking\<close>; a dropped
  connection is closed again, so it does not enter \<open>open_fds\<close>.
\<close>

definition accept_client :: "int \<Rightarrow> int \<Rightarrow> int \<Rightarrow> server \<Rightarrow> int \<times> server" where
  "accept_client fd nonblock now s =
     (if fd = - 1 then (- 1, s)
      else if FD_SETSIZE \<le> fd then (- 1, s)
      else if nonblock \<noteq> 0 then (- 1, s)
      else let i = find_slot (\<lambda>c. \<not> 0 \<le> cl_fd c) (clients s) in
        if i = max_clients s then (- 1, s)
        else let s = upd_client i (\<lambda>c. \<lparr>cl_fd = fd, cl_id = 0, cl_name = None, cl_key = None,
                       cl_st = CLT_PRE_LOGIN, cl_act = now, cl_rbuf = None, cl_queue = []\<rparr>) s;
                 s = s\<lparr>m_rfds := insert fd (m_rfds s), open_fds := insert fd (open_fds s)\<rparr>;
                 s = (if maxfd s < fd then s\<lparr>maxfd := fd\<rparr> else s)
             in (int i, s))"

definition resync_client :: "nat \<Rightarrow> int \<Rightarrow> server \<Rightarrow> int \<times> server" where
  "resync_client i now s =
     (if cl_rbuf (clients s ! i) \<noteq> None \<and> msg_timeout (cfg s) < now - cl_act (clients s ! i)
      then (1, upd_client i (cl_rbuf_update (\<lambda>_. None)) s)
      else (0, s))"

definition upkeep_slot :: "int \<Rightarrow> nat \<Rightarrow> nat \<times> server \<Rightarrow> nat \<times> server" where
  "upkeep_slot now i js =
     (case js of (j, s) \<Rightarrow>
      let s = (if 0 \<le> cl_fd (clients s ! i) then
                 (if conn_timeout (cfg s) < now - cl_act (clients s ! i) then close_client i s
                  else snd (resync_client i now s))
               else s)
      in if 0 \<le> cl_fd (clients s ! i) then
           (let s = (if maxfd s < cl_fd (clients s ! i) then s\<lparr>maxfd := cl_fd (clients s ! i)\<rparr> else s);
                s = (if j \<noteq> i then
                       upd_client i (\<lambda>c. c\<lparr>cl_fd := - 1, cl_st := CLT_INVALID\<rparr>)
                         (upd_client j (\<lambda>_. clients s ! i) s)
                     else s)
            in (Suc j, s))
         else (j, s))"

definition upkeep :: "int \<Rightarrow> server \<Rightarrow> server" where
  "upkeep now s = snd (fold (upkeep_slot now) [0..<max_clients s] (0, s))"

section \<open>Send queues\<close>

definition enqueue :: "nat \<Rightarrow> mbuf \<Rightarrow> server \<Rightarrow> server" where
  "enqueue i m s =
     (let s = upd_client i (cl_queue_update (list_enq m)) s
      in s\<lparr>m_wfds := insert (cl_fd (clients s ! i)) (m_wfds s)\<rparr>)"

definition dequeue :: "nat \<Rightarrow> server \<Rightarrow> server res" where
  "dequeue i s =
     bindr (list_deq (cl_queue (clients s ! i))) (\<lambda>q.
     let s = upd_client i (cl_queue_update (\<lambda>_. q)) s
     in Inr (if q = [] then s\<lparr>m_wfds := m_wfds s - {cl_fd (clients s ! i)}\<rparr> else s))"
section \<open>Slots\<close>

lemma find_slot_le: "find_slot P cs \<le> length cs"
  by (induction cs) auto

lemma find_slot_found:
  "find_slot P cs \<noteq> length cs \<Longrightarrow>
     find_slot P cs < length cs \<and> P (cs ! find_slot P cs) \<and> (\<forall>j < find_slot P cs. \<not> P (cs ! j))"
proof (induction cs)
  case (Cons c cs)
  then show ?case by (simp add: All_less_Suc2 split: if_splits)
qed simp

lemma find_slot_none: "find_slot P cs = length cs \<longleftrightarrow> (\<forall>c \<in> set cs. \<not> P c)"
proof (induction cs)
  case (Cons c cs)
  then show ?case using find_slot_le [of P cs] by auto
qed simp

lemma find_slot_unique:
  assumes "i < length cs" "P (cs ! i)" and "\<And>j. j < length cs \<Longrightarrow> P (cs ! j) \<Longrightarrow> j = i"
  shows "find_slot P cs = i"
proof -
  have "cs ! i \<in> set cs" using assms(1) by simp
  then have "find_slot P cs \<noteq> length cs" using assms(2) find_slot_none [of P cs] by blast
  from find_slot_found [OF this] assms(3) show ?thesis by blast
qed

lemma upd_client_fields [simp]:
  "cfg (upd_client i f s) = cfg s" "m_rfds (upd_client i f s) = m_rfds s"
  "m_wfds (upd_client i f s) = m_wfds s" "maxfd (upd_client i f s) = maxfd s"
  "open_fds (upd_client i f s) = open_fds s" "srv_udb (upd_client i f s) = srv_udb s"
  "srv_motd (upd_client i f s) = srv_motd s" "max_clients (upd_client i f s) = max_clients s"
  "clients (upd_client i f s) = (clients s)[i := f (clients s ! i)]"
  by (simp_all add: upd_client_def max_clients_def)

lemma max_clients_fields [simp]:
  "max_clients (s\<lparr>m_rfds := A\<rparr>) = max_clients s" "max_clients (s\<lparr>m_wfds := A\<rparr>) = max_clients s"
  "max_clients (s\<lparr>open_fds := A\<rparr>) = max_clients s" "max_clients (s\<lparr>maxfd := n\<rparr>) = max_clients s"
  "max_clients (s\<lparr>srv_udb := db\<rparr>) = max_clients s" "max_clients (s\<lparr>srv_motd := m\<rparr>) = max_clients s"
  by (simp_all add: max_clients_def)

lemma upd_client_nth:
  "i < max_clients s \<Longrightarrow> j < max_clients s \<Longrightarrow>
     clients (upd_client i f s) ! j = (if i = j then f (clients s ! i) else clients s ! j)"
  by (simp add: max_clients_def)

section \<open>Descriptors\<close>

text \<open>
  \<open>fd_inv\<close>: distinct descriptors in the slots in use, none of them the listening socket, all
  fit into a set; exactly these (and the listening socket) are watched for reading and open;
  exactly those with something to send are watched for writing.
\<close>

definition used_fds :: "server \<Rightarrow> int set" where
  "used_fds s = {fd. 0 \<le> fd \<and> (\<exists>i < max_clients s. cl_fd (clients s ! i) = fd)}"

definition busy_fds :: "server \<Rightarrow> int set" where
  "busy_fds s = {fd. 0 \<le> fd \<and>
     (\<exists>i < max_clients s. cl_fd (clients s ! i) = fd \<and> cl_queue (clients s ! i) \<noteq> [])}"

definition fds_distinct :: "server \<Rightarrow> bool" where
  "fds_distinct s \<longleftrightarrow> (\<forall>i < max_clients s. \<forall>j < max_clients s.
     in_use (clients s ! i) \<longrightarrow> cl_fd (clients s ! i) = cl_fd (clients s ! j) \<longrightarrow> i = j)"

definition fd_inv :: "int \<Rightarrow> server \<Rightarrow> bool" where
  "fd_inv lfd s \<longleftrightarrow> 0 \<le> lfd \<and> lfd \<notin> used_fds s \<and> (\<forall>fd \<in> used_fds s. fd < FD_SETSIZE) \<and>
     fds_distinct s \<and> m_rfds s = insert lfd (used_fds s) \<and> open_fds s = used_fds s \<and>
     m_wfds s = busy_fds s"

lemma used_fds_cong:
  assumes "max_clients s' = max_clients s"
    and "\<And>j. j < max_clients s \<Longrightarrow> cl_fd (clients s' ! j) = cl_fd (clients s ! j)"
  shows "used_fds s' = used_fds s" and "fds_distinct s' = fds_distinct s"
  using assms by (auto simp: used_fds_def fds_distinct_def in_use_def)

lemma busy_fds_cong:
  assumes "max_clients s' = max_clients s"
    and "\<And>j. j < max_clients s \<Longrightarrow> cl_fd (clients s' ! j) = cl_fd (clients s ! j)"
    and "\<And>j. j < max_clients s \<Longrightarrow> cl_queue (clients s' ! j) = [] \<longleftrightarrow> cl_queue (clients s ! j) = []"
  shows "busy_fds s' = busy_fds s"
  using assms by (auto simp: busy_fds_def)

lemma fd_inv_cong:
  assumes "max_clients s' = max_clients s"
    and "\<And>j. j < max_clients s \<Longrightarrow> cl_fd (clients s' ! j) = cl_fd (clients s ! j)"
    and "\<And>j. j < max_clients s \<Longrightarrow> cl_queue (clients s' ! j) = [] \<longleftrightarrow> cl_queue (clients s ! j) = []"
    and "m_rfds s' = m_rfds s" "m_wfds s' = m_wfds s" "open_fds s' = open_fds s"
  shows "fd_inv lfd s' = fd_inv lfd s"
  using used_fds_cong [OF assms(1,2)] busy_fds_cong [OF assms(1,2,3)] assms(4-6)
  by (simp add: fd_inv_def)

lemma fd_inv_upd [simp]:
  assumes "\<And>c. cl_fd (f c) = cl_fd c" and "\<And>c. cl_queue (f c) = [] \<longleftrightarrow> cl_queue c = []"
  shows "fd_inv lfd (upd_client i f s) = fd_inv lfd s"
  using assms
  by (cases "i < length (clients s)"; intro fd_inv_cong)
    (auto simp: max_clients_def nth_list_update)

lemma fd_inv_fields [simp]:
  "fd_inv lfd (s\<lparr>srv_udb := db\<rparr>) = fd_inv lfd s" "fd_inv lfd (s\<lparr>srv_motd := m\<rparr>) = fd_inv lfd s"
  "fd_inv lfd (s\<lparr>maxfd := n\<rparr>) = fd_inv lfd s"
  by (intro fd_inv_cong; simp)+

lemma used_fds_nth: "i < max_clients s \<Longrightarrow> in_use (clients s ! i) \<Longrightarrow> cl_fd (clients s ! i) \<in> used_fds s"
  by (auto simp: used_fds_def in_use_def)

lemma fds_distinctD:
  "fds_distinct s \<Longrightarrow> i < max_clients s \<Longrightarrow> j < max_clients s \<Longrightarrow> in_use (clients s ! i) \<Longrightarrow>
     cl_fd (clients s ! i) = cl_fd (clients s ! j) \<Longrightarrow> i = j"
  by (simp add: fds_distinct_def)

lemma close_client_fields [simp]:
  "max_clients (close_client i s) = max_clients s" "cfg (close_client i s) = cfg s"
  "srv_udb (close_client i s) = srv_udb s" "srv_motd (close_client i s) = srv_motd s"
  "maxfd (close_client i s) = maxfd s"
  "clients (close_client i s) = (clients s)[i := zero_client\<lparr>cl_fd := - 1, cl_st := CLT_INVALID\<rparr>]"
  "m_rfds (close_client i s) = m_rfds s - {cl_fd (clients s ! i)}"
  "m_wfds (close_client i s) = m_wfds s - {cl_fd (clients s ! i)}"
  "open_fds (close_client i s) = open_fds s - {cl_fd (clients s ! i)}"
  by (simp_all add: close_client_def Let_def max_clients_def)

lemma zero_client_fields [simp]:
  "cl_rbuf zero_client = None" "cl_queue zero_client = []" "cl_name zero_client = None"
  "cl_key zero_client = None" "cl_id zero_client = 0" "cl_st zero_client = CLT_INVALID"
  by (simp_all add: zero_client_def)

lemma close_client_fds:
  assumes "fds_distinct s" and "i < max_clients s" and "in_use (clients s ! i)"
  shows "used_fds (close_client i s) = used_fds s - {cl_fd (clients s ! i)}"
    and "busy_fds (close_client i s) = busy_fds s - {cl_fd (clients s ! i)}"
    and "fds_distinct (close_client i s)"
proof -
  have len: "i < length (clients s)" using assms(2) by (simp add: max_clients_def)
  have eq: "cl_fd (clients s ! j) = cl_fd (clients s ! i) \<longleftrightarrow> j = i" if "j < max_clients s" for j
    using fds_distinctD [OF assms(1,2) that assms(3)] by metis
  show "used_fds (close_client i s) = used_fds s - {cl_fd (clients s ! i)}"
    using eq len assms(3) by (auto simp: used_fds_def in_use_def nth_list_update split: if_splits)
  show "busy_fds (close_client i s) = busy_fds s - {cl_fd (clients s ! i)}"
    using eq len assms(3)
    by (auto simp: busy_fds_def in_use_def nth_list_update split: if_splits) metis
  show "fds_distinct (close_client i s)"
    using assms(1) len by (auto simp: fds_distinct_def in_use_def nth_list_update split: if_splits)
qed

lemma close_client_fd_inv:
  assumes "fd_inv lfd s" and "i < max_clients s" and "in_use (clients s ! i)"
  shows "fd_inv lfd (close_client i s)"
proof -
  have "fds_distinct s" using assms(1) by (simp add: fd_inv_def)
  note c = close_client_fds [OF this assms(2,3)]
  have "cl_fd (clients s ! i) \<in> used_fds s" by (rule used_fds_nth [OF assms(2,3)])
  with assms(1) c show ?thesis by (auto simp: fd_inv_def)
qed

lemma resync_client_fd_inv [simp]: "fd_inv lfd (snd (resync_client i now s)) = fd_inv lfd s"
  by (simp add: resync_client_def)

lemma enqueue_fields [simp]:
  "max_clients (enqueue i m s) = max_clients s" "cfg (enqueue i m s) = cfg s"
  "srv_udb (enqueue i m s) = srv_udb s" "srv_motd (enqueue i m s) = srv_motd s"
  "maxfd (enqueue i m s) = maxfd s" "m_rfds (enqueue i m s) = m_rfds s"
  "open_fds (enqueue i m s) = open_fds s"
  "clients (enqueue i m s) = (clients s)[i := cl_queue_update (list_enq m) (clients s ! i)]"
  by (simp_all add: enqueue_def Let_def max_clients_def)

lemma enqueue_fd_inv:
  assumes "fd_inv lfd s" and "i < max_clients s" and "in_use (clients s ! i)"
  shows "fd_inv lfd (enqueue i m s)"
proof -
  have len: "i < length (clients s)" using assms(2) by (simp add: max_clients_def)
  have u: "used_fds (enqueue i m s) = used_fds s" "fds_distinct (enqueue i m s) = fds_distinct s"
    using len by (auto intro!: used_fds_cong simp: nth_list_update)
  have "busy_fds (enqueue i m s) = insert (cl_fd (clients s ! i)) (busy_fds s)"
    using len assms(2,3)
    by (auto simp: busy_fds_def in_use_def nth_list_update list_enq_def split: if_splits)
  moreover have "m_wfds (enqueue i m s) = insert (cl_fd (clients s ! i)) (m_wfds s)"
    using len by (simp add: enqueue_def Let_def)
  ultimately show ?thesis using assms(1) u by (simp add: fd_inv_def)
qed

lemma dequeue_ok:
  assumes "fd_inv lfd s" and "i < max_clients s" and "in_use (clients s ! i)"
    and "cl_queue (clients s ! i) = m # ms"
  obtains s' where "dequeue i s = Inr s'" and "fd_inv lfd s'"
    and "clients s' = (clients s)[i := cl_queue_update (\<lambda>_. ms) (clients s ! i)]"
    and "max_clients s' = max_clients s" and "srv_udb s' = srv_udb s" and "srv_motd s' = srv_motd s"
    and "cfg s' = cfg s" and "maxfd s' = maxfd s"
proof -
  let ?t = "upd_client i (cl_queue_update (\<lambda>_. ms)) s"
  let ?fd = "cl_fd (clients s ! i)"
  let ?s = "if ms = [] then ?t\<lparr>m_wfds := m_wfds ?t - {?fd}\<rparr> else ?t"
  have len: "i < length (clients s)" using assms(2) by (simp add: max_clients_def)
  have eq: "cl_fd (clients s ! j) = ?fd \<longleftrightarrow> j = i" if "j < max_clients s" for j
    using fds_distinctD [OF _ assms(2) that assms(3)] assms(1) by (auto simp: fd_inv_def)
  have u: "used_fds ?t = used_fds s" "fds_distinct ?t = fds_distinct s"
    using len by (auto intro!: used_fds_cong simp: nth_list_update)
  have b: "busy_fds ?t = (if ms = [] then busy_fds s - {?fd} else busy_fds s)"
    using len assms(2-4) eq
    by (auto simp: busy_fds_def in_use_def nth_list_update split: if_splits) metis
  have same: "used_fds ?s = used_fds ?t" "busy_fds ?s = busy_fds ?t" "fds_distinct ?s = fds_distinct ?t"
    by (auto simp: used_fds_def busy_fds_def fds_distinct_def)
  have "fd_inv lfd ?s" using assms(1) u b same by (simp add: fd_inv_def)
  moreover have "dequeue i s = Inr ?s" using len assms(4) by (simp add: dequeue_def list_deq_def Let_def)
  ultimately show thesis using that [of ?s] by simp
qed
section \<open>Accepting a connection\<close>

lemma accept_client_cases:
  assumes "fd = - 1 \<or> 0 \<le> fd"
  obtains (dropped) "accept_client fd nb now s = (- 1, s)"
  | (adopted) i s' where "accept_client fd nb now s = (int i, s')"
      and "i < max_clients s" and "\<not> in_use (clients s ! i)" and "0 \<le> fd" and "fd < FD_SETSIZE"
      and "clients s' = (clients s)[i := \<lparr>cl_fd = fd, cl_id = 0, cl_name = None, cl_key = None,
             cl_st = CLT_PRE_LOGIN, cl_act = now, cl_rbuf = None, cl_queue = []\<rparr>]"
      and "m_rfds s' = insert fd (m_rfds s)" and "open_fds s' = insert fd (open_fds s)"
      and "m_wfds s' = m_wfds s" and "maxfd s' = max fd (maxfd s)" and "max_clients s' = max_clients s"
      and "cfg s' = cfg s" and "srv_udb s' = srv_udb s" and "srv_motd s' = srv_motd s"
proof -
  let ?i = "find_slot (\<lambda>c. \<not> 0 \<le> cl_fd c) (clients s)"
  consider "fd = - 1 \<or> FD_SETSIZE \<le> fd \<or> nb \<noteq> 0 \<or> ?i = max_clients s"
    | "fd \<noteq> - 1" "fd < FD_SETSIZE" "nb = 0" "?i \<noteq> max_clients s" by linarith
  then show thesis
  proof cases
    case 1
    then show thesis by (intro dropped) (auto simp: accept_client_def Let_def)
  next
    case 2
    let ?s = "snd (accept_client fd nb now s)"
    have "accept_client fd nb now s = (int ?i, ?s)" using 2 by (simp add: accept_client_def Let_def)
    moreover have "?i < max_clients s" "\<not> in_use (clients s ! ?i)"
      using find_slot_found [of "\<lambda>c. \<not> 0 \<le> cl_fd c" "clients s"] 2 by (auto simp: max_clients_def in_use_def)
    moreover have "clients ?s = (clients s)[?i := \<lparr>cl_fd = fd, cl_id = 0, cl_name = None, cl_key = None,
             cl_st = CLT_PRE_LOGIN, cl_act = now, cl_rbuf = None, cl_queue = []\<rparr>]"
      "m_rfds ?s = insert fd (m_rfds s)" "open_fds ?s = insert fd (open_fds s)"
      "m_wfds ?s = m_wfds s" "maxfd ?s = max fd (maxfd s)" "max_clients ?s = max_clients s"
      "cfg ?s = cfg s" "srv_udb ?s = srv_udb s" "srv_motd ?s = srv_motd s"
      using 2 by (auto simp: accept_client_def Let_def)
    ultimately show thesis using 2 assms by (intro adopted [of ?i ?s]) auto
  qed
qed

lemma replace_unused_fds:
  assumes "i < max_clients s" and "\<not> in_use (clients s ! i)" and "0 \<le> cl_fd c" and "cl_queue c = []"
    and "clients s' = (clients s)[i := c]" and "fds_distinct s" and "cl_fd c \<notin> used_fds s"
  shows "used_fds s' = insert (cl_fd c) (used_fds s)" and "busy_fds s' = busy_fds s"
    and "fds_distinct s'"
proof -
  have len: "i < length (clients s)" "max_clients s' = max_clients s"
    using assms(1,5) by (simp_all add: max_clients_def)
  have new: "cl_fd (clients s ! j) \<noteq> cl_fd c" if "j < max_clients s" for j
    using assms(3,7) that by (auto simp: used_fds_def)
  show "used_fds s' = insert (cl_fd c) (used_fds s)"
    using len assms(1-3,5) by (auto simp: used_fds_def in_use_def nth_list_update split: if_splits)
  show "busy_fds s' = busy_fds s"
    using len assms(1-5) by (auto simp: busy_fds_def in_use_def nth_list_update split: if_splits)
  show "fds_distinct s'"
    using assms(6) len new assms(5)
    by (auto simp: fds_distinct_def nth_list_update split: if_splits) metis
qed

lemma accept_client_fd_inv:
  assumes inv: "fd_inv lfd s" and fd: "fd = - 1 \<or> 0 \<le> fd \<and> fd \<notin> open_fds s \<and> fd \<noteq> lfd"
  shows "fd_inv lfd (snd (accept_client fd nb now s))"
proof -
  have "fd = - 1 \<or> 0 \<le> fd" using fd by blast
  then show ?thesis
  proof (cases rule: accept_client_cases [of fd nb now s])
    case dropped
    with inv show ?thesis by simp
  next
    case (adopted i s')
    have "fd \<notin> used_fds s" "fds_distinct s" using fd inv adopted(4) by (auto simp: fd_inv_def)
    then have "used_fds s' = insert fd (used_fds s)" "busy_fds s' = busy_fds s" "fds_distinct s'"
      using replace_unused_fds [OF adopted(2,3) _ _ adopted(6)] adopted(4) by simp_all
    with adopted inv fd show ?thesis by (auto simp: fd_inv_def)
  qed
qed

section \<open>Upkeep\<close>

definition expired :: "srv_cfg \<Rightarrow> int \<Rightarrow> client_t \<Rightarrow> bool" where
  "expired conf now c \<longleftrightarrow> conn_timeout conf < now - cl_act c"

definition resynced :: "srv_cfg \<Rightarrow> int \<Rightarrow> client_t \<Rightarrow> client_t" where
  "resynced conf now c =
     (if cl_rbuf c \<noteq> None \<and> msg_timeout conf < now - cl_act c then c\<lparr>cl_rbuf := None\<rparr> else c)"

definition survivors :: "srv_cfg \<Rightarrow> int \<Rightarrow> client_t list \<Rightarrow> client_t list" where
  "survivors conf now cs = map (resynced conf now) (filter (\<lambda>c. in_use c \<and> \<not> expired conf now c) cs)"

lemma resync_client_eq:
  "i < max_clients s \<Longrightarrow>
     snd (resync_client i now s) = upd_client i (\<lambda>_. resynced (cfg s) now (clients s ! i)) s"
  by (simp add: resync_client_def resynced_def upd_client_def)

lemma resynced_fields [simp]:
  "cl_fd (resynced conf now c) = cl_fd c" "cl_queue (resynced conf now c) = cl_queue c"
  "cl_st (resynced conf now c) = cl_st c" "cl_id (resynced conf now c) = cl_id c"
  "cl_name (resynced conf now c) = cl_name c" "cl_key (resynced conf now c) = cl_key c"
  "cl_act (resynced conf now c) = cl_act c" "in_use (resynced conf now c) = in_use c"
  by (simp_all add: resynced_def in_use_def)

lemma fds_mono:
  assumes "\<And>i. i < max_clients s \<Longrightarrow> in_use (clients s ! i) \<Longrightarrow>
      \<exists>k < max_clients s'. clients s' ! k = clients s ! i"
  shows "used_fds s \<subseteq> used_fds s'" and "busy_fds s \<subseteq> busy_fds s'"
proof -
  show "used_fds s \<subseteq> used_fds s'"
  proof
    fix fd assume "fd \<in> used_fds s"
    then obtain i where i: "0 \<le> fd" "i < max_clients s" "cl_fd (clients s ! i) = fd"
      by (auto simp: used_fds_def)
    then obtain k where "k < max_clients s'" "clients s' ! k = clients s ! i"
      using assms [of i] by (auto simp: in_use_def)
    with i show "fd \<in> used_fds s'" by (auto simp: used_fds_def)
  qed
  show "busy_fds s \<subseteq> busy_fds s'"
  proof
    fix fd assume "fd \<in> busy_fds s"
    then obtain i where i: "0 \<le> fd" "i < max_clients s" "cl_fd (clients s ! i) = fd"
        "cl_queue (clients s ! i) \<noteq> []"
      by (auto simp: busy_fds_def)
    then obtain k where "k < max_clients s'" "clients s' ! k = clients s ! i"
      using assms [of i] by (auto simp: in_use_def)
    with i show "fd \<in> busy_fds s'" by (auto simp: busy_fds_def)
  qed
qed

definition move_client :: "nat \<Rightarrow> nat \<Rightarrow> server \<Rightarrow> server" where
  "move_client i j s = upd_client i (\<lambda>c. c\<lparr>cl_fd := - 1, cl_st := CLT_INVALID\<rparr>)
                         (upd_client j (\<lambda>_. clients s ! i) s)"

lemma move_client_fd_inv:
  assumes "fd_inv lfd s" and "i < max_clients s" and "j < i" and "\<not> in_use (clients s ! j)"
    and "in_use (clients s ! i)"
  shows "fd_inv lfd (move_client i j s)"
proof -
  have len: "i < length (clients s)" "j < length (clients s)" "j < max_clients s"
    using assms(2,3) by (simp_all add: max_clients_def)
  have nth: "clients (move_client i j s) ! k =
      (if k = i then (clients s ! i)\<lparr>cl_fd := - 1, cl_st := CLT_INVALID\<rparr>
       else if k = j then clients s ! i else clients s ! k)" if "k < max_clients s" for k
    using that len assms(3) by (simp add: move_client_def max_clients_def nth_list_update)
  have mc: "max_clients (move_client i j s) = max_clients s" by (simp add: move_client_def)
  have there: "\<exists>k < max_clients (move_client i j s). clients (move_client i j s) ! k = clients s ! m"
    if "m < max_clients s" "in_use (clients s ! m)" for m
    using that assms(3,4) len nth [of j] nth [of m] mc
    by (cases "m = i") (auto intro: exI [of _ j] exI [of _ m])
  have origin: "\<exists>k < max_clients s. clients s ! k = clients (move_client i j s) ! m"
    if "m < max_clients (move_client i j s)" "in_use (clients (move_client i j s) ! m)" for m
    using that assms(2) nth [of m] mc by (auto simp: in_use_def split: if_splits)
  have u: "used_fds (move_client i j s) = used_fds s" "busy_fds (move_client i j s) = busy_fds s"
    using fds_mono [OF there] fds_mono [OF origin] by auto
  have "fds_distinct s" using assms(1) by (simp add: fd_inv_def)
  then have "fds_distinct (move_client i j s)"
    using assms(3-5) len nth mc assms(2) unfolding fds_distinct_def in_use_def
    by (auto split: if_splits)
  with u assms(1) show ?thesis
    by (simp add: fd_inv_def) (simp add: move_client_def)
qed

text \<open>
  The invariant of the loop: after \<open>i\<close> slots the first \<open>j\<close> hold the clients that survive among
  them, in order, the slots from \<open>j\<close> to \<open>i\<close> are unused and the others are untouched.
\<close>

definition upkeep_inv :: "int \<Rightarrow> int \<Rightarrow> server \<Rightarrow> nat \<Rightarrow> nat \<times> server \<Rightarrow> bool" where
  "upkeep_inv lfd now s0 i js =
     (case js of (j, s) \<Rightarrow>
        j \<le> i \<and> length (clients s) = length (clients s0) \<and> cfg s = cfg s0 \<and> fd_inv lfd s \<and>
        take j (clients s) = survivors (cfg s0) now (take i (clients s0)) \<and>
        (\<forall>k. j \<le> k \<longrightarrow> k < i \<longrightarrow> \<not> in_use (clients s ! k)) \<and>
        drop i (clients s) = drop i (clients s0) \<and>
        (\<forall>k < j. cl_fd (clients s ! k) \<le> maxfd s) \<and> maxfd s0 \<le> maxfd s \<and>
        srv_udb s = srv_udb s0 \<and> srv_motd s = srv_motd s0)"

lemma survivors_snoc:
  "survivors conf now (cs @ [c]) = survivors conf now cs @
     (if in_use c \<and> \<not> expired conf now c then [resynced conf now c] else [])"
  by (simp add: survivors_def)

lemma upkeep_slot_eq:
  assumes "i < max_clients s" and "j \<le> i"
  shows "upkeep_slot now i (j, s) =
     (if \<not> in_use (clients s ! i) then (j, s)
      else if expired (cfg s) now (clients s ! i) then (j, close_client i s)
      else let s1 = upd_client i (\<lambda>_. resynced (cfg s) now (clients s ! i)) s;
               s2 = s1\<lparr>maxfd := max (maxfd s) (cl_fd (clients s ! i))\<rparr>
           in (Suc j, if j \<noteq> i then move_client i j s2 else s2))"
proof -
  have len: "i < length (clients s)" using assms(1) by (simp add: max_clients_def)
  consider "\<not> in_use (clients s ! i)" | "in_use (clients s ! i)" "expired (cfg s) now (clients s ! i)"
    | "in_use (clients s ! i)" "\<not> expired (cfg s) now (clients s ! i)" by blast
  then show ?thesis
  proof cases
    case 1
    then show ?thesis by (simp add: upkeep_slot_def Let_def in_use_def)
  next
    case 2
    then show ?thesis using len
      by (simp add: upkeep_slot_def Let_def in_use_def expired_def)
  next
    case 3
    let ?s1 = "upd_client i (\<lambda>_. resynced (cfg s) now (clients s ! i)) s"
    have fd: "cl_fd (clients ?s1 ! i) = cl_fd (clients s ! i)" using len by simp
    have "?s1\<lparr>maxfd := max (maxfd s) (cl_fd (clients s ! i))\<rparr> =
        (if maxfd ?s1 < cl_fd (clients ?s1 ! i) then ?s1\<lparr>maxfd := cl_fd (clients ?s1 ! i)\<rparr> else ?s1)"
      using fd by (cases s) (auto simp: max_def upd_client_def)
    with 3 fd show ?thesis
      by (simp add: upkeep_slot_def Let_def in_use_def expired_def resync_client_eq [OF assms(1)] move_client_def)
  qed
qed

lemma upkeep_inv_step:
  assumes "upkeep_inv lfd now s0 i js" and i: "i < max_clients s0"
  shows "upkeep_inv lfd now s0 (Suc i) (upkeep_slot now i js)"
proof -
  obtain j s where js: "js = (j, s)" by (cases js)
  from assms(1) have inv: "j \<le> i" "length (clients s) = length (clients s0)" "cfg s = cfg s0" "fd_inv lfd s"
      "take j (clients s) = survivors (cfg s0) now (take i (clients s0))"
      "\<And>k. j \<le> k \<Longrightarrow> k < i \<Longrightarrow> \<not> in_use (clients s ! k)"
      "drop i (clients s) = drop i (clients s0)"
      "\<And>k. k < j \<Longrightarrow> cl_fd (clients s ! k) \<le> maxfd s" "maxfd s0 \<le> maxfd s"
      "srv_udb s = srv_udb s0" "srv_motd s = srv_motd s0"
    by (auto simp: upkeep_inv_def js)
  have i0: "i < length (clients s0)" and il: "i < length (clients s)" and im: "i < max_clients s"
    using i inv(2) by (simp_all add: max_clients_def)
  have nth: "clients s ! i = clients s0 ! i"
    using inv(7) i0 il by (metis hd_drop_conv_nth)
  have drop: "drop (Suc i) (clients s) = drop (Suc i) (clients s0)"
    using inv(7) by (metis drop_Suc tl_drop)
  have take: "take (Suc i) (clients s0) = take i (clients s0) @ [clients s0 ! i]"
    using i0 by (rule take_Suc_conv_app_nth)
  show ?thesis
  proof (cases "in_use (clients s ! i) \<and> \<not> expired (cfg s) now (clients s ! i)")
    case False
    have "fd_inv lfd (close_client i s)" if "in_use (clients s ! i)"
      using close_client_fd_inv [OF inv(4) im that] .
    with False inv il nth drop take show ?thesis
      by (auto simp: js upkeep_slot_eq [OF im inv(1)] upkeep_inv_def survivors_snoc nth_list_update
          in_use_def less_Suc_eq drop_update_cancel)
  next
    case True
    let ?r = "resynced (cfg s) now (clients s ! i)"
    let ?s2 = "(upd_client i (\<lambda>_. ?r) s)\<lparr>maxfd := max (maxfd s) (cl_fd (clients s ! i))\<rparr>"
    have s2: "fd_inv lfd ?s2"
    proof -
      have "fd_inv lfd (upd_client i (\<lambda>_. ?r) s) = fd_inv lfd s"
        using il by (intro fd_inv_cong) (auto simp: nth_list_update)
      with inv(4) show ?thesis by simp
    qed
    have fd: "cl_fd (clients s ! k) \<le> max (maxfd s) x" if "k < j" for k x
      using inv(8) [OF that] by simp
    show ?thesis
    proof (cases "j = i")
      case j: True
      have res: "upkeep_slot now i js = (Suc i, ?s2)"
        using True j inv(1) by (simp add: js upkeep_slot_eq [OF im] Let_def)
      show ?thesis unfolding res upkeep_inv_def prod.case
      proof (intro conjI allI impI)
        show "take (Suc i) (clients ?s2) = survivors (cfg s0) now (take (Suc i) (clients s0))"
          using True j inv(2,3,5) il nth take by (simp add: survivors_snoc take_Suc_conv_app_nth)
        show "cl_fd (clients ?s2 ! k) \<le> maxfd ?s2" if "k < Suc i" for k
          using that j fd il by (auto simp: less_Suc_eq nth_list_update)
      qed (use inv(2,3,9,10,11) s2 drop il in \<open>auto simp: max_clients_def\<close>)
    next
      case j: False
      then have ji: "j < i" using inv(1) by simp
      let ?s3 = "move_client i j ?s2"
      have res: "upkeep_slot now i js = (Suc j, ?s3)"
        using True j inv(1) by (simp add: js upkeep_slot_eq [OF im] Let_def)
      have s3: "fd_inv lfd ?s3"
        using True ji im il inv(6) [of j] by (intro move_client_fd_inv s2) auto
      have cs: "clients ?s3 = (clients s)[j := ?r, i := ?r\<lparr>cl_fd := - 1, cl_st := CLT_INVALID\<rparr>]"
        using il ji by (intro nth_equalityI) (auto simp: move_client_def nth_list_update)
      show ?thesis unfolding res upkeep_inv_def prod.case
      proof (intro conjI allI impI)
        show "take (Suc j) (clients ?s3) = survivors (cfg s0) now (take (Suc i) (clients s0))"
          using True ji inv(2,3,5) il nth take unfolding cs
          by (simp add: survivors_snoc take_Suc_conv_app_nth)
        show "\<not> in_use (clients ?s3 ! k)" if "Suc j \<le> k" "k < Suc i" for k
          using that ji inv(6) [of k] il unfolding cs by (auto simp: less_Suc_eq in_use_def nth_list_update)
        show "cl_fd (clients ?s3 ! k) \<le> maxfd ?s3" if "k < Suc j" for k
          using that ji fd il unfolding cs
          by (auto simp: less_Suc_eq nth_list_update move_client_def)
        show "drop (Suc i) (clients ?s3) = drop (Suc i) (clients s0)"
          using drop ji il unfolding cs by simp
      qed (use inv(2,3,9,10,11) s3 ji il in \<open>auto simp: move_client_def\<close>)
    qed
  qed
qed

lemma upkeep_inv_fold:
  "upkeep_inv lfd now s0 i js \<Longrightarrow> i + n \<le> max_clients s0 \<Longrightarrow>
     upkeep_inv lfd now s0 (i + n) (fold (upkeep_slot now) [i..<i + n] js)"
proof (induction n)
  case (Suc n)
  then have "upkeep_inv lfd now s0 (i + n) (fold (upkeep_slot now) [i..<i + n] js)" by simp
  with upkeep_inv_step [of lfd now s0 "i + n"] Suc.prems(2) show ?case by simp
qed simp

lemma upkeep_result:
  assumes "fd_inv lfd s"
  obtains j where "j \<le> max_clients s" and "fd_inv lfd (upkeep now s)"
    and "take j (clients (upkeep now s)) = survivors (cfg s) now (clients s)"
    and "\<forall>k < max_clients s. in_use (clients (upkeep now s) ! k) \<longleftrightarrow> k < j"
    and "\<forall>fd \<in> used_fds (upkeep now s). fd \<le> maxfd (upkeep now s)"
    and "maxfd s \<le> maxfd (upkeep now s)" and "max_clients (upkeep now s) = max_clients s"
    and "srv_udb (upkeep now s) = srv_udb s" and "srv_motd (upkeep now s) = srv_motd s"
    and "cfg (upkeep now s) = cfg s"
proof -
  let ?js = "fold (upkeep_slot now) [0..<max_clients s] (0, s)"
  have "upkeep_inv lfd now s 0 (0, s)"
    using assms by (simp add: upkeep_inv_def survivors_def)
  from upkeep_inv_fold [OF this, of "max_clients s"]
  have inv: "upkeep_inv lfd now s (max_clients s) ?js" by simp
  obtain j s' where js: "?js = (j, s')" by force
  have s': "upkeep now s = s'" by (simp add: upkeep_def js)
  from inv have "upkeep_inv lfd now s (max_clients s) (j, s')" unfolding js .
  then have i: "j \<le> max_clients s" "length (clients s') = length (clients s)" "fd_inv lfd s'"
      "take j (clients s') = survivors (cfg s) now (clients s)"
      "\<And>k. j \<le> k \<Longrightarrow> k < max_clients s \<Longrightarrow> \<not> in_use (clients s' ! k)"
      "\<And>k. k < j \<Longrightarrow> cl_fd (clients s' ! k) \<le> maxfd s'" "maxfd s \<le> maxfd s'"
      "srv_udb s' = srv_udb s" "srv_motd s' = srv_motd s" "cfg s' = cfg s"
    by (auto simp: upkeep_inv_def max_clients_def)
  have used: "in_use (clients s' ! k)" if "k < j" for k
  proof -
    have "clients s' ! k \<in> set (take j (clients s'))"
      using that i(1,2) by (auto simp: in_set_conv_nth max_clients_def intro!: exI [of _ k])
    then show ?thesis using i(4) by (auto simp: survivors_def)
  qed
  show thesis
  proof (rule that [of j, unfolded s'])
    show "\<forall>k < max_clients s. in_use (clients s' ! k) \<longleftrightarrow> k < j"
      using used i(5) by (meson not_le)
    show "\<forall>fd \<in> used_fds s'. fd \<le> maxfd s'"
    proof
      fix fd assume "fd \<in> used_fds s'"
      then obtain k where k: "0 \<le> fd" "k < max_clients s" "cl_fd (clients s' ! k) = fd"
        using i(2) by (auto simp: used_fds_def max_clients_def)
      then have "k < j" using i(5) [of k] by (auto simp: in_use_def not_le [symmetric])
      with i(6) k show "fd \<le> maxfd s'" by auto
    qed
  qed (use i in \<open>simp_all add: max_clients_def\<close>)
qed

section \<open>The text buffer of the message of the day\<close>

definition motd_ok :: "motd_t \<Rightarrow> bool" where
  "motd_ok m \<longleftrightarrow> length (motd_buf m) = 4000 \<and> 0 \<in> set (motd_buf m)"

lemma motd_start_ok: "motd_ok motd_start"
  by (simp add: motd_ok_def motd_start_def overwrite_def)

lemma motd_cb_fits:
  assumes "length (motd_buf m) = 4000" and "unat (motd_sz m) = n" and "n + length s < 4000"
  shows "motd_cb s m =
    Inr \<lparr>motd_buf = overwrite (motd_buf m) n (s @ [0]), motd_sz = of_nat (n + length s)\<rparr>"
proof -
  have sz: "motd_sz m = of_nat n" unfolding assms(2) [symmetric] by simp
  have "unat (4000 - motd_sz m) = 4000 - n" using assms(2,3) by (simp add: unat_sub_if')
  moreover have "unat (of_nat (length s) :: u64) = length s"
    using assms(3) by (simp add: unsigned_of_nat take_bit_nat_eq_self)
  ultimately have "(of_nat (length s) :: u64) < 4000 - motd_sz m"
    using assms(3) by (simp add: word_less_nat_alt)
  with assms sz show ?thesis by (cases m) (simp add: motd_cb_def)
qed

lemma motd_cb_all_fits:
  "length (motd_buf m) = 4000 \<Longrightarrow> unat (motd_sz m) = n \<Longrightarrow> n + length (concat ss) < 4000 \<Longrightarrow>
   ss \<noteq> [] \<Longrightarrow>
     \<exists>m'. motd_cb_all ss m = Inr m' \<and> length (motd_buf m') = 4000 \<and>
       take (n + length (concat ss) + 1) (motd_buf m') = take n (motd_buf m) @ concat ss @ [0]"
proof (induction ss arbitrary: m n)
  case (Cons s ss)
  let ?m = "\<lparr>motd_buf = overwrite (motd_buf m) n (s @ [0]), motd_sz = of_nat (n + length s)\<rparr>"
  have cb: "motd_cb s m = Inr ?m" using Cons.prems by (intro motd_cb_fits) auto
  have len: "length (motd_buf ?m) = 4000" using Cons.prems by simp
  have sz: "unat (motd_sz ?m) = n + length s"
    using Cons.prems by (simp del: of_nat_add add: unsigned_of_nat take_bit_nat_eq_self)
  have pre: "take (n + length s) (motd_buf ?m) = take n (motd_buf m) @ s"
    using Cons.prems by (simp add: overwrite_def)
  show ?case
  proof (cases "ss = []")
    case True
    with cb len Cons.prems show ?thesis by (simp add: overwrite_def)
  next
    case False
    with Cons.IH [OF len sz] Cons.prems pre obtain m' where
      "motd_cb_all ss ?m = Inr m'" "length (motd_buf m') = 4000"
      "take (n + length s + length (concat ss) + 1) (motd_buf m') = take n (motd_buf m) @ s @ concat ss @ [0]"
      by auto
    with cb show ?thesis by (simp add: add.assoc)
  qed
qed simp

text \<open>Once the pieces exceed the buffer the next one is written outside it: the difference wraps.\<close>

lemma motd_cb_overflow:
  assumes "length (motd_buf m) = 4000" and "4000 < unat (motd_sz m)" and "unat (motd_sz m) + length s < 2 ^ 63"
  shows "motd_cb s m = Inl OutOfBounds"
proof -
  have "unat (4000 - motd_sz m) = 2 ^ 64 + 4000 - unat (motd_sz m)"
    using assms(2,3) by (simp add: unat_sub_if')
  moreover have "unat (of_nat (length s) :: u64) = length s"
    using assms(3) by (simp add: unsigned_of_nat take_bit_nat_eq_self)
  ultimately have "(of_nat (length s) :: u64) < 4000 - motd_sz m"
    using assms(3) by (simp add: word_less_nat_alt)
  with assms(1,2) show ?thesis by (simp add: motd_cb_def)
qed

lemma motd_cb_size:
  "motd_cb s m = Inr m' \<Longrightarrow> motd_sz m' = motd_sz m + of_nat (length s) \<and>
     length (motd_buf m') = length (motd_buf m)"
  by (auto simp: motd_cb_def split: if_splits)

lemma motd_cb_ok: "motd_ok m \<Longrightarrow> motd_cb s m = Inr m' \<Longrightarrow> motd_ok m'"
  by (auto simp: motd_cb_def motd_ok_def overwrite_def split: if_splits)

lemma motd_cb_all_ok: "motd_ok m \<Longrightarrow> motd_cb_all ss m = Inr m' \<Longrightarrow> motd_ok m'"
  by (induction ss arbitrary: m) (auto dest: motd_cb_ok)

lemma motd_get_ok: "motd_ok m \<Longrightarrow> motd_get out m = Inr m' \<Longrightarrow> motd_ok m'"
  by (auto simp: motd_get_def Let_def motd_ok_def split: option.splits
      dest!: motd_cb_all_ok [rotated])

lemma motd_cb_all_overflow:
  "length (motd_buf m) = 4000 \<Longrightarrow> 4000 < unat (motd_sz m) + length (concat ss) \<Longrightarrow>
   unat (motd_sz m) + length (concat ss) + length t < 2 ^ 63 \<Longrightarrow>
     motd_cb_all (ss @ [t]) m = Inl OutOfBounds"
proof (induction ss arbitrary: m)
  case Nil
  then show ?case by (simp add: motd_cb_overflow)
next
  case (Cons s ss)
  show ?case
  proof (cases "motd_cb s m")
    case (Inl e)
    then have "e = OutOfBounds" by (auto simp: motd_cb_def split: if_splits)
    with Inl show ?thesis by simp
  next
    case (Inr m')
    have "unat (of_nat (length s) :: u64) = length s"
      using Cons.prems(3) by (simp add: unsigned_of_nat take_bit_nat_eq_self)
    then have "unat (motd_sz m') = unat (motd_sz m) + length s"
      using motd_cb_size [OF Inr] Cons.prems(3) by (simp add: unat_word_ariths)
    with Inr motd_cb_size [OF Inr] Cons show ?thesis by (simp add: add.assoc)
  qed
qed

text \<open>The pieces that fit into the buffer, from the first one on.\<close>

fun fitting :: "nat \<Rightarrow> cstring list \<Rightarrow> cstring list" where
  "fitting n [] = []"
| "fitting n (s # ss) = (if length s < n then s # fitting (n - length s) ss else [])"

lemma fitting_all: "length (concat ss) < n \<Longrightarrow> fitting n ss = ss"
  by (induction ss arbitrary: n) auto

lemma fitting_split:
  "\<exists>rest. ss = fitting n ss @ rest \<and> (0 < n \<longrightarrow> length (concat (fitting n ss)) < n) \<and>
     (rest \<noteq> [] \<longrightarrow> n \<le> length (concat (fitting n ss)) + length (hd rest))"
proof (induction n ss rule: fitting.induct)
  case (2 n s ss)
  show ?case
  proof (cases "length s < n")
    case True
    with 2 obtain rest where "ss = fitting (n - length s) ss @ rest" "length (concat (fitting (n - length s) ss)) < n - length s"
      "rest \<noteq> [] \<longrightarrow> n - length s \<le> length (concat (fitting (n - length s) ss)) + length (hd rest)" by auto
    then show ?thesis using True by (intro exI [of _ rest]) auto
  qed simp
qed simp

lemma motd_cb_full:
  assumes "length (motd_buf m) = 4000" and "unat (motd_sz m) = n" and "n \<le> 4000" and "4000 \<le> n + length s"
    and "n + length s < 2 ^ 63"
  shows "motd_cb s m = Inr (m\<lparr>motd_sz := motd_sz m + of_nat (length s)\<rparr>)"
    and "unat (motd_sz m + of_nat (length s)) = n + length s"
proof -
  have "unat (4000 - motd_sz m) = 4000 - n" using assms(2,3) by (simp add: unat_sub_if')
  moreover have l: "unat (of_nat (length s) :: u64) = length s"
    using assms(5) by (simp add: unsigned_of_nat take_bit_nat_eq_self)
  ultimately have "\<not> (of_nat (length s) :: u64) < 4000 - motd_sz m"
    using assms(4) by (simp add: word_less_nat_alt)
  then show "motd_cb s m = Inr (m\<lparr>motd_sz := motd_sz m + of_nat (length s)\<rparr>)" by (simp add: motd_cb_def)
  show "unat (motd_sz m + of_nat (length s)) = n + length s"
    using l assms(2,5) by (simp add: unat_word_ariths)
qed

lemma motd_cb_all_full:
  "length (motd_buf m) = 4000 \<Longrightarrow> unat (motd_sz m) \<le> 4000 \<Longrightarrow> ss \<noteq> [] \<Longrightarrow> 4000 \<le> unat (motd_sz m) + length (hd ss) \<Longrightarrow>
     unat (motd_sz m) + length (concat (butlast ss)) \<le> 4000 \<Longrightarrow> unat (motd_sz m) + length (concat ss) < 2 ^ 63 \<Longrightarrow>
     \<exists>m'. motd_cb_all ss m = Inr m' \<and> motd_buf m' = motd_buf m"
proof (induction ss arbitrary: m)
  case (Cons s ss)
  let ?m = "m\<lparr>motd_sz := motd_sz m + of_nat (length s)\<rparr>"
  have cb: "motd_cb s m = Inr ?m" "unat (motd_sz ?m) = unat (motd_sz m) + length s"
    using motd_cb_full [OF Cons.prems(1) refl Cons.prems(2), of s] Cons.prems by auto
  show ?case
  proof (cases "ss = []")
    case False
    then have "\<exists>m'. motd_cb_all ss ?m = Inr m' \<and> motd_buf m' = motd_buf ?m"
      using Cons.prems cb(2) by (intro Cons.IH) auto
    then show ?thesis using cb by auto
  qed (use cb in auto)
qed simp

lemma motd_cb_all_append: "motd_cb_all (ss @ ts) m = bindr (motd_cb_all ss m) (motd_cb_all ts)"
  by (induction ss arbitrary: m) (simp_all, metis (no_types, lifting) bindr.simps sum.exhaust)

lemma motd_cb_all_size:
  "motd_cb_all ss m = Inr m' \<Longrightarrow> motd_sz m' = motd_sz m + of_nat (length (concat ss))"
proof (induction ss arbitrary: m)
  case (Cons s ss)
  then obtain m1 where "motd_cb s m = Inr m1" "motd_cb_all ss m1 = Inr m'" by (cases "motd_cb s m") auto
  then show ?case using Cons.IH motd_cb_size by (simp add: add.assoc)
qed simp

text \<open>What the callback leaves in the buffer, for any pieces.\<close>

lemma motd_cb_all_text:
  assumes ok: "length (motd_buf m) = 4000" "motd_sz m = 0" and ss: "ss \<noteq> []" "length (hd ss) < 4000" "\<forall>s \<in> set ss. is_cstring s"
    and len: "length (concat ss) < 2 ^ 63" and before: "length (concat (butlast ss)) \<le> 4000"
  obtains m' where "motd_cb_all ss m = Inr m'" and "cstr_at (motd_buf m') 0 = Inr (concat (fitting 4000 ss))"
proof -
  let ?fit = "fitting 4000 ss"
  obtain rest where sp: "ss = ?fit @ rest" and f: "length (concat ?fit) < 4000"
    and r: "rest \<noteq> [] \<longrightarrow> 4000 \<le> length (concat ?fit) + length (hd rest)"
    using fitting_split [of ss 4000] by auto
  have "?fit \<noteq> []" using ss by (cases ss) auto
  then obtain m1 where m1: "motd_cb_all ?fit m = Inr m1" "length (motd_buf m1) = 4000"
      "take (length (concat ?fit) + 1) (motd_buf m1) = concat ?fit @ [0]"
    using motd_cb_all_fits [OF ok(1), of 0 ?fit] ok(2) f by auto
  have sz: "unat (motd_sz m1) = length (concat ?fit)" 
    using motd_cb_all_size [OF m1(1)] ok(2) f by (simp add: unsigned_of_nat take_bit_nat_eq_self)
  obtain m' where m': "motd_cb_all ss m = Inr m'" "motd_buf m' = motd_buf m1"
  proof (cases "rest = []")
    case True
    then show ?thesis using sp m1(1) that by simp
  next
    case False
    have "length (concat ss) = length (concat ?fit) + length (concat rest)" using arg_cong [OF sp, of "\<lambda>x. length (concat x)"] by simp
    moreover have "length (concat (butlast ss)) = length (concat ?fit) + length (concat (butlast rest))"
      using arg_cong [OF sp, of "\<lambda>x. length (concat (butlast x))"] False by (simp add: butlast_append)
    ultimately obtain m' where "motd_cb_all rest m1 = Inr m'" "motd_buf m' = motd_buf m1"
      using motd_cb_all_full [OF m1(2), of rest] sz f r False len before by auto
    moreover have "motd_cb_all ss m = motd_cb_all rest m1"
      using motd_cb_all_append [of ?fit rest m] m1(1) sp by simp
    ultimately show ?thesis using that by simp
  qed
  have "is_cstring (concat ?fit)" using ss(3) arg_cong [OF sp, of set] by (auto simp: is_cstring_def)
  moreover have "drop 0 (motd_buf m') = concat ?fit @ 0 # drop (length (concat ?fit) + 1) (motd_buf m')"
    using m1(3) m'(2) append_take_drop_id [of "length (concat ?fit) + 1" "motd_buf m'"]
    by (metis append.assoc append_Cons append_Nil drop_0)
  ultimately show ?thesis using that m'(1) cstr_at_terminated by blast
qed

end
