(* ===== verification/Server_Msg.thy ===== *)
theory Server_Msg
  imports Server
begin

text \<open>
  The message processing of the relay server (src/srvmain.c, \<^verbatim>\<open>process_msg\<close> and below): one
  definition per case of the \<^verbatim>\<open>switch\<close> of \<^verbatim>\<open>process_server_msg\<close>, then broadcast and
  forwarding. \<open>ts\<close> is the time stamp of the responses; each handler gets the message in the
  receive buffer of client \<open>i\<close> and leaves the response there, as the code does.
\<close>

definition TXT_REGISTERED :: cstring where "TXT_REGISTERED = str ''Account created / modified.''"
definition TXT_DROPPED :: cstring where "TXT_DROPPED = str ''Account registration dropped.''"
definition TXT_BYE :: cstring where "TXT_BYE = str ''Bye.''"

text \<open>The two ways a handler fills the receive buffer with its answer.\<close>

definition set_rbuf :: "nat \<Rightarrow> mbuf option \<Rightarrow> server \<Rightarrow> server" where
  "set_rbuf i p s = upd_client i (cl_rbuf_update (\<lambda>_. p)) s"

definition error_reply :: "u64 \<Rightarrow> SC_ENUM \<Rightarrow> nat \<Rightarrow> mbuf \<Rightarrow> server \<Rightarrow> server res" where
  "error_reply ts ec i p s =
     bindr (mbuf_to_error_response ts ec p) (\<lambda>p. Inr (set_rbuf i (Some p) s))"

definition ok_reply :: "u64 \<Rightarrow> (u16 \<times> nat \<times> va_value) list \<Rightarrow> nat \<Rightarrow> mbuf \<Rightarrow> server \<Rightarrow> server res" where
  "ok_reply ts as i p s =
     bindr (mbuf_to_response ts p) (\<lambda>p.
     bindr (add_all as p) (\<lambda>p. Inr (set_rbuf i (Some p) s)))"

definition ok_attr :: "u16 \<times> nat \<times> va_value" where
  "ok_attr = (MSG_ATTR_OK, 0, VA_NULL)"

definition notice_attr :: "cstring \<Rightarrow> u16 \<times> nat \<times> va_value" where
  "notice_attr txt = (MSG_ATTR_NOTICE, length txt + 1, VA_STR txt)"

text \<open>
  The first attribute of the message if it is of the wanted type, with the string its value
  starts: none stands for the condition of the code that sends \<^verbatim>\<open>SC_BAD_REQUEST\<close>.
\<close>

definition first_attr :: "u16 \<Rightarrow> mbuf \<Rightarrow> nat option \<times> mbuf" where
  "first_attr want p =
     (case mbuf_getnextattrib p of
        (Some (at, al, av), p) \<Rightarrow> (if at \<noteq> want then (None, p) else (Some av, p))
      | (None, p) \<Rightarrow> (None, p))"

definition srv_ping_req :: "u64 \<Rightarrow> nat \<Rightarrow> mbuf \<Rightarrow> server \<Rightarrow> server res" where
  "srv_ping_req ts i p s = ok_reply ts [ok_attr] i p s"

definition srv_register :: "u64 \<Rightarrow> nat \<Rightarrow> mbuf \<Rightarrow> server \<Rightarrow> server res" where
  "srv_register ts i p s =
     (if cl_st (clients s ! i) \<noteq> CLT_AUTH_OK then error_reply ts SC_UNAUTHORIZED i p s
      else case first_attr MSG_ATTR_PUBKEY p of
        (None, p) \<Rightarrow> error_reply ts SC_BAD_REQUEST i p s
      | (Some av, p) \<Rightarrow>
          bindr (av_str p av) (\<lambda>val.
          let key = AUTH_KEY_PLAINTEXT @ val in
          case cl_name (clients s ! i) of
            None \<Rightarrow> Inl NullDeref
          | Some name \<Rightarrow>
              bindr (udb_dropentry (srv_udb s) name) (\<lambda>(_, db).
              bindr (udb_addentry db (cl_id (clients s ! i)) (Some name) (Some key)) (\<lambda>(pu, db).
              let s = s\<lparr>srv_udb := db\<rparr> in
              case pu of
                Inr u \<Rightarrow> ok_reply ts [ok_attr, notice_attr TXT_REGISTERED] i p s
              | Inl err \<Rightarrow> error_reply ts SC_LOCKED i p s))))"

definition srv_drop :: "u64 \<Rightarrow> nat \<Rightarrow> mbuf \<Rightarrow> server \<Rightarrow> server res" where
  "srv_drop ts i p s =
     (if cl_st (clients s ! i) \<noteq> CLT_AUTH_OK then error_reply ts SC_UNAUTHORIZED i p s
      else case cl_name (clients s ! i) of
        None \<Rightarrow> Inl NullDeref
      | Some name \<Rightarrow>
          bindr (udb_dropentry (srv_udb s) name) (\<lambda>(r, db).
          let s = s\<lparr>srv_udb := db\<rparr> in
          if r \<noteq> 0 then error_reply ts SC_NOT_FOUND i p s
          else ok_reply ts [ok_attr, notice_attr TXT_DROPPED] i p s))"

text \<open>The text of the message of the day is read from the buffer, up to its terminator.\<close>

definition motd_text :: "server \<Rightarrow> cstring res" where
  "motd_text s = cstr_at (motd_buf (srv_motd s)) 0"

text \<open>Is the name in use by a connected client, whatever its case and state?\<close>

definition name_taken :: "cstring \<Rightarrow> client_t \<Rightarrow> bool" where
  "name_taken name c \<longleftrightarrow> 0 \<le> cl_fd c \<and>
     (case cl_name c of None \<Rightarrow> False | Some n \<Rightarrow> stricmp n name = 0)"

definition srv_login_unregistered :: "u64 \<Rightarrow> nat \<Rightarrow> mbuf \<Rightarrow> cstring \<Rightarrow> server \<Rightarrow> server res" where
  "srv_login_unregistered ts i p name s =
     (if find_slot (name_taken name) (clients s) \<noteq> max_clients s then error_reply ts SC_CONFLICT i p s
      else bindr (udb_gettempid (srv_udb s)) (\<lambda>(tid, db).
        let s = upd_client i (\<lambda>c. c\<lparr>cl_st := CLT_AUTH_OK, cl_id := tid, cl_name := Some name,
                  cl_key := None\<rparr>) (s\<lparr>srv_udb := db\<rparr>)
        in bindr (motd_text s) (\<lambda>txt. ok_reply ts [ok_attr, notice_attr txt] i p s)))"

definition srv_login_registered :: "u64 \<Rightarrow> nat \<Rightarrow> mbuf \<Rightarrow> udb_t \<Rightarrow> server \<Rightarrow> server res" where
  "srv_login_registered ts i p pu s =
     (let s = upd_client i (\<lambda>c. c\<lparr>cl_st := CLT_LOGIN_OK, cl_id := u_id pu,
                cl_name := Some (u_name pu)\<rparr>) s
      in if take (length AUTH_KEY_PLAINTEXT) (u_key pu) = AUTH_KEY_PLAINTEXT then
           (let s = upd_client i (cl_key_update (\<lambda>_. Some (u_key pu))) s
            in ok_reply ts [(MSG_ATTR_CHALLENGE, length AUTH_KEY_PLAINTEXT + 1,
                             VA_BLOB (AUTH_KEY_PLAINTEXT @ [0]))] i p s)
         else error_reply ts SC_METHOD_NOT_ALLOWED i p s)"

definition srv_login :: "u64 \<Rightarrow> nat \<Rightarrow> mbuf \<Rightarrow> server \<Rightarrow> server res" where
  "srv_login ts i p s =
     (if cl_st (clients s ! i) \<noteq> CLT_PRE_LOGIN then error_reply ts SC_BAD_REQUEST i p s
      else case first_attr MSG_ATTR_USERNAME p of
        (None, p) \<Rightarrow> error_reply ts SC_BAD_REQUEST i p s
      | (Some av, p) \<Rightarrow>
          bindr (av_str p av) (\<lambda>name.
          bindr (udb_lookupname (srv_udb s) name) (\<lambda>(pu, db).
          let s = s\<lparr>srv_udb := db\<rparr> in
          case pu of
            None \<Rightarrow> srv_login_unregistered ts i p name s
          | Some u \<Rightarrow> srv_login_registered ts i p u s)))"

text \<open>The other connections of the same identity are closed.\<close>

definition close_if_same_id :: "nat \<Rightarrow> nat \<Rightarrow> server \<Rightarrow> server" where
  "close_if_same_id i j s =
     (if cl_id (clients s ! i) = cl_id (clients s ! j) \<and> i \<noteq> j \<and> 0 \<le> cl_fd (clients s ! j)
      then close_client j s else s)"

definition close_same_id :: "nat \<Rightarrow> server \<Rightarrow> server" where
  "close_same_id i s = fold (close_if_same_id i) [0..<max_clients s] s"

text \<open>
  \<^verbatim>\<open>0 == strcmp( av, key )\<close> with \<open>bs\<close> the rest of the buffer at \<open>av\<close>: the comparison
  stops at the first difference, and leaves the buffer when the buffer ends before.
\<close>

fun strcmp_equal :: "byte list \<Rightarrow> cstring \<Rightarrow> bool res" where
  "strcmp_equal [] k = Inl OutOfBounds"
| "strcmp_equal (b # bs) [] = Inr (b = 0)"
| "strcmp_equal (b # bs) (c # k) = (if b = c then strcmp_equal bs k else Inr False)"

definition srv_auth :: "u64 \<Rightarrow> nat \<Rightarrow> mbuf \<Rightarrow> server \<Rightarrow> server res" where
  "srv_auth ts i p s =
     (case (if cl_st (clients s ! i) \<noteq> CLT_LOGIN_OK then (None, p) else first_attr MSG_ATTR_DIGEST p) of
        (None, p) \<Rightarrow>
          error_reply ts SC_BAD_REQUEST i p (upd_client i (cl_st_update (\<lambda>_. CLT_PRE_LOGIN)) s)
      | (Some av, p) \<Rightarrow>
          (case cl_key (clients s ! i) of
             None \<Rightarrow> Inl NullDeref
           | Some key \<Rightarrow>
               bindr (strcmp_equal (drop av (bdata p)) key) (\<lambda>same.
               if \<not> same then
                 error_reply ts SC_UNAUTHORIZED i p (upd_client i (cl_st_update (\<lambda>_. CLT_PRE_LOGIN)) s)
               else
                 let s = upd_client i (cl_st_update (\<lambda>_. CLT_AUTH_OK)) (close_same_id i s)
                 in bindr (motd_text s) (\<lambda>txt. ok_reply ts [ok_attr, notice_attr txt] i p s))))"

definition srv_logout :: "u64 \<Rightarrow> nat \<Rightarrow> mbuf \<Rightarrow> server \<Rightarrow> server res" where
  "srv_logout ts i p s =
     (if cl_st (clients s ! i) \<noteq> CLT_AUTH_OK \<and> cl_st (clients s ! i) \<noteq> CLT_LOGIN_OK
      then error_reply ts SC_UNAUTHORIZED i p s
      else ok_reply ts [ok_attr, notice_attr TXT_BYE] i p
             (upd_client i (\<lambda>c. c\<lparr>cl_st := CLT_PRE_LOGIN, cl_id := 0, cl_name := None, cl_key := None\<rparr>) s))"

text \<open>The attributes of the peer list: identifier and name of every authorised client.\<close>

fun add_peers :: "client_t list \<Rightarrow> mbuf \<Rightarrow> mbuf res" where
  "add_peers [] p = Inr p"
| "add_peers (c # cs) p =
     (if 0 \<le> cl_fd c \<and> cl_st c = CLT_AUTH_OK then
        bindr (mbuf_addattrib MSG_ATTR_PEERID 8 (VA_UI64 (cl_id c)) p) (\<lambda>p.
        case cl_name c of
          None \<Rightarrow> Inl NullDeref
        | Some n \<Rightarrow>
            bindr (mbuf_addattrib MSG_ATTR_PEERNAME (length n + 1) (VA_STR n) p) (add_peers cs))
      else add_peers cs p)"

definition srv_peerlist :: "u64 \<Rightarrow> nat \<Rightarrow> mbuf \<Rightarrow> server \<Rightarrow> server res" where
  "srv_peerlist ts i p s =
     bindr (mbuf_to_response ts p) (\<lambda>p.
     bindr (add_peers (clients s) p) (\<lambda>p. Inr (set_rbuf i (Some p) s)))"

definition ret :: "int \<Rightarrow> server res \<Rightarrow> (int \<times> server) res" where
  "ret r x = bindr x (\<lambda>s. Inr (r, s))"

definition process_server_msg :: "u64 \<Rightarrow> nat \<Rightarrow> mbuf \<Rightarrow> server \<Rightarrow> (int \<times> server) res" where
  "process_server_msg ts i p s =
     (let mtype = HDR_GET_TYPE p in
      if cl_st (clients s ! i) \<noteq> CLT_AUTH_OK \<and> mtype \<noteq> MSG_TYPE_LOGIN_REQ \<and>
         mtype \<noteq> MSG_TYPE_AUTH_REQ \<and> mtype \<noteq> MSG_TYPE_REGISTER_REQ
      then ret (- 1) (error_reply ts SC_FORBIDDEN i p s)
      else let p = mbuf_resetgetattrib p in
        if mtype = MSG_TYPE_PING_IND then ret 0 (Inr (set_rbuf i None s))
        else if mtype = MSG_TYPE_PING_REQ then ret 0 (srv_ping_req ts i p s)
        else if mtype = MSG_TYPE_REGISTER_REQ then ret 0 (srv_register ts i p s)
        else if mtype = MSG_TYPE_DROP_REQ then ret 0 (srv_drop ts i p s)
        else if mtype = MSG_TYPE_LOGIN_REQ then ret 0 (srv_login ts i p s)
        else if mtype = MSG_TYPE_AUTH_REQ then ret 0 (srv_auth ts i p s)
        else if mtype = MSG_TYPE_LOGOUT_REQ then ret 0 (srv_logout ts i p s)
        else if mtype = MSG_TYPE_PEERLIST_REQ then ret 0 (srv_peerlist ts i p s)
        else if MCLASS_IS_REQ mtype then ret (- 1) (error_reply ts SC_I_AM_A_TEAPOT i p s)
        else ret (- 1) (Inr (set_rbuf i None s)))"

definition process_broadcast_msg :: "u64 \<Rightarrow> nat \<Rightarrow> mbuf \<Rightarrow> server \<Rightarrow> (int \<times> server) res" where
  "process_broadcast_msg ts i p s =
     (if cl_st (clients s ! i) \<noteq> CLT_AUTH_OK then ret (- 1) (error_reply ts SC_FORBIDDEN i p s)
      else if MCLASS_IS_REQ (HDR_GET_TYPE p) then ret (- 1) (error_reply ts SC_NOT_IMPLEMENTED i p s)
      else ret (- 1) (Inr (set_rbuf i None s)))"

definition forwardable :: "u16 \<Rightarrow> bool" where
  "forwardable t \<longleftrightarrow> t = MSG_TYPE_OFFER_IND \<or> t = MSG_TYPE_OFFER_REQ \<or> t = MSG_TYPE_OFFER_RES \<or>
     t = MSG_TYPE_OFFER_ERR \<or> t = MSG_TYPE_GETFILE_REQ \<or> t = MSG_TYPE_GETFILE_RES \<or>
     t = MSG_TYPE_GETFILE_ERR \<or> t = MSG_TYPE_PING_IND \<or> t = MSG_TYPE_PING_REQ \<or>
     t = MSG_TYPE_PING_RES \<or> t = MSG_TYPE_PING_ERR"

definition addressee :: "u64 \<Rightarrow> client_t \<Rightarrow> bool" where
  "addressee dst c \<longleftrightarrow> 0 \<le> cl_fd c \<and> cl_st c = CLT_AUTH_OK \<and> dst = cl_id c"

definition process_forward_msg :: "u64 \<Rightarrow> nat \<Rightarrow> mbuf \<Rightarrow> server \<Rightarrow> (int \<times> server) res" where
  "process_forward_msg ts i p s =
     (if cl_st (clients s ! i) \<noteq> CLT_AUTH_OK then ret (- 1) (error_reply ts SC_FORBIDDEN i p s)
      else let i_dst = find_slot (addressee (HDR_GET_DSTID p)) (clients s) in
        if i_dst = max_clients s then ret (- 1) (error_reply ts SC_MISDIRECTED_REQUEST i p s)
        else if forwardable (HDR_GET_TYPE p) then
          ret 0 (Inr (set_rbuf i None (enqueue i_dst p s)))
        else if MCLASS_IS_REQ (HDR_GET_TYPE p) then ret (- 1) (error_reply ts SC_BAD_REQUEST i p s)
        else ret (- 1) (Inr (set_rbuf i None s)))"

text \<open>The sender is filled in, the message handled, and a response put on the sender's queue.\<close>

definition process_msg :: "u64 \<Rightarrow> nat \<Rightarrow> server \<Rightarrow> (int \<times> server) res" where
  "process_msg ts i s =
     (case cl_rbuf (clients s ! i) of
        None \<Rightarrow> Inl NullDeref
      | Some p \<Rightarrow>
          let dstid = HDR_GET_DSTID p;
              p = (if cl_st (clients s ! i) = CLT_LOGIN_OK \<or> cl_st (clients s ! i) = CLT_AUTH_OK
                   then HDR_SET_SRCID (cl_id (clients s ! i)) p else p);
              s = set_rbuf i (Some p) s
          in bindr (if dstid = 0 then process_server_msg ts i p s
                    else if dstid = - 1 then process_broadcast_msg ts i p s
                    else process_forward_msg ts i p s) (\<lambda>(r, s).
             case cl_rbuf (clients s ! i) of
               Some q \<Rightarrow> Inr (r, set_rbuf i None (enqueue i q s))
             | None \<Rightarrow> Inr (r, s)))"
section \<open>Replies\<close>

text \<open>
  \<open>error_answer ts ec p q\<close>: \<open>q\<close> is the error response with code \<open>ec\<close> to the request
  \<open>p\<close>; \<open>ok_answer ts as p q\<close>: \<open>q\<close> is the response with attributes \<open>as\<close>.
\<close>

definition error_answer :: "u64 \<Rightarrow> SC_ENUM \<Rightarrow> mbuf \<Rightarrow> mbuf \<Rightarrow> bool" where
  "error_answer ts ec p q \<longleftrightarrow> tlv_msg (error_header ts p) (error_attrs ec) q"

definition ok_answer :: "u64 \<Rightarrow> attrib list \<Rightarrow> mbuf \<Rightarrow> mbuf \<Rightarrow> bool" where
  "ok_answer ts as p q \<longleftrightarrow> tlv_msg (response_of ts p) as q"

lemma answer_boff [simp]:
  "error_answer ts ec (p\<lparr>boff := n\<rparr>) = error_answer ts ec p"
  "ok_answer ts as (p\<lparr>boff := n\<rparr>) = ok_answer ts as p"
  by (auto simp: error_answer_def ok_answer_def error_header_def response_of_def fun_eq_iff)

lemma answer_framed: "error_answer ts ec p q \<Longrightarrow> mbuf_framed q" "ok_answer ts as p q \<Longrightarrow> mbuf_framed q"
  by (simp_all add: error_answer_def ok_answer_def tlv_msg_def)

definition notice :: "cstring \<Rightarrow> attrib" where
  "notice txt = (MSG_ATTR_NOTICE, txt @ [0])"

definition ok_attrs :: "cstring \<Rightarrow> attrib list" where
  "ok_attrs txt = [(MSG_ATTR_OK, []), notice txt]"

lemma set_rbuf_fields [simp]:
  "cfg (set_rbuf i x s) = cfg s" "m_rfds (set_rbuf i x s) = m_rfds s"
  "m_wfds (set_rbuf i x s) = m_wfds s" "maxfd (set_rbuf i x s) = maxfd s"
  "open_fds (set_rbuf i x s) = open_fds s" "srv_udb (set_rbuf i x s) = srv_udb s"
  "srv_motd (set_rbuf i x s) = srv_motd s" "max_clients (set_rbuf i x s) = max_clients s"
  "clients (set_rbuf i x s) = (clients s)[i := (clients s ! i)\<lparr>cl_rbuf := x\<rparr>]"
  by (simp_all add: set_rbuf_def)

lemma error_reply_ok:
  assumes "hdr_ok p"
  obtains q where "error_reply ts ec i p s = Inr (set_rbuf i (Some q) s)" and "error_answer ts ec p q"
proof -
  obtain q where "mbuf_to_error_response ts ec p = Inr q" "tlv_msg (error_header ts p) (error_attrs ec) q"
    by (rule mbuf_to_error_response_ok [OF assms])
  with that show thesis by (simp add: error_reply_def error_answer_def)
qed

lemma ok_reply_ok:
  assumes "hdr_ok p"
    and "list_all2 (\<lambda>(at, n, v) a. fst a = at \<and> attr_call at n v = Some (snd a)) cs as"
    and "40 + length (concat (map tlv_encode as)) \<le> MSG_MAX_SIZE"
  obtains q where "ok_reply ts cs i p s = Inr (set_rbuf i (Some q) s)" and "ok_answer ts as p q"
proof -
  obtain q where "add_all cs (response_of ts p) = Inr q" "tlv_msg (response_of ts p) as q"
    using add_all_ok [OF response_of_tlv assms(2), of ts p] assms(3) by auto
  with mbuf_to_response_eq [OF assms(1)] that show thesis
    by (auto simp: ok_reply_def ok_answer_def)
qed

lemma ok_notice_reply:
  assumes "hdr_ok p" and "length txt < 65000"
  obtains q where "ok_reply ts [ok_attr, notice_attr txt] i p s = Inr (set_rbuf i (Some q) s)"
    and "ok_answer ts (ok_attrs txt) p q"
proof -
  have "ROUNDUP8 (length txt + 1) < length txt + 9" using ROUNDUP8_less [of "length txt + 1"] by simp
  then have fits: "40 + length (concat (map tlv_encode (ok_attrs txt))) \<le> 65440"
    using assms(2) by (simp add: ok_attrs_def notice_def length_tlv_encode ROUNDUP8_def [of 0])
  have "list_all2 (\<lambda>(at, n, v) a. fst a = at \<and> attr_call at n v = Some (snd a))
      [ok_attr, notice_attr txt] (ok_attrs txt)"
    by (simp add: ok_attr_def notice_attr_def ok_attrs_def notice_def attr_calls)
  from ok_reply_ok [OF assms(1) this fits, of ts i s] that show thesis .
qed

lemma ok_only_reply:
  assumes "hdr_ok p"
  obtains q where "ok_reply ts [ok_attr] i p s = Inr (set_rbuf i (Some q) s)"
    and "ok_answer ts [(MSG_ATTR_OK, [])] p q"
proof -
  have "list_all2 (\<lambda>(at, n, v) a. fst a = at \<and> attr_call at n v = Some (snd a)) [ok_attr] [(MSG_ATTR_OK, [])]"
    by (simp add: ok_attr_def attr_calls)
  moreover have "40 + length (concat (map tlv_encode [(MSG_ATTR_OK, [])])) \<le> 65440"
    by (simp add: length_tlv_encode ROUNDUP8_def [of 0])
  ultimately show thesis by (rule ok_reply_ok [OF assms]) (rule that)
qed

text \<open>What a handler can do to its caller: fail, or leave an answer in the buffer.\<close>

lemma error_reply_InrD:
  assumes "hdr_ok p" and "error_reply ts ec i p s = Inr s'"
  shows "\<exists>q. s' = set_rbuf i (Some q) s \<and> error_answer ts ec p q"
  using error_reply_ok [OF assms(1), of ts ec i s] assms(2) by (metis Inr_inject)

lemma error_reply_not_Inl: "hdr_ok p \<Longrightarrow> error_reply ts ec i p s \<noteq> Inl e"
  using error_reply_ok [of p ts ec i s] by (metis Inl_Inr_False)

section \<open>The first attribute\<close>

lemma first_attr_boff:
  assumes "first_attr want p = (r, q)"
  shows "q = p\<lparr>boff := boff q\<rparr>"
  using assms by (auto simp: first_attr_def mbuf_getnextattrib_def Let_def split: if_splits option.splits)

lemma first_attr_hdr_ok: "first_attr want p = (r, q) \<Longrightarrow> hdr_ok p \<Longrightarrow> hdr_ok q"
  using first_attr_boff [of want p r q] by (metis hdr_ok_set(8))

lemma first_attr_Some:
  assumes "mbuf_framed p" and "attrs p = (want, v) # as"
  obtains av n where "first_attr want (mbuf_resetgetattrib p) = (Some av, p\<lparr>boff := n\<rparr>)"
    and "take (length v) (drop av (bdata p)) = v" and "av + length v \<le> length (bdata p)"
proof -
  let ?p = "mbuf_resetgetattrib p"
  have scan: "attr_scan ?p"
    using assms(1) by (simp add: attr_scan_def mbuf_framed_def mbuf_resetgetattrib_def)
  obtain r q where g: "mbuf_getnextattrib ?p = (r, q)" by force
  have pend: "pending_attrs ?p = (want, v) # as" using assms(2) by (simp add: pending_attrs_reset)
  with mbuf_getnextattrib_None(2) [OF scan, of q] g obtain at al av where r: "r = Some (at, al, av)"
    by (cases r) auto
  with g have g': "mbuf_getnextattrib ?p = (Some (at, al, av), q)" by simp
  note s = mbuf_getnextattrib_Some [OF scan g']
  from s(4) pend have at: "at = want" and v: "v = take al (drop av (bdata ?p))" by auto
  have len: "length v = al" using v s(3) by (simp add: mbuf_resetgetattrib_def)
  have q: "q = p\<lparr>boff := boff q\<rparr>" using s(1) by (cases p) (simp add: mbuf_resetgetattrib_def)
  show thesis
  proof (rule that [of av "boff q"])
    show "first_attr want ?p = (Some av, p\<lparr>boff := boff q\<rparr>)"
      using g' at q by (simp add: first_attr_def)
  qed (use v len s(3) in \<open>simp_all add: mbuf_resetgetattrib_def\<close>)
qed

lemma first_attr_other:
  assumes "mbuf_framed p" and "\<And>v as. attrs p \<noteq> (want, v) # as"
  obtains n where "first_attr want (mbuf_resetgetattrib p) = (None, p\<lparr>boff := n\<rparr>)"
proof -
  let ?p = "mbuf_resetgetattrib p"
  have scan: "attr_scan ?p"
    using assms(1) by (simp add: attr_scan_def mbuf_framed_def mbuf_resetgetattrib_def)
  obtain r q where g: "mbuf_getnextattrib ?p = (r, q)" by force
  have "fst (first_attr want ?p) = None"
  proof (cases r)
    case (Some x)
    obtain at al av where "x = (at, al, av)" by (cases x)
    with g Some have g': "mbuf_getnextattrib ?p = (Some (at, al, av), q)" by simp
    from mbuf_getnextattrib_Some(4) [OF scan g'] assms(2) have "at \<noteq> want"
      by (auto simp: pending_attrs_reset)
    with g' show ?thesis by (simp add: first_attr_def)
  qed (simp add: first_attr_def g)
  moreover have "snd (first_attr want ?p) = p\<lparr>boff := boff (snd (first_attr want ?p))\<rparr>"
    using first_attr_boff [of want ?p "fst (first_attr want ?p)" "snd (first_attr want ?p)"]
    by (cases p) (simp add: mbuf_resetgetattrib_def)
  ultimately show thesis using that by (metis prod.collapse)
qed

lemma strcmp_equal_True:
  "is_cstring k \<Longrightarrow> strcmp_equal bs k = Inr True \<longleftrightarrow> take (length k + 1) bs = k @ [0]"
  by (induction bs k rule: strcmp_equal.induct) (auto simp: is_cstring_def)

lemma strcmp_equal_terminated:
  "0 \<in> set bs \<Longrightarrow> is_cstring k \<Longrightarrow> strcmp_equal bs k = Inr (takeWhile (\<lambda>c. c \<noteq> 0) bs = k)"
  by (induction bs k rule: strcmp_equal.induct) (auto simp: is_cstring_def)

lemma strcmp_equal_value:
  assumes "take (length v) (drop av (bdata p)) = v" and "0 \<in> set v" and "is_cstring k"
  shows "strcmp_equal (drop av (bdata p)) k = Inr (takeWhile (\<lambda>c. c \<noteq> 0) v = k)"
proof -
  have split: "drop av (bdata p) = v @ drop (length v) (drop av (bdata p))"
    using assms(1) by (metis append_take_drop_id)
  have "takeWhile (\<lambda>c. c \<noteq> 0) (v @ xs) = takeWhile (\<lambda>c. c \<noteq> 0) v" for xs
    using assms(2) by (intro takeWhile_append1) auto
  moreover have "0 \<in> set (drop av (bdata p))" using assms(2) by (subst split) simp
  ultimately show ?thesis using strcmp_equal_terminated [OF _ assms(3)] by (metis split)
qed
section \<open>Well-formed server states\<close>

definition client_ok :: "client_t \<Rightarrow> bool" where
  "client_ok c \<longleftrightarrow> tx_inv (cl_queue c) \<and> cl_st c \<noteq> CLT_INVALID \<and>
     (cl_st c = CLT_LOGIN_OK \<or> cl_st c = CLT_AUTH_OK \<longrightarrow> cl_name c \<noteq> None)"

definition msg_ok :: "int \<Rightarrow> server \<Rightarrow> bool" where
  "msg_ok lfd s \<longleftrightarrow> fd_inv lfd s \<and> motd_ok (srv_motd s) \<and> udb_inv (srv_udb s) \<and>
     (\<forall>k < max_clients s. in_use (clients s ! k) \<longrightarrow> client_ok (clients s ! k))"

text \<open>A message waits to be processed in the buffer of client \<open>i\<close>.\<close>

definition received :: "nat \<Rightarrow> mbuf \<Rightarrow> server \<Rightarrow> bool" where
  "received i p s \<longleftrightarrow> i < max_clients s \<and> in_use (clients s ! i) \<and> cl_rbuf (clients s ! i) = Some p \<and>
     mbuf_framed p"

lemma receivedD:
  assumes "received i p s"
  shows "i < max_clients s" "i < length (clients s)" "in_use (clients s ! i)"
    "cl_rbuf (clients s ! i) = Some p" "mbuf_framed p" "hdr_ok p"
  using assms mbuf_framed_hdr_ok by (auto simp: received_def max_clients_def)

lemma in_use_update [simp]:
  "in_use (c\<lparr>cl_rbuf := x\<rparr>) = in_use c" "in_use (c\<lparr>cl_st := st\<rparr>) = in_use c"
  "in_use (c\<lparr>cl_id := d\<rparr>) = in_use c" "in_use (c\<lparr>cl_name := n\<rparr>) = in_use c"
  "in_use (c\<lparr>cl_key := k\<rparr>) = in_use c" "in_use (c\<lparr>cl_queue := q\<rparr>) = in_use c"
  "in_use (c\<lparr>cl_act := t\<rparr>) = in_use c" "\<not> in_use (zero_client\<lparr>cl_fd := - 1, cl_st := CLT_INVALID\<rparr>)"
  "\<not> in_use (zero_client\<lparr>cl_fd := - 1\<rparr>)"
  by (simp_all add: in_use_def)

lemma client_ok_update [simp]:
  "client_ok (c\<lparr>cl_rbuf := x\<rparr>) = client_ok c" "client_ok (c\<lparr>cl_id := d\<rparr>) = client_ok c"
  "client_ok (c\<lparr>cl_key := k\<rparr>) = client_ok c" "client_ok (c\<lparr>cl_act := t\<rparr>) = client_ok c"
  by (simp_all add: client_ok_def)

lemma motd_text_ok:
  assumes "motd_ok (srv_motd s)"
  obtains t where "motd_text s = Inr t" and "length t < 4000"
proof -
  let ?b = "motd_buf (srv_motd s)"
  have b: "0 \<in> set ?b" "length ?b = 4000" using assms by (simp_all add: motd_ok_def)
  have "length (takeWhile (\<lambda>c. c \<noteq> 0) ?b) \<noteq> length ?b"
    using b(1) by (metis (mono_tags, lifting) set_takeWhileD takeWhile_eq_take take_all order_refl)
  then have "length (takeWhile (\<lambda>c. c \<noteq> 0) ?b) < 4000"
    using length_takeWhile_le [of "\<lambda>c. c \<noteq> 0" ?b] b(2) by linarith
  with b that show thesis by (simp add: motd_text_def cstr_at_def)
qed

lemma msg_ok_upd:
  assumes "msg_ok lfd s"
    and "\<And>c. cl_fd (f c) = cl_fd c" and "\<And>c. cl_queue (f c) = cl_queue c"
    and "i < max_clients s \<Longrightarrow> in_use (clients s ! i) \<Longrightarrow> client_ok (clients s ! i) \<Longrightarrow> client_ok (f (clients s ! i))"
  shows "msg_ok lfd (upd_client i f s)"
proof -
  have "client_ok (clients (upd_client i f s) ! k)"
    if "k < max_clients s" "in_use (clients (upd_client i f s) ! k)" for k
    using assms that by (cases "i = k") (auto simp: msg_ok_def in_use_def max_clients_def)
  with assms show ?thesis by (simp add: msg_ok_def)
qed

lemma msg_ok_set_rbuf [simp]: "msg_ok lfd s \<Longrightarrow> msg_ok lfd (set_rbuf i x s)"
  unfolding set_rbuf_def by (rule msg_ok_upd) simp_all

lemma msg_ok_udb: "msg_ok lfd s \<Longrightarrow> udb_inv db \<Longrightarrow> msg_ok lfd (s\<lparr>srv_udb := db\<rparr>)"
  by (simp add: msg_ok_def)

lemma msg_ok_close:
  assumes "msg_ok lfd s" and "i < max_clients s" and "in_use (clients s ! i)"
  shows "msg_ok lfd (close_client i s)"
  using assms close_client_fd_inv [of lfd s i]
  by (auto simp: msg_ok_def nth_list_update max_clients_def split: if_splits)

lemma msg_ok_enqueue:
  assumes "msg_ok lfd s" and "i < max_clients s" and "in_use (clients s ! i)" and "mbuf_framed m"
  shows "msg_ok lfd (enqueue i m s)"
proof -
  have "client_ok (clients (enqueue i m s) ! k)"
    if "k < max_clients s" "in_use (clients (enqueue i m s) ! k)" for k
    using assms that tx_inv_enq [of _ m]
    by (cases "i = k") (auto simp: msg_ok_def in_use_def max_clients_def client_ok_def)
  with assms enqueue_fd_inv [of lfd s i m] show ?thesis by (simp add: msg_ok_def)
qed

section \<open>Answers and their delivery\<close>

definition answered :: "nat \<Rightarrow> mbuf \<Rightarrow> server \<Rightarrow> server" where
  "answered i q s = set_rbuf i None (enqueue i q s)"

definition stamped :: "client_t \<Rightarrow> mbuf \<Rightarrow> mbuf" where
  "stamped c p = (if cl_st c = CLT_LOGIN_OK \<or> cl_st c = CLT_AUTH_OK then HDR_SET_SRCID (cl_id c) p else p)"

lemma server_eqI:
  "cfg s = cfg t \<Longrightarrow> clients s = clients t \<Longrightarrow> m_rfds s = m_rfds t \<Longrightarrow> m_wfds s = m_wfds t \<Longrightarrow>
   maxfd s = maxfd t \<Longrightarrow> open_fds s = open_fds t \<Longrightarrow> srv_udb s = srv_udb t \<Longrightarrow>
   srv_motd s = srv_motd t \<Longrightarrow> s = (t :: server)"
  by simp

lemma m_wfds_enqueue:
  "i < max_clients s \<Longrightarrow> m_wfds (enqueue i m s) = insert (cl_fd (clients s ! i)) (m_wfds s)"
  by (simp add: enqueue_def Let_def max_clients_def)

lemma answered_set_rbuf: "i < max_clients s \<Longrightarrow> answered i q (set_rbuf i x s) = answered i q s"
  by (rule server_eqI) (simp_all add: answered_def m_wfds_enqueue max_clients_def)

lemma stamped_framed: "mbuf_framed p \<Longrightarrow> mbuf_framed (stamped c p)"
  using mbuf_framed_hdr_ok [of p] by (simp add: stamped_def mbuf_framed_def)

lemma stamped_fields:
  assumes "hdr_ok p"
  shows "HDR_GET_TYPE (stamped c p) = HDR_GET_TYPE p" "HDR_GET_PAYLEN (stamped c p) = HDR_GET_PAYLEN p"
    "HDR_GET_DSTID (stamped c p) = HDR_GET_DSTID p" "HDR_GET_TRFID (stamped c p) = HDR_GET_TRFID p"
    "HDR_GET_TS (stamped c p) = HDR_GET_TS p" "attrs (stamped c p) = attrs p"
    "drop 40 (bdata (stamped c p)) = drop 40 (bdata p)" "bsize (stamped c p) = bsize p"
    "hdr_ok (stamped c p)"
  using assms by (simp_all add: stamped_def attrs_def)

lemma process_msg_cases:
  assumes "received i p s"
  defines "p' \<equiv> stamped (clients s ! i) p"
  shows "process_msg ts i s =
    bindr (if HDR_GET_DSTID p = 0 then process_server_msg ts i p' (set_rbuf i (Some p') s)
           else if HDR_GET_DSTID p = - 1 then process_broadcast_msg ts i p' (set_rbuf i (Some p') s)
           else process_forward_msg ts i p' (set_rbuf i (Some p') s)) (\<lambda>(r, s).
    case cl_rbuf (clients s ! i) of
      Some q \<Rightarrow> Inr (r, answered i q s) | None \<Rightarrow> Inr (r, s))"
  using receivedD [OF assms(1)] unfolding p'_def stamped_def answered_def
  by (simp add: process_msg_def Let_def)

text \<open>Whatever handles the message, leaving \<open>q\<close> in the buffer sends \<open>q\<close> to the sender.\<close>

lemma deliver_answer:
  assumes "i < max_clients s" and "res = Inr (r, set_rbuf i (Some q) s)"
  shows "bindr res (\<lambda>(r, s). case cl_rbuf (clients s ! i) of
      Some q \<Rightarrow> Inr (r, answered i q s) | None \<Rightarrow> Inr (r, s)) = Inr (r, answered i q s)"
proof -
  have "i < length (clients s)" using assms(1) by (simp add: max_clients_def)
  with assms answered_set_rbuf [OF assms(1)] show ?thesis by simp
qed

lemma deliver_nothing:
  assumes "i < max_clients s" and "res = Inr (r, set_rbuf i None s)"
  shows "bindr res (\<lambda>(r, s). case cl_rbuf (clients s ! i) of
      Some q \<Rightarrow> Inr (r, answered i q s) | None \<Rightarrow> Inr (r, s)) = Inr (r, set_rbuf i None s)"
  using assms by (simp add: max_clients_def)

lemma set_rbuf_twice [simp]: "i < max_clients s \<Longrightarrow> set_rbuf i x (set_rbuf i y s) = set_rbuf i x s"
  by (rule server_eqI) (simp_all add: max_clients_def)

lemma ret_simps [simp]: "ret r (Inr s) = Inr (r, s)" "ret r (Inl e) = Inl e"
  by (simp_all add: ret_def)

lemma error_delivery:
  assumes "received i p s"
    and "res = ret r (error_reply ts ec i (stamped (clients s ! i) p) (set_rbuf i x s))"
  obtains q where "error_answer ts ec (stamped (clients s ! i) p) q"
    and "bindr res (\<lambda>(r, s). case cl_rbuf (clients s ! i) of
      Some q \<Rightarrow> Inr (r, answered i q s) | None \<Rightarrow> Inr (r, s)) = Inr (r, answered i q s)"
proof -
  note rcv = receivedD [OF assms(1)]
  let ?p = "stamped (clients s ! i) p"
  have "hdr_ok ?p" using rcv(6) by (rule stamped_fields(9))
  then obtain q where q: "error_reply ts ec i ?p (set_rbuf i x s) = Inr (set_rbuf i (Some q) (set_rbuf i x s))"
      "error_answer ts ec ?p q"
    by (rule error_reply_ok)
  have "res = Inr (r, set_rbuf i (Some q) s)" using assms(2) q(1) rcv(1) by simp
  from that [OF q(2) deliver_answer [OF rcv(1) this]] show thesis .
qed
section \<open>What handling a message preserves\<close>

text \<open>
  \<open>keeps i s s'\<close>: no client is new in \<open>s'\<close>, and one that is still there has its descriptor, has
  something to send if it had, and, unless it is the sender \<open>i\<close>, its receive buffer.
\<close>

definition keeps :: "nat \<Rightarrow> server \<Rightarrow> server \<Rightarrow> bool" where
  "keeps i s s' \<longleftrightarrow> max_clients s' = max_clients s \<and> cfg s' = cfg s \<and> maxfd s' = maxfd s \<and>
     srv_motd s' = srv_motd s \<and>
     (\<forall>k < max_clients s. in_use (clients s' ! k) \<longrightarrow>
        cl_fd (clients s' ! k) = cl_fd (clients s ! k) \<and>
        (cl_queue (clients s ! k) \<noteq> [] \<longrightarrow> cl_queue (clients s' ! k) \<noteq> []) \<and>
        (k \<noteq> i \<longrightarrow> cl_rbuf (clients s' ! k) = cl_rbuf (clients s ! k)))"

lemma keeps_refl [simp]: "keeps i s s"
  by (simp add: keeps_def)

lemma keeps_trans: "keeps i s t \<Longrightarrow> keeps i t u \<Longrightarrow> keeps i s u"
  by (auto simp: keeps_def in_use_def)

lemma keeps_upd:
  assumes "\<And>c. cl_fd (f c) = cl_fd c" and "\<And>c. cl_queue c \<noteq> [] \<Longrightarrow> cl_queue (f c) \<noteq> []"
  shows "keeps i s (upd_client i f s)"
proof (cases "i < length (clients s)")
  case True
  with assms show ?thesis by (auto simp: keeps_def nth_list_update list_update_beyond not_less)
qed (use assms in \<open>simp add: keeps_def list_update_beyond not_less\<close>)

lemma keeps_set_rbuf [simp]: "keeps i s (set_rbuf i x s)"
  unfolding set_rbuf_def by (rule keeps_upd) simp_all

lemma keeps_udb [simp]: "keeps i s (s\<lparr>srv_udb := db\<rparr>)"
  by (simp add: keeps_def)

lemma keeps_close: "keeps i s (close_client j s)"
  by (cases "j < length (clients s)") (auto simp: keeps_def nth_list_update list_update_beyond not_less)

lemma keeps_enqueue: "keeps i s (enqueue j m s)"
  by (cases "j < length (clients s)") (auto simp: keeps_def nth_list_update list_update_beyond not_less list_enq_def)

text \<open>The states between which a handler works, and the property of its result.\<close>

definition base_state :: "int \<Rightarrow> nat \<Rightarrow> server \<Rightarrow> bool" where
  "base_state lfd i s \<longleftrightarrow> msg_ok lfd s \<and> i < max_clients s \<and> in_use (clients s ! i)"

definition good_result :: "int \<Rightarrow> nat \<Rightarrow> server \<Rightarrow> server \<Rightarrow> bool" where
  "good_result lfd i s s' \<longleftrightarrow> base_state lfd i s' \<and> keeps i s s' \<and>
     (\<forall>q. cl_rbuf (clients s' ! i) = Some q \<longrightarrow> mbuf_framed q)"

lemma good_result_trans:
  "keeps i s t \<Longrightarrow> good_result lfd i t u \<Longrightarrow> good_result lfd i s u"
  by (auto simp: good_result_def intro: keeps_trans)

lemma good_reply:
  assumes "base_state lfd i s" and "mbuf_framed q"
  shows "good_result lfd i s (set_rbuf i (Some q) s)"
  using assms by (auto simp: good_result_def base_state_def max_clients_def)

lemma good_nothing:
  assumes "base_state lfd i s"
  shows "good_result lfd i s (set_rbuf i None s)"
  using assms by (auto simp: good_result_def base_state_def max_clients_def)

lemma error_reply_good:
  assumes "base_state lfd i s" and "hdr_ok p" and "error_reply ts ec i p s = Inr s'"
  shows "good_result lfd i s s'"
  using error_reply_InrD [OF assms(2,3)] good_reply [OF assms(1)] answer_framed(1) by blast

lemma ok_notice_good:
  assumes "base_state lfd i s" and "hdr_ok p" and "length n < 65000"
    and "ok_reply ts [ok_attr, notice_attr n] i p s = Inr s'"
  shows "good_result lfd i s s'"
proof -
  obtain q where "ok_reply ts [ok_attr, notice_attr n] i p s = Inr (set_rbuf i (Some q) s)"
      "ok_answer ts (ok_attrs n) p q"
    by (rule ok_notice_reply [OF assms(2,3)])
  with assms(4) good_reply [OF assms(1)] answer_framed(2) show ?thesis by auto
qed

lemma base_state_upd:
  assumes "base_state lfd i s" and "\<And>c. cl_fd (f c) = cl_fd c" and "\<And>c. cl_queue (f c) = cl_queue c"
    and "client_ok (clients s ! i) \<Longrightarrow> client_ok (f (clients s ! i))"
  shows "base_state lfd i (upd_client i f s)"
  using assms msg_ok_upd [of lfd s f i]
  by (auto simp: base_state_def max_clients_def in_use_def)

lemma base_state_udb: "base_state lfd i s \<Longrightarrow> udb_inv db \<Longrightarrow> base_state lfd i (s\<lparr>srv_udb := db\<rparr>)"
  by (simp add: base_state_def msg_ok_udb)

lemma base_stateD:
  assumes "base_state lfd i s"
  shows "msg_ok lfd s" "i < max_clients s" "i < length (clients s)" "in_use (clients s ! i)"
    "udb_inv (srv_udb s)" "motd_ok (srv_motd s)" "client_ok (clients s ! i)"
  using assms by (auto simp: base_state_def msg_ok_def max_clients_def)

lemma TXT_lengths [simp]: "length TXT_REGISTERED < 65000" "length TXT_DROPPED < 65000" "length TXT_BYE < 65000"
  by (simp_all add: TXT_REGISTERED_def TXT_DROPPED_def TXT_BYE_def)

lemma srv_register_good:
  assumes b: "base_state lfd i s" and p: "hdr_ok p" and r: "srv_register ts i p s = Inr s'"
  shows "good_result lfd i s s'"
proof -
  note d = base_stateD [OF b]
  show ?thesis
  proof (cases "cl_st (clients s ! i) = CLT_AUTH_OK")
    case False
    with r error_reply_good [OF b p] show ?thesis by (simp add: srv_register_def)
  next
    case st: True
    obtain av q where fa: "first_attr MSG_ATTR_PUBKEY p = (av, q)" by force
    have q: "hdr_ok q" using first_attr_hdr_ok [OF fa p] .
    show ?thesis
    proof (cases av)
      case None
      with st fa r error_reply_good [OF b q] show ?thesis by (simp add: srv_register_def)
    next
      case (Some a)
      from r st fa Some obtain val name r1 db1 pu db2 where
        name: "cl_name (clients s ! i) = Some name"
        and drop: "udb_dropentry (srv_udb s) name = Inr (r1, db1)"
        and add: "udb_addentry db1 (cl_id (clients s ! i)) (Some name) (Some (AUTH_KEY_PLAINTEXT @ val)) = Inr (pu, db2)"
        and fin: "(case pu of Inr u \<Rightarrow> ok_reply ts [ok_attr, notice_attr TXT_REGISTERED] i q (s\<lparr>srv_udb := db2\<rparr>)
            | Inl err \<Rightarrow> error_reply ts SC_LOCKED i q (s\<lparr>srv_udb := db2\<rparr>)) = Inr s'"
        by (auto simp: srv_register_def Let_def split: option.splits)
      from us.remove_total [OF d(5), of name] drop have db1: "udb_inv db1" by auto
      have "udb_inv db2"
        using add db1
        by (cases "can_add db1 name")
          (metis Inr_inject prod.inject udb_addentry_added, metis Inr_inject prod.inject udb_addentry_refused)
      then have b2: "base_state lfd i (s\<lparr>srv_udb := db2\<rparr>)" using b by (simp add: base_state_udb)
      have "good_result lfd i (s\<lparr>srv_udb := db2\<rparr>) s'"
        using fin error_reply_good [OF b2 q] ok_notice_good [OF b2 q TXT_lengths(1)]
        by (cases pu) auto
      then show ?thesis by (rule good_result_trans [OF keeps_udb])
    qed
  qed
qed

lemma srv_drop_good:
  assumes b: "base_state lfd i s" and p: "hdr_ok p" and r: "srv_drop ts i p s = Inr s'"
  shows "good_result lfd i s s'"
proof (cases "cl_st (clients s ! i) = CLT_AUTH_OK")
  case False
  with r error_reply_good [OF b p] show ?thesis by (simp add: srv_drop_def)
next
  case True
  with r obtain name r1 db where name: "cl_name (clients s ! i) = Some name"
    and drop: "udb_dropentry (srv_udb s) name = Inr (r1, db)"
    and fin: "(if r1 \<noteq> 0 then error_reply ts SC_NOT_FOUND i p (s\<lparr>srv_udb := db\<rparr>)
      else ok_reply ts [ok_attr, notice_attr TXT_DROPPED] i p (s\<lparr>srv_udb := db\<rparr>)) = Inr s'"
    by (auto simp: srv_drop_def Let_def split: option.splits)
  from us.remove_total [OF base_stateD(5) [OF b], of name] drop have "udb_inv db" by auto
  then have b2: "base_state lfd i (s\<lparr>srv_udb := db\<rparr>)" using b by (simp add: base_state_udb)
  have "good_result lfd i (s\<lparr>srv_udb := db\<rparr>) s'"
    using fin error_reply_good [OF b2 p] ok_notice_good [OF b2 p TXT_lengths(2)]
    by (auto split: if_splits)
  then show ?thesis by (rule good_result_trans [OF keeps_udb])
qed
lemma motd_text_fields [simp]:
  "motd_text (upd_client i f s) = motd_text s" "motd_text (s\<lparr>srv_udb := db\<rparr>) = motd_text s"
  "motd_text (set_rbuf i x s) = motd_text s"
  by (simp_all add: motd_text_def)

lemma srv_login_unregistered_good:
  assumes b: "base_state lfd i s" and p: "hdr_ok p" and r: "srv_login_unregistered ts i p name s = Inr s'"
  shows "good_result lfd i s s'"
proof (cases "find_slot (name_taken name) (clients s) = max_clients s")
  case False
  with r error_reply_good [OF b p] show ?thesis by (simp add: srv_login_unregistered_def)
next
  case True
  note d = base_stateD [OF b]
  let ?db = "(srv_udb s)\<lparr>next_id := next_id (srv_udb s) + 1\<rparr>"
  let ?f = "\<lambda>c. c\<lparr>cl_st := CLT_AUTH_OK, cl_id := next_id (srv_udb s), cl_name := Some name, cl_key := None\<rparr>"
  let ?s = "upd_client i ?f (s\<lparr>srv_udb := ?db\<rparr>)"
  have b1: "base_state lfd i (s\<lparr>srv_udb := ?db\<rparr>)" using base_state_udb [OF b] d(5) by simp
  have b2: "base_state lfd i ?s"
    using b1 by (rule base_state_upd) (simp_all add: client_ok_def)
  obtain t where t: "motd_text s = Inr t" "length t < 4000" by (rule motd_text_ok [OF d(6)])
  then have "length t < 65000" by simp
  moreover have "ok_reply ts [ok_attr, notice_attr t] i p ?s = Inr s'"
    using r True t(1) udb_gettempid_inv [OF d(5)] by (simp add: srv_login_unregistered_def Let_def)
  ultimately have "good_result lfd i ?s s'" using ok_notice_good [OF b2 p] by blast
  moreover have "keeps i s ?s"
    by (rule keeps_trans [OF keeps_udb]) (rule keeps_upd, simp_all)
  ultimately show ?thesis by (rule good_result_trans [rotated])
qed

lemma challenge_reply_ok:
  assumes "hdr_ok p"
  obtains q where "ok_reply ts [(MSG_ATTR_CHALLENGE, length AUTH_KEY_PLAINTEXT + 1,
      VA_BLOB (AUTH_KEY_PLAINTEXT @ [0]))] i p s = Inr (set_rbuf i (Some q) s)"
    and "ok_answer ts [(MSG_ATTR_CHALLENGE, AUTH_KEY_PLAINTEXT @ [0])] p q"
proof -
  have "list_all2 (\<lambda>(at, n, v) a. fst a = at \<and> attr_call at n v = Some (snd a))
      [(MSG_ATTR_CHALLENGE, length AUTH_KEY_PLAINTEXT + 1, VA_BLOB (AUTH_KEY_PLAINTEXT @ [0]))]
      [(MSG_ATTR_CHALLENGE, AUTH_KEY_PLAINTEXT @ [0])]"
    by (simp add: attr_calls)
  moreover have "40 + length (concat (map tlv_encode [(MSG_ATTR_CHALLENGE, AUTH_KEY_PLAINTEXT @ [0])])) \<le> 65440"
    by (simp add: length_tlv_encode AUTH_KEY_PLAINTEXT_def ROUNDUP8_def)
  ultimately show thesis by (rule ok_reply_ok [OF assms]) (rule that)
qed

lemma srv_login_registered_good:
  assumes b: "base_state lfd i s" and p: "hdr_ok p" and st: "cl_st (clients s ! i) = CLT_PRE_LOGIN"
    and r: "srv_login_registered ts i p pu s = Inr s'"
  shows "good_result lfd i s s'"
proof -
  let ?s = "upd_client i (\<lambda>c. c\<lparr>cl_st := CLT_LOGIN_OK, cl_id := u_id pu, cl_name := Some (u_name pu)\<rparr>) s"
  have b1: "base_state lfd i ?s"
    using b by (rule base_state_upd) (simp_all add: client_ok_def)
  have k: "keeps i s ?s" by (rule keeps_upd) simp_all
  have "good_result lfd i ?s s'"
  proof (cases "take (length AUTH_KEY_PLAINTEXT) (u_key pu) = AUTH_KEY_PLAINTEXT")
    case True
    let ?t = "upd_client i (cl_key_update (\<lambda>_. Some (u_key pu))) ?s"
    have b2: "base_state lfd i ?t" using b1 by (rule base_state_upd) simp_all
    obtain q where "ok_reply ts [(MSG_ATTR_CHALLENGE, length AUTH_KEY_PLAINTEXT + 1,
        VA_BLOB (AUTH_KEY_PLAINTEXT @ [0]))] i p ?t = Inr (set_rbuf i (Some q) ?t)"
        "ok_answer ts [(MSG_ATTR_CHALLENGE, AUTH_KEY_PLAINTEXT @ [0])] p q"
      by (rule challenge_reply_ok [OF p])
    with True r have "s' = set_rbuf i (Some q) ?t" "mbuf_framed q"
      by (auto simp: srv_login_registered_def Let_def answer_framed(2))
    moreover have "keeps i ?s ?t" by (rule keeps_upd) simp_all
    ultimately show ?thesis using good_result_trans good_reply [OF b2] by blast
  next
    case False
    with r error_reply_good [OF b1 p] show ?thesis by (simp add: srv_login_registered_def Let_def)
  qed
  with k show ?thesis by (rule good_result_trans)
qed

lemma srv_login_good:
  assumes b: "base_state lfd i s" and p: "hdr_ok p" and r: "srv_login ts i p s = Inr s'"
  shows "good_result lfd i s s'"
proof (cases "cl_st (clients s ! i) = CLT_PRE_LOGIN")
  case False
  with r error_reply_good [OF b p] show ?thesis by (simp add: srv_login_def)
next
  case st: True
  obtain av q where fa: "first_attr MSG_ATTR_USERNAME p = (av, q)" by force
  have q: "hdr_ok q" using first_attr_hdr_ok [OF fa p] .
  show ?thesis
  proof (cases av)
    case None
    with st fa r error_reply_good [OF b q] show ?thesis by (simp add: srv_login_def)
  next
    case (Some a)
    have "udb_lookupname (srv_udb s) n = Inr (udb_map (srv_udb s) n, srv_udb s)" for n
      using udb_lookupname_inv [OF base_stateD(5) [OF b]] .
    with r st fa Some obtain name where
      "(case udb_map (srv_udb s) name of
          None \<Rightarrow> srv_login_unregistered ts i q name (s\<lparr>srv_udb := srv_udb s\<rparr>)
        | Some u \<Rightarrow> srv_login_registered ts i q u (s\<lparr>srv_udb := srv_udb s\<rparr>)) = Inr s'"
      by (auto simp: srv_login_def Let_def)
    with srv_login_unregistered_good [OF b q] srv_login_registered_good [OF b q st]
    show ?thesis by (auto split: option.splits)
  qed
qed

lemma close_if_same_id_good:
  assumes "base_state lfd i s" and "j < max_clients s"
  shows "base_state lfd i (close_if_same_id i j s)" and "keeps i s (close_if_same_id i j s)"
    and "clients (close_if_same_id i j s) ! i = clients s ! i"
  using assms msg_ok_close [of lfd s j] keeps_close [of i s j]
  by (auto simp: close_if_same_id_def base_state_def in_use_def)

lemma close_same_id_fold:
  "base_state lfd i s \<Longrightarrow> (\<forall>j \<in> set js. j < max_clients s) \<Longrightarrow>
     base_state lfd i (fold (close_if_same_id i) js s) \<and> keeps i s (fold (close_if_same_id i) js s) \<and>
     clients (fold (close_if_same_id i) js s) ! i = clients s ! i"
proof (induction js arbitrary: s)
  case (Cons j js)
  then have j: "j < max_clients s" by simp
  note g = close_if_same_id_good [OF Cons.prems(1) j]
  have "max_clients (close_if_same_id i j s) = max_clients s" using g(2) by (simp add: keeps_def)
  with Cons.IH [OF g(1)] Cons.prems(2) g show ?case by (auto intro: keeps_trans)
qed simp

lemma close_same_id_good:
  assumes "base_state lfd i s"
  shows "base_state lfd i (close_same_id i s)" and "keeps i s (close_same_id i s)"
    and "clients (close_same_id i s) ! i = clients s ! i"
  using close_same_id_fold [OF assms, of "[0..<max_clients s]"] by (auto simp: close_same_id_def)

lemma srv_auth_good:
  assumes b: "base_state lfd i s" and p: "hdr_ok p"
    and r: "srv_auth ts i p s = Inr s'"
  shows "good_result lfd i s s'"
proof -
  let ?pre = "upd_client i (cl_st_update (\<lambda>_. CLT_PRE_LOGIN)) s"
  have bp: "base_state lfd i ?pre" using b by (rule base_state_upd) (simp_all add: client_ok_def)
  have kp: "keeps i s ?pre" by (rule keeps_upd) simp_all
  have bad: "good_result lfd i s s'" if "error_reply ts ec i q ?pre = Inr s'" "hdr_ok q" for ec q
    using good_result_trans [OF kp error_reply_good [OF bp that(2,1)]] .
  show ?thesis
  proof (cases "cl_st (clients s ! i) = CLT_LOGIN_OK")
    case False
    with r bad p show ?thesis by (simp add: srv_auth_def)
  next
    case st: True
    obtain av q where fa: "first_attr MSG_ATTR_DIGEST p = (av, q)" by force
    have q: "hdr_ok q" using first_attr_hdr_ok [OF fa p] .
    let ?s = "upd_client i (cl_st_update (\<lambda>_. CLT_AUTH_OK)) (close_same_id i s)"
    note c = close_same_id_good [OF b]
    have b2: "base_state lfd i ?s"
      using c(1) by (rule base_state_upd) (use c(3) st in \<open>simp_all add: client_ok_def\<close>)
    have k2: "keeps i s ?s" by (rule keeps_trans [OF c(2)]) (rule keeps_upd, simp_all)
    obtain t where t: "motd_text (close_same_id i s) = Inr t" "length t < 4000"
      by (rule motd_text_ok [OF base_stateD(6) [OF c(1)]])
    then have t2: "length t < 65000" by simp
    from r st fa t(1) consider "error_reply ts SC_BAD_REQUEST i q ?pre = Inr s'"
      | "error_reply ts SC_UNAUTHORIZED i q ?pre = Inr s'"
      | "ok_reply ts [ok_attr, notice_attr t] i q ?s = Inr s'"
      by (auto simp: srv_auth_def Let_def split: option.splits if_splits)
    then show ?thesis
      using bad q good_result_trans [OF k2 ok_notice_good [OF b2 q t2]] by cases auto
  qed
qed

lemma srv_logout_good:
  assumes b: "base_state lfd i s" and p: "hdr_ok p" and r: "srv_logout ts i p s = Inr s'"
  shows "good_result lfd i s s'"
proof (cases "cl_st (clients s ! i) \<noteq> CLT_AUTH_OK \<and> cl_st (clients s ! i) \<noteq> CLT_LOGIN_OK")
  case True
  with r error_reply_good [OF b p] show ?thesis by (simp add: srv_logout_def)
next
  case False
  let ?s = "upd_client i (\<lambda>c. c\<lparr>cl_st := CLT_PRE_LOGIN, cl_id := 0, cl_name := None, cl_key := None\<rparr>) s"
  have b1: "base_state lfd i ?s" using b by (rule base_state_upd) (simp_all add: client_ok_def)
  have k: "keeps i s ?s" by (rule keeps_upd) simp_all
  from False r have "ok_reply ts [ok_attr, notice_attr TXT_BYE] i p ?s = Inr s'"
    by (auto simp: srv_logout_def)
  from good_result_trans [OF k ok_notice_good [OF b1 p TXT_lengths(3) this]] show ?thesis .
qed

section \<open>The peer list\<close>

fun peer_attrs :: "client_t list \<Rightarrow> attrib list" where
  "peer_attrs [] = []"
| "peer_attrs (c # cs) =
     (if 0 \<le> cl_fd c \<and> cl_st c = CLT_AUTH_OK
      then [(MSG_ATTR_PEERID, be_bytes 8 (cl_id c)), (MSG_ATTR_PEERNAME, the (cl_name c) @ [0])] else []) @
     peer_attrs cs"

definition named :: "client_t list \<Rightarrow> bool" where
  "named cs \<longleftrightarrow> (\<forall>c \<in> set cs. in_use c \<and> cl_st c = CLT_AUTH_OK \<longrightarrow> cl_name c \<noteq> None)"

lemma add_peers_ok:
  "tlv_msg h as p \<Longrightarrow> named cs \<Longrightarrow>
   40 + length (concat (map tlv_encode (as @ peer_attrs cs))) \<le> MSG_MAX_SIZE \<Longrightarrow>
     \<exists>q. add_peers cs p = Inr q \<and> tlv_msg h (as @ peer_attrs cs) q"
proof (induction cs arbitrary: as p)
  case (Cons c cs)
  have nm: "named cs" using Cons.prems(2) by (simp add: named_def)
  show ?case
  proof (cases "0 \<le> cl_fd c \<and> cl_st c = CLT_AUTH_OK")
    case False
    with Cons.IH [OF Cons.prems(1) nm] Cons.prems(3) show ?thesis by auto
  next
    case True
    then obtain n where n: "cl_name c = Some n" using Cons.prems(2) by (auto simp: named_def in_use_def)
    let ?a = "(MSG_ATTR_PEERID, be_bytes 8 (cl_id c))" and ?b = "(MSG_ATTR_PEERNAME, n @ [0])"
    have fits: "40 + length (concat (map tlv_encode (as @ [?a, ?b]))) +
        length (concat (map tlv_encode (peer_attrs cs))) \<le> 65440"
      using Cons.prems(3) True n by simp
    obtain q1 where q1: "mbuf_addattrib MSG_ATTR_PEERID 8 (VA_UI64 (cl_id c)) p = Inr q1" "tlv_msg h (as @ [?a]) q1"
      using tlv_msg_add [OF Cons.prems(1) attr_calls(2) [of 8 "cl_id c"]] fits
      by (auto simp: length_tlv_encode)
    obtain q2 where q2: "mbuf_addattrib MSG_ATTR_PEERNAME (length n + 1) (VA_STR n) q1 = Inr q2"
        "tlv_msg h ((as @ [?a]) @ [?b]) q2"
      using tlv_msg_add [OF q1(2) attr_calls(8) [OF refl, of n]] fits
      by (auto simp: length_tlv_encode)
    have "\<exists>q. add_peers cs q2 = Inr q \<and> tlv_msg h (((as @ [?a]) @ [?b]) @ peer_attrs cs) q"
      by (rule Cons.IH [OF q2(2) nm]) (use fits in simp)
    with True n q1(1) q2(1) show ?thesis by simp
  qed
qed simp

text \<open>Whenever the list is returned it is well framed; otherwise it did not fit and the server ends.\<close>

lemma add_peers_result:
  "tlv_msg h as p \<Longrightarrow> named cs \<Longrightarrow>
     add_peers cs p = Inl Die \<or> (\<exists>q as'. add_peers cs p = Inr q \<and> tlv_msg h as' q)"
proof (induction cs arbitrary: as p)
  case (Cons c cs)
  have nm: "named cs" using Cons.prems(2) by (simp add: named_def)
  have step: "mbuf_addattrib at l v p = Inl Die \<or>
      (\<exists>q as'. mbuf_addattrib at l v p = Inr q \<and> tlv_msg h as' q)"
    if "tlv_msg h as p" "attr_call at l v = Some val" for at l v val as p
    using tlv_msg_Die [OF that] tlv_msg_add [OF that] by (metis not_le)
  show ?case
  proof (cases "0 \<le> cl_fd c \<and> cl_st c = CLT_AUTH_OK")
    case False
    with Cons.IH [OF Cons.prems(1) nm] show ?thesis by auto
  next
    case True
    then obtain n where n: "cl_name c = Some n" using Cons.prems(2) by (auto simp: named_def in_use_def)
    from step [OF Cons.prems(1) attr_calls(2) [of 8 "cl_id c"]] show ?thesis
    proof (elim disjE exE conjE)
      fix q1 as1
      assume q1: "mbuf_addattrib MSG_ATTR_PEERID 8 (VA_UI64 (cl_id c)) p = Inr q1" "tlv_msg h as1 q1"
      from step [OF q1(2) attr_calls(8) [OF refl, of n]] show ?thesis
      proof (elim disjE exE conjE)
        fix q2 as2
        assume "mbuf_addattrib MSG_ATTR_PEERNAME (length n + 1) (VA_STR n) q1 = Inr q2" "tlv_msg h as2 q2"
        with True n q1(1) Cons.IH [OF this(2) nm] show ?thesis by simp
      qed (use True n q1(1) in simp)
    qed (use True n in simp)
  qed
qed auto

lemma msg_ok_named: "msg_ok lfd s \<Longrightarrow> named (clients s)"
  by (auto simp: msg_ok_def named_def client_ok_def in_set_conv_nth max_clients_def)

lemma srv_peerlist_good:
  assumes b: "base_state lfd i s" and p: "hdr_ok p" and r: "srv_peerlist ts i p s = Inr s'"
  shows "good_result lfd i s s'"
proof -
  have "named (clients s)" using base_stateD(1) [OF b] by (rule msg_ok_named)
  from add_peers_result [OF response_of_tlv this, of ts p] r mbuf_to_response_eq [OF p, of ts]
  obtain q as where "s' = set_rbuf i (Some q) s" "tlv_msg (response_of ts p) as q"
    by (auto simp: srv_peerlist_def)
  with good_reply [OF b, of q] show ?thesis by (simp add: tlv_msg_def)
qed
lemma in_use_queue [simp]: "in_use (cl_queue_update f c) = in_use c"
  by (simp add: in_use_def)

section \<open>Processing a message preserves well-formed states\<close>

lemma mbuf_resetgetattrib_simps [simp]:
  "hdr_ok (mbuf_resetgetattrib p) = hdr_ok p"
  "error_answer ts ec (mbuf_resetgetattrib p) = error_answer ts ec p"
  "ok_answer ts as (mbuf_resetgetattrib p) = ok_answer ts as p"
  by (simp_all add: mbuf_resetgetattrib_def hdr_ok_def)

lemma ping_req_good:
  assumes "base_state lfd i s" and "hdr_ok p" and "srv_ping_req ts i p s = Inr s'"
  shows "good_result lfd i s s'"
proof -
  obtain q where "ok_reply ts [ok_attr] i p s = Inr (set_rbuf i (Some q) s)" "ok_answer ts [(MSG_ATTR_OK, [])] p q"
    by (rule ok_only_reply [OF assms(2)])
  with assms(3) good_reply [OF assms(1)] answer_framed(2) show ?thesis by (auto simp: srv_ping_req_def)
qed

lemma process_server_msg_good:
  assumes b: "base_state lfd i s" and p: "hdr_ok p" and r: "process_server_msg ts i p s = Inr (r, s')"
  shows "good_result lfd i s s'"
proof -
  have p': "hdr_ok (mbuf_resetgetattrib p)" using p by simp
  note goods = error_reply_good [OF b] ping_req_good [OF b] srv_register_good [OF b] srv_drop_good [OF b]
    srv_login_good [OF b] srv_auth_good [OF b] srv_logout_good [OF b] srv_peerlist_good [OF b]
  have inv: "\<exists>t. x = Inr t \<and> t = s'" if "ret z x = Inr (r, s')" for z x
    using that by (cases x) auto
  show ?thesis
    using r unfolding process_server_msg_def Let_def
    by (auto split: if_splits dest!: inv dest: goods [OF p] goods [OF p'] intro: good_nothing [OF b])
qed

lemma process_broadcast_msg_good:
  assumes b: "base_state lfd i s" and p: "hdr_ok p" and r: "process_broadcast_msg ts i p s = Inr (r, s')"
  shows "good_result lfd i s s'"
proof -
  have inv: "\<exists>t. x = Inr t \<and> t = s'" if "ret z x = Inr (r, s')" for z x
    using that by (cases x) auto
  show ?thesis
    using r unfolding process_broadcast_msg_def
    by (auto split: if_splits dest!: inv dest: error_reply_good [OF b p] intro: good_nothing [OF b])
qed

lemma process_forward_msg_good:
  assumes b: "base_state lfd i s" and p: "mbuf_framed p" and r: "process_forward_msg ts i p s = Inr (r, s')"
  shows "good_result lfd i s s'"
proof -
  have inv: "\<exists>t. x = Inr t \<and> t = s'" if "ret z x = Inr (r, s')" for z x
    using that by (cases x) auto
  let ?d = "find_slot (addressee (HDR_GET_DSTID p)) (clients s)"
  have fwd: "good_result lfd i s (set_rbuf i None (enqueue ?d p s))" if "?d \<noteq> max_clients s"
  proof -
    have d: "?d < max_clients s" "in_use (clients s ! ?d)"
      using find_slot_found [of "addressee (HDR_GET_DSTID p)" "clients s"] that
      by (auto simp: max_clients_def addressee_def in_use_def)
    have "msg_ok lfd (enqueue ?d p s)" using msg_ok_enqueue [OF base_stateD(1) [OF b] d p] .
    then have "base_state lfd i (enqueue ?d p s)"
      using b by (cases "?d = i") (auto simp: base_state_def in_use_def max_clients_def)
    from good_result_trans [OF keeps_enqueue good_nothing [OF this]] show ?thesis .
  qed
  show ?thesis
    using r unfolding process_forward_msg_def Let_def
    by (auto split: if_splits dest!: inv dest: error_reply_good [OF b mbuf_framed_hdr_ok [OF p]]
        intro: good_nothing [OF b] fwd)
qed

lemma received_base:
  assumes "msg_ok lfd s" and "received i p s"
  shows "base_state lfd i (set_rbuf i x s)"
  using assms receivedD [OF assms(2)] by (simp add: base_state_def)

lemma process_msg_good:
  assumes ok: "msg_ok lfd s" and rcv: "received i p s" and res: "process_msg ts i s = Inr (r, s')"
  shows "msg_ok lfd s'" and "keeps i s s'" and "in_use (clients s' ! i)" and "cl_rbuf (clients s' ! i) = None"
proof -
  note d = receivedD [OF rcv]
  let ?p = "stamped (clients s ! i) p"
  have b: "base_state lfd i (set_rbuf i (Some ?p) s)" by (rule received_base [OF ok rcv])
  have p: "hdr_ok ?p" "mbuf_framed ?p"
    using d stamped_framed mbuf_framed_hdr_ok by blast+
  obtain r1 s1 where
    h: "(if HDR_GET_DSTID p = 0 then process_server_msg ts i ?p (set_rbuf i (Some ?p) s)
         else if HDR_GET_DSTID p = - 1 then process_broadcast_msg ts i ?p (set_rbuf i (Some ?p) s)
         else process_forward_msg ts i ?p (set_rbuf i (Some ?p) s)) = Inr (r1, s1)"
    and fin: "(case cl_rbuf (clients s1 ! i) of
      Some q \<Rightarrow> Inr (r1, answered i q s1) | None \<Rightarrow> Inr (r1, s1)) = (Inr (r, s') :: (int \<times> server) res)"
    using res unfolding process_msg_cases [OF rcv] by (auto simp: bindr_Inr_iff)
  have g: "good_result lfd i (set_rbuf i (Some ?p) s) s1"
    using h process_server_msg_good [OF b p(1)] process_broadcast_msg_good [OF b p(1)]
      process_forward_msg_good [OF b p(2)] by (auto split: if_splits)
  then have b1: "base_state lfd i s1" and k1: "keeps i s s1"
    by (auto simp: good_result_def intro: keeps_trans [OF keeps_set_rbuf])
  note d1 = base_stateD [OF b1]
  have "msg_ok lfd s' \<and> keeps i s s' \<and> in_use (clients s' ! i) \<and> cl_rbuf (clients s' ! i) = None"
  proof (cases "cl_rbuf (clients s1 ! i)")
    case None
    with fin b1 k1 show ?thesis
      by (auto simp: base_state_def)
  next
    case (Some q)
    then have q: "mbuf_framed q" using g by (simp add: good_result_def)
    from msg_ok_enqueue [OF d1(1,2,4) q] have "msg_ok lfd (answered i q s1)" by (simp add: answered_def)
    moreover have "keeps i s (answered i q s1)"
      unfolding answered_def using k1 by (meson keeps_enqueue keeps_set_rbuf keeps_trans)
    ultimately show ?thesis
      using fin Some d1 by (auto simp: answered_def)
  qed
  then show "msg_ok lfd s'" "keeps i s s'" "in_use (clients s' ! i)" "cl_rbuf (clients s' ! i) = None"
    by blast+
qed

end
