(* ===== verification/Session.thy ===== *)
theory Session
  imports Server_Msg
begin

text \<open>
  The session protocol the relay server promises: who is logged in under which identity, seen
  without buffers, queues and descriptors. An inductive step relation says how connections come,
  go, log in, authenticate, log out and manage their account; its invariant is proved by rule
  induction, and every message the server processes is shown to be such a step.
\<close>

section \<open>The abstract protocol\<close>

record session =
  ss_st :: CLT_STATE
  ss_id :: u64
  ss_name :: "cstring option"
  ss_key :: "cstring option"

record proto =
  pr_sess :: "nat \<Rightarrow> session option"
  pr_acc :: "cstring \<Rightarrow> udb_t option"
  pr_next :: u64

definition fresh_session :: session where
  "fresh_session = \<lparr>ss_st = CLT_PRE_LOGIN, ss_id = 0, ss_name = None, ss_key = None\<rparr>"

definition set_sess :: "nat \<Rightarrow> session option \<Rightarrow> proto \<Rightarrow> proto" where
  "set_sess i c a = a\<lparr>pr_sess := (pr_sess a)(i := c)\<rparr>"

definition name_in_use :: "proto \<Rightarrow> cstring \<Rightarrow> bool" where
  "name_in_use a n \<longleftrightarrow> (\<exists>k c m. pr_sess a k = Some c \<and> ss_name c = Some m \<and> stricmp m n = 0)"

definition drop_same_id :: "nat \<Rightarrow> u64 \<Rightarrow> proto \<Rightarrow> proto" where
  "drop_same_id i d a =
     a\<lparr>pr_sess := (\<lambda>k. case pr_sess a k of None \<Rightarrow> None
        | Some c \<Rightarrow> if k \<noteq> i \<and> ss_id c = d then None else Some c)\<rparr>"

text \<open>
  \<open>session_step i d a a'\<close>: the effect of a message of connection \<open>i\<close>, where \<open>d\<close> tells
  which keys the message presents as its digest.
\<close>

inductive session_step :: "nat \<Rightarrow> (cstring \<Rightarrow> bool) \<Rightarrow> proto \<Rightarrow> proto \<Rightarrow> bool" where
  Idle: "session_step i d a a"
| Login_Unregistered:
    "pr_sess a i = Some c \<Longrightarrow> ss_st c = CLT_PRE_LOGIN \<Longrightarrow> pr_acc a n = None \<Longrightarrow> \<not> name_in_use a n \<Longrightarrow>
     session_step i d a
       ((set_sess i (Some \<lparr>ss_st = CLT_AUTH_OK, ss_id = pr_next a, ss_name = Some n, ss_key = None\<rparr>) a)
          \<lparr>pr_next := pr_next a + 1\<rparr>)"
| Login_Registered:
    "pr_sess a i = Some c \<Longrightarrow> ss_st c = CLT_PRE_LOGIN \<Longrightarrow> pr_acc a n = Some e \<Longrightarrow>
     k = Some (u_key e) \<or> k = ss_key c \<Longrightarrow>
     session_step i d a
       (set_sess i (Some \<lparr>ss_st = CLT_LOGIN_OK, ss_id = u_id e, ss_name = Some n, ss_key = k\<rparr>) a)"
| Auth_Ok:
    "pr_sess a i = Some c \<Longrightarrow> ss_st c = CLT_LOGIN_OK \<Longrightarrow> ss_key c = Some k \<Longrightarrow> d k \<Longrightarrow>
     session_step i d a (set_sess i (Some (c\<lparr>ss_st := CLT_AUTH_OK\<rparr>)) (drop_same_id i (ss_id c) a))"
| Auth_Fail:
    "pr_sess a i = Some c \<Longrightarrow> session_step i d a (set_sess i (Some (c\<lparr>ss_st := CLT_PRE_LOGIN\<rparr>)) a)"
| Logout:
    "pr_sess a i = Some c \<Longrightarrow> ss_st c = CLT_LOGIN_OK \<or> ss_st c = CLT_AUTH_OK \<Longrightarrow>
     session_step i d a (set_sess i (Some fresh_session) a)"
| Register:
    "pr_sess a i = Some c \<Longrightarrow> ss_st c = CLT_AUTH_OK \<Longrightarrow> ss_name c = Some n \<Longrightarrow>
     udb_nameisvalid n = 0 \<Longrightarrow> e = \<lparr>u_id = (if ss_id c \<noteq> 0 then ss_id c else pr_next a), u_name = n, u_key = k\<rparr> \<Longrightarrow>
     session_step i d a (a\<lparr>pr_acc := (pr_acc a)(n \<mapsto> e),
       pr_next := (if pr_next a \<le> u_id e then u_id e + 1 else pr_next a)\<rparr>)"
| Unregister:
    "pr_sess a i = Some c \<Longrightarrow> ss_st c = CLT_AUTH_OK \<Longrightarrow> ss_name c = Some n \<Longrightarrow>
     session_step i d a (a\<lparr>pr_acc := (pr_acc a)(n := None)\<rparr>)"

inductive_cases session_stepE: "session_step i d a a'"

text \<open>
  Runs of the whole protocol, counting the messages: connections come and go, send messages, and
  are renumbered by the upkeep.
\<close>

inductive proto_run :: "nat \<Rightarrow> proto \<Rightarrow> proto \<Rightarrow> bool" where
  Start: "proto_run 0 a a"
| Message: "proto_run n a b \<Longrightarrow> session_step i d b c \<Longrightarrow> proto_run (Suc n) a c"
| Connect: "proto_run n a b \<Longrightarrow> pr_sess b i = None \<Longrightarrow> proto_run n a (set_sess i (Some fresh_session) b)"
| Disconnect: "proto_run n a b \<Longrightarrow> proto_run n a (set_sess i None b)"
| Renumber: "proto_run n a b \<Longrightarrow> (\<And>k c'. pr_sess c k = Some c' \<Longrightarrow> pr_sess b (f k) = Some c') \<Longrightarrow>
    (\<And>k l. pr_sess c k \<noteq> None \<Longrightarrow> pr_sess c l \<noteq> None \<Longrightarrow> f k = f l \<Longrightarrow> k = l) \<Longrightarrow>
    pr_acc c = pr_acc b \<Longrightarrow> pr_next c = pr_next b \<Longrightarrow> proto_run n a c"

lemma proto_run_trans: "proto_run n b c \<Longrightarrow> proto_run m a b \<Longrightarrow> proto_run (m + n) a c"
proof (induction rule: proto_run.induct)
  case (Message n b c i d e)
  then show ?case using proto_run.Message by fastforce
next
  case (Renumber n b c e f)
  then show ?case using proto_run.Renumber [of "m + n" a c e f] by auto
qed (auto intro: proto_run.intros)

section \<open>The invariant\<close>

definition logged_in :: "session \<Rightarrow> bool" where
  "logged_in c \<longleftrightarrow> ss_st c = CLT_LOGIN_OK \<or> ss_st c = CLT_AUTH_OK"

text \<open>
  Identifiers of logged in sessions and of accounts have been given out (they are not 0 and
  below the counter), and no two authorised sessions share one.
\<close>

definition proto_inv :: "proto \<Rightarrow> bool" where
  "proto_inv a \<longleftrightarrow> pr_next a \<noteq> 0 \<and>
     (\<forall>n e. pr_acc a n = Some e \<longrightarrow> u_id e \<noteq> 0 \<and> u_id e < pr_next a) \<and>
     (\<forall>k c. pr_sess a k = Some c \<longrightarrow> logged_in c \<longrightarrow> ss_id c \<noteq> 0 \<and> ss_id c < pr_next a) \<and>
     (\<forall>k l c c'. pr_sess a k = Some c \<longrightarrow> pr_sess a l = Some c' \<longrightarrow>
        ss_st c = CLT_AUTH_OK \<longrightarrow> ss_st c' = CLT_AUTH_OK \<longrightarrow> ss_id c = ss_id c' \<longrightarrow> k = l)"

lemma proto_invI:
  assumes "pr_next a \<noteq> 0"
    and "\<And>n e. pr_acc a n = Some e \<Longrightarrow> u_id e \<noteq> 0 \<and> u_id e < pr_next a"
    and "\<And>k c. pr_sess a k = Some c \<Longrightarrow> logged_in c \<Longrightarrow> ss_id c \<noteq> 0 \<and> ss_id c < pr_next a"
    and "\<And>k l c c'. pr_sess a k = Some c \<Longrightarrow> pr_sess a l = Some c' \<Longrightarrow> ss_st c = CLT_AUTH_OK \<Longrightarrow>
        ss_st c' = CLT_AUTH_OK \<Longrightarrow> ss_id c = ss_id c' \<Longrightarrow> k = l"
  shows "proto_inv a"
  unfolding proto_inv_def using assms by blast

lemma proto_invD:
  assumes "proto_inv a"
  shows "pr_next a \<noteq> 0"
    and "\<And>n e. pr_acc a n = Some e \<Longrightarrow> u_id e \<noteq> 0 \<and> u_id e < pr_next a"
    and "\<And>k c. pr_sess a k = Some c \<Longrightarrow> logged_in c \<Longrightarrow> ss_id c \<noteq> 0 \<and> ss_id c < pr_next a"
    and "\<And>k l c c'. pr_sess a k = Some c \<Longrightarrow> pr_sess a l = Some c' \<Longrightarrow> ss_st c = CLT_AUTH_OK \<Longrightarrow>
        ss_st c' = CLT_AUTH_OK \<Longrightarrow> ss_id c = ss_id c' \<Longrightarrow> k = l"
  using assms unfolding proto_inv_def by blast+

lemma set_sess_simps [simp]:
  "pr_sess (set_sess i c a) = (pr_sess a)(i := c)" "pr_acc (set_sess i c a) = pr_acc a"
  "pr_next (set_sess i c a) = pr_next a"
  by (simp_all add: set_sess_def)

lemma drop_same_id_simps [simp]:
  "pr_acc (drop_same_id i d a) = pr_acc a" "pr_next (drop_same_id i d a) = pr_next a"
  by (simp_all add: drop_same_id_def)

lemma drop_same_id_sess:
  "pr_sess (drop_same_id i d a) k = Some c \<longleftrightarrow> pr_sess a k = Some c \<and> (k = i \<or> ss_id c \<noteq> d)"
  by (auto simp: drop_same_id_def split: option.splits)

lemma logged_in_simps [simp]:
  "logged_in \<lparr>ss_st = st, ss_id = d, ss_name = n, ss_key = k\<rparr> \<longleftrightarrow> st = CLT_LOGIN_OK \<or> st = CLT_AUTH_OK"
  "\<not> logged_in fresh_session" "logged_in (c\<lparr>ss_st := st\<rparr>) \<longleftrightarrow> st = CLT_LOGIN_OK \<or> st = CLT_AUTH_OK"
  by (simp_all add: logged_in_def fresh_session_def)

lemma set_unauth_inv:
  assumes "proto_inv a" and "\<And>c. x = Some c \<Longrightarrow> \<not> logged_in c"
  shows "proto_inv (set_sess i x a)"
proof -
  note inv = proto_invD [OF assms(1)]
  have x: "ss_st c \<noteq> CLT_AUTH_OK" "\<not> logged_in c" if "x = Some c" for c
    using assms(2) [OF that] by (auto simp: logged_in_def)
  show ?thesis
    by (rule proto_invI) (use inv x in \<open>auto split: if_splits\<close>)
qed

lemma session_step_inv:
  assumes "session_step i d a a'" and "proto_inv a" and "pr_next a \<noteq> - 1"
  shows "proto_inv a'"
  using assms
proof (induction rule: session_step.induct)
  case (Login_Unregistered a i c n d)
  note inv = proto_invD [OF Login_Unregistered(5)]
  have less: "x < pr_next a + 1" if "x < pr_next a" for x
    using that word_Suc_less [OF Login_Unregistered(6)] by (rule order.strict_trans)
  have neq: "ss_id c' \<noteq> pr_next a" if "pr_sess a k = Some c'" "ss_st c' = CLT_AUTH_OK" for k c'
    using inv(3) [OF that(1)] that(2) by (auto simp: logged_in_def)
  have nz: "pr_next a + 1 \<noteq> 0" using word_Suc_less [OF Login_Unregistered(6)] by auto
  show ?case
  proof (rule proto_invI, goal_cases)
    case 2
    then show ?case using inv(2) less by auto
  next
    case 3
    then show ?case using inv(1,3) less word_Suc_less [OF Login_Unregistered(6)] by (auto split: if_splits)
  next
    case 4
    then show ?case using inv(4) neq neq [THEN not_sym] by (auto split: if_splits)
  qed (use nz in simp)
next
  case (Login_Registered a i c n e k d)
  note inv = proto_invD [OF Login_Registered(5)]
  show ?case
    by (rule proto_invI) (use inv Login_Registered(3) in \<open>auto split: if_splits\<close>)
next
  case (Auth_Ok a i c k d)
  note inv = proto_invD [OF Auth_Ok(5)]
  have c: "logged_in c" using Auth_Ok(2) by (simp add: logged_in_def)
  have other: "ss_id c' \<noteq> ss_id c" if "pr_sess (drop_same_id i (ss_id c) a) k = Some c'" "k \<noteq> i" for k c'
    using that by (simp add: drop_same_id_sess)
  show ?case
  proof (rule proto_invI, goal_cases)
    case 3
    then show ?case using inv(3) Auth_Ok(1) c by (auto simp: drop_same_id_sess split: if_splits)
  next
    case 4
    then show ?case using inv(4) other by (auto simp: drop_same_id_sess split: if_splits)
  qed (use inv in auto)
next
  case (Auth_Fail a i c d)
  then show ?case by (intro set_unauth_inv) auto
next
  case (Logout a i c d)
  then show ?case by (intro set_unauth_inv) auto
next
  case (Register a i c n e k d)
  note inv = proto_invD [OF Register(6)]
  have "ss_id c \<noteq> 0" "ss_id c < pr_next a"
    using inv(3) [OF Register(1)] Register(2) by (auto simp: logged_in_def)
  with Register(5) have e: "u_id e \<noteq> 0" "u_id e < pr_next a" by auto
  then have "\<not> pr_next a \<le> u_id e" by simp
  then show ?case
    by (intro proto_invI) (use inv e in \<open>auto split: if_splits\<close>)
next
  case (Unregister a i c n d)
  note inv = proto_invD [OF Unregister(4)]
  show ?case
    by (rule proto_invI) (use inv in \<open>auto split: if_splits\<close>)
qed simp

lemma session_step_next:
  assumes "session_step i d a a'" and "proto_inv a" and "unat (pr_next a) + 1 < 2 ^ 64"
  shows "unat (pr_next a') \<le> unat (pr_next a) + 1"
  using assms
proof (induction rule: session_step.induct)
  case (Login_Unregistered a i c n d)
  then show ?case by (simp add: unat_word_ariths)
next
  case (Register a i c n e k d)
  have "ss_id c \<noteq> 0" "ss_id c < pr_next a"
    using proto_invD(3) [OF Register(6) Register(1)] Register(2) by (auto simp: logged_in_def)
  with Register(5) have "\<not> pr_next a \<le> u_id e" by simp
  then show ?case by simp
qed simp_all

text \<open>The invariant holds as long as there are fewer messages than identifiers left.\<close>

lemma proto_run_inv:
  assumes "proto_run n a b" and "proto_inv a" and "unat (pr_next a) + n < 2 ^ 64"
  shows "proto_inv b \<and> unat (pr_next b) \<le> unat (pr_next a) + n"
  using assms
proof (induction rule: proto_run.induct)
  case (Message n a b i d c)
  then have b: "proto_inv b" "unat (pr_next b) \<le> unat (pr_next a) + n" by simp_all
  then have lt: "unat (pr_next b) + 1 < 2 ^ 64" using Message.prems(2) by linarith
  then have "pr_next b \<noteq> - 1"
    by (auto simp: unsigned_minus_1_eq_mask mask_eq_exp_minus_1)
  with session_step_inv [OF Message(2) b(1)] session_step_next [OF Message(2) b(1) lt] b(2)
  show ?case by simp
next
  case (Connect n a b i)
  then show ?case by (auto intro!: set_unauth_inv)
next
  case (Disconnect n a b i)
  then show ?case by (auto intro!: set_unauth_inv)
next
  case (Renumber n a b c f)
  then have b: "proto_inv b" "unat (pr_next b) \<le> unat (pr_next a) + n" by simp_all
  note inv = proto_invD [OF b(1)]
  have "proto_inv c"
  proof (rule proto_invI, goal_cases)
    case 1
    then show ?case using inv(1) Renumber.hyps(5) by simp
  next
    case (2 m e)
    then show ?case using inv(2) Renumber.hyps(4,5) by simp
  next
    case (3 k x)
    then show ?case using inv(3) [OF Renumber.hyps(2)] Renumber.hyps(5) by simp
  next
    case (4 k l x y)
    have "f k = f l"
      by (rule inv(4) [OF Renumber.hyps(2) [OF 4(1)] Renumber.hyps(2) [OF 4(2)] 4(3,4,5)])
    then show ?case using Renumber.hyps(3) 4(1,2) by auto
  qed
  with b(2) Renumber.hyps(5) show ?case by simp
qed simp

section \<open>The server implements the protocol\<close>

definition session_of :: "client_t \<Rightarrow> session" where
  "session_of c = \<lparr>ss_st = cl_st c, ss_id = cl_id c, ss_name = cl_name c, ss_key = cl_key c\<rparr>"

definition proto_of :: "server \<Rightarrow> proto" where
  "proto_of s = \<lparr>pr_sess = (\<lambda>k. if k < max_clients s \<and> in_use (clients s ! k)
                             then Some (session_of (clients s ! k)) else None),
     pr_acc = udb_map (srv_udb s), pr_next = next_id (srv_udb s)\<rparr>"

text \<open>The keys a message presents: those its first attribute, a digest, compares equal with.\<close>

definition presents :: "mbuf \<Rightarrow> cstring \<Rightarrow> bool" where
  "presents p k \<longleftrightarrow> (case first_attr MSG_ATTR_DIGEST (mbuf_resetgetattrib p) of
     (Some av, q) \<Rightarrow> strcmp_equal (drop av (bdata q)) k = Inr True | _ \<Rightarrow> False)"

lemma session_of_simps [simp]:
  "ss_st (session_of c) = cl_st c" "ss_id (session_of c) = cl_id c"
  "ss_name (session_of c) = cl_name c" "ss_key (session_of c) = cl_key c"
  by (simp_all add: session_of_def)

lemma proto_of_simps [simp]:
  "pr_acc (proto_of s) = udb_map (srv_udb s)" "pr_next (proto_of s) = next_id (srv_udb s)"
  "pr_sess (proto_of s) k = (if k < max_clients s \<and> in_use (clients s ! k)
                             then Some (session_of (clients s ! k)) else None)"
  by (simp_all add: proto_of_def)

lemma proto_eqI:
  "pr_sess a = pr_sess b \<Longrightarrow> pr_acc a = pr_acc b \<Longrightarrow> pr_next a = pr_next b \<Longrightarrow> a = (b :: proto)"
  by simp

lemma proto_of_eqI:
  assumes "max_clients s' = max_clients s" and "srv_udb s' = srv_udb s"
    and "\<And>k. k < max_clients s \<Longrightarrow> cl_fd (clients s' ! k) = cl_fd (clients s ! k) \<and>
        session_of (clients s' ! k) = session_of (clients s ! k)"
  shows "proto_of s' = proto_of s"
  using assms by (intro proto_eqI ext) (auto simp: in_use_def)

lemma session_of_update [simp]:
  "session_of (c\<lparr>cl_rbuf := x\<rparr>) = session_of c" "session_of (c\<lparr>cl_act := t\<rparr>) = session_of c"
  "session_of (cl_queue_update f c) = session_of c" "session_of (resynced conf now c) = session_of c"
  by (simp_all add: session_of_def)

lemma proto_of_upd:
  assumes "i < max_clients s" and "in_use (clients s ! i)" and "cl_fd (f (clients s ! i)) = cl_fd (clients s ! i)"
  shows "proto_of (upd_client i f s) = set_sess i (Some (session_of (f (clients s ! i)))) (proto_of s)"
  using assms by (intro proto_eqI ext) (auto simp: in_use_def max_clients_def nth_list_update)

lemma proto_of_upd_same:
  assumes "cl_fd (f (clients s ! i)) = cl_fd (clients s ! i)"
    and "session_of (f (clients s ! i)) = session_of (clients s ! i)"
  shows "proto_of (upd_client i f s) = proto_of s"
  using assms by (cases "i < max_clients s") (auto intro!: proto_of_eqI simp: max_clients_def nth_list_update
      list_update_beyond not_less)

lemma proto_of_set_rbuf [simp]: "proto_of (set_rbuf i x s) = proto_of s"
  unfolding set_rbuf_def by (rule proto_of_upd_same) simp_all

lemma proto_of_enqueue [simp]: "proto_of (enqueue i m s) = proto_of s"
  by (cases "i < max_clients s") (auto intro!: proto_of_eqI simp: max_clients_def nth_list_update
      list_update_beyond not_less)

lemma proto_of_answered [simp]: "proto_of (answered i q s) = proto_of s"
  by (simp add: answered_def)

lemma proto_of_udb:
  "proto_of (s\<lparr>srv_udb := db\<rparr>) = (proto_of s)\<lparr>pr_acc := udb_map db, pr_next := next_id db\<rparr>"
  by (intro proto_eqI ext) auto

lemma proto_of_close: "i < max_clients s \<Longrightarrow> proto_of (close_client i s) = set_sess i None (proto_of s)"
  by (intro proto_eqI ext) (auto simp: max_clients_def nth_list_update)

lemma error_reply_proto:
  "hdr_ok p \<Longrightarrow> error_reply ts ec i p s = Inr s' \<Longrightarrow> proto_of s' = proto_of s"
  using error_reply_InrD by fastforce

lemma ok_reply_proto: "ok_reply ts cs i p s = Inr s' \<Longrightarrow> proto_of s' = proto_of s"
  by (auto simp: ok_reply_def)

lemma name_taken_iff: "name_taken n c \<longleftrightarrow> in_use c \<and> (\<exists>m. cl_name c = Some m \<and> stricmp m n = 0)"
  by (auto simp: name_taken_def in_use_def split: option.splits)

lemma name_in_use_iff:
  "name_in_use (proto_of s) n \<longleftrightarrow> (\<exists>c \<in> set (clients s). name_taken n c)"
proof
  assume "name_in_use (proto_of s) n"
  then obtain k m where k: "k < max_clients s" "in_use (clients s ! k)"
      "cl_name (clients s ! k) = Some m" "stricmp m n = 0"
    by (auto simp: name_in_use_def split: if_splits)
  then have "clients s ! k \<in> set (clients s)" by (simp add: max_clients_def)
  with k show "\<exists>c \<in> set (clients s). name_taken n c" unfolding name_taken_iff by blast
next
  assume "\<exists>c \<in> set (clients s). name_taken n c"
  then obtain k m where k: "k < max_clients s" "in_use (clients s ! k)"
      "cl_name (clients s ! k) = Some m" "stricmp m n = 0"
    by (auto simp: name_taken_iff in_set_conv_nth max_clients_def)
  then have "pr_sess (proto_of s) k = Some (session_of (clients s ! k))" by simp
  with k show "name_in_use (proto_of s) n" unfolding name_in_use_def by fastforce
qed

lemma srv_login_unregistered_step:
  assumes b: "base_state lfd i s" and p: "hdr_ok p" and st: "cl_st (clients s ! i) = CLT_PRE_LOGIN"
    and acc: "udb_map (srv_udb s) name = None" and r: "srv_login_unregistered ts i p name s = Inr s'"
  shows "session_step i d (proto_of s) (proto_of s')"
proof (cases "find_slot (name_taken name) (clients s) = max_clients s")
  case False
  with r error_reply_proto [OF p] show ?thesis by (simp add: srv_login_unregistered_def Idle)
next
  case True
  note bd = base_stateD [OF b]
  let ?db = "(srv_udb s)\<lparr>next_id := next_id (srv_udb s) + 1\<rparr>"
  let ?f = "\<lambda>c. c\<lparr>cl_st := CLT_AUTH_OK, cl_id := next_id (srv_udb s), cl_name := Some name, cl_key := None\<rparr>"
  let ?s = "upd_client i ?f (s\<lparr>srv_udb := ?db\<rparr>)"
  obtain t where t: "motd_text s = Inr t" "length t < 4000" by (rule motd_text_ok [OF bd(6)])
  then have "ok_reply ts [ok_attr, notice_attr t] i p ?s = Inr s'"
    using r True udb_gettempid_inv [OF bd(5)] by (simp add: srv_login_unregistered_def Let_def)
  then have "proto_of s' = proto_of ?s" by (rule ok_reply_proto)
  also have "\<dots> = (set_sess i (Some \<lparr>ss_st = CLT_AUTH_OK, ss_id = pr_next (proto_of s),
      ss_name = Some name, ss_key = None\<rparr>) (proto_of s))\<lparr>pr_next := pr_next (proto_of s) + 1\<rparr>"
    using bd by (subst proto_of_upd) (auto simp: proto_of_udb session_of_def set_sess_def intro!: proto_eqI)
  finally show ?thesis
    using Login_Unregistered [of "proto_of s" i "session_of (clients s ! i)" name d] bd st acc
      True find_slot_none [of "name_taken name" "clients s"]
    by (simp add: name_in_use_iff max_clients_def)
qed

lemma srv_login_registered_step:
  assumes b: "base_state lfd i s" and p: "hdr_ok p" and st: "cl_st (clients s ! i) = CLT_PRE_LOGIN"
    and acc: "udb_map (srv_udb s) name = Some pu" and r: "srv_login_registered ts i p pu s = Inr s'"
  shows "session_step i d (proto_of s) (proto_of s')"
proof -
  note bd = base_stateD [OF b]
  have nm: "u_name pu = name" using acc lookupname_SomeD by (auto simp: udb_map_def)
  let ?s = "upd_client i (\<lambda>c. c\<lparr>cl_st := CLT_LOGIN_OK, cl_id := u_id pu, cl_name := Some (u_name pu)\<rparr>) s"
  let ?t = "upd_client i (cl_key_update (\<lambda>_. Some (u_key pu))) ?s"
  have u: "in_use (clients ?s ! i)" "i < max_clients ?s" using bd by simp_all
  from r have "proto_of s' = proto_of ?t \<or> proto_of s' = proto_of ?s"
    by (auto simp: srv_login_registered_def Let_def split: if_splits
        dest: ok_reply_proto error_reply_proto [OF p])
  then obtain k where k: "k = Some (u_key pu) \<or> k = cl_key (clients s ! i)"
    and eq: "proto_of s' = set_sess i (Some \<lparr>ss_st = CLT_LOGIN_OK, ss_id = u_id pu,
        ss_name = Some name, ss_key = k\<rparr>) (proto_of s)"
  proof
    assume a: "proto_of s' = proto_of ?t"
    have "proto_of ?t = set_sess i (Some \<lparr>ss_st = CLT_LOGIN_OK, ss_id = u_id pu,
        ss_name = Some name, ss_key = Some (u_key pu)\<rparr>) (proto_of s)"
      by (subst proto_of_upd [OF u(2,1)], simp, subst proto_of_upd)
        (use bd nm in \<open>auto simp: session_of_def set_sess_def\<close>)
    with a that [of "Some (u_key pu)"] show thesis by simp
  next
    assume a: "proto_of s' = proto_of ?s"
    have "proto_of ?s = set_sess i (Some \<lparr>ss_st = CLT_LOGIN_OK, ss_id = u_id pu,
        ss_name = Some name, ss_key = cl_key (clients s ! i)\<rparr>) (proto_of s)"
      by (subst proto_of_upd) (use bd nm in \<open>auto simp: session_of_def set_sess_def\<close>)
    with a that [of "cl_key (clients s ! i)"] show thesis by simp
  qed
  show ?thesis unfolding eq
    by (rule Login_Registered [of _ _ "session_of (clients s ! i)"]) (use bd st acc k in auto)
qed

lemma srv_login_step:
  assumes b: "base_state lfd i s" and p: "hdr_ok p" and r: "srv_login ts i p s = Inr s'"
  shows "session_step i d (proto_of s) (proto_of s')"
proof (cases "cl_st (clients s ! i) = CLT_PRE_LOGIN")
  case False
  with r error_reply_proto [OF p] show ?thesis by (simp add: srv_login_def Idle)
next
  case st: True
  obtain av q where fa: "first_attr MSG_ATTR_USERNAME p = (av, q)" by force
  have q: "hdr_ok q" using first_attr_hdr_ok [OF fa p] .
  show ?thesis
  proof (cases av)
    case None
    with st fa r error_reply_proto [OF q] show ?thesis by (simp add: srv_login_def Idle)
  next
    case (Some a)
    have "udb_lookupname (srv_udb s) n = Inr (udb_map (srv_udb s) n, srv_udb s)" for n
      using udb_lookupname_inv [OF base_stateD(5) [OF b]] .
    with r st fa Some obtain name where
      "(case udb_map (srv_udb s) name of
          None \<Rightarrow> srv_login_unregistered ts i q name (s\<lparr>srv_udb := srv_udb s\<rparr>)
        | Some u \<Rightarrow> srv_login_registered ts i q u (s\<lparr>srv_udb := srv_udb s\<rparr>)) = Inr s'"
      by (auto simp: srv_login_def Let_def)
    with srv_login_unregistered_step [OF b q st] srv_login_registered_step [OF b q st]
    show ?thesis by (auto split: option.splits)
  qed
qed
lemma close_if_same_id_proto:
  assumes "base_state lfd i s" and "j < max_clients s"
  shows "proto_of (close_if_same_id i j s) =
    (if j \<noteq> i \<and> in_use (clients s ! j) \<and> cl_id (clients s ! i) = cl_id (clients s ! j)
     then set_sess j None (proto_of s) else proto_of s)"
  using assms by (auto simp: close_if_same_id_def in_use_def proto_of_close)

lemma close_same_id_fold_proto:
  "base_state lfd i s \<Longrightarrow> (\<forall>j \<in> set js. j < max_clients s) \<Longrightarrow>
     proto_of (fold (close_if_same_id i) js s) = (proto_of s)\<lparr>pr_sess := (\<lambda>k. case pr_sess (proto_of s) k of
        None \<Rightarrow> None | Some c \<Rightarrow> if k \<noteq> i \<and> k \<in> set js \<and> ss_id c = cl_id (clients s ! i) then None else Some c)\<rparr>"
proof (induction js arbitrary: s)
  case Nil
  show ?case by (intro proto_eqI ext) (auto split: option.splits)
next
  case (Cons j js)
  let ?s = "close_if_same_id i j s"
  have j: "j < max_clients s" using Cons.prems by simp
  note g = close_if_same_id_good [OF Cons.prems(1) j]
  have mc: "max_clients ?s = max_clients s" using g(2) by (simp add: keeps_def)
  have IH: "proto_of (fold (close_if_same_id i) js ?s) = (proto_of ?s)\<lparr>pr_sess := (\<lambda>k. case pr_sess (proto_of ?s) k of
        None \<Rightarrow> None | Some c \<Rightarrow> if k \<noteq> i \<and> k \<in> set js \<and> ss_id c = cl_id (clients ?s ! i) then None else Some c)\<rparr>"
    by (rule Cons.IH [OF g(1)]) (use Cons.prems(2) mc in simp)
  have eq: "pr_sess (proto_of ?s) k = (if k = j \<and> j \<noteq> i \<and> in_use (clients s ! j) \<and>
      cl_id (clients s ! i) = cl_id (clients s ! j) then None else pr_sess (proto_of s) k)"
    "pr_acc (proto_of ?s) = pr_acc (proto_of s)" "pr_next (proto_of ?s) = pr_next (proto_of s)" for k
    unfolding close_if_same_id_proto [OF Cons.prems(1) j] by auto
  show ?case unfolding fold.simps comp_def IH
    by (intro proto_eqI ext) (use j g(3) eq in \<open>auto split: option.splits\<close>)
qed

lemma close_same_id_proto:
  assumes "base_state lfd i s"
  shows "proto_of (close_same_id i s) = drop_same_id i (cl_id (clients s ! i)) (proto_of s)"
  unfolding close_same_id_def
  by (subst close_same_id_fold_proto [OF assms])
    (auto intro!: proto_eqI ext simp: drop_same_id_def split: option.splits if_splits)

lemma srv_auth_step:
  assumes b: "base_state lfd i s" and p: "hdr_ok p" and r: "srv_auth ts i (mbuf_resetgetattrib p) s = Inr s'"
  shows "session_step i (presents p) (proto_of s) (proto_of s')"
proof -
  note bd = base_stateD [OF b]
  let ?p = "mbuf_resetgetattrib p"
  let ?pre = "upd_client i (cl_st_update (\<lambda>_. CLT_PRE_LOGIN)) s"
  have p': "hdr_ok ?p" using p by simp
  have bad: "session_step i (presents p) (proto_of s) (proto_of s')"
    if e: "error_reply ts ec i q ?pre = Inr s'" "hdr_ok q" for ec q
  proof -
    have "proto_of s' = set_sess i (Some ((session_of (clients s ! i))\<lparr>ss_st := CLT_PRE_LOGIN\<rparr>)) (proto_of s)"
      unfolding error_reply_proto [OF e(2,1)] using bd
      by (subst proto_of_upd) (auto simp: session_of_def)
    then show ?thesis using Auth_Fail [of "proto_of s" i "session_of (clients s ! i)"] bd by simp
  qed
  show ?thesis
  proof (cases "cl_st (clients s ! i) = CLT_LOGIN_OK")
    case False
    with r bad p' show ?thesis by (simp add: srv_auth_def)
  next
    case st: True
    obtain av q where fa: "first_attr MSG_ATTR_DIGEST ?p = (av, q)" by force
    have q: "hdr_ok q" using first_attr_hdr_ok [OF fa p'] .
    let ?s = "upd_client i (cl_st_update (\<lambda>_. CLT_AUTH_OK)) (close_same_id i s)"
    note c = close_same_id_good [OF b]
    note cd = base_stateD [OF c(1)]
    obtain t where t: "motd_text (close_same_id i s) = Inr t" "length t < 4000"
      by (rule motd_text_ok [OF cd(6)])
    from r st fa t(1) consider "error_reply ts SC_BAD_REQUEST i q ?pre = Inr s'"
      | "error_reply ts SC_UNAUTHORIZED i q ?pre = Inr s'"
      | a k where "ok_reply ts [ok_attr, notice_attr t] i q ?s = Inr s'" "av = Some a"
          "cl_key (clients s ! i) = Some k" "strcmp_equal (drop a (bdata q)) k = Inr True"
      by (auto simp: srv_auth_def Let_def split: option.splits if_splits)
    then show ?thesis
    proof cases
      case 3
      have "proto_of s' = set_sess i (Some ((session_of (clients s ! i))\<lparr>ss_st := CLT_AUTH_OK\<rparr>))
          (drop_same_id i (cl_id (clients s ! i)) (proto_of s))"
        unfolding ok_reply_proto [OF 3(1)] using cd c(3)
        by (subst proto_of_upd) (auto simp: close_same_id_proto [OF b] session_of_def)
      moreover have "presents p k" using 3 fa by (simp add: presents_def)
      ultimately show ?thesis
        using Auth_Ok [of "proto_of s" i "session_of (clients s ! i)" k "presents p"] bd st 3 by simp
    qed (use bad q in blast)+
  qed
qed

lemma srv_logout_step:
  assumes b: "base_state lfd i s" and p: "hdr_ok p" and r: "srv_logout ts i p s = Inr s'"
  shows "session_step i d (proto_of s) (proto_of s')"
proof (cases "cl_st (clients s ! i) \<noteq> CLT_AUTH_OK \<and> cl_st (clients s ! i) \<noteq> CLT_LOGIN_OK")
  case True
  with r error_reply_proto [OF p] show ?thesis by (simp add: srv_logout_def Idle)
next
  case False
  note bd = base_stateD [OF b]
  let ?s = "upd_client i (\<lambda>c. c\<lparr>cl_st := CLT_PRE_LOGIN, cl_id := 0, cl_name := None, cl_key := None\<rparr>) s"
  from False r have "ok_reply ts [ok_attr, notice_attr TXT_BYE] i p ?s = Inr s'"
    by (auto simp: srv_logout_def)
  then have "proto_of s' = proto_of ?s" by (rule ok_reply_proto)
  also have "\<dots> = set_sess i (Some fresh_session) (proto_of s)"
    using bd by (subst proto_of_upd) (auto simp: session_of_def fresh_session_def)
  finally show ?thesis
    using Logout [of "proto_of s" i "session_of (clients s ! i)" d] bd False by auto
qed

lemma udb_dropentry_map:
  assumes "udb_inv d" and "udb_dropentry d n = Inr (r, d')"
  shows "udb_inv d'" "udb_map d' = (udb_map d)(n := None)" "next_id d' = next_id d"
proof -
  have "udb_inv d' \<and> udb_map d' = (udb_map d)(n := None) \<and> next_id d' = next_id d"
  proof (cases "udb_map d n = None")
    case True
    with udb_dropentry_missing [OF assms(1)] assms show ?thesis by (auto simp: fun_upd_idem)
  next
    case False
    from udb_dropentry_found [OF assms(1) False] assms(2) show ?thesis by (metis Inr_inject prod.inject)
  qed
  then show "udb_inv d'" "udb_map d' = (udb_map d)(n := None)" "next_id d' = next_id d" by auto
qed

lemma srv_drop_step:
  assumes b: "base_state lfd i s" and p: "hdr_ok p" and r: "srv_drop ts i p s = Inr s'"
  shows "session_step i d (proto_of s) (proto_of s')"
proof (cases "cl_st (clients s ! i) = CLT_AUTH_OK")
  case False
  with r error_reply_proto [OF p] show ?thesis by (simp add: srv_drop_def Idle)
next
  case True
  note bd = base_stateD [OF b]
  from True r obtain name r1 db where name: "cl_name (clients s ! i) = Some name"
    and drop: "udb_dropentry (srv_udb s) name = Inr (r1, db)"
    and fin: "(if r1 \<noteq> 0 then error_reply ts SC_NOT_FOUND i p (s\<lparr>srv_udb := db\<rparr>)
      else ok_reply ts [ok_attr, notice_attr TXT_DROPPED] i p (s\<lparr>srv_udb := db\<rparr>)) = Inr s'"
    by (auto simp: srv_drop_def Let_def split: option.splits)
  have "proto_of s' = proto_of (s\<lparr>srv_udb := db\<rparr>)"
    using fin error_reply_proto [OF p] ok_reply_proto by (auto split: if_splits)
  also have "\<dots> = (proto_of s)\<lparr>pr_acc := (pr_acc (proto_of s))(name := None)\<rparr>"
    using udb_dropentry_map [OF bd(5) drop] by (intro proto_eqI ext) (auto simp: proto_of_udb)
  finally show ?thesis
    using Unregister [of "proto_of s" i "session_of (clients s ! i)" name d] bd True name by simp
qed

lemma srv_register_step:
  assumes b: "base_state lfd i s" and p: "hdr_ok p" and r: "srv_register ts i p s = Inr s'"
  shows "session_step i d (proto_of s) (proto_of s')"
proof (cases "cl_st (clients s ! i) = CLT_AUTH_OK")
  case False
  with r error_reply_proto [OF p] show ?thesis by (simp add: srv_register_def Idle)
next
  case st: True
  note bd = base_stateD [OF b]
  obtain av q where fa: "first_attr MSG_ATTR_PUBKEY p = (av, q)" by force
  have q: "hdr_ok q" using first_attr_hdr_ok [OF fa p] .
  show ?thesis
  proof (cases av)
    case None
    with st fa r error_reply_proto [OF q] show ?thesis by (simp add: srv_register_def Idle)
  next
    case (Some a)
    from r st fa Some obtain val name r1 db1 pu db2 where
      name: "cl_name (clients s ! i) = Some name"
      and drop: "udb_dropentry (srv_udb s) name = Inr (r1, db1)"
      and add: "udb_addentry db1 (cl_id (clients s ! i)) (Some name) (Some (AUTH_KEY_PLAINTEXT @ val)) = Inr (pu, db2)"
      and fin: "(case pu of Inr u \<Rightarrow> ok_reply ts [ok_attr, notice_attr TXT_REGISTERED] i q (s\<lparr>srv_udb := db2\<rparr>)
          | Inl err \<Rightarrow> error_reply ts SC_LOCKED i q (s\<lparr>srv_udb := db2\<rparr>)) = Inr s'"
      by (auto simp: srv_register_def Let_def split: option.splits)
    have eq: "proto_of s' = (proto_of s)\<lparr>pr_acc := udb_map db2, pr_next := next_id db2\<rparr>"
      using fin error_reply_proto [OF q] ok_reply_proto by (auto simp: proto_of_udb split: sum.splits)
    note db1 = udb_dropentry_map [OF bd(5) drop]
    let ?e = "new_entry db1 (cl_id (clients s ! i)) name (AUTH_KEY_PLAINTEXT @ val)"
    show ?thesis
    proof (cases "udb_nameisvalid name = 0")
      case True
      then have "can_add db1 name" using db1(2) by (simp add: can_add_def)
      from udb_addentry_added [OF db1(1) this, of "cl_id (clients s ! i)" "AUTH_KEY_PLAINTEXT @ val"] add
      have db2: "udb_map db2 = (udb_map db1)(name \<mapsto> ?e)"
          "next_id db2 = (if next_id db1 \<le> u_id ?e then u_id ?e + 1 else next_id db1)"
        by (metis Inr_inject prod.inject)+
      have "session_step i d (proto_of s) ((proto_of s)\<lparr>pr_acc := (pr_acc (proto_of s))(name \<mapsto> ?e),
          pr_next := (if pr_next (proto_of s) \<le> u_id ?e then u_id ?e + 1 else pr_next (proto_of s))\<rparr>)"
        by (rule Register [of _ _ "session_of (clients s ! i)"])
          (use bd st name True db1 in \<open>auto simp: new_entry_def\<close>)
      with db1 db2 show ?thesis unfolding eq by (simp split del: if_split cong: if_cong)
    next
      case False
      then have "\<not> can_add db1 name" by (simp add: can_add_def)
      from udb_addentry_refused [OF db1(1) this, of "cl_id (clients s ! i)" "AUTH_KEY_PLAINTEXT @ val"] add
      have "userdb db2 = userdb db1" "next_id db2 = next_id db1" by (metis Inr_inject prod.inject)+
      then have "udb_map db2 = (udb_map (srv_udb s))(name := None)" "next_id db2 = next_id (srv_udb s)"
        using db1 by (simp_all add: udb_map_def)
      then have "proto_of s' = (proto_of s)\<lparr>pr_acc := (pr_acc (proto_of s))(name := None)\<rparr>"
        unfolding eq by (intro proto_eqI ext) auto
      then show ?thesis
        using Unregister [of "proto_of s" i "session_of (clients s ! i)" name d] bd st name by simp
    qed
  qed
qed

lemma srv_peerlist_proto: "srv_peerlist ts i p s = Inr s' \<Longrightarrow> proto_of s' = proto_of s"
  by (auto simp: srv_peerlist_def)

lemma process_server_msg_step:
  assumes b: "base_state lfd i s" and p: "hdr_ok p" and r: "process_server_msg ts i p s = Inr (r, s')"
  shows "session_step i (presents p) (proto_of s) (proto_of s')"
proof -
  have p': "hdr_ok (mbuf_resetgetattrib p)" using p by simp
  have idle: "session_step i (presents p) (proto_of s) (proto_of s')" if "proto_of s' = proto_of s"
    using that by (simp add: Idle)
  have ping: "proto_of s' = proto_of s" if "srv_ping_req ts i (mbuf_resetgetattrib p) s = Inr s'"
    using that ok_reply_proto by (auto simp: srv_ping_req_def)
  have inv: "\<exists>t. x = Inr t \<and> t = s'" if "ret z x = Inr (r, s')" for z x
    using that by (cases x) auto
  note steps = srv_register_step [OF b p', of ts s' "presents p"] srv_drop_step [OF b p', of ts s' "presents p"]
    srv_login_step [OF b p', of ts s' "presents p"] srv_auth_step [OF b p, of ts s']
    srv_logout_step [OF b p', of ts s' "presents p"]
  show ?thesis
    using r unfolding process_server_msg_def Let_def
    by (auto split: if_splits dest!: inv dest: steps error_reply_proto [OF p] error_reply_proto [OF p']
        ping srv_peerlist_proto intro: idle Idle)
qed

lemma process_broadcast_msg_proto:
  assumes "hdr_ok p" and "process_broadcast_msg ts i p s = Inr (r, s')"
  shows "proto_of s' = proto_of s"
proof -
  have inv: "\<exists>t. x = Inr t \<and> t = s'" if "ret z x = Inr (r, s')" for z x
    using that by (cases x) auto
  show ?thesis
    using assms(2) unfolding process_broadcast_msg_def
    by (auto split: if_splits dest!: inv dest: error_reply_proto [OF assms(1)])
qed

lemma process_forward_msg_proto:
  assumes "hdr_ok p" and "process_forward_msg ts i p s = Inr (r, s')"
  shows "proto_of s' = proto_of s"
proof -
  have inv: "\<exists>t. x = Inr t \<and> t = s'" if "ret z x = Inr (r, s')" for z x
    using that by (cases x) auto
  show ?thesis
    using assms(2) unfolding process_forward_msg_def Let_def
    by (auto split: if_splits dest!: inv dest: error_reply_proto [OF assms(1)])
qed

text \<open>Every message a well-formed server processes is a step of the protocol.\<close>

lemma process_msg_step:
  assumes ok: "msg_ok lfd s" and rcv: "received i p s" and res: "process_msg ts i s = Inr (r, s')"
  shows "session_step i (presents (stamped (clients s ! i) p)) (proto_of s) (proto_of s')"
proof -
  let ?p = "stamped (clients s ! i) p"
  have b: "base_state lfd i (set_rbuf i (Some ?p) s)" by (rule received_base [OF ok rcv])
  have p: "hdr_ok ?p" using stamped_fields(9) [OF receivedD(6) [OF rcv]] .
  obtain r1 s1 where
    h: "(if HDR_GET_DSTID p = 0 then process_server_msg ts i ?p (set_rbuf i (Some ?p) s)
         else if HDR_GET_DSTID p = - 1 then process_broadcast_msg ts i ?p (set_rbuf i (Some ?p) s)
         else process_forward_msg ts i ?p (set_rbuf i (Some ?p) s)) = Inr (r1, s1)"
    and fin: "(case cl_rbuf (clients s1 ! i) of
      Some q \<Rightarrow> Inr (r1, answered i q s1) | None \<Rightarrow> Inr (r1, s1)) = (Inr (r, s') :: (int \<times> server) res)"
    using res unfolding process_msg_cases [OF rcv] by (auto simp: bindr_Inr_iff)
  have eq: "proto_of s' = proto_of s1" using fin by (auto split: option.splits)
  show ?thesis
    using h process_server_msg_step [OF b p, of ts r1 s1] process_broadcast_msg_proto [OF p, of ts i _ r1 s1]
      process_forward_msg_proto [OF p, of ts i _ r1 s1] Idle
    unfolding eq by (auto split: if_splits)
qed

end
