(* ===== verification/Server_Answers.thy ===== *)
theory Server_Answers
  imports Session
begin

text \<open>
  The functional behaviour of the server's handlers: which answer each request gets and how the
  state changes, on every branch, and the conditions under which handling a message cannot end in
  a fault. The handlers are the definitions of \<open>Server_Msg\<close>.
\<close>

section \<open>Answers\<close>

text \<open>
  \<open>is_answer p q\<close>: \<open>q\<close> is a well-framed response or error response to \<open>p\<close>, with
  source and destination exchanged and the transfer id of the request.
\<close>

definition is_answer :: "mbuf \<Rightarrow> mbuf \<Rightarrow> bool" where
  "is_answer p q \<longleftrightarrow> mbuf_framed q \<and> HDR_GET_SRCID q = HDR_GET_DSTID p \<and>
     HDR_GET_DSTID q = HDR_GET_SRCID p \<and> HDR_GET_TRFID q = HDR_GET_TRFID p \<and>
     (HDR_GET_TYPE q = MCLASS_TO_RES (HDR_GET_TYPE p) \<or> HDR_GET_TYPE q = MCLASS_TO_ERR (HDR_GET_TYPE p))"

lemma error_answer_is: "error_answer ts ec p q \<Longrightarrow> is_answer p q"
  by (simp add: error_answer_def is_answer_def tlv_msg_def error_header_def)

lemma ok_answer_is: "ok_answer ts as p q \<Longrightarrow> is_answer p q"
  by (simp add: ok_answer_def is_answer_def tlv_msg_def response_of_def)

lemma is_answer_boff [simp]: "is_answer (p\<lparr>boff := n\<rparr>) = is_answer p"
  by (simp add: is_answer_def fun_eq_iff)

text \<open>A handler run in \<open>s\<close> that ends in \<open>t\<close> with an answer in the buffer of client \<open>i\<close>.\<close>

definition replies :: "nat \<Rightarrow> mbuf \<Rightarrow> server \<Rightarrow> server res \<Rightarrow> bool" where
  "replies i p s r \<longleftrightarrow> (\<exists>q t. r = Inr (set_rbuf i (Some q) t) \<and> is_answer p q \<and>
     max_clients t = max_clients s \<and> cl_queue (clients t ! i) = cl_queue (clients s ! i))"

definition same_queue :: "nat \<Rightarrow> server \<Rightarrow> server \<Rightarrow> bool" where
  "same_queue i s t \<longleftrightarrow> max_clients t = max_clients s \<and> cl_queue (clients t ! i) = cl_queue (clients s ! i)"

lemma same_queue_refl [simp]: "same_queue i s s"
  and same_queue_udb [simp]: "same_queue i s (t\<lparr>srv_udb := db\<rparr>) = same_queue i s t"
  by (simp_all add: same_queue_def)

lemma same_queue_upd:
  assumes "same_queue i s t" and "\<And>c. cl_queue (f c) = cl_queue c"
  shows "same_queue i s (upd_client i f t)"
  using assms by (cases "i < length (clients t)") (auto simp: same_queue_def list_update_beyond not_less)

lemma repliesI:
  assumes "r = Inr (set_rbuf i (Some q) t)" and "is_answer p q" and "same_queue i s t"
  shows "replies i p s r"
  using assms by (auto simp: replies_def same_queue_def)

lemma replies_error:
  assumes "hdr_ok p" and "same_queue i s t"
  shows "replies i p s (error_reply ts ec i (p\<lparr>boff := n\<rparr>) t)"
proof -
  have "hdr_ok (p\<lparr>boff := n\<rparr>)" using assms(1) by simp
  then obtain q where q: "error_reply ts ec i (p\<lparr>boff := n\<rparr>) t = Inr (set_rbuf i (Some q) t)"
      "error_answer ts ec (p\<lparr>boff := n\<rparr>) q"
    by (rule error_reply_ok)
  show ?thesis by (rule repliesI [OF q(1) _ assms(2)]) (use error_answer_is [OF q(2)] in simp)
qed

lemma replies_notice:
  assumes "hdr_ok p" and "same_queue i s t" and "length txt < 65000"
  shows "replies i p s (ok_reply ts [ok_attr, notice_attr txt] i (p\<lparr>boff := n\<rparr>) t)"
proof -
  have "hdr_ok (p\<lparr>boff := n\<rparr>)" using assms(1) by simp
  from this assms(3) obtain q where q: "ok_reply ts [ok_attr, notice_attr txt] i (p\<lparr>boff := n\<rparr>) t
      = Inr (set_rbuf i (Some q) t)" "ok_answer ts (ok_attrs txt) (p\<lparr>boff := n\<rparr>) q"
    by (rule ok_notice_reply)
  show ?thesis by (rule repliesI [OF q(1) _ assms(2)]) (use ok_answer_is [OF q(2)] in simp)
qed

lemma replies_challenge:
  assumes "hdr_ok p" and "same_queue i s t"
  shows "replies i p s (ok_reply ts [(MSG_ATTR_CHALLENGE, length AUTH_KEY_PLAINTEXT + 1,
      VA_BLOB (AUTH_KEY_PLAINTEXT @ [0]))] i (p\<lparr>boff := n\<rparr>) t)"
proof -
  have "hdr_ok (p\<lparr>boff := n\<rparr>)" using assms(1) by simp
  then obtain q where q: "ok_reply ts [(MSG_ATTR_CHALLENGE, length AUTH_KEY_PLAINTEXT + 1,
      VA_BLOB (AUTH_KEY_PLAINTEXT @ [0]))] i (p\<lparr>boff := n\<rparr>) t = Inr (set_rbuf i (Some q) t)"
      "ok_answer ts [(MSG_ATTR_CHALLENGE, AUTH_KEY_PLAINTEXT @ [0])] (p\<lparr>boff := n\<rparr>) q"
    by (rule challenge_reply_ok)
  show ?thesis by (rule repliesI [OF q(1) _ assms(2)]) (use ok_answer_is [OF q(2)] in simp)
qed

lemma resetgetattrib_boff: "mbuf_resetgetattrib p = p\<lparr>boff := 40\<rparr>"
  by (simp add: mbuf_resetgetattrib_def)

text \<open>The first attribute is the wanted one, with its value in the message, or it is not.\<close>

lemma first_attr_cases:
  assumes "mbuf_framed p"
  obtains (found) av n v as where "first_attr want (p\<lparr>boff := 40\<rparr>) = (Some av, p\<lparr>boff := n\<rparr>)"
      and "attrs p = (want, v) # as" and "take (length v) (drop av (bdata p)) = v"
  | (other) n where "first_attr want (p\<lparr>boff := 40\<rparr>) = (None, p\<lparr>boff := n\<rparr>)"
      and "\<And>v as. attrs p \<noteq> (want, v) # as"
proof (cases "\<exists>v as. attrs p = (want, v) # as")
  case True
  then obtain v as where a: "attrs p = (want, v) # as" by blast
  show ?thesis
    by (rule first_attr_Some [OF assms a]) (use found a in \<open>simp add: resetgetattrib_boff\<close>)
next
  case False
  show ?thesis
    by (rule first_attr_other [OF assms, of want]) (use other False in \<open>auto simp: resetgetattrib_boff\<close>)
qed

section \<open>Requests that cannot fail\<close>

definition terminated :: "u16 \<Rightarrow> mbuf \<Rightarrow> bool" where
  "terminated want p \<longleftrightarrow> (\<forall>v as. attrs p = (want, v) # as \<longrightarrow> 0 \<in> set v)"

definition safe_request :: "nat \<Rightarrow> mbuf \<Rightarrow> server \<Rightarrow> bool" where
  "safe_request i p s \<longleftrightarrow>
     (let t = HDR_GET_TYPE p; c = clients s ! i in
      (t = MSG_TYPE_REGISTER_REQ \<and> cl_st c = CLT_AUTH_OK \<longrightarrow> terminated MSG_ATTR_PUBKEY p) \<and>
      (t = MSG_TYPE_LOGIN_REQ \<and> cl_st c = CLT_PRE_LOGIN \<longrightarrow> terminated MSG_ATTR_USERNAME p) \<and>
      (t = MSG_TYPE_AUTH_REQ \<and> cl_st c = CLT_LOGIN_OK \<longrightarrow>
         terminated MSG_ATTR_DIGEST p \<and> (\<exists>k. cl_key c = Some k \<and> is_cstring k)) \<and>
      (t = MSG_TYPE_PEERLIST_REQ \<longrightarrow>
         40 + length (concat (map tlv_encode (peer_attrs (clients s)))) \<le> MSG_MAX_SIZE))"

lemma udb_dropentry_total:
  assumes "udb_inv d"
  obtains r d' where "udb_dropentry d n = Inr (r, d')" and "udb_inv d'"
    and "udb_map d' = (udb_map d)(n := None)"
  using us.remove_total [OF assms, of n] by blast

lemma udb_addentry_total:
  assumes "udb_inv d"
  obtains r d' where "udb_addentry d j (Some n) (Some k) = Inr (r, d')" and "udb_inv d'"
  by (cases "can_add d n") (metis assms udb_addentry_added, metis assms udb_addentry_refused)

lemma srv_register_total:
  assumes b: "base_state lfd i s" and p: "mbuf_framed p"
    and t: "cl_st (clients s ! i) = CLT_AUTH_OK \<Longrightarrow> terminated MSG_ATTR_PUBKEY p"
  shows "replies i p s (srv_register ts i (p\<lparr>boff := 40\<rparr>) s)"
proof (cases "cl_st (clients s ! i) = CLT_AUTH_OK")
  case False
  then show ?thesis using replies_error [OF mbuf_framed_hdr_ok [OF p]] by (simp add: srv_register_def)
next
  case st: True
  from p show ?thesis
  proof (cases rule: first_attr_cases [of p MSG_ATTR_PUBKEY])
    case (other n)
    then show ?thesis using st replies_error [OF mbuf_framed_hdr_ok [OF p]] by (simp add: srv_register_def)
  next
    case (found av n v as)
    have z: "0 \<in> set v" using t [OF st] found(2) by (simp add: terminated_def)
    have val: "av_str (p\<lparr>boff := n\<rparr>) av = Inr (takeWhile (\<lambda>c. c \<noteq> 0) v)"
      using av_str_value [of v av "p\<lparr>boff := n\<rparr>"] found(3) z by simp
    obtain name where name: "cl_name (clients s ! i) = Some name"
      using base_stateD(7) [OF b] st by (auto simp: client_ok_def)
    obtain r1 db1 where d: "udb_dropentry (srv_udb s) name = Inr (r1, db1)" "udb_inv db1"
      by (rule udb_dropentry_total [OF base_stateD(5) [OF b]])
    obtain pu db2 where a: "udb_addentry db1 (cl_id (clients s ! i)) (Some name)
        (Some (AUTH_KEY_PLAINTEXT @ takeWhile (\<lambda>c. c \<noteq> 0) v)) = Inr (pu, db2)"
      by (rule udb_addentry_total [OF d(2)])
    have e: "replies i p s (error_reply ts SC_LOCKED i (p\<lparr>boff := n\<rparr>) (s\<lparr>srv_udb := db2\<rparr>))"
      "replies i p s (ok_reply ts [ok_attr, notice_attr TXT_REGISTERED] i (p\<lparr>boff := n\<rparr>) (s\<lparr>srv_udb := db2\<rparr>))"
        by (rule replies_error [OF mbuf_framed_hdr_ok [OF p]] replies_notice [OF mbuf_framed_hdr_ok [OF p]]; simp)+
    show ?thesis
      using st found(1) val name d(1) a e by (simp add: srv_register_def Let_def split: sum.split)
  qed
qed

lemma srv_drop_total:
  assumes b: "base_state lfd i s" and p: "mbuf_framed p"
  shows "replies i p s (srv_drop ts i (p\<lparr>boff := 40\<rparr>) s)"
proof (cases "cl_st (clients s ! i) = CLT_AUTH_OK")
  case False
  then show ?thesis using replies_error [OF mbuf_framed_hdr_ok [OF p]] by (simp add: srv_drop_def)
next
  case True
  then obtain name where name: "cl_name (clients s ! i) = Some name"
    using base_stateD(7) [OF b] by (auto simp: client_ok_def)
  obtain r1 db1 where d: "udb_dropentry (srv_udb s) name = Inr (r1, db1)"
    by (rule udb_dropentry_total [OF base_stateD(5) [OF b]])
  show ?thesis
    using True name d replies_error [OF mbuf_framed_hdr_ok [OF p]] replies_notice [OF mbuf_framed_hdr_ok [OF p]]
    by (simp add: srv_drop_def Let_def)
qed

lemma srv_login_total:
  assumes b: "base_state lfd i s" and p: "mbuf_framed p"
    and t: "cl_st (clients s ! i) = CLT_PRE_LOGIN \<Longrightarrow> terminated MSG_ATTR_USERNAME p"
  shows "replies i p s (srv_login ts i (p\<lparr>boff := 40\<rparr>) s)"
proof (cases "cl_st (clients s ! i) = CLT_PRE_LOGIN")
  case False
  then show ?thesis using replies_error [OF mbuf_framed_hdr_ok [OF p]] by (simp add: srv_login_def)
next
  case st: True
  note h = mbuf_framed_hdr_ok [OF p]
  note bd = base_stateD [OF b]
  from p show ?thesis
  proof (cases rule: first_attr_cases [of p MSG_ATTR_USERNAME])
    case (other n)
    then show ?thesis using st replies_error [OF h] by (simp add: srv_login_def)
  next
    case (found av n v as)
    let ?name = "takeWhile (\<lambda>c. c \<noteq> 0) v"
    have z: "0 \<in> set v" using t [OF st] found(2) by (simp add: terminated_def)
    have val: "av_str (p\<lparr>boff := n\<rparr>) av = Inr ?name"
      using av_str_value [of v av "p\<lparr>boff := n\<rparr>"] found(3) z by simp
    obtain m where m: "motd_text s = Inr m" "length m < 4000" by (rule motd_text_ok [OF bd(6)])
    have sq: "cl_queue (clients s ! i) = cl_queue (clients s ! i)" "i < max_clients s" using bd by auto
    have un: "replies i p s (srv_login_unregistered ts i (p\<lparr>boff := n\<rparr>) ?name s)"
      using m udb_gettempid_inv [OF bd(5)]
      by (simp add: srv_login_unregistered_def Let_def replies_error [OF h] replies_notice [OF h] same_queue_upd)
    have rg: "replies i p s (srv_login_registered ts i (p\<lparr>boff := n\<rparr>) u s)" for u
      by (simp add: srv_login_registered_def Let_def replies_error [OF h] replies_challenge [OF h, simplified] same_queue_upd)
    show ?thesis
      using st found(1) val udb_lookupname_inv [OF bd(5), of ?name] un rg
      by (simp add: srv_login_def Let_def split: option.split)
  qed
qed

lemma srv_auth_total:
  assumes b: "base_state lfd i s" and p: "mbuf_framed p"
    and t: "cl_st (clients s ! i) = CLT_LOGIN_OK \<Longrightarrow>
      terminated MSG_ATTR_DIGEST p \<and> (\<exists>k. cl_key (clients s ! i) = Some k \<and> is_cstring k)"
  shows "replies i p s (srv_auth ts i (p\<lparr>boff := 40\<rparr>) s)"
proof (cases "cl_st (clients s ! i) = CLT_LOGIN_OK")
  case False
  then show ?thesis
    using replies_error [OF mbuf_framed_hdr_ok [OF p], of i s "upd_client i (cl_st_update (\<lambda>_. CLT_PRE_LOGIN)) s"]
    by (simp add: srv_auth_def same_queue_upd)
next
  case st: True
  note h = mbuf_framed_hdr_ok [OF p]
  note bd = base_stateD [OF b]
  have err: "replies i p s (error_reply ts ec i (p\<lparr>boff := n\<rparr>) (upd_client i (cl_st_update (\<lambda>_. CLT_PRE_LOGIN)) s))"
    for ec n by (rule replies_error [OF h]) (simp add: same_queue_upd)
  from p show ?thesis
  proof (cases rule: first_attr_cases [of p MSG_ATTR_DIGEST])
    case (other n)
    then show ?thesis using st err by (simp add: srv_auth_def)
  next
    case (found av n v as)
    obtain k where k: "cl_key (clients s ! i) = Some k" "is_cstring k" "0 \<in> set v"
      using t [OF st] found(2) by (auto simp: terminated_def)
    have cmp: "strcmp_equal (drop av (bdata p)) k = Inr (takeWhile (\<lambda>c. c \<noteq> 0) v = k)"
      using strcmp_equal_value [of v av p k] found(3) k by simp
    note c = close_same_id_good [OF b]
    obtain m where m: "motd_text (close_same_id i s) = Inr m" "length m < 4000"
      by (rule motd_text_ok [OF base_stateD(6) [OF c(1)]])
    have mx: "max_clients (close_same_id i s) = max_clients s" using c(2) by (simp add: keeps_def)
    show ?thesis
      using st found(1) k(1) cmp err m mx c(3)
      by (simp add: srv_auth_def Let_def replies_notice [OF h] same_queue_upd same_queue_def [of i s "close_same_id i s"])
  qed
qed

lemma srv_logout_total:
  assumes "mbuf_framed p"
  shows "replies i p s (srv_logout ts i (p\<lparr>boff := 40\<rparr>) s)"
  using replies_error [OF mbuf_framed_hdr_ok [OF assms]] replies_notice [OF mbuf_framed_hdr_ok [OF assms]]
  by (simp add: srv_logout_def same_queue_upd)

lemma srv_peerlist_total:
  assumes b: "base_state lfd i s" and p: "mbuf_framed p"
    and fits: "40 + length (concat (map tlv_encode (peer_attrs (clients s)))) \<le> MSG_MAX_SIZE"
  obtains q where "srv_peerlist ts i (p\<lparr>boff := n\<rparr>) s = Inr (set_rbuf i (Some q) s)"
    and "ok_answer ts (peer_attrs (clients s)) p q"
proof -
  have h: "hdr_ok (p\<lparr>boff := n\<rparr>)" using mbuf_framed_hdr_ok [OF p] by simp
  have nm: "named (clients s)" using base_stateD(1) [OF b] by (rule msg_ok_named)
  obtain q where "add_peers (clients s) (response_of ts (p\<lparr>boff := n\<rparr>)) = Inr q"
    "tlv_msg (response_of ts (p\<lparr>boff := n\<rparr>)) (peer_attrs (clients s)) q"
    using add_peers_ok [OF response_of_tlv nm, of ts "p\<lparr>boff := n\<rparr>"] fits by auto
  with mbuf_to_response_eq [OF h, of ts] that show ?thesis
    by (simp add: srv_peerlist_def ok_answer_def response_of_def)
qed

lemma srv_ping_req_total:
  assumes "mbuf_framed p"
  shows "replies i p s (srv_ping_req ts i (p\<lparr>boff := n\<rparr>) s)"
proof -
  have "hdr_ok (p\<lparr>boff := n\<rparr>)" using mbuf_framed_hdr_ok [OF assms] by simp
  then obtain q where q: "ok_reply ts [ok_attr] i (p\<lparr>boff := n\<rparr>) s = Inr (set_rbuf i (Some q) s)"
      "ok_answer ts [(MSG_ATTR_OK, [])] (p\<lparr>boff := n\<rparr>) q"
    by (rule ok_only_reply)
  show ?thesis unfolding srv_ping_req_def
    by (rule repliesI [OF q(1)]) (use ok_answer_is [OF q(2)] in simp_all)
qed

section \<open>Every request to the server is answered\<close>

text \<open>The result of a message to the server: an answer in the buffer, or nothing.\<close>

definition outcome :: "nat \<Rightarrow> mbuf \<Rightarrow> server \<Rightarrow> (int \<times> server) res \<Rightarrow> bool" where
  "outcome i p s res \<longleftrightarrow> (\<exists>r. res = Inr (r, set_rbuf i None s)) \<and> \<not> MCLASS_IS_REQ (HDR_GET_TYPE p) \<or>
    (\<exists>r x. res = ret r x \<and> replies i p s x)"

lemma outcome_answer: "replies i p s x \<Longrightarrow> outcome i p s (ret r x)"
  and outcome_nothing: "\<not> MCLASS_IS_REQ (HDR_GET_TYPE p) \<Longrightarrow> outcome i p s (Inr (r, set_rbuf i None s))"
  by (auto simp: outcome_def)

lemma outcome_if:
  "(P \<Longrightarrow> outcome i p s a) \<Longrightarrow> (\<not> P \<Longrightarrow> outcome i p s b) \<Longrightarrow> outcome i p s (if P then a else b)"
  by simp

lemma process_server_msg_total:
  assumes b: "base_state lfd i s" and p: "mbuf_framed p" and safe: "safe_request i p s"
  shows "outcome i p s (process_server_msg ts i p s)"
proof -
  note h = mbuf_framed_hdr_ok [OF p]
  have eb: "replies i p s (error_reply ts ec i p s)" for ec
    using replies_error [OF h, of i s s ts ec "boff p"] by simp
  have pb: "replies i p s (srv_peerlist ts i (p\<lparr>boff := 40\<rparr>) s)" if "HDR_GET_TYPE p = MSG_TYPE_PEERLIST_REQ"
  proof -
    have "40 + length (concat (map tlv_encode (peer_attrs (clients s)))) \<le> 65440"
      using safe that by (simp add: safe_request_def Let_def)
    with b p obtain q where q: "srv_peerlist ts i (p\<lparr>boff := 40\<rparr>) s = Inr (set_rbuf i (Some q) s)"
        "ok_answer ts (peer_attrs (clients s)) p q"
      by (rule srv_peerlist_total)
    show ?thesis by (rule repliesI [OF q(1) ok_answer_is [OF q(2)]]) simp
  qed
  have r: "HDR_GET_TYPE p = MSG_TYPE_REGISTER_REQ \<Longrightarrow> replies i p s (srv_register ts i (p\<lparr>boff := 40\<rparr>) s)"
    "HDR_GET_TYPE p = MSG_TYPE_LOGIN_REQ \<Longrightarrow> replies i p s (srv_login ts i (p\<lparr>boff := 40\<rparr>) s)"
    "HDR_GET_TYPE p = MSG_TYPE_AUTH_REQ \<Longrightarrow> replies i p s (srv_auth ts i (p\<lparr>boff := 40\<rparr>) s)"
    using safe srv_register_total [OF b p, of ts] srv_login_total [OF b p, of ts] srv_auth_total [OF b p, of ts]
    by (simp_all add: safe_request_def Let_def)
  have ind: "HDR_GET_TYPE p = MSG_TYPE_PING_IND \<Longrightarrow> \<not> MCLASS_IS_REQ (HDR_GET_TYPE p)"
    by (simp only:) code_simp
  show ?thesis
    unfolding process_server_msg_def Let_def resetgetattrib_boff
    by (rule outcome_if, rule outcome_answer, rule eb,
        rule outcome_if, subst ret_simps(1), rule outcome_nothing, erule ind,
        rule outcome_if, rule outcome_answer, rule srv_ping_req_total [OF p],
        rule outcome_if, rule outcome_answer, rule r(1), assumption,
        rule outcome_if, rule outcome_answer, rule srv_drop_total [OF b p],
        rule outcome_if, rule outcome_answer, rule r(2), assumption,
        rule outcome_if, rule outcome_answer, rule r(3), assumption,
        rule outcome_if, rule outcome_answer, rule srv_logout_total [OF p],
        rule outcome_if, rule outcome_answer, rule pb, assumption,
        rule outcome_if, rule outcome_answer, rule replies_error [OF h same_queue_refl],
        subst ret_simps(1), rule outcome_nothing, assumption)
qed

lemma replies_delivered:
  assumes i: "i < max_clients s" and x: "replies i p s x" and res: "res = ret r x"
  shows "\<exists>s' q. bindr res (\<lambda>(r, s). case cl_rbuf (clients s ! i) of
      Some q \<Rightarrow> Inr (r, answered i q s) | None \<Rightarrow> Inr (r, s)) = Inr (r, s') \<and> is_answer p q \<and>
      cl_queue (clients s' ! i) = cl_queue (clients s ! i) @ [q\<lparr>boff := 0\<rparr>] \<and> max_clients s' = max_clients s"
proof -
  obtain q t where q: "x = Inr (set_rbuf i (Some q) t)" "is_answer p q" "max_clients t = max_clients s"
    "cl_queue (clients t ! i) = cl_queue (clients s ! i)"
    using x by (auto simp: replies_def)
  have it: "i < max_clients t" using i q(3) by simp
  have d: "bindr res (\<lambda>(r, s). case cl_rbuf (clients s ! i) of
      Some q \<Rightarrow> Inr (r, answered i q s) | None \<Rightarrow> Inr (r, s)) = Inr (r, answered i q t)"
    by (rule deliver_answer [OF it]) (simp add: res q(1))
  have "cl_queue (clients (answered i q t) ! i) = cl_queue (clients s ! i) @ [q\<lparr>boff := 0\<rparr>]"
    using it q(4) by (simp add: answered_def max_clients_def list_enq_def)
  moreover have "max_clients (answered i q t) = max_clients s" using q(3) by (simp add: answered_def)
  ultimately show ?thesis using d q(2) by (intro exI [of _ "answered i q t"] exI [of _ q]) simp
qed

lemma peer_attrs_update:
  "i < length cs \<Longrightarrow> peer_attrs (cs[i := (cs ! i)\<lparr>cl_rbuf := x\<rparr>]) = peer_attrs cs"
  by (induction cs arbitrary: i) (auto simp: nth_Cons split: nat.split)

lemma safe_request_stamped:
  assumes "hdr_ok p" and "i < length (clients s)"
  shows "safe_request i (stamped c p) (set_rbuf i x s) = safe_request i p s"
  using assms stamped_fields [OF assms(1), of c] peer_attrs_update [OF assms(2)]
  by (simp add: safe_request_def terminated_def Let_def)
text \<open>A message to the server ends with the answer its handler leaves.\<close>

lemma handled:
  assumes rcv: "received i p s" and dst: "HDR_GET_DSTID p = 0"
    and h: "process_server_msg ts i (stamped (clients s ! i) p)
        (set_rbuf i (Some (stamped (clients s ! i) p)) s) = Inr (r, set_rbuf i (Some q) t)"
    and mx: "max_clients t = max_clients s"
  shows "process_msg ts i s = Inr (r, answered i q t)"
proof -
  have "i < max_clients t" using receivedD(1) [OF rcv] mx by simp
  then show ?thesis
    unfolding process_msg_cases [OF rcv] using dst deliver_answer [OF _ h] by simp
qed

lemma answered_fields:
  assumes "i < max_clients t"
  shows "clients (answered i q t) ! i
      = (clients t ! i)\<lparr>cl_rbuf := None, cl_queue := cl_queue (clients t ! i) @ [q\<lparr>boff := 0\<rparr>]\<rparr>"
    and "k \<noteq> i \<Longrightarrow> clients (answered i q t) ! k = clients t ! k"
    and "srv_udb (answered i q t) = srv_udb t" and "max_clients (answered i q t) = max_clients t"
    and "srv_motd (answered i q t) = srv_motd t" and "cfg (answered i q t) = cfg t"
  using assms by (simp_all add: answered_def max_clients_def list_enq_def)

lemma process_msg_answer:
  assumes ok: "msg_ok lfd s" and rcv: "received i p s" and safe: "safe_request i p s"
    and dst: "HDR_GET_DSTID p = 0" and req: "MCLASS_IS_REQ (HDR_GET_TYPE p)"
  obtains r s' q where "process_msg ts i s = Inr (r, s')" and "is_answer (stamped (clients s ! i) p) q"
    and "cl_queue (clients s' ! i) = cl_queue (clients s ! i) @ [q\<lparr>boff := 0\<rparr>]"
    and "max_clients s' = max_clients s"
proof -
  note d = receivedD [OF rcv]
  let ?p = "stamped (clients s ! i) p"
  let ?s = "set_rbuf i (Some ?p) s"
  have b: "base_state lfd i ?s" by (rule received_base [OF ok rcv])
  have "outcome i ?p ?s (process_server_msg ts i ?p ?s)"
    by (rule process_server_msg_total [OF b stamped_framed [OF d(5)]])
      (use safe safe_request_stamped [OF d(6) d(2)] in simp)
  then obtain r x where x: "process_server_msg ts i ?p ?s = ret r x" "replies i ?p ?s x"
    using req stamped_fields(1) [OF d(6)] by (auto simp: outcome_def)
  have i: "i < max_clients ?s" using d(1) by simp
  from replies_delivered [OF i x(2) x(1)] obtain s' q where
    "process_msg ts i s = Inr (r, s')" "is_answer ?p q"
    "cl_queue (clients s' ! i) = cl_queue (clients ?s ! i) @ [q\<lparr>boff := 0\<rparr>]" "max_clients s' = max_clients ?s"
    unfolding process_msg_cases [OF rcv] using dst by auto
  then show ?thesis using that d(2) by simp
qed

text \<open>Broadcast and forwarded messages never fail.\<close>

lemma process_msg_total:
  assumes ok: "msg_ok lfd s" and rcv: "received i p s" and safe: "safe_request i p s"
  obtains r s' where "process_msg ts i s = Inr (r, s')"
proof -
  note d = receivedD [OF rcv]
  let ?p = "stamped (clients s ! i) p"
  let ?s = "set_rbuf i (Some ?p) s"
  have hp: "hdr_ok ?p" using stamped_fields(9) [OF d(6)] .
  have b: "base_state lfd i ?s" by (rule received_base [OF ok rcv])
  have er: "\<exists>t. error_reply ts ec i ?p ?s = Inr t" for ec
    using error_reply_ok [OF hp, of ts ec i ?s] by blast
  have o: "outcome i ?p ?s (process_server_msg ts i ?p ?s)"
    by (rule process_server_msg_total [OF b stamped_framed [OF d(5)]])
      (use safe safe_request_stamped [OF d(6) d(2)] in simp)
  have srv: "\<exists>r t. process_server_msg ts i ?p ?s = Inr (r, t)"
    using o unfolding outcome_def replies_def by (elim disjE exE conjE) simp_all
  have bc: "\<exists>r t. process_broadcast_msg ts i ?p ?s = Inr (r, t)"
    using er [of SC_FORBIDDEN] er [of SC_NOT_IMPLEMENTED] by (auto simp: process_broadcast_msg_def)
  have fw: "\<exists>r t. process_forward_msg ts i ?p ?s = Inr (r, t)"
    using er [of SC_FORBIDDEN] er [of SC_MISDIRECTED_REQUEST] er [of SC_BAD_REQUEST]
    by (auto simp: process_forward_msg_def Let_def)
  obtain r t where "(if HDR_GET_DSTID p = 0 then process_server_msg ts i ?p ?s
      else if HDR_GET_DSTID p = - 1 then process_broadcast_msg ts i ?p ?s
      else process_forward_msg ts i ?p ?s) = Inr (r, t)"
    using srv bc fw by (cases "HDR_GET_DSTID p = 0"; cases "HDR_GET_DSTID p = - 1") auto
  then show ?thesis
    using that unfolding process_msg_cases [OF rcv] by (cases "cl_rbuf (clients t ! i)") auto
qed

end
