(* ===== verification/Server_Login.thy ===== *)
theory Server_Login
  imports Server_Answers
begin

text \<open>
  What a client that logs in gets from the server (src/srvmain.c, the cases of \<^verbatim>\<open>LOGIN\<close> and
  \<^verbatim>\<open>AUTH\<close> of \<^verbatim>\<open>process_server_msg\<close>): the answer and the session it has afterwards.
\<close>

section \<open>The handlers\<close>

lemmas type_values = MSG_TYPE_LOGIN_REQ_def MSG_TYPE_AUTH_REQ_def MSG_TYPE_LOGOUT_REQ_def
  MSG_TYPE_REGISTER_REQ_def MSG_TYPE_DROP_REQ_def MSG_TYPE_PEERLIST_REQ_def MSG_TYPE_PING_REQ_def
  MSG_TYPE_PING_IND_def MSG_TYPE_OFFER_REQ_def MTYPE_LOGIN_def MTYPE_AUTH_def MTYPE_LOGOUT_def
  MTYPE_REGISTER_def MTYPE_DROP_def MTYPE_PEERLIST_def MTYPE_PING_def MTYPE_OFFER_def
  MCLASS_REQ_def MCLASS_IND_def

lemma string_attr:
  assumes "mbuf_framed p" and "attrs p = (want, n @ 0 # junk) # as" and "is_cstring n"
  obtains av m where "first_attr want (mbuf_resetgetattrib p) = (Some av, p\<lparr>boff := m\<rparr>)"
    and "av_str (p\<lparr>boff := m\<rparr>) av = Inr n"
    and "\<And>k. is_cstring k \<Longrightarrow> strcmp_equal (drop av (bdata p)) k = Inr (n = k)"
proof -
  obtain av m where a: "first_attr want (mbuf_resetgetattrib p) = (Some av, p\<lparr>boff := m\<rparr>)"
    "take (length (n @ 0 # junk)) (drop av (bdata p)) = n @ 0 # junk"
    using first_attr_Some [OF assms(1,2)] .
  have tw: "takeWhile (\<lambda>c. c \<noteq> 0) (n @ 0 # junk) = n"
    using assms(3) by (subst takeWhile_append2) (auto simp: is_cstring_def)
  from av_str_value [OF a(2)] tw have "av_str p av = Inr n" by simp
  then have "av_str (p\<lparr>boff := m\<rparr>) av = Inr n" by (simp add: av_str_def)
  moreover have "strcmp_equal (drop av (bdata p)) k = Inr (n = k)" if "is_cstring k" for k
    using strcmp_equal_value [OF a(2) _ that] tw by simp
  ultimately show thesis using that a(1) by blast
qed

text \<open>What the handler of \<open>LOGIN\<close> sees.\<close>

lemma login_dispatch:
  assumes "HDR_GET_TYPE p = MSG_TYPE_LOGIN_REQ"
  shows "process_server_msg ts i p s = ret 0 (srv_login ts i (mbuf_resetgetattrib p) s)"
  using assms by (simp add: process_server_msg_def type_values Let_def)

lemma login_received:
  assumes ok: "msg_ok lfd s" and rcv: "received i p s"
    and st: "cl_st (clients s ! i) = CLT_PRE_LOGIN"
    and attr: "attrs p = (MSG_ATTR_USERNAME, n @ 0 # junk) # as" and n: "is_cstring n"
  obtains m where "srv_login ts i (mbuf_resetgetattrib p) (set_rbuf i (Some p) s) =
    (case udb_map (srv_udb s) n of
       None \<Rightarrow> srv_login_unregistered ts i (p\<lparr>boff := m\<rparr>) n (set_rbuf i (Some p) s)
     | Some u \<Rightarrow> srv_login_registered ts i (p\<lparr>boff := m\<rparr>) u (set_rbuf i (Some p) s))"
proof -
  note i = receivedD [OF rcv]
  obtain av m where a: "first_attr MSG_ATTR_USERNAME (mbuf_resetgetattrib p) = (Some av, p\<lparr>boff := m\<rparr>)"
    "av_str (p\<lparr>boff := m\<rparr>) av = Inr n"
    using string_attr [OF i(5) attr n] by blast
  have "udb_lookupname (srv_udb s) n = Inr (udb_map (srv_udb s) n, srv_udb s)"
    using ok by (simp add: msg_ok_def udb_lookupname_inv)
  moreover have same: "set_rbuf i (Some p) s\<lparr>srv_udb := srv_udb s\<rparr> = set_rbuf i (Some p) s"
    by (simp add: set_rbuf_def upd_client_def)
  ultimately show thesis
    using a st i(1,2)
    by (intro that [of m]) (simp add: srv_login_def Let_def same split: option.split)
qed

lemma stamped_pre_login: "cl_st c = CLT_PRE_LOGIN \<Longrightarrow> stamped c p = p"
  by (simp add: stamped_def)

lemma auth_dispatch:
  assumes "HDR_GET_TYPE p = MSG_TYPE_AUTH_REQ"
  shows "process_server_msg ts i p s = ret 0 (srv_auth ts i (mbuf_resetgetattrib p) s)"
  using assms by (simp add: process_server_msg_def type_values Let_def)

section \<open>The account\<close>

lemma login_begins:
  assumes ok: "msg_ok lfd s" and rcv: "received i p s" and dst: "HDR_GET_DSTID p = 0"
    and ty: "HDR_GET_TYPE p = MSG_TYPE_LOGIN_REQ" and st: "cl_st (clients s ! i) = CLT_PRE_LOGIN"
    and attr: "attrs p = (MSG_ATTR_USERNAME, n @ 0 # junk) # as" and n: "is_cstring n"
    and acc: "udb_map (srv_udb s) n = Some u"
  shows "\<exists>q s'. process_msg ts i s = Inr (0, s') \<and>
    cl_queue (clients s' ! i) = cl_queue (clients s ! i) @ [q\<lparr>boff := 0\<rparr>] \<and>
    (if take (length AUTH_KEY_PLAINTEXT) (u_key u) = AUTH_KEY_PLAINTEXT
     then ok_answer ts [(MSG_ATTR_CHALLENGE, AUTH_KEY_PLAINTEXT @ [0])] p q \<and>
       proto_of s' = set_sess i (Some \<lparr>ss_st = CLT_LOGIN_OK, ss_id = u_id u, ss_name = Some n,
         ss_key = Some (u_key u)\<rparr>) (proto_of s)
     else error_answer ts SC_METHOD_NOT_ALLOWED p q \<and>
       proto_of s' = set_sess i (Some \<lparr>ss_st = CLT_LOGIN_OK, ss_id = u_id u, ss_name = Some n,
         ss_key = cl_key (clients s ! i)\<rparr>) (proto_of s))"
proof -
  note i = receivedD [OF rcv]
  let ?s = "set_rbuf i (Some p) s"
  have sp: "stamped (clients s ! i) p = p" by (rule stamped_pre_login [OF st])
  have nm: "u_name u = n" using acc by (auto simp: udb_map_def dest: lookupname_SomeD)
  obtain m where h: "srv_login ts i (mbuf_resetgetattrib p) ?s = srv_login_registered ts i (p\<lparr>boff := m\<rparr>) u ?s"
    using login_received [OF ok rcv st attr n, of ts] acc by auto
  have run: "process_server_msg ts i (stamped (clients s ! i) p) (set_rbuf i (Some (stamped (clients s ! i) p)) s)
      = ret 0 (srv_login_registered ts i (p\<lparr>boff := m\<rparr>) u ?s)"
    unfolding sp login_dispatch [OF ty] h ..
  let ?f = "\<lambda>c. c\<lparr>cl_st := CLT_LOGIN_OK, cl_id := u_id u, cl_name := Some (u_name u)\<rparr>"
  show ?thesis
  proof (cases "take (length AUTH_KEY_PLAINTEXT) (u_key u) = AUTH_KEY_PLAINTEXT")
    case True
    let ?t = "upd_client i (cl_key_update (\<lambda>_. Some (u_key u))) (upd_client i ?f ?s)"
    obtain q where q: "ok_reply ts [(MSG_ATTR_CHALLENGE, length AUTH_KEY_PLAINTEXT + 1,
        VA_BLOB (AUTH_KEY_PLAINTEXT @ [0]))] i (p\<lparr>boff := m\<rparr>) ?t = Inr (set_rbuf i (Some q) ?t)"
      "ok_answer ts [(MSG_ATTR_CHALLENGE, AUTH_KEY_PLAINTEXT @ [0])] p q"
      using challenge_reply_ok [of "p\<lparr>boff := m\<rparr>" ts i ?t] i(6) by auto
    have "srv_login_registered ts i (p\<lparr>boff := m\<rparr>) u ?s = Inr (set_rbuf i (Some q) ?t)"
      using True q(1) by (simp add: srv_login_registered_def Let_def)
    with run handled [OF rcv dst, of ts 0 q ?t] have "process_msg ts i s = Inr (0, answered i q ?t)"
      by (simp add: max_clients_def)
    moreover have "proto_of (answered i q ?t) = set_sess i (Some \<lparr>ss_st = CLT_LOGIN_OK, ss_id = u_id u,
        ss_name = Some n, ss_key = Some (u_key u)\<rparr>) (proto_of s)"
      using i(1-3) nm by (simp add: proto_of_upd session_of_def set_sess_def max_clients_def)
    moreover have "cl_queue (clients (answered i q ?t) ! i) = cl_queue (clients s ! i) @ [q\<lparr>boff := 0\<rparr>]"
      using i(1,2) answered_fields(1) [of i ?t q] by (simp add: max_clients_def)
    ultimately show ?thesis using True q(2) by auto
  next
    case False
    let ?t = "upd_client i ?f ?s"
    obtain q where q: "error_reply ts SC_METHOD_NOT_ALLOWED i (p\<lparr>boff := m\<rparr>) ?t = Inr (set_rbuf i (Some q) ?t)"
      "error_answer ts SC_METHOD_NOT_ALLOWED p q"
      using error_reply_ok [of "p\<lparr>boff := m\<rparr>" ts SC_METHOD_NOT_ALLOWED i ?t] i(6) by auto
    have "srv_login_registered ts i (p\<lparr>boff := m\<rparr>) u ?s = Inr (set_rbuf i (Some q) ?t)"
      using False q(1) by (simp add: srv_login_registered_def Let_def)
    with run handled [OF rcv dst, of ts 0 q ?t] have "process_msg ts i s = Inr (0, answered i q ?t)"
      by (simp add: max_clients_def)
    moreover have "proto_of (answered i q ?t) = set_sess i (Some \<lparr>ss_st = CLT_LOGIN_OK, ss_id = u_id u,
        ss_name = Some n, ss_key = cl_key (clients s ! i)\<rparr>) (proto_of s)"
      using i(1-3) nm by (simp add: proto_of_upd session_of_def set_sess_def max_clients_def)
    moreover have "cl_queue (clients (answered i q ?t) ! i) = cl_queue (clients s ! i) @ [q\<lparr>boff := 0\<rparr>]"
      using i(1,2) answered_fields(1) [of i ?t q] by (simp add: max_clients_def)
    ultimately show ?thesis using False q(2) by auto
  qed
qed

section \<open>The digest\<close>

lemma digest_checked:
  assumes ok: "msg_ok lfd s" and rcv: "received i p s" and dst: "HDR_GET_DSTID p = 0"
    and ty: "HDR_GET_TYPE p = MSG_TYPE_AUTH_REQ" and st: "cl_st (clients s ! i) = CLT_LOGIN_OK"
    and key: "cl_key (clients s ! i) = Some k" "is_cstring k"
    and attr: "attrs p = (MSG_ATTR_DIGEST, n @ 0 # junk) # as" and n: "is_cstring n"
  shows "if n = k
    then \<exists>s' mt q. process_msg ts i s = Inr (0, s') \<and> motd_text s = Inr mt \<and>
      ok_answer ts (ok_attrs mt) (stamped (clients s ! i) p) q \<and>
      cl_queue (clients s' ! i) = cl_queue (clients s ! i) @ [q\<lparr>boff := 0\<rparr>] \<and>
      proto_of s' = set_sess i (Some (session_of (clients s ! i)\<lparr>ss_st := CLT_AUTH_OK\<rparr>))
        (drop_same_id i (cl_id (clients s ! i)) (proto_of s))
    else \<exists>q. process_msg ts i s = Inr (0, answered i q (upd_client i (cl_st_update (\<lambda>_. CLT_PRE_LOGIN)) s)) \<and>
      error_answer ts SC_UNAUTHORIZED (stamped (clients s ! i) p) q"
proof -
  note i = receivedD [OF rcv]
  let ?p = "stamped (clients s ! i) p"
  let ?s = "set_rbuf i (Some ?p) s"
  have p: "mbuf_framed ?p" "hdr_ok ?p" "attrs ?p = (MSG_ATTR_DIGEST, n @ 0 # junk) # as"
    "HDR_GET_TYPE ?p = MSG_TYPE_AUTH_REQ"
    using stamped_framed [OF i(5)] stamped_fields [OF i(6)] attr ty by simp_all
  obtain av m where a: "first_attr MSG_ATTR_DIGEST (mbuf_resetgetattrib ?p) = (Some av, ?p\<lparr>boff := m\<rparr>)"
    "strcmp_equal (drop av (bdata ?p)) k = Inr (n = k)"
    using string_attr [OF p(1,3) n] key(2) by blast
  have base: "base_state lfd i ?s" by (rule received_base [OF ok rcv])
  have run: "process_server_msg ts i ?p ?s = ret 0 (srv_auth ts i (mbuf_resetgetattrib ?p) ?s)"
    by (rule auth_dispatch [OF p(4)])
  show ?thesis
  proof (cases "n = k")
    case True
    let ?t = "upd_client i (cl_st_update (\<lambda>_. CLT_AUTH_OK)) (close_same_id i ?s)"
    note close = close_same_id_good [OF base]
    have mx: "max_clients (close_same_id i ?s) = max_clients s"
      and mo: "srv_motd (close_same_id i ?s) = srv_motd s"
      using close(2) by (simp_all add: keeps_def)
    obtain mt where mt: "motd_text s = Inr mt" "length mt < 4000"
      using motd_text_ok [of s] ok by (auto simp: msg_ok_def)
    have mt': "motd_text ?t = Inr mt" using mt(1) mo by (simp add: motd_text_def)
    obtain q where q: "ok_reply ts [ok_attr, notice_attr mt] i (?p\<lparr>boff := m\<rparr>) ?t = Inr (set_rbuf i (Some q) ?t)"
      "ok_answer ts (ok_attrs mt) ?p q"
      using ok_notice_reply [of "?p\<lparr>boff := m\<rparr>" mt ts i ?t] p(2) mt(2) by auto
    have "srv_auth ts i (mbuf_resetgetattrib ?p) ?s = Inr (set_rbuf i (Some q) ?t)"
      using a True mt' q(1) st key(1) i(1,2) by (simp add: srv_auth_def)
    with run handled [OF rcv dst, of ts 0 q ?t] mx have res: "process_msg ts i s = Inr (0, answered i q ?t)"
      by (simp add: max_clients_def)
    have ci: "clients (close_same_id i ?s) ! i = (clients s ! i)\<lparr>cl_rbuf := Some ?p\<rparr>"
      using close(3) i(2) by simp
    have "proto_of (answered i q ?t) = set_sess i (Some (session_of (clients s ! i)\<lparr>ss_st := CLT_AUTH_OK\<rparr>))
        (drop_same_id i (cl_id (clients s ! i)) (proto_of s))"
      using close_same_id_proto [OF base] ci mx i(1-3)
      by (simp add: proto_of_upd session_of_def)
    moreover have "cl_queue (clients (answered i q ?t) ! i) = cl_queue (clients s ! i) @ [q\<lparr>boff := 0\<rparr>]"
      using ci mx i(1) answered_fields(1) [of i ?t q] by (simp add: max_clients_def)
    ultimately show ?thesis unfolding if_P [OF True] using res mt(1) q(2) by blast
  next
    case False
    let ?t = "upd_client i (cl_st_update (\<lambda>_. CLT_PRE_LOGIN)) ?s"
    obtain q where q: "error_reply ts SC_UNAUTHORIZED i (?p\<lparr>boff := m\<rparr>) ?t = Inr (set_rbuf i (Some q) ?t)"
      "error_answer ts SC_UNAUTHORIZED ?p q"
      using error_reply_ok [of "?p\<lparr>boff := m\<rparr>" ts SC_UNAUTHORIZED i ?t] p(2) by auto
    have "srv_auth ts i (mbuf_resetgetattrib ?p) ?s = Inr (set_rbuf i (Some q) ?t)"
      using a False q(1) st key(1) i(1,2) by (simp add: srv_auth_def)
    with run handled [OF rcv dst, of ts 0 q ?t] have "process_msg ts i s = Inr (0, answered i q ?t)"
      by (simp add: max_clients_def)
    moreover have "answered i q ?t = answered i q (upd_client i (cl_st_update (\<lambda>_. CLT_PRE_LOGIN)) s)"
    proof -
      have "upd_client i (cl_st_update (\<lambda>_. CLT_PRE_LOGIN)) (set_rbuf i x s)
          = set_rbuf i x (upd_client i (cl_st_update (\<lambda>_. CLT_PRE_LOGIN)) s)" for x
        using i(2) by (cases "clients s ! i") (simp add: set_rbuf_def upd_client_def)
      then show ?thesis using answered_set_rbuf i(1) by (simp add: max_clients_def)
    qed
    ultimately show ?thesis unfolding if_not_P [OF False] using q(2) by auto
  qed
qed

end
