(* ===== verification/Server_Forward.thy ===== *)
theory Server_Forward
  imports Server_Answers
begin

text \<open>
  A message between two clients on its way through the server (\<^verbatim>\<open>process_msg()\<close>,
  \<^verbatim>\<open>process_forward_msg()\<close> and \<^verbatim>\<open>dequeue_msg()\<close> of src/srvmain.c): what reaches the peer, and
  what stays of it in the server.
\<close>

lemma relayed:
  assumes "i < max_clients s" and "j < max_clients s"
  shows "cl_rbuf (clients (set_rbuf i None (enqueue j m (set_rbuf i x s))) ! i) = None"
    and "cl_queue (clients (set_rbuf i None (enqueue j m (set_rbuf i x s))) ! j) =
      cl_queue (clients s ! j) @ [m\<lparr>boff := 0\<rparr>]"
    and "k < max_clients s \<Longrightarrow> k \<noteq> j \<Longrightarrow>
      cl_queue (clients (set_rbuf i None (enqueue j m (set_rbuf i x s))) ! k) = cl_queue (clients s ! k)"
  using assms by (simp_all add: max_clients_def nth_list_update list_enq_def)

lemma forward_msg:
  assumes rcv: "received i p s" and st: "cl_st (clients s ! i) = CLT_AUTH_OK"
    and fw: "forwardable (HDR_GET_TYPE p)" and dst: "HDR_GET_DSTID p \<noteq> 0" "HDR_GET_DSTID p \<noteq> - 1"
    and j: "j < max_clients s" "addressee (HDR_GET_DSTID p) (clients s ! j)"
    and uniq: "\<And>k. k < max_clients s \<Longrightarrow> addressee (HDR_GET_DSTID p) (clients s ! k) \<Longrightarrow> k = j"
  shows "process_msg ts i s = Inr (0, set_rbuf i None (enqueue j (HDR_SET_SRCID (cl_id (clients s ! i)) p)
    (set_rbuf i (Some (HDR_SET_SRCID (cl_id (clients s ! i)) p)) s)))"
proof -
  let ?p = "HDR_SET_SRCID (cl_id (clients s ! i)) p"
  let ?s = "set_rbuf i (Some ?p) s"
  note i = receivedD [OF rcv]
  have p: "stamped (clients s ! i) p = ?p" using st by (simp add: stamped_def)
  have len: "length (clients s) = max_clients s" by (simp add: max_clients_def)
  have same: "addressee d (clients ?s ! k) = addressee d (clients s ! k)"
    if "k < max_clients s" for d k
    using that i len by (cases "k = i") (simp_all add: addressee_def)
  have slot: "find_slot (addressee (HDR_GET_DSTID ?p)) (clients ?s) = j"
  proof (rule find_slot_unique)
    have d: "HDR_GET_DSTID ?p = HDR_GET_DSTID p" by (rule hdr_get_set_other [OF i(6)])
    show "j < length (clients ?s)" using j(1) len by simp
    show "addressee (HDR_GET_DSTID ?p) (clients ?s ! j)" using same [OF j(1)] j(2) unfolding d by simp
    show "k = j" if "k < length (clients ?s)" "addressee (HDR_GET_DSTID ?p) (clients ?s ! k)" for k
    proof -
      have k: "k < max_clients s" using that(1) len by simp
      show ?thesis by (rule uniq [OF k]) (use that(2) same [OF k] d in metis)
    qed
  qed
  have fwd: "process_forward_msg ts i ?p ?s = Inr (0, set_rbuf i None (enqueue j ?p ?s))"
    using slot j(1) st fw i unfolding process_forward_msg_def Let_def by simp
  show "process_msg ts i s = Inr (0, set_rbuf i None (enqueue j ?p ?s))"
    unfolding process_msg_cases [OF rcv, of ts] p if_not_P [OF dst(1)] if_not_P [OF dst(2)] fwd
    unfolding bindr.simps prod.case relayed(1) [OF i(1) j(1)] option.case ..
qed

section \<open>In and out\<close>

text \<open>The server takes a message from connection \<open>i\<close>, handles it, and sends the first message that
  waits for connection \<open>j\<close>.\<close>

definition serve :: "nat \<Rightarrow> nat \<Rightarrow> u64 \<Rightarrow> mbuf \<Rightarrow> server \<Rightarrow> (mbuf \<times> server) res" where
  "serve i j ts m s =
     bindr (process_msg ts i (set_rbuf i (Some m) s)) (\<lambda>(_, s').
     bindr (dequeue j s') (\<lambda>s''. Inr (hd (cl_queue (clients s' ! j)), s'')))"

text \<open>The connection \<open>i\<close> has the session \<open>ss\<close> and nothing to send.\<close>

definition has_session :: "int \<Rightarrow> nat \<Rightarrow> session \<Rightarrow> server \<Rightarrow> bool" where
  "has_session lfd i ss s \<longleftrightarrow> msg_ok lfd s \<and> i < max_clients s \<and> in_use (clients s ! i) \<and>
     cl_queue (clients s ! i) = [] \<and> session_of (clients s ! i) = ss"

lemma has_session_received:
  assumes "has_session lfd i ss s" and "mbuf_framed m"
  shows "msg_ok lfd (set_rbuf i (Some m) s)" and "received i m (set_rbuf i (Some m) s)"
    and "session_of (clients (set_rbuf i (Some m) s) ! i) = ss" and "cl_queue (clients (set_rbuf i (Some m) s) ! i) = []"
proof -
  have s: "msg_ok lfd s" "i < max_clients s" "i < length (clients s)" "in_use (clients s ! i)"
    using assms(1) by (simp_all add: has_session_def max_clients_def)
  then have "base_state lfd i s" by (simp add: base_state_def)
  then show "msg_ok lfd (set_rbuf i (Some m) s)" by (simp add: base_state_def)
  show "received i m (set_rbuf i (Some m) s)" using s assms(2) by (simp add: received_def in_use_def)
  show "session_of (clients (set_rbuf i (Some m) s) ! i) = ss" "cl_queue (clients (set_rbuf i (Some m) s) ! i) = []"
    using s assms(1) by (simp_all add: has_session_def session_of_def)
qed

lemma session_at:
  assumes "pr_sess (proto_of s) i = Some ss"
  shows "i < max_clients s" and "in_use (clients s ! i)" and "session_of (clients s ! i) = ss"
  using assms by (auto simp: proto_of_def split: if_splits)

text \<open>What is taken from a queue changes no session.\<close>

lemma sent:
  assumes ok: "msg_ok lfd s" and j: "j < max_clients s" "in_use (clients s ! j)" "cl_queue (clients s ! j) = [q]"
  obtains s' where "dequeue j s = Inr s'" and "msg_ok lfd s'" and "proto_of s' = proto_of s"
    and "max_clients s' = max_clients s"
    and "\<And>k. clients s' ! k = (if k = j then (clients s ! j)\<lparr>cl_queue := []\<rparr> else clients s ! k)"
proof -
  have len: "j < length (clients s)" using j(1) by (simp add: max_clients_def)
  have inv: "fd_inv lfd s" using ok by (simp add: msg_ok_def)
  obtain s' where d: "dequeue j s = Inr s'" "fd_inv lfd s'"
      "clients s' = (clients s)[j := cl_queue_update (\<lambda>_. []) (clients s ! j)]"
      "max_clients s' = max_clients s" "srv_udb s' = srv_udb s" "srv_motd s' = srv_motd s"
    by (rule dequeue_ok [OF inv j])
  have c: "clients s' ! k = (if k = j then (clients s ! j)\<lparr>cl_queue := []\<rparr> else clients s ! k)" for k
    using d(3) len by simp
  have "msg_ok lfd s'"
    using ok d(2,4-6) c unfolding msg_ok_def by (auto simp: client_ok_def in_use_def tx_inv_def)
  moreover have "proto_of s' = proto_of s"
    using d(4,5) c by (intro proto_of_eqI) (auto simp: session_of_def in_use_def)
  ultimately show ?thesis using that d(1,4) c by blast
qed

section \<open>Two peers\<close>

text \<open>Two authorised connections with nothing to send, in a server whose sessions are \<open>P\<close>.\<close>

definition peers :: "int \<Rightarrow> nat \<Rightarrow> nat \<Rightarrow> u64 \<Rightarrow> u64 \<Rightarrow> proto \<Rightarrow> server \<Rightarrow> bool" where
  "peers lfd i j ida idb P s \<longleftrightarrow> msg_ok lfd s \<and> proto_of s = P \<and> proto_inv P \<and>
     (\<exists>c d. has_session lfd i c s \<and> has_session lfd j d s \<and> ss_st c = CLT_AUTH_OK \<and> ss_id c = ida \<and>
        ss_st d = CLT_AUTH_OK \<and> ss_id d = idb)"

lemma peers_sym: "peers lfd i j ida idb P s \<Longrightarrow> peers lfd j i idb ida P s"
  by (auto simp: peers_def)

lemma has_session_proto: "has_session lfd i c s \<Longrightarrow> pr_sess (proto_of s) i = Some c"
  by (simp add: has_session_def proto_of_def)

lemma served_peer:
  assumes s: "peers lfd i j ida idb P s" and m: "mbuf_framed m" "HDR_GET_DSTID m = idb" "forwardable (HDR_GET_TYPE m)"
  obtains s' where "serve i j ts m s = Inr ((HDR_SET_SRCID ida m)\<lparr>boff := 0\<rparr>, s')" and "peers lfd i j ida idb P s'"
proof -
  obtain c d where c: "has_session lfd i c s" "ss_st c = CLT_AUTH_OK" "ss_id c = ida"
    and d: "has_session lfd j d s" "ss_st d = CLT_AUTH_OK" "ss_id d = idb"
    and P: "proto_of s = P" "proto_inv P"
    using s by (auto simp: peers_def)
  let ?s = "set_rbuf i (Some m) s"
  note r = has_session_received [OF c(1) m(1)]
  have same: "max_clients ?s = max_clients s" "in_use (clients ?s ! k) = in_use (clients s ! k)"
      "session_of (clients ?s ! k) = session_of (clients s ! k)" "cl_queue (clients ?s ! k) = cl_queue (clients s ! k)" for k
    using c(1) by (cases "k = i"; simp add: has_session_def session_of_def in_use_def max_clients_def)+
  have ci: "cl_st (clients ?s ! i) = CLT_AUTH_OK" "cl_id (clients ?s ! i) = ida"
    using r(3) c by (auto simp: session_of_def)
  have id: "idb \<noteq> 0" "idb < pr_next P"
    using proto_invD(3) [OF P(2)] has_session_proto [OF d(1)] P(1) d(2,3) by (auto simp: logged_in_def)
  then have n1: "idb \<noteq> - 1" using word_n1_ge [of "pr_next P"] by auto
  have j: "j < max_clients ?s" "addressee (HDR_GET_DSTID m) (clients ?s ! j)"
    using d m(2) same(2,3) [of j] same(1) by (auto simp: has_session_def addressee_def session_of_def in_use_def)
  have uniq: "k = j" if "k < max_clients ?s" "addressee (HDR_GET_DSTID m) (clients ?s ! k)" for k
  proof (rule proto_invD(4) [OF P(2)])
    show "pr_sess P k = Some (session_of (clients s ! k))"
      using that same(1) same(2) [of k] P(1) by (auto simp: proto_of_def addressee_def in_use_def)
    show "pr_sess P j = Some d" using has_session_proto [OF d(1)] P(1) by simp
    show "ss_st (session_of (clients s ! k)) = CLT_AUTH_OK" "ss_id (session_of (clients s ! k)) = ss_id d"
      using that(2) same(3) [of k] m(2) d(3) by (auto simp: addressee_def session_of_def)
  qed (rule d(2))
  let ?p = "HDR_SET_SRCID ida m"
  define t where "t = set_rbuf i None (enqueue j ?p (set_rbuf i (Some ?p) ?s))"
  have run: "process_msg ts i ?s = Inr (0, t)"
    using forward_msg [OF r(2) ci(1) m(3) _ _ j uniq, of ts, unfolded ci(2) m(2)] id n1 unfolding t_def by blast
  note rl = relayed [OF receivedD(1) [OF r(2)] j(1), where m = ?p and x = "Some ?p", folded t_def]
  have ok: "msg_ok lfd t" by (rule process_msg_good(1) [OF r(1,2) run])
  have len: "i < length (clients s)" "j < length (clients s)"
    using c(1) d(1) by (simp_all add: has_session_def max_clients_def)
  have t: "max_clients t = max_clients s" "srv_udb t = srv_udb s"
      "cl_fd (clients t ! k) = cl_fd (clients s ! k)" "session_of (clients t ! k) = session_of (clients s ! k)" for k
    using len by (simp_all add: t_def nth_list_update session_of_def max_clients_def)
  have Pt: "proto_of t = P" unfolding P(1) [symmetric] by (rule proto_of_eqI) (simp_all add: t)
  have q: "cl_queue (clients t ! j) = [?p\<lparr>boff := 0\<rparr>]"
    using rl(2) d(1) same(4) [of j] by (simp add: has_session_def)
  have qi: "i \<noteq> j \<Longrightarrow> cl_queue (clients t ! i) = []"
    using rl(3) [of i] c(1) same(1) same(4) [of i] by (simp add: has_session_def)
  have jt: "j < max_clients t" "in_use (clients t ! j)" using d(1) t by (simp_all add: has_session_def in_use_def)
  obtain u where u: "dequeue j t = Inr u" "msg_ok lfd u" "proto_of u = proto_of t" "max_clients u = max_clients t"
      "\<And>k. clients u ! k = (if k = j then (clients t ! j)\<lparr>cl_queue := []\<rparr> else clients t ! k)"
    by (rule sent [OF ok jt q]) blast
  have keep: "has_session lfd k x u" if "has_session lfd k x s" "k = i \<or> k = j" for k x
    using that u(2,4) u(5) [of k] t(1) t(3,4) [of k] qi by (auto simp: has_session_def in_use_def session_of_def)
  have "serve i j ts m s = Inr (?p\<lparr>boff := 0\<rparr>, u)" using run u(1) q by (simp add: serve_def)
  moreover have "peers lfd i j ida idb P u"
    using u(2,3) Pt P(2) keep [OF c(1)] keep [OF d(1)] c d by (auto simp: peers_def)
  ultimately show ?thesis using that by blast
qed

end
