(* ===== verification/Server_IO.thy ===== *)
theory Server_IO
  imports Session
begin

text \<open>
  The input and output of the relay server (src/srvmain.c, \<^verbatim>\<open>handle_io\<close> and the loop of
  \<^verbatim>\<open>main\<close>). What the system calls return is an argument: for each descriptor the bytes that
  are there to be read and the number that can be written (\<^verbatim>\<open>read()\<close> and \<^verbatim>\<open>write()\<close>
  move at most what they are asked for), the descriptors \<^verbatim>\<open>select()\<close> finds ready among those
  it is asked about, the descriptor \<^verbatim>\<open>accept()\<close> yields, the clock, and the output of the
  command for the message of the day.
\<close>

section \<open>One client\<close>

text \<open>
  The part for descriptors ready for reading; the flag tells whether the part for writing
  follows (it does not once the connection is closed). \<open>junk\<close> is the contents of new memory.
\<close>

definition handle_read ::
    "u64 \<Rightarrow> int \<Rightarrow> (nat \<Rightarrow> byte) \<Rightarrow> read_res \<Rightarrow> nat \<Rightarrow> server \<Rightarrow> (bool \<times> server) res" where
  "handle_read ts now junk rd i s =
     (let s = snd (resync_client i now s);
          p = (case cl_rbuf (clients s ! i) of None \<Rightarrow> mbuf_new junk | Some p \<Rightarrow> p);
          s = upd_client i (cl_act_update (\<lambda>_. now)) (set_rbuf i (Some p) s)
      in bindr (read_client rd p) (\<lambda>r.
         case r of
           Rd_Closed \<Rightarrow> Inr (False, close_client i s)
         | Rd_Skip \<Rightarrow> Inr (True, s)
         | Rd_Got p \<Rightarrow>
             bindr (rx_advance junk p) (\<lambda>r.
             case r of
               Rx_Partial p \<Rightarrow> Inr (True, set_rbuf i (Some p) s)
             | Rx_Done p \<Rightarrow>
                 bindr (process_msg ts i (set_rbuf i (Some p) s)) (\<lambda>(_, s).
                 Inr (True, set_rbuf i None s)))))"

definition handle_write :: "int \<Rightarrow> write_res \<Rightarrow> nat \<Rightarrow> server \<Rightarrow> server res" where
  "handle_write now wr i s =
     (let s = upd_client i (cl_act_update (\<lambda>_. now)) s in
      case cl_queue (clients s ! i) of
        [] \<Rightarrow> Inl NullDeref
      | m # ms \<Rightarrow>
          if boff m < bsize m then
            (case wr of
               Wr_Error transient \<Rightarrow> Inr (if transient then s else close_client i s)
             | Wr_Count n \<Rightarrow>
                 let w = min n (bsize m - boff m) in
                 if w = 0 then Inr (close_client i s)
                 else let m = m\<lparr>boff := boff m + w\<rparr>;
                          s = upd_client i (cl_queue_update (\<lambda>_. m # ms)) s
                      in if boff m = bsize m then dequeue i s else Inr s)
          else if boff m = bsize m then dequeue i s else Inr s)"

section \<open>All clients\<close>

record io_event =
  ev_rfds :: "int set"
  ev_wfds :: "int set"
  ev_read :: "int \<Rightarrow> read_res"
  ev_write :: "int \<Rightarrow> write_res"
  ev_junk :: "nat \<Rightarrow> byte"
  ev_ts :: u64
  ev_now :: int

definition handle_slot :: "io_event \<Rightarrow> nat \<Rightarrow> int \<times> server \<Rightarrow> (int \<times> server) res" where
  "handle_slot ev i ns =
     (case ns of (nset, s) \<Rightarrow>
      if \<not> 0 < nset then Inr (nset, s)
      else if cl_fd (clients s ! i) < 0 then Inr (nset, s)
      else
        bindr (if cl_fd (clients s ! i) \<in> ev_rfds ev then
                 bindr (handle_read (ev_ts ev) (ev_now ev) (ev_junk ev)
                          (ev_read ev (cl_fd (clients s ! i))) i s) (\<lambda>(go, s). Inr (go, nset - 1, s))
               else Inr (True, nset, s))
          (\<lambda>(go, nset, s).
           if go \<and> cl_fd (clients s ! i) \<in> ev_wfds ev then
             bindr (handle_write (ev_now ev) (ev_write ev (cl_fd (clients s ! i))) i s) (\<lambda>s.
             Inr (nset - 1, s))
           else Inr (nset, s)))"

fun handle_slots :: "io_event \<Rightarrow> nat list \<Rightarrow> int \<times> server \<Rightarrow> (int \<times> server) res" where
  "handle_slots ev [] ns = Inr ns"
| "handle_slots ev (i # is) ns = bindr (handle_slot ev i ns) (handle_slots ev is)"

definition handle_io :: "io_event \<Rightarrow> int \<Rightarrow> server \<Rightarrow> (int \<times> server) res" where
  "handle_io ev nset s = handle_slots ev [0..<max_clients s] (nset, s)"

section \<open>The main loop\<close>

text \<open>
  \<open>Sel_Error True\<close>: interrupted by a signal; any other error ends the process. The loop body
  without the code for debug builds; \<open>last_upkeep\<close> is the time of the last upkeep.
\<close>

datatype select_res = Sel_Error bool | Sel_Ready io_event

record loop_event =
  le_now :: int
  le_upkeep_now :: int
  le_motd :: "byte list option"
  le_select :: select_res
  le_accept :: "int set \<Rightarrow> int"
  le_nonblock :: int
  le_accept_now :: int

definition loop_upkeep :: "int \<Rightarrow> loop_event \<Rightarrow> int \<times> server \<Rightarrow> (int \<times> server) res" where
  "loop_upkeep listenfd le ls =
     (case ls of (last_upkeep, s) \<Rightarrow>
      if select_timeout (cfg s) < le_now le - last_upkeep then
        (let s = upkeep (le_upkeep_now le) (s\<lparr>maxfd := listenfd\<rparr>) in
         bindr (motd_get (le_motd le) (srv_motd s)) (\<lambda>m. Inr (le_now le, s\<lparr>srv_motd := m\<rparr>)))
      else Inr (last_upkeep, s))"

text \<open>
  \<^verbatim>\<open>select( maxfd + 1, &rfds, &wfds, ... )\<close>: the ready descriptors among the watched ones
  up to \<^verbatim>\<open>maxfd\<close>, and their number. The argument of \<open>le_accept\<close> are the descriptors in use.
\<close>

definition select_fds :: "io_event \<Rightarrow> server \<Rightarrow> io_event" where
  "select_fds ev s =
     ev\<lparr>ev_rfds := {fd \<in> m_rfds s. fd \<in> ev_rfds ev \<and> fd \<le> maxfd s},
        ev_wfds := {fd \<in> m_wfds s. fd \<in> ev_wfds ev \<and> fd \<le> maxfd s}\<rparr>"

definition loop_body :: "int \<Rightarrow> loop_event \<Rightarrow> int \<times> server \<Rightarrow> (int \<times> server) res" where
  "loop_body listenfd le ls =
     bindr (loop_upkeep listenfd le ls) (\<lambda>(last_upkeep, s).
     case le_select le of
       Sel_Error interrupted \<Rightarrow> (if interrupted then Inr (last_upkeep, s) else Inl Die)
     | Sel_Ready ev \<Rightarrow>
         let ev = select_fds ev s;
             nset = int (card (ev_rfds ev) + card (ev_wfds ev)) in
         if 0 < nset then
           bindr (handle_io ev nset s) (\<lambda>(nset, s).
           if 0 < nset \<and> 0 \<le> listenfd \<and> listenfd \<in> ev_rfds ev
           then Inr (last_upkeep, snd (accept_client (le_accept le (insert listenfd (open_fds s)))
                                                  (le_nonblock le) (le_accept_now le) s))
           else Inr (last_upkeep, s))
         else Inr (last_upkeep, s))"

text \<open>\<open>main\<close>: initialisation, then the loop over the events.\<close>

fun main_loop :: "int \<Rightarrow> loop_event list \<Rightarrow> int \<times> server \<Rightarrow> (int \<times> server) res" where
  "main_loop listenfd [] ls = Inr ls"
| "main_loop listenfd (le # les) ls = bindr (loop_body listenfd le ls) (main_loop listenfd les)"

definition srv_main ::
    "(cstring \<Rightarrow> db_file) \<Rightarrow> cstring \<Rightarrow> srv_cfg \<Rightarrow> nat \<Rightarrow> int \<Rightarrow> loop_event list \<Rightarrow> (int \<times> server) res" where
  "srv_main fs path conf maxc listenfd les =
     bindr (udb_init (udb_start fs) path) (\<lambda>(_, db).
     main_loop listenfd les (0, init_server conf maxc listenfd db))"
section \<open>The invariant of the server\<close>

definition rbuf_ok :: "client_t \<Rightarrow> bool" where
  "rbuf_ok c \<longleftrightarrow> (\<forall>p. cl_rbuf c = Some p \<longrightarrow> rx_inv p)"

definition srv_inv :: "int \<Rightarrow> server \<Rightarrow> bool" where
  "srv_inv lfd s \<longleftrightarrow> msg_ok lfd s \<and>
     (\<forall>k < max_clients s. in_use (clients s ! k) \<longrightarrow> rbuf_ok (clients s ! k))"

lemma rbuf_ok_simps [simp]:
  "rbuf_ok (c\<lparr>cl_rbuf := None\<rparr>)" "rx_inv p \<Longrightarrow> rbuf_ok (c\<lparr>cl_rbuf := Some p\<rparr>)"
  "rbuf_ok (c\<lparr>cl_act := t\<rparr>) = rbuf_ok c" "rbuf_ok (cl_queue_update f c) = rbuf_ok c"
  by (simp_all add: rbuf_ok_def)

lemma srv_inv_upd:
  assumes "srv_inv lfd s" and "\<And>c. cl_fd (f c) = cl_fd c" and "\<And>c. cl_queue (f c) = cl_queue c"
    and "i < max_clients s \<Longrightarrow> client_ok (clients s ! i) \<Longrightarrow> client_ok (f (clients s ! i))"
    and "i < max_clients s \<Longrightarrow> rbuf_ok (clients s ! i) \<Longrightarrow> rbuf_ok (f (clients s ! i))"
  shows "srv_inv lfd (upd_client i f s)"
proof -
  have "msg_ok lfd (upd_client i f s)"
    using assms by (intro msg_ok_upd) (auto simp: srv_inv_def)
  moreover have "rbuf_ok (clients (upd_client i f s) ! k)"
    if "k < max_clients s" "in_use (clients (upd_client i f s) ! k)" for k
    using assms that by (cases "i = k") (auto simp: srv_inv_def in_use_def max_clients_def)
  ultimately show ?thesis by (simp add: srv_inv_def)
qed

lemma srv_inv_close:
  assumes "srv_inv lfd s" and "i < max_clients s" and "in_use (clients s ! i)"
  shows "srv_inv lfd (close_client i s)"
  using assms msg_ok_close [of lfd s i]
  by (auto simp: srv_inv_def nth_list_update max_clients_def split: if_splits)

lemma srv_inv_set_rbuf:
  assumes "msg_ok lfd s" and "\<And>k. k < max_clients s \<Longrightarrow> k \<noteq> i \<Longrightarrow> in_use (clients s ! k) \<Longrightarrow> rbuf_ok (clients s ! k)"
    and "\<And>p. x = Some p \<Longrightarrow> rx_inv p"
  shows "srv_inv lfd (set_rbuf i x s)"
proof -
  have "rbuf_ok (clients (set_rbuf i x s) ! k)"
    if "k < max_clients s" "in_use (clients (set_rbuf i x s) ! k)" for k
    using assms that by (cases "i = k") (auto simp: in_use_def max_clients_def rbuf_ok_def)
  with assms(1) show ?thesis by (simp add: srv_inv_def)
qed

text \<open>Reading from one client.\<close>

text \<open>
  What reading from a client leads to: it is closed, or served with the result that the invariant
  is kept, at most one message is processed; or the process ends, for one of the listed reasons.
\<close>

lemma resync_then_rbuf:
  fixes now :: int
  assumes inv: "srv_inv lfd s" and i: "i < max_clients s" "in_use (clients s ! i)"
  defines "s1 \<equiv> snd (resync_client i now s)"
  obtains p where "(case cl_rbuf (clients s1 ! i) of None \<Rightarrow> mbuf_new junk | Some p \<Rightarrow> p) = p" and "rx_inv p"
    and "srv_inv lfd (upd_client i (cl_act_update (\<lambda>_. now)) (set_rbuf i (Some p) s1))"
    and "proto_of (upd_client i (cl_act_update (\<lambda>_. now)) (set_rbuf i (Some p) s1)) = proto_of s"
    and "keeps i s (upd_client i (cl_act_update (\<lambda>_. now)) (set_rbuf i (Some p) s1))"
    and "cl_rbuf (clients (upd_client i (cl_act_update (\<lambda>_. now)) (set_rbuf i (Some p) s1)) ! i) = Some p"
    and "in_use (clients (upd_client i (cl_act_update (\<lambda>_. now)) (set_rbuf i (Some p) s1)) ! i)"
proof -
  have s1: "s1 = upd_client i (\<lambda>_. resynced (cfg s) now (clients s ! i)) s"
    unfolding s1_def using i(1) by (rule resync_client_eq)
  have len: "i < length (clients s)" using i(1) by (simp add: max_clients_def)
  have ok: "rbuf_ok (clients s ! i)" using inv i by (simp add: srv_inv_def)
  let ?p = "case cl_rbuf (clients s1 ! i) of None \<Rightarrow> mbuf_new junk | Some p \<Rightarrow> p"
  have p: "rx_inv ?p"
    using ok len by (auto simp: s1 resynced_def rbuf_ok_def rx_inv_new(1) split: option.splits)
  have m1: "msg_ok lfd s1"
  proof -
    have "fd_inv lfd s1 = fd_inv lfd s" unfolding s1 using len
      by (intro fd_inv_cong) (auto simp: nth_list_update)
    then show ?thesis using inv len by (auto simp: srv_inv_def msg_ok_def s1 nth_list_update max_clients_def
          resynced_def in_use_def split: if_splits)
  qed
  let ?s = "upd_client i (cl_act_update (\<lambda>_. now)) (set_rbuf i (Some ?p) s1)"
  have "srv_inv lfd (set_rbuf i (Some ?p) s1)"
    by (rule srv_inv_set_rbuf [OF m1]) (use inv p len in \<open>auto simp: s1 srv_inv_def nth_list_update\<close>)
  then have "srv_inv lfd ?s" by (rule srv_inv_upd) simp_all
  moreover have "proto_of ?s = proto_of s"
  proof -
    have "proto_of ?s = proto_of s1" by (subst proto_of_upd_same) simp_all
    also have "\<dots> = proto_of s" unfolding s1 by (rule proto_of_upd_same) simp_all
    finally show ?thesis .
  qed
  moreover have "keeps i s ?s"
    using len by (auto simp: keeps_def s1 nth_list_update)
  moreover have "cl_rbuf (clients ?s ! i) = Some ?p" "in_use (clients ?s ! i)"
    using len i(2) by (simp_all add: s1)
  ultimately show thesis using p that by blast
qed

lemma handle_read_inv:
  assumes inv: "srv_inv lfd s" and i: "i < max_clients s" "in_use (clients s ! i)"
    and res: "handle_read ts now junk rd i s = Inr (go, s')"
  shows "srv_inv lfd s' \<and> keeps i s s' \<and> (go \<longrightarrow> in_use (clients s' ! i)) \<and>
    (\<exists>n \<le> 1. proto_run n (proto_of s) (proto_of s'))"
proof -
  let ?s1 = "snd (resync_client i now s)"
  define F where "F p = upd_client i (cl_act_update (\<lambda>_. now)) (set_rbuf i (Some p) ?s1)" for p
  obtain p where p: "(case cl_rbuf (clients ?s1 ! i) of None \<Rightarrow> mbuf_new junk | Some p \<Rightarrow> p) = p" "rx_inv p"
    and s2: "srv_inv lfd (F p)" "proto_of (F p) = proto_of s" "keeps i s (F p)"
      "cl_rbuf (clients (F p) ! i) = Some p" "in_use (clients (F p) ! i)"
    unfolding F_def by (rule resync_then_rbuf [OF inv i, where now = now and junk = junk])
  let ?s2 = "F p"
  have i2: "i < max_clients ?s2" using s2(3) i(1) by (simp add: keeps_def)
  have ok2: "msg_ok lfd ?s2" "\<And>k. k < max_clients ?s2 \<Longrightarrow> in_use (clients ?s2 ! k) \<Longrightarrow> rbuf_ok (clients ?s2 ! k)"
    using s2(1) by (simp_all add: srv_inv_def)
  have run0: "proto_run 0 (proto_of s) (proto_of ?s2)" unfolding s2(2) by (rule Start)
  have res2: "bindr (read_client rd p) (\<lambda>r.
         case r of
           Rd_Closed \<Rightarrow> Inr (False, close_client i ?s2)
         | Rd_Skip \<Rightarrow> Inr (True, ?s2)
         | Rd_Got p \<Rightarrow>
             bindr (rx_advance junk p) (\<lambda>r.
             case r of
               Rx_Partial p \<Rightarrow> Inr (True, set_rbuf i (Some p) ?s2)
             | Rx_Done p \<Rightarrow>
                 bindr (process_msg ts i (set_rbuf i (Some p) ?s2)) (\<lambda>(_, s).
                 Inr (True, set_rbuf i None s)))) = Inr (go, s')"
    using res unfolding handle_read_def Let_def p(1) F_def .
  from p(2) show ?thesis
  proof (cases rule: read_client_cases [of p rd])
    case closed
    with res2 have s': "s' = close_client i ?s2" "go = False" by auto
    have "proto_run 0 (proto_of s) (proto_of s')"
      unfolding s'(1) proto_of_close [OF i2] by (rule Disconnect [OF run0])
    moreover have "keeps i s s'" unfolding s'(1) by (rule keeps_trans [OF s2(3) keeps_close])
    ultimately show ?thesis using srv_inv_close [OF s2(1) i2 s2(5)] s' by auto
  next
    case skip
    with res2 have "s' = ?s2" "go = True" by auto
    with s2 run0 show ?thesis by auto
  next
    case (got d q)
    have recv: "rx_recv junk d p = rx_advance junk q" using got(2) by (simp add: rx_recv_def)
    from rx_recv_cases [OF p(2) got(3), of junk] show ?thesis
    proof (elim disjE exE conjE)
      fix q1 assume q1: "rx_recv junk d p = Inr (Rx_Partial q1)" "rx_inv q1"
      with res2 got(1) recv have s': "s' = set_rbuf i (Some q1) ?s2" "go = True" by auto
      have "srv_inv lfd s'" unfolding s'(1) by (rule srv_inv_set_rbuf [OF ok2(1)]) (use ok2 q1 in auto)
      moreover have "keeps i s s'" unfolding s'(1) by (rule keeps_trans [OF s2(3) keeps_set_rbuf])
      moreover have "in_use (clients s' ! i)" unfolding s'(1) using i2 s2(5) by (simp add: max_clients_def)
      moreover have "proto_run 0 (proto_of s) (proto_of s')" using run0 by (simp add: s'(1))
      ultimately show ?thesis by blast
    next
      fix q1 assume q1: "rx_recv junk d p = Inr (Rx_Done q1)" "mbuf_framed q1"
      let ?s3 = "set_rbuf i (Some q1) ?s2"
      from q1 res2 got(1) recv obtain r s4 where
        pm: "process_msg ts i ?s3 = Inr (r, s4)" and s': "s' = set_rbuf i None s4" "go = True" by auto
      have m3: "msg_ok lfd ?s3" using ok2(1) by simp
      have rcv: "received i q1 ?s3"
        using i2 s2(5) q1(2) by (simp add: received_def) (simp add: max_clients_def)
      note g = process_msg_good [OF m3 rcv pm]
      have k: "keeps i s s4" by (rule keeps_trans [OF keeps_trans [OF s2(3) keeps_set_rbuf] g(2)])
      have k2: "keeps i ?s2 s4" by (rule keeps_trans [OF keeps_set_rbuf g(2)])
      have mc: "max_clients s4 = max_clients ?s2" using k2 by (simp add: keeps_def)
      have other: "rbuf_ok (clients s4 ! k)" if "k < max_clients s4" "k \<noteq> i" "in_use (clients s4 ! k)" for k
        using k2 ok2(2) [of k] that mc by (auto simp: keeps_def rbuf_ok_def in_use_def)
      have "srv_inv lfd s'" unfolding s'(1) by (rule srv_inv_set_rbuf [OF g(1) other]) auto
      moreover have "keeps i s s'" unfolding s'(1) by (rule keeps_trans [OF k keeps_set_rbuf])
      moreover have "in_use (clients s' ! i)" unfolding s'(1) using g(3) i2 mc by (simp add: max_clients_def)
      moreover have "proto_run 1 (proto_of s) (proto_of s')"
        using Message [OF run0, of i _ "proto_of s4"] process_msg_step [OF m3 rcv pm] by (simp add: s'(1))
      ultimately show ?thesis by blast
    qed (use res2 got(1) recv in auto)
  qed
qed
text \<open>Writing to one client: it never fails when something is queued.\<close>

lemma srv_inv_queue:
  assumes inv: "srv_inv lfd s" and i: "i < max_clients s" and q: "tx_inv q" "q \<noteq> []" "cl_queue (clients s ! i) \<noteq> []"
  shows "srv_inv lfd (upd_client i (cl_queue_update (\<lambda>_. q)) s)"
proof -
  let ?s = "upd_client i (cl_queue_update (\<lambda>_. q)) s"
  have len: "i < length (clients s)" using i by (simp add: max_clients_def)
  have "fd_inv lfd ?s = fd_inv lfd s"
    using len q by (intro fd_inv_cong) (auto simp: nth_list_update)
  with inv len q show ?thesis
    by (auto simp: srv_inv_def msg_ok_def nth_list_update max_clients_def client_ok_def in_use_def split: if_splits)
qed

lemma handle_write_inv:
  assumes inv: "srv_inv lfd s" and i: "i < max_clients s" "in_use (clients s ! i)"
    and q: "cl_queue (clients s ! i) \<noteq> []"
  obtains s' where "handle_write now wr i s = Inr s'" and "srv_inv lfd s'"
    and "max_clients s' = max_clients s" and "cfg s' = cfg s" and "maxfd s' = maxfd s"
    and "srv_motd s' = srv_motd s"
    and "\<And>k. k < max_clients s \<Longrightarrow> k \<noteq> i \<Longrightarrow> clients s' ! k = clients s ! k"
    and "in_use (clients s' ! i) \<Longrightarrow> cl_fd (clients s' ! i) = cl_fd (clients s ! i)"
    and "proto_run 0 (proto_of s) (proto_of s')"
proof -
  let ?s = "upd_client i (cl_act_update (\<lambda>_. now)) s"
  have len: "i < length (clients s)" using i(1) by (simp add: max_clients_def)
  obtain m ms where m: "cl_queue (clients s ! i) = m # ms" using q by (cases "cl_queue (clients s ! i)") auto
  have inv1: "srv_inv lfd ?s" using inv by (rule srv_inv_upd) simp_all
  have i1: "i < max_clients ?s" "in_use (clients ?s ! i)" "cl_queue (clients ?s ! i) = m # ms"
    using i len m by simp_all
  have tx: "tx_inv (m # ms)" using inv i m by (auto simp: srv_inv_def msg_ok_def client_ok_def)
  then have room: "boff m < bsize m" by (simp add: tx_inv_def)
  have p1: "proto_of ?s = proto_of s" by (rule proto_of_upd_same) simp_all
  have run1: "proto_run 0 (proto_of s) (proto_of ?s)" unfolding p1 by (rule Start)
  have close: "srv_inv lfd (close_client i ?s)" "proto_run 0 (proto_of s) (proto_of (close_client i ?s))"
    using srv_inv_close [OF inv1 i1(1,2)] Disconnect [OF run1, of i] by (simp_all add: proto_of_close [OF i1(1)])
  have hw: "handle_write now wr i s = (case wr of
      Wr_Error t \<Rightarrow> Inr (if t then ?s else close_client i ?s)
    | Wr_Count n \<Rightarrow> let w = min n (bsize m - boff m) in
        if w = 0 then Inr (close_client i ?s)
        else let m' = m\<lparr>boff := boff m + w\<rparr>; s2 = upd_client i (cl_queue_update (\<lambda>_. m' # ms)) ?s
             in if boff m' = bsize m' then dequeue i s2 else Inr s2)"
    using i1(3) room by (simp add: handle_write_def Let_def)
  show thesis
  proof (cases wr)
    case (Wr_Error t)
    with hw close inv1 run1 len show thesis
      by (intro that [of "if t then ?s else close_client i ?s"]) auto
  next
    case (Wr_Count n)
    let ?w = "min n (bsize m - boff m)"
    show thesis
    proof (cases "?w = 0")
      case True
      with Wr_Count hw close len show thesis
        by (intro that [of "close_client i ?s"]) (auto simp: Let_def)
    next
      case False
      let ?m = "m\<lparr>boff := boff m + ?w\<rparr>"
      let ?s2 = "upd_client i (cl_queue_update (\<lambda>_. ?m # ms)) ?s"
      have wle: "boff m + ?w \<le> bsize m" using room by simp
      have p2: "proto_of ?s2 = proto_of s"
        using p1 proto_of_upd_same [of "cl_queue_update (\<lambda>_. ?m # ms)" ?s i] by simp
      show thesis
      proof (cases "boff m + ?w = bsize m")
        case part: False
        have "tx_inv (?m # ms)" using tx wle part by (auto simp: tx_inv_def)
        from srv_inv_queue [OF inv1 i1(1) this] i1(3) have "srv_inv lfd ?s2" by simp
        with False part Wr_Count hw len p2 Start show thesis
          by (intro that [of ?s2]) (auto simp: Let_def)
      next
        case fin: True
        have fd2: "fd_inv lfd ?s2"
        proof -
          have "fd_inv lfd ?s2 = fd_inv lfd ?s" using len i1(3)
            by (intro fd_inv_cong) (auto simp: nth_list_update)
          then show ?thesis using inv1 by (simp add: srv_inv_def msg_ok_def)
        qed
        have i2: "i < max_clients ?s2" "in_use (clients ?s2 ! i)" "cl_queue (clients ?s2 ! i) = ?m # ms"
          using i1 len by simp_all
        obtain s3 where s3: "dequeue i ?s2 = Inr s3" "fd_inv lfd s3"
            "clients s3 = (clients ?s2)[i := cl_queue_update (\<lambda>_. ms) (clients ?s2 ! i)]"
            "max_clients s3 = max_clients ?s2" "srv_udb s3 = srv_udb ?s2" "srv_motd s3 = srv_motd ?s2"
            "cfg s3 = cfg ?s2" "maxfd s3 = maxfd ?s2"
          by (rule dequeue_ok [OF fd2 i2])
        have txms: "tx_inv ms" using tx by (cases ms) (auto simp: tx_inv_def)
        have "srv_inv lfd s3"
          using inv1 s3 len txms
          by (auto simp: srv_inv_def msg_ok_def nth_list_update client_ok_def max_clients_def in_use_def
              split: if_splits)
        moreover have "proto_of s3 = proto_of s"
          using p2 s3 len by (subst p2 [symmetric]) (auto intro!: proto_of_eqI simp: nth_list_update)
        ultimately show thesis
          using False fin Wr_Count hw len s3 Start by (intro that [of s3]) (auto simp: Let_def)
      qed
    qed
  qed
qed

text \<open>
  One slot. Between the slots every connected client that \<^verbatim>\<open>select()\<close> reported for writing,
  from the next slot on, still has something to send.
\<close>

definition writers_ok :: "io_event \<Rightarrow> nat \<Rightarrow> server \<Rightarrow> bool" where
  "writers_ok ev i s \<longleftrightarrow> (\<forall>k < max_clients s. i \<le> k \<longrightarrow> in_use (clients s ! k) \<longrightarrow>
     cl_fd (clients s ! k) \<in> ev_wfds ev \<longrightarrow> cl_queue (clients s ! k) \<noteq> [])"

definition same_globals :: "server \<Rightarrow> server \<Rightarrow> bool" where
  "same_globals s s' \<longleftrightarrow> max_clients s' = max_clients s \<and> cfg s' = cfg s \<and> maxfd s' = maxfd s \<and>
     srv_motd s' = srv_motd s \<and> used_fds s' \<subseteq> used_fds s"

lemma keeps_globals:
  assumes "keeps i s s'"
  shows "same_globals s s'"
proof -
  have "fd \<in> used_fds s" if "fd \<in> used_fds s'" for fd
  proof -
    from that obtain k where k: "0 \<le> fd" "k < max_clients s'" "cl_fd (clients s' ! k) = fd"
      by (auto simp: used_fds_def)
    with assms have "k < max_clients s" "cl_fd (clients s ! k) = fd"
      by (auto simp: keeps_def in_use_def)
    with k(1) show ?thesis by (auto simp: used_fds_def)
  qed
  with assms show ?thesis by (auto simp: same_globals_def keeps_def)
qed

lemma keeps_writers: "keeps i s s' \<Longrightarrow> writers_ok ev j s \<Longrightarrow> writers_ok ev j s'"
  by (auto simp: keeps_def writers_ok_def in_use_def)

lemma same_globals_trans: "same_globals s t \<Longrightarrow> same_globals t u \<Longrightarrow> same_globals s u"
  by (auto simp: same_globals_def)

lemma handle_slot_inv:
  assumes inv: "srv_inv lfd s" and i: "i < max_clients s" and w: "writers_ok ev i s"
    and res: "handle_slot ev i (nset, s) = Inr (nset', s')"
  shows "srv_inv lfd s' \<and> writers_ok ev (Suc i) s' \<and> same_globals s s' \<and>
    (\<exists>n \<le> 1. proto_run n (proto_of s) (proto_of s'))"
proof (cases "\<not> 0 < nset \<or> cl_fd (clients s ! i) < 0")
  case True
  with res have "s' = s" by (auto simp: handle_slot_def split: if_splits)
  with inv w Start show ?thesis
    by (auto simp: writers_ok_def same_globals_def)
next
  case False
  then have u: "in_use (clients s ! i)" by (simp add: in_use_def)
  let ?fd = "cl_fd (clients s ! i)"
  from False res obtain go n1 s1 where
    rd: "(if ?fd \<in> ev_rfds ev then
        bindr (handle_read (ev_ts ev) (ev_now ev) (ev_junk ev) (ev_read ev ?fd) i s) (\<lambda>(go, s). Inr (go, nset - 1, s))
      else Inr (True, nset, s)) = Inr (go, n1, s1)"
    and wr: "(if go \<and> cl_fd (clients s1 ! i) \<in> ev_wfds ev then
        bindr (handle_write (ev_now ev) (ev_write ev (cl_fd (clients s1 ! i))) i s1) (\<lambda>s. Inr (n1 - 1, s))
      else Inr (n1, s1)) = Inr (nset', s')"
    by (auto simp: handle_slot_def bindr_Inr_iff)
  have s1: "srv_inv lfd s1" "keeps i s s1" "go \<longrightarrow> in_use (clients s1 ! i)"
      "\<exists>n \<le> 1. proto_run n (proto_of s) (proto_of s1)"
  proof -
    have "srv_inv lfd s1 \<and> keeps i s s1 \<and> (go \<longrightarrow> in_use (clients s1 ! i)) \<and>
        (\<exists>n \<le> 1. proto_run n (proto_of s) (proto_of s1))"
    proof (cases "?fd \<in> ev_rfds ev")
      case True
      with rd have "handle_read (ev_ts ev) (ev_now ev) (ev_junk ev) (ev_read ev ?fd) i s = Inr (go, s1)"
        by auto
      from handle_read_inv [OF inv i u this] show ?thesis .
    next
      case False
      with rd have "s1 = s" "go" by auto
      then show ?thesis using inv u proto_run.Start [of "proto_of s"] by auto
    qed
    then show "srv_inv lfd s1" "keeps i s s1" "go \<longrightarrow> in_use (clients s1 ! i)"
      "\<exists>n \<le> 1. proto_run n (proto_of s) (proto_of s1)" by blast+
  qed
  have w1: "writers_ok ev i s1" by (rule keeps_writers [OF s1(2) w])
  have i1: "i < max_clients s1" using s1(2) i by (simp add: keeps_def)
  show ?thesis
  proof (cases "go \<and> cl_fd (clients s1 ! i) \<in> ev_wfds ev")
    case False
    with wr have "s' = s1" by auto
    with s1 w1 keeps_globals [OF s1(2)] show ?thesis by (auto simp: writers_ok_def)
  next
    case True
    then have u1: "in_use (clients s1 ! i)" using s1(3) by blast
    then have q: "cl_queue (clients s1 ! i) \<noteq> []" using w1 i1 True by (auto simp: writers_ok_def)
    obtain s2 where s2: "handle_write (ev_now ev) (ev_write ev (cl_fd (clients s1 ! i))) i s1 = Inr s2"
        "srv_inv lfd s2" "max_clients s2 = max_clients s1" "cfg s2 = cfg s1" "maxfd s2 = maxfd s1"
        "srv_motd s2 = srv_motd s1"
        "\<And>k. k < max_clients s1 \<Longrightarrow> k \<noteq> i \<Longrightarrow> clients s2 ! k = clients s1 ! k"
        "in_use (clients s2 ! i) \<Longrightarrow> cl_fd (clients s2 ! i) = cl_fd (clients s1 ! i)"
        "proto_run 0 (proto_of s1) (proto_of s2)"
      by (rule handle_write_inv [OF s1(1) i1 u1 q]) blast
    with wr True have s': "s' = s2" by auto
    have "writers_ok ev (Suc i) s'" using w1 s2(3,7) by (auto simp: writers_ok_def s')
    moreover have "same_globals s s'"
    proof (rule same_globals_trans [OF keeps_globals [OF s1(2)]])
      have "cl_fd (clients s2 ! k) = cl_fd (clients s1 ! k)"
        if "in_use (clients s2 ! k)" "k < max_clients s1" for k
        using that s2(7,8) by (cases "k = i") auto
      then have "used_fds s2 \<subseteq> used_fds s1"
        using s2(3) by (force simp: used_fds_def in_use_def)
      then show "same_globals s1 s'" using s2(3-6) by (simp add: same_globals_def s')
    qed
    moreover have "\<exists>n \<le> 1. proto_run n (proto_of s) (proto_of s')"
    proof -
      obtain n where n: "n \<le> 1" "proto_run n (proto_of s) (proto_of s1)" using s1(4) by blast
      from proto_run_trans [OF s2(9) n(2)] n(1) show ?thesis by (auto simp: s')
    qed
    ultimately show ?thesis using s2(2) by (simp add: s')
  qed
qed
section \<open>All slots, upkeep, and the loop\<close>

lemma handle_slots_inv:
  "srv_inv lfd s \<Longrightarrow> writers_ok ev i s \<Longrightarrow> i + n \<le> max_clients s \<Longrightarrow>
   handle_slots ev [i..<i + n] (nset, s) = Inr (nset', s') \<Longrightarrow>
     srv_inv lfd s' \<and> same_globals s s' \<and> (\<exists>m \<le> n. proto_run m (proto_of s) (proto_of s'))"
proof (induction n arbitrary: i s nset)
  case 0
  then show ?case by (auto simp: same_globals_def Start)
next
  case (Suc n)
  have upt: "[i..<i + Suc n] = i # [Suc i..<Suc i + n]"
    by (subst upt_rec) simp
  from Suc.prems(4) obtain n1 s1 where s1: "handle_slot ev i (nset, s) = Inr (n1, s1)"
    and rest: "handle_slots ev [Suc i..<Suc i + n] (n1, s1) = Inr (nset', s')"
    unfolding upt by (auto simp: bindr_Inr_iff)
  have "i < max_clients s" using Suc.prems(3) by simp
  from handle_slot_inv [OF Suc.prems(1) this Suc.prems(2) s1] obtain a where
    h: "srv_inv lfd s1" "writers_ok ev (Suc i) s1" "same_globals s s1" "a \<le> 1"
      "proto_run a (proto_of s) (proto_of s1)" by blast
  have "Suc i + n \<le> max_clients s1" using h(3) Suc.prems(3) by (simp add: same_globals_def)
  from Suc.IH [OF h(1,2) this rest] obtain b where
    r: "srv_inv lfd s'" "same_globals s1 s'" "b \<le> n" "proto_run b (proto_of s1) (proto_of s')" by blast
  have "proto_run (a + b) (proto_of s) (proto_of s')" by (rule proto_run_trans [OF r(4) h(5)])
  moreover have "a + b \<le> Suc n" using h(4) r(3) by simp
  ultimately show ?case using r(1) same_globals_trans [OF h(3) r(2)] by blast
qed

lemma writers_ok_select: "srv_inv lfd s \<Longrightarrow> ev_wfds ev \<subseteq> m_wfds s \<Longrightarrow> writers_ok ev 0 s"
proof -
  assume inv: "srv_inv lfd s" and sub: "ev_wfds ev \<subseteq> m_wfds s"
  have fd: "m_wfds s = busy_fds s" "fds_distinct s"
    using inv by (simp_all add: srv_inv_def msg_ok_def fd_inv_def)
  show "writers_ok ev 0 s"
    unfolding writers_ok_def
  proof (intro allI impI)
    fix k assume k: "k < max_clients s" "in_use (clients s ! k)" "cl_fd (clients s ! k) \<in> ev_wfds ev"
    then obtain l where "l < max_clients s" "cl_fd (clients s ! l) = cl_fd (clients s ! k)"
        "cl_queue (clients s ! l) \<noteq> []"
      using sub fd(1) by (auto simp: busy_fds_def)
    with fds_distinctD [OF fd(2) k(1) _ k(2)] show "cl_queue (clients s ! k) \<noteq> []" by metis
  qed
qed

lemma handle_io_inv:
  assumes "srv_inv lfd s" and "ev_wfds ev \<subseteq> m_wfds s" and "handle_io ev nset s = Inr (nset', s')"
  shows "srv_inv lfd s' \<and> same_globals s s' \<and> (\<exists>m \<le> max_clients s. proto_run m (proto_of s) (proto_of s'))"
  using handle_slots_inv [OF assms(1) writers_ok_select [OF assms(1,2)], of "max_clients s" nset nset' s']
    assms(3) by (simp add: handle_io_def)

lemma upkeep_inv_srv:
  assumes inv: "srv_inv lfd s"
  shows "srv_inv lfd (upkeep now s)" and "\<forall>fd \<in> used_fds (upkeep now s). fd \<le> maxfd (upkeep now s)"
    and "max_clients (upkeep now s) = max_clients s" and "proto_run 0 (proto_of s) (proto_of (upkeep now s))"
    and "maxfd s \<le> maxfd (upkeep now s)"
proof -
  let ?s = "upkeep now s"
  have "fd_inv lfd s" using inv by (simp add: srv_inv_def msg_ok_def)
  then obtain j where j: "j \<le> max_clients s" "fd_inv lfd ?s"
      "take j (clients ?s) = survivors (cfg s) now (clients s)"
      "\<forall>k < max_clients s. in_use (clients ?s ! k) \<longleftrightarrow> k < j"
      "\<forall>fd \<in> used_fds ?s. fd \<le> maxfd ?s" "maxfd s \<le> maxfd ?s" "max_clients ?s = max_clients s"
      "srv_udb ?s = srv_udb s" "srv_motd ?s = srv_motd s" "cfg ?s = cfg s"
    by (rule upkeep_result)
  have orig: "\<exists>l < max_clients s. in_use (clients s ! l) \<and> clients ?s ! k = resynced (cfg s) now (clients s ! l)"
    if "k < max_clients s" "in_use (clients ?s ! k)" for k
  proof -
    have k: "k < j" using j(4) that by blast
    then have "clients ?s ! k \<in> set (take j (clients ?s))"
      using j(1,7) by (auto simp: in_set_conv_nth max_clients_def intro!: exI [of _ k])
    then obtain c where "c \<in> set (clients s)" "in_use c" "clients ?s ! k = resynced (cfg s) now c"
      unfolding j(3) by (auto simp: survivors_def)
    then show ?thesis by (auto simp: in_set_conv_nth max_clients_def)
  qed
  have ok: "client_ok (resynced (cfg s) now c)" if "client_ok c" for c
    using that by (simp add: client_ok_def)
  have rok: "rbuf_ok (resynced (cfg s) now c)" if "rbuf_ok c" for c
    using that by (auto simp: rbuf_ok_def resynced_def)
  have each: "client_ok (clients ?s ! k) \<and> rbuf_ok (clients ?s ! k)"
    if "k < max_clients s" "in_use (clients ?s ! k)" for k
    using orig [OF that] inv ok rok by (auto simp: srv_inv_def msg_ok_def)
  show "srv_inv lfd ?s" using inv j each by (simp add: srv_inv_def msg_ok_def)
  show "\<forall>fd \<in> used_fds ?s. fd \<le> maxfd ?s" by (rule j(5))
  show "max_clients ?s = max_clients s" by (rule j(7))
  show "maxfd s \<le> maxfd ?s" by (rule j(6))
  have "\<forall>k. \<exists>l. k < max_clients s \<longrightarrow> in_use (clients ?s ! k) \<longrightarrow>
      l < max_clients s \<and> in_use (clients s ! l) \<and> clients ?s ! k = resynced (cfg s) now (clients s ! l)"
    using orig by blast
  then obtain f where f: "\<And>k. k < max_clients s \<Longrightarrow> in_use (clients ?s ! k) \<Longrightarrow>
      f k < max_clients s \<and> in_use (clients s ! f k) \<and> clients ?s ! k = resynced (cfg s) now (clients s ! f k)"
    by metis
  have dist: "fds_distinct ?s" using j(2) by (simp add: fd_inv_def)
  show "proto_run 0 (proto_of s) (proto_of ?s)"
  proof (rule Renumber [OF Start, of _ _ f])
    fix k c' assume "pr_sess (proto_of ?s) k = Some c'"
    then show "pr_sess (proto_of s) (f k) = Some c'"
      using f [of k] j(7) by (auto split: if_splits)
  next
    fix k l assume "pr_sess (proto_of ?s) k \<noteq> None" "pr_sess (proto_of ?s) l \<noteq> None" "f k = f l"
    then have kl: "k < max_clients ?s" "in_use (clients ?s ! k)" "l < max_clients ?s" "in_use (clients ?s ! l)"
      by (auto split: if_splits)
    have "cl_fd (clients ?s ! k) = cl_fd (clients s ! f k)" "cl_fd (clients ?s ! l) = cl_fd (clients s ! f l)"
      using f [of k] f [of l] kl j(7) by simp_all
    with \<open>f k = f l\<close> show "k = l" using fds_distinctD [OF dist kl(1,3,2)] by simp
  qed (use j(8) in simp_all)
qed

lemma accept_inv:
  fixes nb now :: int
  assumes inv: "srv_inv lfd s" and fd: "fd = - 1 \<or> 0 \<le> fd \<and> fd \<notin> open_fds s \<and> fd \<noteq> lfd"
    and mx: "\<forall>fd \<in> used_fds s. fd \<le> maxfd s"
  defines "s' \<equiv> snd (accept_client fd nb now s)"
  shows "srv_inv lfd s' \<and> (\<forall>fd \<in> used_fds s'. fd \<le> maxfd s') \<and> max_clients s' = max_clients s \<and>
    proto_run 0 (proto_of s) (proto_of s')"
proof -
  have "fd = - 1 \<or> 0 \<le> fd" using fd by blast
  then show ?thesis
  proof (cases rule: accept_client_cases [of fd nb now s])
    case dropped
    with inv mx Start show ?thesis by (simp add: s'_def)
  next
    case (adopted i t)
    have s': "s' = t" by (simp add: s'_def adopted(1))
    have "fd_inv lfd s" using inv by (simp add: srv_inv_def msg_ok_def)
    from accept_client_fd_inv [OF this fd, of nb now] have fi: "fd_inv lfd s'" by (simp add: s'_def)
    have len: "i < length (clients s)" using adopted(2) by (simp add: max_clients_def)
    have "srv_inv lfd s'"
      using inv fi adopted len
      by (auto simp: srv_inv_def msg_ok_def s' nth_list_update client_ok_def rbuf_ok_def tx_inv_def
          max_clients_def split: if_splits)
    moreover have "\<forall>fd \<in> used_fds s'. fd \<le> maxfd s'"
    proof -
      have "used_fds s' = open_fds s'" "used_fds s = open_fds s"
        using fi \<open>fd_inv lfd s\<close> by (simp_all add: fd_inv_def)
      with mx adopted show ?thesis by (auto simp: s')
    qed
    moreover have "proto_of s' = set_sess i (Some fresh_session) (proto_of s)"
      unfolding s' using adopted len
      by (intro proto_eqI ext) (auto simp: nth_list_update in_use_def session_of_def fresh_session_def)
    moreover have "pr_sess (proto_of s) i = None" using adopted(3) by simp
    ultimately show ?thesis using Connect [OF Start, of "proto_of s" i] adopted by (simp add: s')
  qed
qed

text \<open>The descriptors \<^verbatim>\<open>accept()\<close> hands out are not in use.\<close>

definition fresh_accept :: "loop_event \<Rightarrow> bool" where
  "fresh_accept le \<longleftrightarrow> (\<forall>A. le_accept le A = - 1 \<or> 0 \<le> le_accept le A \<and> le_accept le A \<notin> A)"

definition loop_inv :: "int \<Rightarrow> server \<Rightarrow> bool" where
  "loop_inv lfd s \<longleftrightarrow> srv_inv lfd s \<and> (\<forall>fd \<in> used_fds s. fd \<le> maxfd s)"

lemma loop_upkeep_inv:
  assumes inv: "loop_inv lfd s" and res: "loop_upkeep lfd le (t, s) = Inr (t', s')"
  shows "loop_inv lfd s' \<and> max_clients s' = max_clients s \<and> proto_run 0 (proto_of s) (proto_of s')"
proof (cases "select_timeout (cfg s) < le_now le - t")
  case False
  with res inv Start show ?thesis by (auto simp: loop_upkeep_def)
next
  case True
  let ?s0 = "s\<lparr>maxfd := lfd\<rparr>"
  let ?s1 = "upkeep (le_upkeep_now le) ?s0"
  from True res obtain m where m: "motd_get (le_motd le) (srv_motd ?s1) = Inr m" and s': "s' = ?s1\<lparr>srv_motd := m\<rparr>"
    by (auto simp: loop_upkeep_def Let_def)
  have "srv_inv lfd ?s0" using inv by (simp add: loop_inv_def srv_inv_def msg_ok_def)
  note u = upkeep_inv_srv [OF this, of "le_upkeep_now le"]
  have "motd_ok m" using motd_get_ok [OF _ m] u(1) by (simp add: srv_inv_def msg_ok_def)
  then have "srv_inv lfd s'" using u(1) by (simp add: s' srv_inv_def msg_ok_def)
  moreover have "used_fds s' = used_fds ?s1" "maxfd s' = maxfd ?s1" by (simp_all add: s' used_fds_def)
  moreover have "proto_of s' = proto_of ?s1" "proto_of ?s0 = proto_of s"
    by (auto intro!: proto_of_eqI simp: s')
  ultimately show ?thesis using u by (simp add: loop_inv_def s')
qed

lemma loop_body_inv:
  assumes inv: "loop_inv lfd s" and fresh: "fresh_accept le" and res: "loop_body lfd le (t, s) = Inr (t', s')"
  shows "loop_inv lfd s' \<and> max_clients s' = max_clients s \<and>
    (\<exists>n \<le> max_clients s. proto_run n (proto_of s) (proto_of s'))"
proof -
  from res obtain t1 s1 where up: "loop_upkeep lfd le (t, s) = Inr (t1, s1)"
    and rest: "(case le_select le of
       Sel_Error interrupted \<Rightarrow> (if interrupted then Inr (t1, s1) else Inl Die)
     | Sel_Ready ev \<Rightarrow>
         let ev = select_fds ev s1; nset = int (card (ev_rfds ev) + card (ev_wfds ev)) in
         if 0 < nset then
           bindr (handle_io ev nset s1) (\<lambda>(nset, s).
           if 0 < nset \<and> 0 \<le> lfd \<and> lfd \<in> ev_rfds ev
           then Inr (t1, snd (accept_client (le_accept le (insert lfd (open_fds s))) (le_nonblock le) (le_accept_now le) s))
           else Inr (t1, s))
         else Inr (t1, s1)) = Inr (t', s')"
    unfolding loop_body_def bindr_Inr_iff by auto
  note u = loop_upkeep_inv [OF inv up]
  have inv1: "srv_inv lfd s1" "\<forall>fd \<in> used_fds s1. fd \<le> maxfd s1" using u by (simp_all add: loop_inv_def)
  show ?thesis
  proof (cases "s' = s1")
    case True
    with u show ?thesis by auto
  next
    case False
    with rest obtain ev0 where sel: "le_select le = Sel_Ready ev0" by (cases "le_select le") (auto split: if_splits)
    let ?ev = "select_fds ev0 s1" and ?n = "int (card (ev_rfds (select_fds ev0 s1)) + card (ev_wfds (select_fds ev0 s1)))"
    from rest sel False obtain nset s2 where io: "handle_io ?ev ?n s1 = Inr (nset, s2)"
      and fin: "s' = s2 \<or> s' = snd (accept_client (le_accept le (insert lfd (open_fds s2))) (le_nonblock le) (le_accept_now le) s2)"
      by (auto simp: Let_def bindr_Inr_iff split: if_splits)
    have "ev_wfds ?ev \<subseteq> m_wfds s1" by (auto simp: select_fds_def)
    from handle_io_inv [OF inv1(1) this io] obtain n where
      io2: "srv_inv lfd s2" "same_globals s1 s2" "n \<le> max_clients s1" "proto_run n (proto_of s1) (proto_of s2)"
      by blast
    have mx2: "\<forall>fd \<in> used_fds s2. fd \<le> maxfd s2" using inv1(2) io2(2) by (auto simp: same_globals_def)
    have mc: "max_clients s1 = max_clients s" "max_clients s2 = max_clients s"
      using u io2(2) by (simp_all add: same_globals_def)
    have r2: "proto_run n (proto_of s) (proto_of s2)"
      using proto_run_trans [OF io2(4), of 0 "proto_of s"] u by simp
    let ?fd = "le_accept le (insert lfd (open_fds s2))"
    have "?fd = - 1 \<or> 0 \<le> ?fd \<and> ?fd \<notin> open_fds s2 \<and> ?fd \<noteq> lfd"
      using fresh unfolding fresh_accept_def by (metis insertCI)
    from accept_inv [OF io2(1) this mx2, of "le_nonblock le" "le_accept_now le"] fin
    have fin2: "srv_inv lfd s' \<and> (\<forall>fd \<in> used_fds s'. fd \<le> maxfd s') \<and> max_clients s' = max_clients s2 \<and>
        proto_run 0 (proto_of s2) (proto_of s')"
      using io2(1) mx2 Start by auto
    then have "proto_run n (proto_of s) (proto_of s')" using proto_run_trans [OF _ r2] by fastforce
    with fin2 mc io2(3) show ?thesis by (auto simp: loop_inv_def)
  qed
qed

lemma main_loop_inv:
  "loop_inv lfd s \<Longrightarrow> (\<forall>le \<in> set les. fresh_accept le) \<Longrightarrow> main_loop lfd les (t, s) = Inr (t', s') \<Longrightarrow>
     loop_inv lfd s' \<and> max_clients s' = max_clients s \<and>
     (\<exists>n \<le> max_clients s * length les. proto_run n (proto_of s) (proto_of s'))"
proof (induction les arbitrary: s t)
  case Nil
  then show ?case using Start by auto
next
  case (Cons le les)
  from Cons.prems(3) obtain t1 s1 where b: "loop_body lfd le (t, s) = Inr (t1, s1)"
    and rest: "main_loop lfd les (t1, s1) = Inr (t', s')" by (auto simp: bindr_Inr_iff)
  from loop_body_inv [OF Cons.prems(1) _ b] Cons.prems(2) obtain m where
    m: "loop_inv lfd s1" "max_clients s1 = max_clients s" "m \<le> max_clients s"
      "proto_run m (proto_of s) (proto_of s1)" by auto
  from Cons.IH [OF m(1) _ rest] Cons.prems(2) m(2) obtain n where
    n: "loop_inv lfd s'" "max_clients s' = max_clients s" "n \<le> max_clients s * length les"
      "proto_run n (proto_of s1) (proto_of s')" by auto
  have "proto_run (m + n) (proto_of s) (proto_of s')" by (rule proto_run_trans [OF n(4) m(4)])
  moreover have "m + n \<le> max_clients s * length (le # les)" using m(3) n(3) by simp
  ultimately show ?case using n(1,2) by blast
qed

lemma init_server_inv:
  assumes "udb_inv db" and "0 \<le> lfd"
  shows "loop_inv lfd (init_server conf maxc lfd db)"
proof -
  have "used_fds (init_server conf maxc lfd db) = {}" "busy_fds (init_server conf maxc lfd db) = {}"
    "\<And>k. k < max_clients (init_server conf maxc lfd db) \<Longrightarrow> \<not> in_use (clients (init_server conf maxc lfd db) ! k)"
    by (auto simp: used_fds_def busy_fds_def init_server_def max_clients_def in_use_def)
  moreover from this have "fds_distinct (init_server conf maxc lfd db)" by (auto simp: fds_distinct_def)
  ultimately show ?thesis
    using assms motd_start_ok
    by (auto simp: loop_inv_def srv_inv_def msg_ok_def fd_inv_def) (auto simp: init_server_def)
qed

end
