(* ===== verification/Server_Properties.thy ===== *)
theory Server_Properties
  imports Server_Login Server_Forward Server_IO
begin

text \<open>
  The properties of the server (src/srvmain.c, src/srvuserdb.c): what a run of it keeps, how it
  handles each kind of message, and the inputs that make it fail. The witnesses run on the
  server \<open>demo_server\<close> below, which has empty send queues and an empty user database.
\<close>

section \<open>A concrete server\<close>

definition demo_udb :: udb where
  "demo_udb = \<lparr>userdb = [], userdb_path = Some [117], next_id = 9,
     udb_fs = (\<lambda>_. \<lparr>f_content = None, f_writable = True\<rparr>)\<rparr>"

definition demo_client :: "int \<Rightarrow> u64 \<Rightarrow> CLT_STATE \<Rightarrow> cstring option \<Rightarrow> mbuf option \<Rightarrow> client_t" where
  "demo_client fd i st n p = \<lparr>cl_fd = fd, cl_id = i, cl_name = n, cl_key = None, cl_st = st,
     cl_act = 0, cl_rbuf = p, cl_queue = []\<rparr>"

definition demo_server :: "client_t list \<Rightarrow> udb \<Rightarrow> server" where
  "demo_server cs db = \<lparr>cfg = \<lparr>select_timeout = 10, msg_timeout = 10, conn_timeout = 60\<rparr>, clients = cs,
     m_rfds = insert 3 (set (map cl_fd cs)), m_wfds = {}, maxfd = 9, open_fds = set (map cl_fd cs),
     srv_udb = db, srv_motd = motd_start\<rparr>"

lemma demo_client_fields [simp]:
  "cl_fd (demo_client fd i st n p) = fd" "cl_id (demo_client fd i st n p) = i"
  "cl_st (demo_client fd i st n p) = st" "cl_name (demo_client fd i st n p) = n"
  "cl_key (demo_client fd i st n p) = None" "cl_rbuf (demo_client fd i st n p) = p"
  "cl_queue (demo_client fd i st n p) = []"
  by (simp_all add: demo_client_def)

lemma demo_udb_inv: "udb_inv demo_udb" "udb_map demo_udb = (\<lambda>_. None)"
  by (simp_all add: demo_udb_def udb_inv_def udb_wf_def udb_map_def fun_eq_iff)

lemma demo_fd_inv:
  assumes "distinct (map cl_fd cs)" and "\<forall>c \<in> set cs. 4 \<le> cl_fd c \<and> cl_fd c < 1024 \<and> cl_queue c = []"
  shows "fd_inv 3 (demo_server cs db)"
proof -
  have used: "used_fds (demo_server cs db) = set (map cl_fd cs)"
    using assms(2) by (force simp: used_fds_def demo_server_def max_clients_def in_set_conv_nth)
  have "fds_distinct (demo_server cs db)"
    using assms(1) by (auto simp: fds_distinct_def demo_server_def max_clients_def distinct_conv_nth)
  moreover have "busy_fds (demo_server cs db) = {}"
    using assms(2) by (auto simp: busy_fds_def demo_server_def max_clients_def)
  ultimately show ?thesis
    using assms(2) by (auto simp: fd_inv_def used) (auto simp: demo_server_def)
qed

lemma demo_msg_ok:
  assumes "distinct (map cl_fd cs)"
    and "\<forall>c \<in> set cs. 4 \<le> cl_fd c \<and> cl_fd c < 1024 \<and> cl_queue c = [] \<and> client_ok c"
    and "udb_inv db"
  shows "msg_ok 3 (demo_server cs db)"
  using demo_fd_inv [of cs db] assms
  by (auto simp: msg_ok_def demo_server_def max_clients_def motd_start_ok)

lemma demo_fields [simp]:
  "clients (demo_server cs db) = cs" "srv_udb (demo_server cs db) = db"
  "max_clients (demo_server cs db) = length cs" "srv_motd (demo_server cs db) = motd_start"
  by (simp_all add: demo_server_def max_clients_def)

lemma demo_client_ok [simp]:
  "client_ok (demo_client fd i st n p) \<longleftrightarrow> st \<noteq> CLT_INVALID \<and>
     (st = CLT_LOGIN_OK \<or> st = CLT_AUTH_OK \<longrightarrow> n \<noteq> None)"
  by (simp add: client_ok_def tx_inv_def)

lemma demo_in_use [simp]: "in_use (demo_client fd i st n p) \<longleftrightarrow> 0 \<le> fd"
  by (simp add: in_use_def)

text \<open>A message without attributes, and one with a single attribute.\<close>

definition plain_msg :: "u16 \<Rightarrow> u64 \<Rightarrow> mbuf" where
  "plain_msg t dst = composed t 1 0 dst 77"

definition attr_msg :: "u16 \<Rightarrow> u64 \<Rightarrow> attrib \<Rightarrow> mbuf" where
  "attr_msg t dst a = append_attr a (plain_msg t dst)"

lemma plain_msg_fields [simp]:
  "mbuf_framed (plain_msg t dst)" "HDR_GET_TYPE (plain_msg t dst) = t"
  "HDR_GET_DSTID (plain_msg t dst) = dst" "attrs (plain_msg t dst) = []"
  using tlv_full_attrs [OF tlv_full_composed, of t 1 0 dst 77]
  by (simp_all add: plain_msg_def composed_wf)

lemma attr_msg_fields [simp]:
  assumes "length (snd a) < 1000"
  shows "mbuf_framed (attr_msg t dst a)" "HDR_GET_TYPE (attr_msg t dst a) = t"
    "HDR_GET_DSTID (attr_msg t dst a) = dst" "attrs (attr_msg t dst a) = [a]"
proof -
  have fits: "bsize (plain_msg t dst) + 8 + ROUNDUP8 (length (snd a)) \<le> MSG_MAX_SIZE"
    using ROUNDUP8_less [of "length (snd a)"] assms by (simp add: plain_msg_def)
  note props = append_attr_props [OF plain_msg_fields(1) fits]
  show "mbuf_framed (attr_msg t dst a)" "HDR_GET_TYPE (attr_msg t dst a) = t"
    "HDR_GET_DSTID (attr_msg t dst a) = dst"
    using props by (simp_all add: attr_msg_def)
  have "tlv_full [] (plain_msg t dst)" by (simp add: plain_msg_def)
  from tlv_full_attrs [OF props(9) [OF this]]
  show "attrs (attr_msg t dst a) = [a]" by (simp add: attr_msg_def)
qed

section \<open>Runs of the server\<close>

lemma fold_add_loaded_grows:
  "userdb d \<noteq> [] \<Longrightarrow> userdb (fold add_loaded es d) \<noteq> []"
proof (induction es arbitrary: d)
  case (Cons e es)
  obtain i n k where e: "e = (i, n, k)" by (cases e)
  have "userdb (add_loaded e d) \<noteq> []"
    unfolding e using Cons.prems by (cases rule: udb_addentry_i_cases [of d n i k]) auto
  with Cons.IH show ?case by simp
qed simp

lemma fold_add_loaded_empty:
  "userdb d = [] \<Longrightarrow> userdb (fold add_loaded es d) = [] \<Longrightarrow> list_all (\<lambda>(i, n, k). udb_nameisvalid n \<noteq> 0) es"
proof (induction es arbitrary: d)
  case (Cons e es)
  obtain i n k where e: "e = (i, n, k)" by (cases e)
  have "userdb (add_loaded e d) = []"
    using Cons.prems(2) fold_add_loaded_grows [of "add_loaded e d" es] by auto
  then have "udb_nameisvalid n \<noteq> 0" "add_loaded e d = d"
    unfolding e using Cons.prems(1)
    by (cases rule: udb_addentry_i_cases [of d n i k]; simp add: can_add_def udb_map_def)+
  with Cons e show ?case by simp
qed simp

text \<open>What the start of the server makes of its file, whatever the file holds.\<close>

lemma udb_init_start:
  assumes "f_writable (fs path)" and "bound \<noteq> - 1" and "0 < bound"
    and "\<And>bs i n k. f_content (fs path) = Some bs \<Longrightarrow> (i, n, k) \<in> set (file_entries bs) \<Longrightarrow> i < bound"
  obtains r db where "udb_init (udb_start fs) path = Inr (r, db)" and "udb_inv db" and "ids_below db"
    and "next_id db \<le> bound"
proof (cases "f_content (fs path)")
  case None
  with assms that show thesis
    by (auto simp: udb_init_def udb_load_def udb_start_def udb_inv_def udb_wf_def ids_below_def
        word_le_nat_alt word_less_nat_alt)
next
  case (Some bs)
  let ?d = "udb_start fs\<lparr>userdb_path := Some path\<rparr>"
  let ?es = "file_entries bs"
  have d: "userdb ?d = []" "udb_fs ?d = fs" "next_id ?d = 1" by (simp_all add: udb_start_def)
  have res: "udb_init (udb_start fs) path = Inr (0, fold add_loaded ?es ?d)"
    using Some d by (simp add: udb_init_def udb_load_def load_lines_entries Let_def)
  have wf: "udb_wf (fold add_loaded ?es ?d)"
    by (rule fold_add_loaded_wf) (simp add: udb_wf_def d)
  moreover have "no_accounts bs" if "userdb (fold add_loaded ?es ?d) = []"
    using fold_add_loaded_empty [OF d(1) that] by (simp add: no_accounts_def)
  ultimately have inv: "udb_inv (fold add_loaded ?es ?d)"
    using fold_add_loaded_frame [of ?es ?d] assms(1) Some
    by (auto simp: udb_inv_def d)
  have "1 \<le> bound" using assms(3) by (simp add: word_le_nat_alt word_less_nat_alt)
  then have "ids_below (fold add_loaded ?es ?d) \<and> next_id (fold add_loaded ?es ?d) \<le> bound"
    using assms(2,4) Some d
    by (intro fold_add_loaded_ids) (auto simp: ids_below_def dest: file_entries_id)
  with that res inv show thesis by blast
qed

lemma proto_inv_start:
  assumes "udb_inv db" and "ids_below db"
  shows "proto_inv (proto_of (init_server conf maxc lfd db))"
proof (rule proto_invI)
  show "pr_next (proto_of (init_server conf maxc lfd db)) \<noteq> 0"
    using assms by (simp add: init_server_def ids_below_def)
  show "u_id e \<noteq> 0 \<and> u_id e < pr_next (proto_of (init_server conf maxc lfd db))"
    if "pr_acc (proto_of (init_server conf maxc lfd db)) n = Some e" for n e
    using that assms(2) by (auto simp: init_server_def ids_below_def udb_map_def dest: lookupname_SomeD)
qed (auto simp: init_server_def in_use_def max_clients_def split: if_splits)

text \<open>C1: Whatever the network, the clock and the user database do, a running server keeps
  its invariant: descriptors, select sets and queues agree, receive and send buffers are well
  framed, the table keeps its size, and the users that are logged in as authorised have
  distinct identifiers other than 0. (The file's identifiers and the events must leave room in the
  64-bit counter, \<open>accept()\<close> returns fresh descriptors, and the user database can be written.)\<close>

theorem server_run_invariant:
  assumes run: "srv_main fs path conf maxc lfd les = Inr (t, s)" and lfd: "0 \<le> lfd"
    and fresh: "\<forall>le \<in> set les. fresh_accept le" and wr: "f_writable (fs path)"
    and ids: "\<And>bs i n k. f_content (fs path) = Some bs \<Longrightarrow> (i, n, k) \<in> set (file_entries bs) \<Longrightarrow> i < bound"
    and room: "0 < unat bound" "unat bound + min maxc 1024 * length les < 2 ^ 64 - 1"
  shows "loop_inv lfd s \<and> max_clients s = min maxc 1024 \<and>
    (\<forall>i < max_clients s. \<forall>j < max_clients s. in_use (clients s ! i) \<and> in_use (clients s ! j) \<and>
       cl_st (clients s ! i) = CLT_AUTH_OK \<and> cl_st (clients s ! j) = CLT_AUTH_OK \<longrightarrow>
       cl_id (clients s ! i) \<noteq> 0 \<and> (cl_id (clients s ! i) = cl_id (clients s ! j) \<longrightarrow> i = j))"
proof -
  have b: "bound \<noteq> - 1" "0 < bound"
    using room by (auto simp: word_less_nat_alt word_unat_eq_iff unsigned_minus_1_eq_mask
        mask_eq_exp_minus_1)
  obtain r db where db: "udb_init (udb_start fs) path = Inr (r, db)" "udb_inv db" "ids_below db" "next_id db \<le> bound"
    using udb_init_start [where fs = fs and path = path and bound = bound, OF wr b] ids by blast
  let ?s0 = "init_server conf maxc lfd db"
  have s0: "loop_inv lfd ?s0" "max_clients ?s0 = min maxc 1024"
    using init_server_inv [OF db(2) lfd] by (simp_all add: init_server_def max_clients_def)
  have "main_loop lfd les (0, ?s0) = Inr (t, s)" using run db(1) by (simp add: srv_main_def)
  from main_loop_inv [OF s0(1) fresh this] s0(2) obtain n where
    n: "loop_inv lfd s" "max_clients s = min maxc 1024" "n \<le> min maxc 1024 * length les"
      "proto_run n (proto_of ?s0) (proto_of s)"
    by auto
  have "unat (pr_next (proto_of ?s0)) + n < 2 ^ 64"
    using db(4) n(3) room(2) by (simp add: init_server_def word_le_nat_alt)
  with proto_run_inv [OF n(4) proto_inv_start [OF db(2,3)]] have inv: "proto_inv (proto_of s)" by blast
  have "cl_id (clients s ! i) \<noteq> 0 \<and> (cl_id (clients s ! i) = cl_id (clients s ! j) \<longrightarrow> i = j)"
    if "i < max_clients s" "j < max_clients s" "in_use (clients s ! i)" "in_use (clients s ! j)"
      "cl_st (clients s ! i) = CLT_AUTH_OK" "cl_st (clients s ! j) = CLT_AUTH_OK" for i j
    using proto_invD(3) [OF inv, of i "session_of (clients s ! i)"]
      proto_invD(4) [OF inv, of i "session_of (clients s ! i)" j "session_of (clients s ! j)"] that
    by (simp add: logged_in_def)
  with n(1,2) show ?thesis by blast
qed

definition demo_accept :: loop_event where
  "demo_accept = \<lparr>le_now = 100, le_upkeep_now = 100, le_motd = None,
     le_select = Sel_Ready \<lparr>ev_rfds = {3}, ev_wfds = {}, ev_read = (\<lambda>_. Rd_Error True),
       ev_write = (\<lambda>_. Wr_Error True), ev_junk = (\<lambda>_. 0), ev_ts = 0, ev_now = 0\<rparr>,
     le_accept = (\<lambda>A. if 5 \<in> A then - 1 else 5), le_nonblock = 0, le_accept_now = 0\<rparr>"

theorem server_run_invariant_witness:
  "\<exists>s. srv_main (\<lambda>_. \<lparr>f_content = None, f_writable = True\<rparr>) [117]
      \<lparr>select_timeout = 10, msg_timeout = 10, conn_timeout = 60\<rparr> 2 3 [demo_accept] = Inr (100, s) \<and>
    in_use (clients s ! 0) \<and> loop_inv 3 s \<and> max_clients s = 2"
proof -
  let ?fs = "\<lambda>_ :: cstring. \<lparr>f_content = None, f_writable = True\<rparr>"
  let ?conf = "\<lparr>select_timeout = 10, msg_timeout = 10, conn_timeout = 60\<rparr>"
  obtain s where run: "srv_main ?fs [117] ?conf 2 3 [demo_accept] = Inr (100, s)" "cl_fd (clients s ! 0) = 5"
    by (simp add: srv_main_def udb_init_def udb_load_def udb_start_def loop_body_def loop_upkeep_def
        demo_accept_def init_server_def select_fds_def handle_io_def max_clients_def
        handle_slot_def zero_client_def accept_client_def upd_client_def numeral_2_eq_2 upt_rec
        upkeep_def upkeep_slot_def motd_get_def Collect_conv_if)
  have "loop_inv 3 s \<and> max_clients s = min 2 1024 \<and>
    (\<forall>i < max_clients s. \<forall>j < max_clients s. in_use (clients s ! i) \<and> in_use (clients s ! j) \<and>
       cl_st (clients s ! i) = CLT_AUTH_OK \<and> cl_st (clients s ! j) = CLT_AUTH_OK \<longrightarrow>
       cl_id (clients s ! i) \<noteq> 0 \<and> (cl_id (clients s ! i) = cl_id (clients s ! j) \<longrightarrow> i = j))"
    by (rule server_run_invariant [OF run(1), where bound = 1])
      (auto simp: fresh_accept_def demo_accept_def)
  with run show ?thesis by (auto simp: in_use_def)
qed

section \<open>Messages\<close>

definition login_msg :: mbuf where
  "login_msg = attr_msg MSG_TYPE_LOGIN_REQ 0 (MSG_ATTR_USERNAME, [98, 111, 98, 0])"

definition demo_login :: server where
  "demo_login = demo_server [demo_client 4 0 CLT_PRE_LOGIN None (Some login_msg),
     demo_client 5 2 CLT_AUTH_OK (Some [97, 110, 110]) None] demo_udb"

lemma demo_login_ok: "msg_ok 3 demo_login" "received 0 login_msg demo_login"
    "safe_request 0 login_msg demo_login" "HDR_GET_DSTID login_msg = 0"
    "HDR_GET_TYPE login_msg = MSG_TYPE_LOGIN_REQ"
proof -
  show "msg_ok 3 demo_login"
    unfolding demo_login_def by (rule demo_msg_ok) (auto simp: demo_udb_inv)
  show "received 0 login_msg demo_login"
    by (simp add: received_def demo_login_def login_msg_def)
  show "safe_request 0 login_msg demo_login"
    by (simp add: safe_request_def demo_login_def login_msg_def terminated_def type_values)
qed (simp_all add: login_msg_def)

text \<open>C2: The server implements the abstract session protocol: handling any message that
  does not fail is one step of it (login with a new or known name, authentication with the key the
  account holds, logout, registration, removal of an account, or nothing), and the state stays well formed.\<close>

theorem message_refines_protocol:
  assumes "msg_ok lfd s" and "received i p s" and "process_msg ts i s = Inr (r, s')"
  shows "session_step i (presents (stamped (clients s ! i) p)) (proto_of s) (proto_of s') \<and> msg_ok lfd s'"
  using process_msg_step [OF assms] process_msg_good(1) [OF assms] by blast

theorem message_refines_protocol_witness:
  "\<exists>r s'. process_msg 7 0 demo_login = Inr (r, s') \<and>
     session_step 0 (presents login_msg) (proto_of demo_login) (proto_of s') \<and> msg_ok 3 s'"
proof -
  obtain r s' where run: "process_msg 7 0 demo_login = Inr (r, s')"
    using process_msg_total [OF demo_login_ok(1,2,3)] .
  have "stamped (clients demo_login ! 0) login_msg = login_msg"
    by (simp add: stamped_def demo_login_def)
  with message_refines_protocol [OF demo_login_ok(1,2) run] run show ?thesis by auto
qed

text \<open>C7: Every request to the server that it is prepared for gets exactly one answer: a well-framed
  response or error response to that request, appended to the send queue of the client it came from.
  The hypothesis \<open>safe_request\<close> says what the server is prepared for: the name of a login, the
  key of a registration and the digest of an authentication have a terminator, the session of an
  authentication has a key, and the peer list fits into a message. Without the last two the server
  ends or faults instead of answering (\<open>peer_list_complete_or_dies\<close>, \<open>unusable_key_kills\<close>), without the
  first it reads behind the message.\<close>

theorem request_answered:
  assumes "msg_ok lfd s" and "received i p s" and "safe_request i p s"
    and "HDR_GET_DSTID p = 0" and "MCLASS_IS_REQ (HDR_GET_TYPE p)"
  shows "\<exists>r s' q. process_msg ts i s = Inr (r, s') \<and> is_answer (stamped (clients s ! i) p) q \<and>
    cl_queue (clients s' ! i) = cl_queue (clients s ! i) @ [q\<lparr>boff := 0\<rparr>] \<and>
    cl_rbuf (clients s' ! i) = None"
proof -
  obtain r s' q where run: "process_msg ts i s = Inr (r, s')" "is_answer (stamped (clients s ! i) p) q"
    "cl_queue (clients s' ! i) = cl_queue (clients s ! i) @ [q\<lparr>boff := 0\<rparr>]"
    using process_msg_answer [OF assms] .
  with process_msg_good(4) [OF assms(1,2) run(1)] show ?thesis by blast
qed

theorem request_answered_witness:
  "\<exists>r s' q. process_msg 7 0 demo_login = Inr (r, s') \<and> is_answer login_msg q \<and>
    cl_queue (clients s' ! 0) = [q\<lparr>boff := 0\<rparr>] \<and> cl_rbuf (clients s' ! 0) = None"
proof -
  have "MCLASS_IS_REQ (HDR_GET_TYPE login_msg)"
    by (simp add: demo_login_ok MCLASS_IS_REQ_def MTYPE_GET_CLASS_def type_values)
  from request_answered [OF demo_login_ok(1,2,3,4) this, of 7]
  show ?thesis by (simp add: demo_login_def stamped_def)
qed

text \<open>C10: Before it is authorised, a client reaches nothing but login, authentication and
  registration at the server: any other message, and every message to a peer or to all, is
  answered by \<open>Forbidden\<close> and changes nothing but the client's send queue.\<close>

theorem unauthorised_forbidden:
  assumes "received i p s" and "cl_st (clients s ! i) \<noteq> CLT_AUTH_OK"
    and "HDR_GET_DSTID p \<noteq> 0 \<or> HDR_GET_TYPE p \<noteq> MSG_TYPE_LOGIN_REQ \<and>
      HDR_GET_TYPE p \<noteq> MSG_TYPE_AUTH_REQ \<and> HDR_GET_TYPE p \<noteq> MSG_TYPE_REGISTER_REQ"
  shows "\<exists>q. process_msg ts i s = Inr (- 1, answered i q s) \<and>
    error_answer ts SC_FORBIDDEN (stamped (clients s ! i) p) q"
proof -
  let ?p = "stamped (clients s ! i) p"
  let ?s = "set_rbuf i (Some ?p) s"
  note i = receivedD [OF assms(1)]
  have st: "cl_st (clients ?s ! i) \<noteq> CLT_AUTH_OK" using assms(2) i by simp
  have "(if HDR_GET_DSTID p = 0 then process_server_msg ts i ?p ?s
      else if HDR_GET_DSTID p = - 1 then process_broadcast_msg ts i ?p ?s
      else process_forward_msg ts i ?p ?s) = ret (- 1) (error_reply ts SC_FORBIDDEN i ?p ?s)"
    using st assms(3) stamped_fields(1) [OF i(6), of "clients s ! i"]
    by (auto simp: process_server_msg_def process_broadcast_msg_def process_forward_msg_def Let_def)
  from error_delivery [OF assms(1) this] process_msg_cases [OF assms(1), of ts]
  show ?thesis by metis
qed

theorem unauthorised_forbidden_witness:
  "\<exists>q. process_msg 7 0 (demo_server [demo_client 4 0 CLT_PRE_LOGIN None
        (Some (plain_msg MSG_TYPE_OFFER_REQ 5))] demo_udb) = Inr (- 1, answered 0 q
      (demo_server [demo_client 4 0 CLT_PRE_LOGIN None (Some (plain_msg MSG_TYPE_OFFER_REQ 5))] demo_udb)) \<and>
    error_answer 7 SC_FORBIDDEN (plain_msg MSG_TYPE_OFFER_REQ 5) q"
  using unauthorised_forbidden [of 0 "plain_msg MSG_TYPE_OFFER_REQ 5" "demo_server
      [demo_client 4 0 CLT_PRE_LOGIN None (Some (plain_msg MSG_TYPE_OFFER_REQ 5))] demo_udb" 7]
  by (simp add: received_def stamped_def)

text \<open>C9: A message of a kind peers exchange, from an authorised client to an authorised peer,
  is appended to the peer's send queue as it is but for the source, which is the sender's own
  identifier whatever the message claimed; nothing goes back to the sender.\<close>

theorem forwarded_with_true_source:
  assumes rcv: "received i p s" and st: "cl_st (clients s ! i) = CLT_AUTH_OK"
    and fw: "forwardable (HDR_GET_TYPE p)" and dst: "HDR_GET_DSTID p \<noteq> 0" "HDR_GET_DSTID p \<noteq> - 1"
    and j: "j < max_clients s" "addressee (HDR_GET_DSTID p) (clients s ! j)"
    and uniq: "\<And>k. k < max_clients s \<Longrightarrow> addressee (HDR_GET_DSTID p) (clients s ! k) \<Longrightarrow> k = j"
  shows "\<exists>s'. process_msg ts i s = Inr (0, s') \<and> cl_rbuf (clients s' ! i) = None \<and>
    cl_queue (clients s' ! j) = cl_queue (clients s ! j) @ [(HDR_SET_SRCID (cl_id (clients s ! i)) p)\<lparr>boff := 0\<rparr>] \<and>
    (\<forall>k < max_clients s. k \<noteq> j \<longrightarrow> cl_queue (clients s' ! k) = cl_queue (clients s ! k))"
proof -
  note i = receivedD [OF rcv]
  show ?thesis
    using forward_msg [OF rcv st fw dst j uniq, of ts] relayed [OF i(1) j(1)] i(1) j(1) by simp
qed

theorem forwarded_with_true_source_witness:
  "\<exists>s'. process_msg 7 0 (demo_server [demo_client 4 2 CLT_AUTH_OK (Some [97, 110, 110]) (Some (plain_msg MSG_TYPE_OFFER_REQ 5)),
        demo_client 5 5 CLT_AUTH_OK (Some [98, 111, 98]) None] demo_udb) = Inr (0, s') \<and>
    cl_queue (clients s' ! 1) = [(HDR_SET_SRCID 2 (plain_msg MSG_TYPE_OFFER_REQ 5))\<lparr>boff := 0\<rparr>] \<and>
    cl_queue (clients s' ! 0) = []"
proof -
  let ?s = "demo_server [demo_client 4 2 CLT_AUTH_OK (Some [97, 110, 110]) (Some (plain_msg MSG_TYPE_OFFER_REQ 5)),
        demo_client 5 5 CLT_AUTH_OK (Some [98, 111, 98]) None] demo_udb"
  have "received 0 (plain_msg MSG_TYPE_OFFER_REQ 5) ?s" by (simp add: received_def)
  moreover have "k = 1" if "k < max_clients ?s" "addressee (HDR_GET_DSTID (plain_msg MSG_TYPE_OFFER_REQ 5)) (clients ?s ! k)" for k
    using that by (cases k) (simp_all add: addressee_def)
  ultimately show ?thesis
    using forwarded_with_true_source [of 0 "plain_msg MSG_TYPE_OFFER_REQ 5" ?s 1 7]
    by (auto simp: addressee_def forwardable_def)
qed

section \<open>Logging in\<close>

text \<open>C12: Logging in with a name that has no account: if a connected client uses the name,
  whatever its case, the answer is \<open>Conflict\<close> and nothing else changes; otherwise the client is
  authorised at once under that name and a fresh temporary identifier, and no other client changes.
  The name can be any string, the empty one included: this branch of the login does not check the form
  that doc/protocol.txt demands of a name, letters, digits and underscores, three to 31 of them.\<close>

theorem login_without_account:
  assumes ok: "msg_ok lfd s" and rcv: "received i p s" and dst: "HDR_GET_DSTID p = 0"
    and ty: "HDR_GET_TYPE p = MSG_TYPE_LOGIN_REQ" and st: "cl_st (clients s ! i) = CLT_PRE_LOGIN"
    and attr: "attrs p = (MSG_ATTR_USERNAME, n @ 0 # junk) # as" and n: "is_cstring n"
    and acc: "udb_map (srv_udb s) n = None"
  shows "if \<exists>c \<in> set (clients s). name_taken n c
    then \<exists>q. process_msg ts i s = Inr (0, answered i q s) \<and> error_answer ts SC_CONFLICT p q
    else \<exists>s' mt q. process_msg ts i s = Inr (0, s') \<and> motd_text s = Inr mt \<and>
      ok_answer ts (ok_attrs mt) p q \<and>
      clients s' = (clients s)[i := (clients s ! i)\<lparr>cl_st := CLT_AUTH_OK, cl_id := next_id (srv_udb s),
        cl_name := Some n, cl_key := None, cl_rbuf := None,
        cl_queue := cl_queue (clients s ! i) @ [q\<lparr>boff := 0\<rparr>]\<rparr>] \<and>
      srv_udb s' = (srv_udb s)\<lparr>next_id := next_id (srv_udb s) + 1\<rparr>"
proof -
  note i = receivedD [OF rcv]
  let ?s = "set_rbuf i (Some p) s"
  have sp: "stamped (clients s ! i) p = p" by (rule stamped_pre_login [OF st])
  obtain m where h: "srv_login ts i (mbuf_resetgetattrib p) ?s = srv_login_unregistered ts i (p\<lparr>boff := m\<rparr>) n ?s"
    using login_received [OF ok rcv st attr n, of ts] acc by auto
  have taken: "find_slot (name_taken n) (clients ?s) \<noteq> max_clients ?s \<longleftrightarrow> (\<exists>c \<in> set (clients s). name_taken n c)"
  proof -
    have "name_taken n ((clients s ! i)\<lparr>cl_rbuf := x\<rparr>) = name_taken n (clients s ! i)" for x
      by (simp add: name_taken_def)
    then have "map (name_taken n) (clients ?s) = map (name_taken n) (clients s)"
      by (simp add: map_update list_update_id [of "map (name_taken n) (clients s)" i, simplified nth_map [OF i(2)]])
    then have "(\<exists>c \<in> set (clients ?s). name_taken n c) \<longleftrightarrow> (\<exists>c \<in> set (clients s). name_taken n c)"
      by (metis (no_types, lifting) in_set_conv_nth length_map nth_map)
    then show ?thesis using find_slot_none [of "name_taken n" "clients ?s"] by (auto simp: max_clients_def)
  qed
  have run: "process_server_msg ts i (stamped (clients s ! i) p) (set_rbuf i (Some (stamped (clients s ! i) p)) s)
      = ret 0 (srv_login_unregistered ts i (p\<lparr>boff := m\<rparr>) n ?s)"
    unfolding sp login_dispatch [OF ty] h ..
  show ?thesis
  proof (cases "\<exists>c \<in> set (clients s). name_taken n c")
    case True
    obtain q where "error_reply ts SC_CONFLICT i (p\<lparr>boff := m\<rparr>) ?s = Inr (set_rbuf i (Some q) ?s)"
      "error_answer ts SC_CONFLICT p q"
      using error_reply_ok [of "p\<lparr>boff := m\<rparr>" ts SC_CONFLICT i ?s] i(6) by auto
    with True taken handled [OF rcv dst, of ts 0 q s] show ?thesis
      using run i(1) by (auto simp: srv_login_unregistered_def)
  next
    case False
    obtain mt where mt: "motd_text s = Inr mt" "length mt < 4000"
      using motd_text_ok [of s] ok by (auto simp: msg_ok_def)
    let ?t = "upd_client i (\<lambda>c. c\<lparr>cl_st := CLT_AUTH_OK, cl_id := next_id (srv_udb s), cl_name := Some n,
        cl_key := None\<rparr>) (?s\<lparr>srv_udb := (srv_udb s)\<lparr>next_id := next_id (srv_udb s) + 1\<rparr>\<rparr>)"
    obtain q where q: "ok_reply ts [ok_attr, notice_attr mt] i (p\<lparr>boff := m\<rparr>) ?t = Inr (set_rbuf i (Some q) ?t)"
      "ok_answer ts (ok_attrs mt) p q"
      using ok_notice_reply [of "p\<lparr>boff := m\<rparr>" mt ts i ?t] i(6) mt(2) by auto
    have "udb_gettempid (srv_udb s) = Inr (next_id (srv_udb s), (srv_udb s)\<lparr>next_id := next_id (srv_udb s) + 1\<rparr>)"
      using ok by (simp add: msg_ok_def udb_gettempid_inv)
    then have "srv_login_unregistered ts i (p\<lparr>boff := m\<rparr>) n ?s = Inr (set_rbuf i (Some q) ?t)"
      using False taken mt(1) q(1) by (simp add: srv_login_unregistered_def)
    with run handled [OF rcv dst, of ts 0 q ?t] have "process_msg ts i s = Inr (0, answered i q ?t)"
      by simp
    moreover have "clients (answered i q ?t) = (clients s)[i := (clients s ! i)\<lparr>cl_st := CLT_AUTH_OK,
        cl_id := next_id (srv_udb s), cl_name := Some n, cl_key := None, cl_rbuf := None,
        cl_queue := cl_queue (clients s ! i) @ [q\<lparr>boff := 0\<rparr>]\<rparr>]"
      using i(2) by (cases "clients s ! i") (simp add: answered_def list_enq_def)
    moreover have "srv_udb (answered i q ?t) = (srv_udb s)\<lparr>next_id := next_id (srv_udb s) + 1\<rparr>"
      by (simp add: answered_def)
    ultimately show ?thesis
      unfolding if_not_P [OF False] using mt(1) q(2) by blast
  qed
qed

text \<open>A login as \<^verbatim>\<open>bob\<close>, and one with the empty name, which is not a valid one.\<close>

definition nameless_msg :: mbuf where
  "nameless_msg = attr_msg MSG_TYPE_LOGIN_REQ 0 (MSG_ATTR_USERNAME, [0])"

definition demo_nameless :: server where
  "demo_nameless = demo_server [demo_client 4 0 CLT_PRE_LOGIN None (Some nameless_msg)] demo_udb"

theorem login_without_account_witness:
  "(\<exists>s' mt q. process_msg 7 0 demo_login = Inr (0, s') \<and> ok_answer 7 (ok_attrs mt) login_msg q \<and>
     cl_st (clients s' ! 0) = CLT_AUTH_OK \<and> cl_id (clients s' ! 0) = 9 \<and> cl_name (clients s' ! 0) = Some [98, 111, 98]) \<and>
   (\<exists>s' mt q. process_msg 7 0 demo_nameless = Inr (0, s') \<and> ok_answer 7 (ok_attrs mt) nameless_msg q \<and>
     cl_st (clients s' ! 0) = CLT_AUTH_OK \<and> cl_name (clients s' ! 0) = Some [] \<and> udb_nameisvalid [] \<noteq> 0)"
proof
  have ok: "msg_ok 3 demo_nameless"
    unfolding demo_nameless_def by (rule demo_msg_ok) (auto simp: demo_udb_inv)
  have rcv: "received 0 nameless_msg demo_nameless"
    by (simp add: received_def demo_nameless_def nameless_msg_def)
  have ty: "HDR_GET_DSTID nameless_msg = 0" "HDR_GET_TYPE nameless_msg = MSG_TYPE_LOGIN_REQ"
      "attrs nameless_msg = (MSG_ATTR_USERNAME, [] @ 0 # []) # []"
    by (simp_all add: nameless_msg_def)
  have "\<not> (\<exists>c \<in> set (clients demo_nameless). name_taken [] c)" by (simp add: demo_nameless_def name_taken_def)
  moreover have "udb_nameisvalid [] \<noteq> 0" by (simp add: udb_nameisvalid_def UNAME_RE_def)
  ultimately show "\<exists>s' mt q. process_msg 7 0 demo_nameless = Inr (0, s') \<and> ok_answer 7 (ok_attrs mt) nameless_msg q \<and>
     cl_st (clients s' ! 0) = CLT_AUTH_OK \<and> cl_name (clients s' ! 0) = Some [] \<and> udb_nameisvalid [] \<noteq> 0"
    using login_without_account [OF ok rcv ty(1,2) _ ty(3), of 7]
    by (auto simp: demo_nameless_def is_cstring_def demo_udb_inv) blast
  have attr: "attrs login_msg = (MSG_ATTR_USERNAME, [98, 111, 98] @ 0 # []) # []" by (simp add: login_msg_def)
  have "stricmp [97, 110, 110] [98, 111, 98] \<noteq> 0"
    by (subst stricmp_eq_0_iff) (simp_all add: is_cstring_def tolower_def)
  then have "\<not> (\<exists>c \<in> set (clients demo_login). name_taken [98, 111, 98] c)"
    by (simp add: demo_login_def name_taken_def)
  with login_without_account [OF demo_login_ok(1,2,4,5) _ attr, of 7]
  show "\<exists>s' mt q. process_msg 7 0 demo_login = Inr (0, s') \<and> ok_answer 7 (ok_attrs mt) login_msg q \<and>
     cl_st (clients s' ! 0) = CLT_AUTH_OK \<and> cl_id (clients s' ! 0) = 9 \<and> cl_name (clients s' ! 0) = Some [98, 111, 98]"
    by (auto simp: demo_login_def is_cstring_def demo_udb_inv) (auto simp: demo_udb_def)
qed

text \<open>C11: Authentication: a digest that equals the key the login has fixed makes the client
  authorised and ends every other session of the same identity; any other digest is answered by
  \<open>Unauthorized\<close> and puts the state of the client back to the one before a login, and this only: the
  identifier, the name and the key of the account, which the login has set, stay in its entry. Nothing
  else changes.\<close>

theorem authentication:
  assumes ok: "msg_ok lfd s" and rcv: "received i p s" and dst: "HDR_GET_DSTID p = 0"
    and ty: "HDR_GET_TYPE p = MSG_TYPE_AUTH_REQ" and st: "cl_st (clients s ! i) = CLT_LOGIN_OK"
    and key: "cl_key (clients s ! i) = Some k" "is_cstring k"
    and attr: "attrs p = (MSG_ATTR_DIGEST, n @ 0 # junk) # as" and n: "is_cstring n"
  shows "if n = k
    then \<exists>s' mt q. process_msg ts i s = Inr (0, s') \<and> motd_text s = Inr mt \<and>
      ok_answer ts (ok_attrs mt) (stamped (clients s ! i) p) q \<and>
      cl_queue (clients s' ! i) = cl_queue (clients s ! i) @ [q\<lparr>boff := 0\<rparr>] \<and>
      proto_of s' = set_sess i (Some (session_of (clients s ! i)\<lparr>ss_st := CLT_AUTH_OK\<rparr>))
        (drop_same_id i (cl_id (clients s ! i)) (proto_of s))
    else \<exists>q. process_msg ts i s = Inr (0, answered i q (upd_client i (cl_st_update (\<lambda>_. CLT_PRE_LOGIN)) s)) \<and>
      error_answer ts SC_UNAUTHORIZED (stamped (clients s ! i) p) q"
  by (rule digest_checked [OF assms])

definition demo_auth :: server where
  "demo_auth = demo_server [demo_client 4 2 CLT_LOGIN_OK (Some [97])
       (Some (attr_msg MSG_TYPE_AUTH_REQ 0 (MSG_ATTR_DIGEST, [120, 0])))\<lparr>cl_key := Some [120]\<rparr>,
     demo_client 5 2 CLT_AUTH_OK (Some [97]) None] demo_udb"

theorem authentication_witness:
  "\<exists>s'. process_msg 7 0 demo_auth = Inr (0, s') \<and> cl_st (clients s' ! 0) = CLT_AUTH_OK \<and>
     pr_sess (proto_of s') 1 = None"
proof -
  let ?p = "attr_msg MSG_TYPE_AUTH_REQ 0 (MSG_ATTR_DIGEST, [120, 0])"
  have ok: "msg_ok 3 demo_auth"
    unfolding demo_auth_def by (rule demo_msg_ok) (auto simp: demo_udb_inv)
  have rcv: "received 0 ?p demo_auth" by (simp add: received_def demo_auth_def)
  obtain s' where s': "process_msg 7 0 demo_auth = Inr (0, s')"
    "proto_of s' = set_sess 0 (Some (session_of (clients demo_auth ! 0)\<lparr>ss_st := CLT_AUTH_OK\<rparr>))
        (drop_same_id 0 (cl_id (clients demo_auth ! 0)) (proto_of demo_auth))"
    using authentication [OF ok rcv, of "[120]" "[120]" "[]" "[]" 7]
    by (auto simp: demo_auth_def is_cstring_def)
  then have "pr_sess (proto_of s') 1 = None" "pr_sess (proto_of s') 0 \<noteq> None"
    "ss_st (the (pr_sess (proto_of s') 0)) = CLT_AUTH_OK"
    by (simp_all add: drop_same_id_def demo_auth_def)
  with s'(1) show ?thesis by (auto split: if_splits)
qed

section \<open>The user database\<close>

text \<open>C14: An account that is added is there after a restart of the server, with all others:
  the file written by \<open>udb_save\<close> is read back by \<open>udb_load\<close> to the same map from names to
  accounts, the new one included. This holds for a valid name without an account (\<open>can_add\<close>), a
  writable user database, a database all of whose entries, the new one included, a line of the file can
  hold (\<open>storable\<close>: an identifier other than 0, a single name of the right form, a key without line feed
  and carriage return, name and key together shorter than 15981 octets), and while the identifiers are below the last two of
  the 64-bit counter. A key with a line end does break it, see \<open>key_injects_accounts\<close>.\<close>

theorem added_account_survives_restart:
  assumes inv: "udb_inv d" and path: "userdb_path d = Some p" and can: "can_add d n"
    and st: "\<forall>e \<in> set (userdb d). storable e" "storable (new_entry d i n k)"
    and ids: "ids_below d" "unat i < 2 ^ 64 - 2" "unat (next_id d) < 2 ^ 64 - 2"
  shows "\<exists>d' d''. udb_addentry d i (Some n) (Some k) = Inr (Inr (new_entry d i n k), d') \<and>
    udb_init (udb_start (udb_fs d')) p = Inr (0, d'') \<and>
    udb_map d'' = (udb_map d)(n \<mapsto> new_entry d i n k) \<and> ids_below d''"
proof -
  obtain r where load: "udb_load d (userdb_path d) = Inr (r, d)" using udb_load_inv [OF inv] by blast
  let ?e = "new_entry d i n k"
  define d1 where "d1 = snd (udb_addentry_i d i (Some n) (Some k))"
  have add: "udb_addentry_i d i (Some n) (Some k) = (Inr ?e, d1)" and d1: "userdb d1 = ?e # userdb d"
    "userdb_path d1 = Some p" "udb_fs d1 = udb_fs d"
    and next1: "next_id d1 = (if next_id d \<le> u_id ?e then u_id ?e + 1 else next_id d)"
    using path can unfolding d1_def
    by (cases rule: udb_addentry_i_cases [of d n i k]; simp)+
  have wf: "udb_wf d1" unfolding d1_def using inv by (simp add: udb_inv_def udb_addentry_i_wf)
  have wr: "f_writable (udb_fs d1 p)" using inv path d1(3) by (simp add: udb_inv_def)
  have small: "i \<noteq> - 1" "next_id d \<noteq> - 1"
    using ids(2,3) by (auto simp: word_unat_eq_iff unsigned_minus_1_eq_mask mask_eq_exp_minus_1)
  have ids1: "ids_below d1" unfolding d1_def by (rule udb_addentry_i_ids [OF ids(1) small])
  have "unat (u_id ?e) < 2 ^ 64 - 2" using ids(2,3) by (simp add: new_entry_def)
  then have "unat (next_id d1) < 2 ^ 64 - 1"
    using ids(3) by (auto simp: next1 unat_word_ariths)
  then have next2: "next_id d1 \<noteq> - 1"
    by (auto simp: word_unat_eq_iff unsigned_minus_1_eq_mask mask_eq_exp_minus_1)
  obtain d2 where d2: "udb_save d1 (userdb_path d1) = Inr (0, d2)" "udb_inv d2" "userdb d2 = userdb d1"
    "next_id d2 = next_id d1" "userdb_path d2 = userdb_path d1"
    "f_content (udb_fs d2 p) = Some (concat (map save_line (userdb d1)))"
    using udb_save_inv [OF wf d1(2) wr] .
  have "udb_synced d2 p" using d1(2) d2 by (simp add: udb_synced_def)
  then obtain d3 where "udb_init (udb_start (udb_fs d2)) p = Inr (0, d3)" "udb_map d3 = udb_map d2" "ids_below d3"
  proof -
    have "udb_wf d2" "ids_below d2" "next_id d2 \<noteq> - 1" "\<forall>e \<in> set (userdb d2). storable e"
      using wf ids1 next2 st d1(1) d2(3,4) by (simp_all add: udb_wf_def ids_below_def)
    from udb_restart [OF this(1) \<open>udb_synced d2 p\<close> this(4,2,3)] that show thesis by blast
  qed
  moreover have "udb_map d2 = (udb_map d)(n \<mapsto> ?e)"
    using d1(1) d2(3) by (auto simp: udb_map_def new_entry_def fun_eq_iff)
  moreover have "udb_addentry d i (Some n) (Some k) = Inr (Inr ?e, d2)"
    using load add d2(1) by (simp add: udb_addentry_def)
  ultimately show ?thesis by metis
qed

theorem added_account_survives_restart_witness:
  "\<exists>d' d''. udb_addentry demo_udb 0 (Some [98, 111, 98]) (Some [107]) =
      Inr (Inr \<lparr>u_id = 9, u_name = [98, 111, 98], u_key = [107]\<rparr>, d') \<and>
    udb_init (udb_start (udb_fs d')) [117] = Inr (0, d'') \<and>
    udb_map d'' = [[98, 111, 98] \<mapsto> \<lparr>u_id = 9, u_name = [98, 111, 98], u_key = [107]\<rparr>] \<and> ids_below d''"
proof -
  have e: "new_entry demo_udb 0 [98, 111, 98] [107] = \<lparr>u_id = 9, u_name = [98, 111, 98], u_key = [107]\<rparr>"
    by (simp add: new_entry_def demo_udb_def)
  have re: "UNAME_RE [98, 111, 98]" by (simp add: UNAME_RE_def name_char_def)
  have can: "can_add demo_udb [98, 111, 98]"
    using udb_nameisvalid_UNAME_RE [OF re] by (simp add: can_add_def demo_udb_inv)
  have "storable (new_entry demo_udb 0 [98, 111, 98] [107])"
    using re by (simp add: e storable_def is_cstring_def)
  from added_account_survives_restart [OF demo_udb_inv(1) _ can _ this, of "[117]"]
  show ?thesis by (simp add: e demo_udb_inv(2)) (simp add: demo_udb_def ids_below_def)
qed

text \<open>C30: An account stays what it is through any sequence of registrations and removals
  that does not remove it: no other user's operation can change its identifier or its key.\<close>

theorem account_untouched:
  assumes "udb_inv d" and "udb_map d n = Some e" and "Drop_Account n \<notin> set xs"
  shows "\<exists>d'. us.run_ops xs d = Inr d' \<and> udb_inv d' \<and> udb_map d' n = Some e"
  by (rule us.account_stable [OF assms])

theorem account_untouched_witness:
  "\<exists>d'. us.run_ops [Add_Account 3 [98, 111, 98] [107], Drop_Account [98, 111, 98]]
      (demo_udb\<lparr>userdb := [\<lparr>u_id = 1, u_name = [97, 110, 110], u_key = []\<rparr>]\<rparr>) = Inr d' \<and>
    udb_map d' [97, 110, 110] = Some \<lparr>u_id = 1, u_name = [97, 110, 110], u_key = []\<rparr>"
proof -
  let ?d = "demo_udb\<lparr>userdb := [\<lparr>u_id = 1, u_name = [97, 110, 110], u_key = []\<rparr>]\<rparr>"
  have "udb_nameisvalid [97, 110, 110] = 0"
    by (rule udb_nameisvalid_UNAME_RE) (simp add: UNAME_RE_def name_char_def)
  then have "udb_inv ?d" by (simp add: udb_inv_def udb_wf_def demo_udb_def)
  moreover have "udb_map ?d [97, 110, 110] = Some \<lparr>u_id = 1, u_name = [97, 110, 110], u_key = []\<rparr>"
    by (simp add: udb_map_def demo_udb_def)
  ultimately show ?thesis
    using account_untouched [of ?d "[97, 110, 110]" _ "[Add_Account 3 [98, 111, 98] [107], Drop_Account [98, 111, 98]]"]
    by auto
qed

section \<open>Upkeep\<close>

text \<open>C23: Upkeep closes exactly the connections that have been silent too long, keeps the others
  in their order without their stale half-received messages, moves them to the front of the table, and
  leaves descriptor sets, queues and \<open>maxfd\<close> consistent; the user database is not touched.\<close>

theorem upkeep_compacts:
  assumes "fd_inv lfd s"
  shows "\<exists>j \<le> max_clients s. fd_inv lfd (upkeep now s) \<and>
    take j (clients (upkeep now s)) = survivors (cfg s) now (clients s) \<and>
    (\<forall>k < max_clients s. in_use (clients (upkeep now s) ! k) \<longleftrightarrow> k < j) \<and>
    (\<forall>fd \<in> used_fds (upkeep now s). fd \<le> maxfd (upkeep now s)) \<and>
    max_clients (upkeep now s) = max_clients s \<and> srv_udb (upkeep now s) = srv_udb s"
  by (rule upkeep_result [OF assms, of now]) blast

theorem upkeep_compacts_witness:
  "\<exists>j \<le> 2. take j (clients (upkeep 50 (demo_server [(demo_client 5 2 CLT_PRE_LOGIN None None)\<lparr>cl_act := - 20\<rparr>,
      demo_client 4 0 CLT_PRE_LOGIN None (Some login_msg)] demo_udb))) = [demo_client 4 0 CLT_PRE_LOGIN None None]"
proof -
  let ?cs = "[(demo_client 5 2 CLT_PRE_LOGIN None None)\<lparr>cl_act := - 20\<rparr>,
      demo_client 4 0 CLT_PRE_LOGIN None (Some login_msg)]"
  have "msg_ok 3 (demo_server ?cs demo_udb)" by (rule demo_msg_ok) (auto simp: demo_udb_inv)
  then have "fd_inv 3 (demo_server ?cs demo_udb)" by (simp add: msg_ok_def)
  then obtain j where "j \<le> max_clients (demo_server ?cs demo_udb)"
    "take j (clients (upkeep 50 (demo_server ?cs demo_udb)))
       = survivors (cfg (demo_server ?cs demo_udb)) 50 (clients (demo_server ?cs demo_udb))"
    using upkeep_compacts [of 3 "demo_server ?cs demo_udb" 50] by blast
  moreover have "survivors (cfg (demo_server ?cs demo_udb)) 50 (clients (demo_server ?cs demo_udb))
      = [demo_client 4 0 CLT_PRE_LOGIN None None]"
    by (simp add: survivors_def expired_def demo_server_def in_use_def demo_client_def resynced_def)
  ultimately show ?thesis by (intro exI [of _ j]) simp
qed

section \<open>The message of the day\<close>

text \<open>C32: The message of the day is the output of the configured command, when the command writes
  something, fewer than 4000 octets and no octet 0. When the command cannot be run or writes nothing
  the buffer keeps the text it had. In general the output comes in pieces, the C strings
  \<^verbatim>\<open>fgets\<close> makes of it (an octet 0 cuts its piece off). As long as the pieces before the last one
  have at most 4000 octets, the text is those pieces, from the first on, that fit into the buffer of 4000
  octets; the piece that does not fit is left out. But with more than 4000 octets before the last piece a
  piece is copied outside the buffer: the remaining room is computed in unsigned arithmetic and wraps around.\<close>

theorem motd_of_command:
  assumes ok: "motd_ok m"
  shows "(\<forall>out. out = None \<or> out = Some [] \<longrightarrow> (\<exists>m'. motd_get out m = Inr m' \<and> motd_buf m' = motd_buf m)) \<and>
    (\<forall>out. out \<noteq> [] \<and> length out < 4000 \<and> is_cstring out \<longrightarrow>
      (\<exists>m'. motd_get (Some out) m = Inr m' \<and> cstr_at (motd_buf m') 0 = Inr out)) \<and>
    (\<forall>out. out \<noteq> [] \<and> length out < 2 ^ 63 \<longrightarrow>
      (if length (concat (butlast (pcmd_pieces out))) \<le> 4000
       then \<exists>m'. motd_get (Some out) m = Inr m' \<and>
              cstr_at (motd_buf m') 0 = Inr (concat (fitting 4000 (pcmd_pieces out)))
       else motd_get (Some out) m = Inl OutOfBounds))"
proof -
  let ?m = "m\<lparr>motd_sz := 0\<rparr>"
  have pieces: "\<exists>m'. motd_get (Some out) m = Inr m' \<and> cstr_at (motd_buf m') 0 = Inr (concat (fitting 4000 (pcmd_pieces out)))"
    if "out \<noteq> []" "length out < 2 ^ 63" "length (concat (butlast (pcmd_pieces out))) \<le> 4000" for out
  proof -
    note before = that(3)
    have ne: "pcmd_pieces out \<noteq> []" using that by (simp add: pcmd_pieces_Nil_iff)
    then have first: "length (hd (pcmd_pieces out)) < 4000" using pcmd_pieces_cstring [of "hd (pcmd_pieces out)" out] by simp
    have len: "length (concat (pcmd_pieces out)) < 2 ^ 63" using pcmd_pieces_length [of out] that(2) by linarith
    obtain m' where "motd_cb_all (pcmd_pieces out) ?m = Inr m'"
        "cstr_at (motd_buf m') 0 = Inr (concat (fitting 4000 (pcmd_pieces out)))"
      by (rule motd_cb_all_text [of ?m "pcmd_pieces out", OF _ _ ne first _ len before])
        (use ok pcmd_pieces_cstring in \<open>auto simp: motd_ok_def\<close>)
    then show ?thesis by (simp add: motd_get_def)
  qed
  have over: "motd_get (Some out) m = Inl OutOfBounds"
    if "out \<noteq> []" "length out < 2 ^ 63" "\<not> length (concat (butlast (pcmd_pieces out))) \<le> 4000" for out
  proof -
    have ne: "pcmd_pieces out \<noteq> []" using that(1) by (simp add: pcmd_pieces_Nil_iff)
    then have sp: "pcmd_pieces out = butlast (pcmd_pieces out) @ [last (pcmd_pieces out)]" by simp
    have "length (concat (butlast (pcmd_pieces out))) + length (last (pcmd_pieces out)) < 2 ^ 63"
      using pcmd_pieces_length [of out] that(2) length_concat_last [OF ne] by linarith
    then have "motd_cb_all (butlast (pcmd_pieces out) @ [last (pcmd_pieces out)]) ?m = Inl OutOfBounds"
      using ok that(3) by (intro motd_cb_all_overflow) (auto simp: motd_ok_def)
    then show ?thesis using sp by (simp add: motd_get_def)
  qed
  have short: "\<exists>m'. motd_get (Some out) m = Inr m' \<and> cstr_at (motd_buf m') 0 = Inr out"
    if "out \<noteq> []" "length out < 4000" "is_cstring out" for out
  proof -
    have c: "concat (pcmd_pieces out) = out" using that(3) by (simp add: pcmd_pieces_concat is_cstring_def)
    then have "fitting 4000 (pcmd_pieces out) = pcmd_pieces out" using that(2) by (intro fitting_all) simp
    moreover have "length (concat (butlast (pcmd_pieces out))) \<le> length (concat (pcmd_pieces out))"
      using length_concat_last [of "pcmd_pieces out"] that(1) by (fastforce simp only: pcmd_pieces_Nil_iff)
    ultimately show ?thesis using pieces [OF that(1)] that(2) c by simp
  qed
  show ?thesis using short pieces over by (auto simp: motd_get_def)
qed

text \<open>Three outputs: a line, nothing, and six lines of 999 octets.\<close>

theorem motd_of_command_witness:
  "(\<exists>m'. motd_get (Some [72, 105, 10]) motd_start = Inr m' \<and> cstr_at (motd_buf m') 0 = Inr [72, 105, 10]) \<and>
   (\<exists>m'. motd_get (Some []) motd_start = Inr m' \<and> motd_buf m' = motd_buf motd_start) \<and>
   motd_get (Some (concat (map (\<lambda>l. l @ [10]) (replicate 6 (replicate 998 120))))) motd_start = Inl OutOfBounds"
proof -
  let ?out = "concat (map (\<lambda>l. l @ [10]) (replicate 6 (replicate 998 120))) :: byte list"
  have "pcmd_pieces ?out = map (\<lambda>l. l @ [10]) (replicate 6 (replicate 998 120))"
    by (rule pcmd_pieces_lines) simp
  then have "\<not> length (concat (butlast (pcmd_pieces ?out))) \<le> 4000"
    by (simp add: butlast_conv_take length_concat sum_list_replicate)
  moreover have "?out \<noteq> []" "length ?out < 2 ^ 63" by (simp_all add: length_concat sum_list_replicate)
  ultimately show ?thesis
    using motd_of_command [OF motd_start_ok] by (fastforce simp: is_cstring_def)
qed

section \<open>Inputs that make the server fail\<close>

text \<open>A name is valid when any one of its lines is: the expression is compiled with
  \<^verbatim>\<open>REG_NEWLINE\<close>, so its anchors match inside the string, and a name of the right form can be
  followed by a newline and anything else.\<close>

lemma name_check_per_line:
  "(udb_nameisvalid (l @ 10 # x) = 0 \<longleftrightarrow> udb_nameisvalid l = 0 \<or> udb_nameisvalid x = 0) \<and>
   (10 \<notin> set l \<longrightarrow> (udb_nameisvalid l = 0 \<longleftrightarrow> UNAME_RE l))"
proof -
  have "re_lines (l @ 10 # x) = re_lines l @ re_lines x"
  proof (induction l)
    case (Cons c l)
    then show ?case using re_lines_nonempty [of l] by (cases "re_lines l") auto
  qed simp
  then show ?thesis by (auto simp: udb_nameisvalid_def re_lines_single)
qed

lemma name_check_per_line_example: "udb_nameisvalid [98, 111, 98, 10, 33, 33, 124] = 0"
  using name_check_per_line [of "[98, 111, 98]" "[33, 33, 124]"]
  by (simp add: UNAME_RE_def name_char_def)

text \<open>C29: A registration with a key that contains a line end makes entries of the user's choice
  in the user database: once saved and read back, the file holds the account with the key cut at
  the line end, and then whatever the rest of the key spells, such as a further account.\<close>

theorem key_injects_accounts:
  assumes "storable e" and "storable f"
  shows "file_entries (save_line (e\<lparr>u_key := u_key e @ 10 # butlast (save_line f)\<rparr>) @ rest) =
    (u_id e, u_name e, u_key e) # (u_id f, u_name f, u_key f) # file_entries rest"
proof -
  have "save_line (e\<lparr>u_key := u_key e @ 10 # butlast (save_line f)\<rparr>) = save_line e @ save_line f"
    by (simp add: save_line_def butlast_append)
  then show ?thesis using file_entries_save_line [OF assms(1)] file_entries_save_line [OF assms(2)] by simp
qed

theorem key_injects_accounts_witness:
  "file_entries (save_line \<lparr>u_id = 1, u_name = [98, 111, 98],
       u_key = 107 # 10 # hex_digits 16 2 @ [124, 97, 110, 110, 124, 120]\<rparr>)
     = [(1, [98, 111, 98], [107]), (2, [97, 110, 110], [120])]"
proof -
  let ?e = "\<lparr>u_id = 1, u_name = [98, 111, 98], u_key = [107]\<rparr>"
  let ?f = "\<lparr>u_id = 2, u_name = [97, 110, 110], u_key = [120]\<rparr>"
  have "storable ?e" "storable ?f"
    by (simp_all add: storable_def UNAME_RE_def name_char_def is_cstring_def)
  from key_injects_accounts [OF this, of "[]"] show ?thesis
    by (simp add: save_line_def DELIM_def butlast_append)
qed

text \<open>C28: An account whose key does not start with the plain-text prefix cannot be used, but its
  login still moves the client to the state of a started login, without a key to compare with: the
  next authentication request that carries a digest dereferences the null pointer.\<close>

theorem unusable_key_kills:
  assumes ok: "msg_ok lfd s" and rcv: "received i p s" and dst: "HDR_GET_DSTID p = 0"
    and ty: "HDR_GET_TYPE p = MSG_TYPE_AUTH_REQ" and st: "cl_st (clients s ! i) = CLT_LOGIN_OK"
    and key: "cl_key (clients s ! i) = None" and attr: "attrs p = (MSG_ATTR_DIGEST, v) # as"
  shows "process_msg ts i s = Inl NullDeref"
proof -
  note i = receivedD [OF rcv]
  let ?p = "stamped (clients s ! i) p"
  have p: "mbuf_framed ?p" "attrs ?p = (MSG_ATTR_DIGEST, v) # as" "HDR_GET_TYPE ?p = MSG_TYPE_AUTH_REQ"
    using stamped_framed [OF i(5)] stamped_fields [OF i(6)] attr ty by simp_all
  obtain av m where "first_attr MSG_ATTR_DIGEST (mbuf_resetgetattrib ?p) = (Some av, ?p\<lparr>boff := m\<rparr>)"
    using first_attr_Some [OF p(1,2)] by blast
  then have "srv_auth ts i (mbuf_resetgetattrib ?p) (set_rbuf i (Some ?p) s) = Inl NullDeref"
    using st key i(1,2) by (simp add: srv_auth_def)
  with process_msg_cases [OF rcv, of ts] dst auth_dispatch [OF p(3)] show ?thesis by simp
qed

theorem unusable_key_kills_witness:
  "process_msg 7 0 (demo_server [demo_client 4 2 CLT_LOGIN_OK (Some [97])
     (Some (attr_msg MSG_TYPE_AUTH_REQ 0 (MSG_ATTR_DIGEST, [120, 0])))] demo_udb) = Inl NullDeref"
proof -
  let ?p = "attr_msg MSG_TYPE_AUTH_REQ 0 (MSG_ATTR_DIGEST, [120, 0])"
  let ?s = "demo_server [demo_client 4 2 CLT_LOGIN_OK (Some [97]) (Some ?p)] demo_udb"
  have "msg_ok 3 ?s" by (rule demo_msg_ok) (auto simp: demo_udb_inv)
  moreover have "received 0 ?p ?s" by (simp add: received_def)
  ultimately show ?thesis
    using unusable_key_kills [of 3 ?s 0 ?p "[120, 0]" "[]" 7] by simp
qed

text \<open>C13: Logging in with a name that has an account: the client takes over the identity of the
  account without being authorised yet. With a plain-text key the answer is a challenge and the key is
  the one to present; with any other key the answer is \<open>Method Not Allowed\<close>, yet the login has
  begun all the same, and the key to present is whatever an earlier login left behind.\<close>

theorem login_with_account:
  assumes ok: "msg_ok lfd s" and rcv: "received i p s" and dst: "HDR_GET_DSTID p = 0"
    and ty: "HDR_GET_TYPE p = MSG_TYPE_LOGIN_REQ" and st: "cl_st (clients s ! i) = CLT_PRE_LOGIN"
    and attr: "attrs p = (MSG_ATTR_USERNAME, n @ 0 # junk) # as" and n: "is_cstring n"
    and acc: "udb_map (srv_udb s) n = Some u"
  shows "\<exists>q s'. process_msg ts i s = Inr (0, s') \<and>
    cl_queue (clients s' ! i) = cl_queue (clients s ! i) @ [q\<lparr>boff := 0\<rparr>] \<and>
    (if take (length AUTH_KEY_PLAINTEXT) (u_key u) = AUTH_KEY_PLAINTEXT
     then ok_answer ts [(MSG_ATTR_CHALLENGE, AUTH_KEY_PLAINTEXT @ [0])] p q \<and>
       proto_of s' = set_sess i (Some \<lparr>ss_st = CLT_LOGIN_OK, ss_id = u_id u, ss_name = Some n,
         ss_key = Some (u_key u)\<rparr>) (proto_of s)
     else error_answer ts SC_METHOD_NOT_ALLOWED p q \<and>
       proto_of s' = set_sess i (Some \<lparr>ss_st = CLT_LOGIN_OK, ss_id = u_id u, ss_name = Some n,
         ss_key = cl_key (clients s ! i)\<rparr>) (proto_of s))"
  by (rule login_begins [OF assms])

theorem login_with_account_witness:
  "let s = demo_server [demo_client 4 0 CLT_PRE_LOGIN None (Some login_msg)]
       (demo_udb\<lparr>userdb := [\<lparr>u_id = 1, u_name = [98, 111, 98], u_key = [120]\<rparr>]\<rparr>) in
   \<exists>q s'. process_msg 7 0 s = Inr (0, s') \<and> error_answer 7 SC_METHOD_NOT_ALLOWED login_msg q \<and>
     proto_of s' = set_sess 0 (Some \<lparr>ss_st = CLT_LOGIN_OK, ss_id = 1, ss_name = Some [98, 111, 98],
       ss_key = None\<rparr>) (proto_of s)"
proof -
  let ?d = "demo_udb\<lparr>userdb := [\<lparr>u_id = 1, u_name = [98, 111, 98], u_key = [120]\<rparr>]\<rparr>"
  let ?s = "demo_server [demo_client 4 0 CLT_PRE_LOGIN None (Some login_msg)] ?d"
  have "udb_nameisvalid [98, 111, 98] = 0"
    by (rule udb_nameisvalid_UNAME_RE) (simp add: UNAME_RE_def name_char_def)
  then have db: "udb_inv ?d" "udb_map ?d [98, 111, 98] = Some \<lparr>u_id = 1, u_name = [98, 111, 98], u_key = [120]\<rparr>"
    by (simp_all add: udb_inv_def udb_wf_def demo_udb_def udb_map_def)
  have ok: "msg_ok 3 ?s" by (rule demo_msg_ok) (auto simp: db)
  have rcv: "received 0 login_msg ?s" by (simp add: received_def login_msg_def)
  have attr: "attrs login_msg = (MSG_ATTR_USERNAME, [98, 111, 98] @ 0 # []) # []" by (simp add: login_msg_def)
  have "take (length AUTH_KEY_PLAINTEXT) [120] \<noteq> AUTH_KEY_PLAINTEXT"
    by (simp add: AUTH_KEY_PLAINTEXT_def str_def)
  with login_with_account [OF ok rcv demo_login_ok(4,5) _ attr, of _ 7] db(2)
  show ?thesis by (auto simp: is_cstring_def Let_def)
qed

lemma add_peers_exact:
  "tlv_msg h as p \<Longrightarrow> named cs \<Longrightarrow>
     add_peers cs p = Inl Die \<or> (\<exists>q. add_peers cs p = Inr q \<and> tlv_msg h (as @ peer_attrs cs) q)"
proof (induction cs arbitrary: as p)
  case (Cons c cs)
  have nm: "named cs" using Cons.prems(2) by (simp add: named_def)
  have step: "mbuf_addattrib at l v p = Inl Die \<or>
      (\<exists>q. mbuf_addattrib at l v p = Inr q \<and> tlv_msg h (as @ [(at, val)]) q)"
    if "tlv_msg h as p" "attr_call at l v = Some val" for at l v val as p
    using tlv_msg_Die [OF that] tlv_msg_add [OF that] by (metis not_le)
  show ?case
  proof (cases "0 \<le> cl_fd c \<and> cl_st c = CLT_AUTH_OK")
    case False
    with Cons.IH [OF Cons.prems(1) nm] show ?thesis by auto
  next
    case True
    then obtain n where n: "cl_name c = Some n" using Cons.prems(2) by (auto simp: named_def in_use_def)
    from step [OF Cons.prems(1) attr_calls(2) [of 8 "cl_id c"]] show ?thesis
    proof (elim disjE exE conjE)
      fix q1 assume q1: "mbuf_addattrib MSG_ATTR_PEERID 8 (VA_UI64 (cl_id c)) p = Inr q1"
        "tlv_msg h (as @ [(MSG_ATTR_PEERID, be_bytes 8 (cl_id c))]) q1"
      from step [OF q1(2) attr_calls(8) [OF refl, of n]] show ?thesis
      proof (elim disjE exE conjE)
        fix q2 assume "mbuf_addattrib MSG_ATTR_PEERNAME (length n + 1) (VA_STR n) q1 = Inr q2"
          "tlv_msg h ((as @ [(MSG_ATTR_PEERID, be_bytes 8 (cl_id c))]) @ [(MSG_ATTR_PEERNAME, n @ [0])]) q2"
        with True n q1(1) Cons.IH [OF this(2) nm] show ?thesis by simp
      qed (use True n q1(1) in simp)
    qed (use True n in simp)
  qed
qed simp

text \<open>C27: The peer list is complete if it fits: the answer holds identifier and name of every
  authorised client, in the order of the table. One octet more than the message size allows and the
  server ends, which any set of users with long names can bring about.\<close>

theorem peer_list_complete_or_dies:
  assumes ok: "msg_ok lfd s" and rcv: "received i p s" and dst: "HDR_GET_DSTID p = 0"
    and ty: "HDR_GET_TYPE p = MSG_TYPE_PEERLIST_REQ" and st: "cl_st (clients s ! i) = CLT_AUTH_OK"
  shows "if 40 + length (concat (map tlv_encode (peer_attrs (clients s)))) \<le> MSG_MAX_SIZE
    then \<exists>q. process_msg ts i s = Inr (0, answered i q s) \<and>
      ok_answer ts (peer_attrs (clients s)) (stamped (clients s ! i) p) q
    else process_msg ts i s = Inl Die"
proof -
  note i = receivedD [OF rcv]
  let ?p = "stamped (clients s ! i) p"
  let ?s = "set_rbuf i (Some ?p) s"
  have p: "mbuf_framed ?p" "hdr_ok ?p" "HDR_GET_TYPE ?p = MSG_TYPE_PEERLIST_REQ"
    using stamped_framed [OF i(5)] stamped_fields [OF i(6)] ty by simp_all
  have base: "base_state lfd i ?s" by (rule received_base [OF ok rcv])
  have attrs: "peer_attrs (clients ?s) = peer_attrs (clients s)"
    using i(2) by (simp add: peer_attrs_update)
  have run: "process_server_msg ts i ?p ?s = ret 0 (srv_peerlist ts i (mbuf_resetgetattrib ?p) ?s)"
    using p(3) st i(2) by (simp add: process_server_msg_def type_values Let_def)
  show ?thesis
  proof (cases "40 + length (concat (map tlv_encode (peer_attrs (clients s)))) \<le> MSG_MAX_SIZE")
    case True
    obtain q where "srv_peerlist ts i (?p\<lparr>boff := 40\<rparr>) ?s = Inr (set_rbuf i (Some q) ?s)"
      "ok_answer ts (peer_attrs (clients s)) ?p q"
      using srv_peerlist_total [OF base p(1)] True unfolding attrs by blast
    with True run handled [OF rcv dst, of ts 0 q s] show ?thesis
      using i(1) by (auto simp: resetgetattrib_boff)
  next
    case False
    have nm: "named (clients s)" using ok by (rule msg_ok_named)
    have "add_peers (clients s) (response_of ts ?p) = Inl Die"
      using add_peers_exact [OF response_of_tlv nm, of ts ?p] False
      by (auto simp: tlv_msg_def mbuf_framed_def)
    moreover have "add_peers (clients ?s) q = add_peers (clients s) q" for q
    proof -
      have "add_peers (cs[k := (cs ! k)\<lparr>cl_rbuf := x\<rparr>]) q = add_peers cs q" if "k < length cs" for k cs x q
        using that
      proof (induction cs arbitrary: k q)
        case (Cons c cs)
        then show ?case by (cases k) (auto simp: fun_eq_iff intro!: arg_cong2 [where f = bindr] split: option.split)
      qed simp
      then show ?thesis using i(2) by simp
    qed
    moreover have "mbuf_to_response ts (?p\<lparr>boff := 40\<rparr>) = Inr (response_of ts ?p)"
      using mbuf_to_response_eq [of "?p\<lparr>boff := 40\<rparr>" ts] p(2) by (simp add: response_of_def)
    ultimately have "srv_peerlist ts i (mbuf_resetgetattrib ?p) ?s = Inl Die"
      by (simp add: srv_peerlist_def resetgetattrib_boff)
    with run process_msg_cases [OF rcv, of ts] dst False show ?thesis by simp
  qed
qed

theorem peer_list_complete_or_dies_witness:
  "let s = demo_server [demo_client 4 2 CLT_AUTH_OK (Some [97]) (Some (plain_msg MSG_TYPE_PEERLIST_REQ 0))] demo_udb in
   \<exists>q. process_msg 7 0 s = Inr (0, answered 0 q s) \<and>
     ok_answer 7 [(MSG_ATTR_PEERID, be_bytes 8 (2 :: u64)), (MSG_ATTR_PEERNAME, [97, 0])]
       (HDR_SET_SRCID 2 (plain_msg MSG_TYPE_PEERLIST_REQ 0)) q"
proof -
  let ?s = "demo_server [demo_client 4 2 CLT_AUTH_OK (Some [97]) (Some (plain_msg MSG_TYPE_PEERLIST_REQ 0))] demo_udb"
  have "msg_ok 3 ?s" by (rule demo_msg_ok) (auto simp: demo_udb_inv)
  moreover have "received 0 (plain_msg MSG_TYPE_PEERLIST_REQ 0) ?s" by (simp add: received_def)
  ultimately show ?thesis
    using peer_list_complete_or_dies [of 3 ?s 0 "plain_msg MSG_TYPE_PEERLIST_REQ 0" 7]
    by (simp add: Let_def stamped_def length_tlv_encode ROUNDUP8_def)
qed

end
