(* ===== verification/Cfgparse.thy ===== *)
theory Cfgparse
  imports Clib
begin

text \<open>
  The configuration file parser and writer, src/cfgparse.c and src/cfgparse.h. A variable a
  definition's \<^verbatim>\<open>pvar\<close> points to is an index of the list of the program's configuration
  variables; each variable holds an \<^verbatim>\<open>int\<close> or a \<^verbatim>\<open>char *\<close>. The second half shows which
  lines the parser accepts, and that a configuration the writer wrote is read back unchanged.
\<close>

section \<open>Types\<close>

datatype CFG_PARSE_TYPE = CFG_PARSE_T_NONE | CFG_PARSE_T_INT | CFG_PARSE_T_STR

record cfg_parse_def_t =
  def_name :: cstring
  def_type :: CFG_PARSE_TYPE
  def_pvar :: nat

datatype cfg_val = CV_INT int | CV_STR "cstring option"

type_synonym cfg_store = "cfg_val list"

text \<open>\<^verbatim>\<open>LINE_MAX\<close>, and the conversion of a \<^verbatim>\<open>long\<close> to an \<^verbatim>\<open>int\<close>.\<close>

definition LINE_MAX :: nat where
  "LINE_MAX = 4000"

definition int_of_long :: "int \<Rightarrow> int" where
  "int_of_long v = (v + 2 ^ 31) mod 2 ^ 32 - 2 ^ 31"

section \<open>Operations\<close>

definition skip_ws :: "cstring \<Rightarrow> cstring" where
  "skip_ws s = dropWhile isspace s"

definition skip_name :: "cstring \<Rightarrow> cstring" where
  "skip_name s = dropWhile (\<lambda>c. c \<noteq> 61 \<and> \<not> isspace c) s"

definition rtrim :: "cstring \<Rightarrow> cstring" where
  "rtrim s = rev (dropWhile isspace (rev s))"

text \<open>
  An assignment through \<^verbatim>\<open>pvar\<close> to a variable of another type, or to none, is a wild store.
\<close>

fun cfg_parse_assign ::
    "cstring \<Rightarrow> cstring \<Rightarrow> cfg_parse_def_t list \<Rightarrow> cfg_store \<Rightarrow> (int \<times> cfg_store) res" where
  "cfg_parse_assign name val [] vars = Inr (- 1, vars)"
| "cfg_parse_assign name val (p # def) vars =
     (if name = def_name p then
        (case def_type p of
           CFG_PARSE_T_INT \<Rightarrow>
             (if def_pvar p < length vars then
                (case vars ! def_pvar p of
                   CV_INT _ \<Rightarrow> Inr (0, vars[def_pvar p := CV_INT (int_of_long (strtol0 val))])
                 | CV_STR _ \<Rightarrow> Inl BadVarArg)
              else Inl OutOfBounds)
         | CFG_PARSE_T_STR \<Rightarrow>
             (if def_pvar p < length vars then
                (case vars ! def_pvar p of
                   CV_STR _ \<Rightarrow> Inr (0, vars[def_pvar p := CV_STR (Some val)])
                 | CV_INT _ \<Rightarrow> Inl BadVarArg)
              else Inl OutOfBounds)
         | CFG_PARSE_T_NONE \<Rightarrow> Inr (0, vars))
      else cfg_parse_assign name val def vars)"

definition cfg_parse_line ::
    "cstring \<Rightarrow> cfg_parse_def_t list \<Rightarrow> cfg_store \<Rightarrow> (int \<times> cfg_store) res" where
  "cfg_parse_line line def vars =
     (let name = skip_ws line in
      if name = [] \<or> hd name = 35 then Inr (0, vars)
      else let val = skip_ws (skip_name name) in
        if val = [] \<or> hd val \<noteq> 61 then Inr (- 1, vars)
        else let nm = rtrim (take (length name - length val) name) in
          if nm = [] then Inr (- 1, vars)
          else cfg_parse_assign nm (rtrim (skip_ws (tl val))) def vars)"

text \<open>
  The loop over the lines of a file. The line a caller of \<^verbatim>\<open>fgets\<close> sees ends at the first
  null byte of what was stored.
\<close>

function cfg_parse_lines ::
    "int \<Rightarrow> byte list \<Rightarrow> cfg_parse_def_t list \<Rightarrow> cfg_store \<Rightarrow> (int \<times> cfg_store) res" where
  "cfg_parse_lines r bs def vars =
     (if bs = [] then Inr (r, vars)
      else case fgets (LINE_MAX - 1) bs of (line, rest) \<Rightarrow>
        bindr (cfg_parse_line (takeWhile (\<lambda>c. c \<noteq> 0) line) def vars)
          (\<lambda>(k, vars). cfg_parse_lines (r + k) rest def vars))"
  by pat_completeness auto
termination
  by (relation "measure (\<lambda>(r, bs, def, vars). length bs)")
    (auto simp: LINE_MAX_def dest: fgets_smaller [where n = 3998, simplified])

declare cfg_parse_lines.simps [simp del]

definition cfg_parse_fp ::
    "byte list \<Rightarrow> cfg_parse_def_t list \<Rightarrow> cfg_store \<Rightarrow> (int \<times> cfg_store) res" where
  "cfg_parse_fp bs def vars =
     bindr (cfg_parse_lines 0 bs def vars) (\<lambda>(r, vars). Inr (if r \<noteq> 0 then - 1 else 0, vars))"

text \<open>The file is \<open>None\<close> when it cannot be opened.\<close>

definition cfg_parse_file ::
    "byte list option \<Rightarrow> cfg_parse_def_t list \<Rightarrow> cfg_store \<Rightarrow> (int \<times> cfg_store) res" where
  "cfg_parse_file fp def vars =
     (case fp of None \<Rightarrow> Inr (- 1, vars) | Some bs \<Rightarrow> cfg_parse_fp bs def vars)"

text \<open>
  The writer. \<open>lim\<close> is the number of \<^verbatim>\<open>fprintf\<close> calls the stream accepts before one
  returns a negative value. The result is the returned value and the bytes written.
\<close>

fun cfg_write_defs ::
    "nat \<Rightarrow> cfg_parse_def_t list \<Rightarrow> cfg_store \<Rightarrow> (int \<times> byte list) res" where
  "cfg_write_defs lim [] vars = Inr (0, [])"
| "cfg_write_defs lim (p # def) vars =
     (case def_type p of
        CFG_PARSE_T_NONE \<Rightarrow> cfg_write_defs lim def vars
      | t \<Rightarrow>
          (if \<not> def_pvar p < length vars then Inl OutOfBounds
           else
             bindr
               (case (t, vars ! def_pvar p) of
                  (CFG_PARSE_T_INT, CV_INT v) \<Rightarrow> Inr (print_int v)
                | (CFG_PARSE_T_STR, CV_STR (Some s)) \<Rightarrow> Inr s
                | (CFG_PARSE_T_STR, CV_STR None) \<Rightarrow> Inl NullDeref
                | _ \<Rightarrow> Inl BadVarArg)
               (\<lambda>s. case lim of
                  0 \<Rightarrow> Inr (- 1, [])
                | Suc lim \<Rightarrow>
                    bindr (cfg_write_defs lim def vars)
                      (\<lambda>(r, out). Inr (r, def_name p @ [61] @ s @ [10] @ out)))))"

definition cfg_write_fp ::
    "nat \<Rightarrow> cfg_parse_def_t list \<Rightarrow> cfg_store \<Rightarrow> (int \<times> byte list) res" where
  "cfg_write_fp lim def vars = cfg_write_defs lim def vars"

text \<open>
  \<open>fopen\<close> states whether the file can be created; the result's file is then the new content.
\<close>

definition cfg_write_file ::
    "bool \<Rightarrow> nat \<Rightarrow> byte list option \<Rightarrow> cfg_parse_def_t list \<Rightarrow> cfg_store
      \<Rightarrow> (int \<times> byte list option) res" where
  "cfg_write_file fopen lim old def vars =
     (if \<not> fopen then Inr (- 1, old)
      else bindr (cfg_write_fp lim def vars) (\<lambda>(r, out). Inr (r, Some out)))"
section \<open>Which lines are accepted\<close>

text \<open>A name a line can carry, and a value the parser returns as it was written.\<close>

definition good_name :: "cstring \<Rightarrow> bool" where
  "good_name n \<longleftrightarrow> n \<noteq> [] \<and> hd n \<noteq> 35 \<and> (\<forall>c \<in> set n. c \<noteq> 0 \<and> c \<noteq> 61 \<and> \<not> isspace c)"

definition good_value :: "cstring \<Rightarrow> bool" where
  "good_value s \<longleftrightarrow>
     0 \<notin> set s \<and> 10 \<notin> set s \<and> (s = [] \<or> \<not> isspace (hd s) \<and> \<not> isspace (last s))"

lemma rtrim_ws: "\<forall>c \<in> set w. isspace c \<Longrightarrow> rtrim (s @ w) = rtrim s"
  by (induction w rule: rev_induct) (auto simp: rtrim_def)

lemma rtrim_trimmed: "s = [] \<or> \<not> isspace (last s) \<Longrightarrow> rtrim s = s"
  by (simp add: rtrim_def dropWhile_hd hd_rev)

lemma skip_ws_trimmed: "s = [] \<or> \<not> isspace (hd s) \<Longrightarrow> skip_ws s = s"
  by (simp add: skip_ws_def dropWhile_hd)

lemma skip_ws_all: "\<forall>c \<in> set w. isspace c \<Longrightarrow> skip_ws (w @ s) = skip_ws s"
  by (induction w) (auto simp: skip_ws_def)

lemma skip_name_good:
  "\<forall>c \<in> set n. c \<noteq> 61 \<and> \<not> isspace c \<Longrightarrow> s \<noteq> [] \<Longrightarrow> hd s = 61 \<or> isspace (hd s)
    \<Longrightarrow> skip_name (n @ s) = s"
  by (simp add: skip_name_def dropWhile_hd)

lemma not_isspace_eq [simp]: "\<not> isspace 61"
  by (simp add: isspace_def)

text \<open>
  A line \<open>name = value\<close>, with any white space around the name and the value, assigns the value
  to the variable of that name.
\<close>

lemma cfg_parse_line_assign:
  assumes n: "good_name n" and v: "good_value v"
    and w: "\<forall>c \<in> set (w1 @ w2 @ w3 @ w4). isspace c"
  shows "cfg_parse_line (w1 @ n @ w2 @ [61] @ w3 @ v @ w4) def vars = cfg_parse_assign n v def vars"
proof -
  have n0: "n \<noteq> []" "hd n \<noteq> 35" "\<not> isspace (hd n)" "\<not> isspace (last n)"
    "\<forall>c \<in> set n. c \<noteq> 61 \<and> \<not> isspace c"
    using n by (auto simp: good_name_def)
  have ws: "\<forall>c \<in> set w1. isspace c" "\<forall>c \<in> set w2. isspace c" "\<forall>c \<in> set w3. isspace c"
    "\<forall>c \<in> set w4. isspace c" using w by auto
  let ?t = "n @ w2 @ [61] @ w3 @ v @ w4"
  have name: "skip_ws (w1 @ ?t) = ?t"
    using ws(1) n0 by (simp only: skip_ws_all) (simp add: skip_ws_trimmed)
  have "hd (w2 @ [61] @ w3 @ v @ w4) = 61 \<or> isspace (hd (w2 @ [61] @ w3 @ v @ w4))"
    using ws(2) by (cases w2) auto
  then have "skip_name ?t = w2 @ [61] @ w3 @ v @ w4"
    using n0(5) by (intro skip_name_good) auto
  then have val: "skip_ws (skip_name ?t) = 61 # w3 @ v @ w4"
    using ws(2) by (simp add: skip_ws_all skip_ws_trimmed)
  have nm: "rtrim (take (length ?t - length (61 # w3 @ v @ w4)) ?t) = n"
    using ws(2) n0 by (simp add: rtrim_ws rtrim_trimmed)
  have vl: "rtrim (skip_ws (w3 @ v @ w4)) = v"
  proof (cases "v = []")
    case True
    then have "skip_ws (w3 @ v @ w4) = []" using ws by (simp add: skip_ws_def)
    then show ?thesis using True by (simp add: rtrim_def)
  next
    case False
    then have "skip_ws (w3 @ v @ w4) = v @ w4"
      using ws(3) v by (simp add: skip_ws_all skip_ws_trimmed good_value_def)
    then show ?thesis using ws(4) v False by (simp add: rtrim_ws rtrim_trimmed good_value_def)
  qed
  have "hd ?t \<noteq> 35" "?t \<noteq> []" using n0 by auto
  then show ?thesis
    unfolding cfg_parse_line_def Let_def name val nm using vl n0(1) by simp
qed

lemma cfg_parse_line_comment:
  "skip_ws line = [] \<or> hd (skip_ws line) = 35 \<Longrightarrow> cfg_parse_line line def vars = Inr (0, vars)"
  by (auto simp: cfg_parse_line_def)

lemma cfg_parse_assign_unknown:
  "name \<notin> def_name ` set def \<Longrightarrow> cfg_parse_assign name val def vars = Inr (- 1, vars)"
  by (induction def) auto

text \<open>
  A table fits the variables when every entry's \<^verbatim>\<open>pvar\<close> points to a variable of its type;
  then no line can make a wild store, and the types of the variables stay what they are.
\<close>

definition fits :: "cfg_parse_def_t \<Rightarrow> cfg_val \<Rightarrow> bool" where
  "fits p v \<longleftrightarrow>
     (case def_type p of
        CFG_PARSE_T_INT \<Rightarrow> \<exists>k. v = CV_INT k
      | CFG_PARSE_T_STR \<Rightarrow> \<exists>s. v = CV_STR s
      | CFG_PARSE_T_NONE \<Rightarrow> True)"

definition table_fits :: "cfg_parse_def_t list \<Rightarrow> cfg_store \<Rightarrow> bool" where
  "table_fits def vars \<longleftrightarrow>
     (\<forall>p \<in> set def. def_type p = CFG_PARSE_T_NONE \<or> def_pvar p < length vars \<and> fits p (vars ! def_pvar p))"

definition same_types :: "cfg_store \<Rightarrow> cfg_store \<Rightarrow> bool" where
  "same_types vs ws \<longleftrightarrow>
     length vs = length ws \<and> (\<forall>i < length vs. (\<exists>k. vs ! i = CV_INT k) = (\<exists>k. ws ! i = CV_INT k))"

lemma same_types_refl [simp]: "same_types vs vs"
  by (simp add: same_types_def)

lemma same_types_trans: "same_types us vs \<Longrightarrow> same_types vs ws \<Longrightarrow> same_types us ws"
  by (simp add: same_types_def)

lemma not_int_is_str: "(\<nexists>k. v = CV_INT k) = (\<exists>s. v = CV_STR s)"
  by (cases v) auto

lemma table_fits_same_types: "table_fits def vs \<Longrightarrow> same_types vs ws \<Longrightarrow> table_fits def ws"
  unfolding table_fits_def same_types_def fits_def
  by (auto simp flip: not_int_is_str split: CFG_PARSE_TYPE.splits)

lemma cfg_parse_assign_safe:
  assumes "table_fits def vars"
  obtains r vars' where "cfg_parse_assign name val def vars = Inr (r, vars')"
    and "r = (if name \<in> def_name ` set def then 0 else - 1)" and "same_types vars vars'"
  using assms
proof (induction def arbitrary: thesis)
  case Nil
  then show ?case by simp
next
  case (Cons p def)
  have fit: "table_fits def vars" using Cons.prems(2) by (simp add: table_fits_def)
  show ?case
  proof (cases "name = def_name p")
    case True
    have p: "def_type p = CFG_PARSE_T_NONE \<or> def_pvar p < length vars \<and> fits p (vars ! def_pvar p)"
      using Cons.prems(2) by (simp add: table_fits_def)
    show ?thesis
    proof (cases "def_type p")
      case CFG_PARSE_T_NONE
      then show ?thesis using True Cons.prems(1) [of 0 vars] by simp
    next
      case CFG_PARSE_T_INT
      then obtain k where "def_pvar p < length vars" "vars ! def_pvar p = CV_INT k"
        using p by (auto simp: fits_def)
      moreover from this have "same_types vars (vars[def_pvar p := CV_INT n])" for n
        by (auto simp: same_types_def nth_list_update)
      ultimately show ?thesis using True CFG_PARSE_T_INT Cons.prems(1) by simp
    next
      case CFG_PARSE_T_STR
      then obtain k where "def_pvar p < length vars" "vars ! def_pvar p = CV_STR k"
        using p by (auto simp: fits_def)
      moreover from this have "same_types vars (vars[def_pvar p := CV_STR n])" for n
        by (auto simp: same_types_def nth_list_update)
      ultimately show ?thesis using True CFG_PARSE_T_STR Cons.prems(1) by simp
    qed
  next
    case False
    from Cons.IH [OF _ fit] obtain r vars' where
      "cfg_parse_assign name val def vars = Inr (r, vars')"
      "r = (if name \<in> def_name ` set def then 0 else - 1)" "same_types vars vars'" by metis
    then show ?thesis using False Cons.prems(1) by simp
  qed
qed

lemma cfg_parse_line_safe:
  assumes "table_fits def vars"
  obtains r vars' where "cfg_parse_line line def vars = Inr (r, vars')" and "r = 0 \<or> r = - 1"
    and "same_types vars vars'"
proof -
  have a: "\<exists>r vars'. cfg_parse_assign name val def vars = Inr (r, vars') \<and> (r = 0 \<or> r = - 1) \<and>
      same_types vars vars'" for name val
    by (rule cfg_parse_assign_safe [OF assms, of name val]) simp
  have "\<exists>r vars'. cfg_parse_line line def vars = Inr (r, vars') \<and> (r = 0 \<or> r = - 1) \<and>
      same_types vars vars'"
    unfolding cfg_parse_line_def Let_def by (simp add: a)
  then show ?thesis using that by blast
qed

lemma cfg_parse_lines_safe:
  "table_fits def vars \<Longrightarrow>
    \<exists>r' vars'. cfg_parse_lines r bs def vars = Inr (r', vars') \<and> same_types vars vars'"
proof (induction r bs "def" vars rule: cfg_parse_lines.induct)
  case (1 r bs "def" vars)
  show ?case
  proof (cases "bs = []")
    case True
    then show ?thesis by (subst cfg_parse_lines.simps) simp
  next
    case False
    obtain line rest where f: "fgets (LINE_MAX - 1) bs = (line, rest)" by fastforce
    obtain k vs where p: "cfg_parse_line (takeWhile (\<lambda>c. c \<noteq> 0) line) def vars = Inr (k, vs)"
      and s: "same_types vars vs"
      using cfg_parse_line_safe [OF 1(2)] by metis
    have step: "cfg_parse_lines r bs def vars = cfg_parse_lines (r + k) rest def vs"
      using False f p by (subst cfg_parse_lines.simps) simp
    obtain r' vars' where "cfg_parse_lines (r + k) rest def vs = Inr (r', vars')"
      and "same_types vs vars'"
      using 1(1) [OF False f [symmetric] table_fits_same_types [OF 1(2) s]] by blast
    then show ?thesis
      unfolding step using same_types_trans [OF s] by blast
  qed
qed

section \<open>A configuration written is read back\<close>

text \<open>The value of a variable as the writer prints it.\<close>

fun cfg_text :: "cfg_val \<Rightarrow> cstring" where
  "cfg_text (CV_INT k) = print_int k"
| "cfg_text (CV_STR None) = []"
| "cfg_text (CV_STR (Some s)) = s"

definition cfg_storable :: "cfg_parse_def_t \<Rightarrow> cfg_val \<Rightarrow> bool" where
  "cfg_storable p v \<longleftrightarrow>
     good_name (def_name p) \<and> def_type p \<noteq> CFG_PARSE_T_NONE \<and> fits p v \<and>
     good_value (cfg_text v) \<and> v \<noteq> CV_STR None \<and>
     (\<forall>k. v = CV_INT k \<longrightarrow> - (2 ^ 31) \<le> k \<and> k < 2 ^ 31) \<and>
     length (def_name p) + 1 + length (cfg_text v) + 1 < LINE_MAX"

definition cfg_line :: "cfg_store \<Rightarrow> cfg_parse_def_t \<Rightarrow> cstring" where
  "cfg_line vars p = def_name p @ [61] @ cfg_text (vars ! def_pvar p) @ [10]"

lemma cfg_write_all:
  assumes "length def \<le> lim"
    and "\<forall>p \<in> set def. def_pvar p < length vars \<and> cfg_storable p (vars ! def_pvar p)"
  shows "cfg_write_defs lim def vars = Inr (0, concat (map (cfg_line vars) def))"
  using assms
proof (induction "def" arbitrary: lim)
  case Nil
  then show ?case by simp
next
  case (Cons p "def")
  obtain l where lim: "lim = Suc l" "length def \<le> l" using Cons.prems(1) by (cases lim) auto
  have st: "cfg_storable p (vars ! def_pvar p)" "def_pvar p < length vars" using Cons.prems(2) by auto
  have ih: "cfg_write_defs l def vars = Inr (0, concat (map (cfg_line vars) def))"
    using Cons.IH [OF lim(2)] Cons.prems(2) by simp
  show ?case
  proof (cases "def_type p")
    case CFG_PARSE_T_NONE
    then show ?thesis using st by (simp add: cfg_storable_def)
  next
    case CFG_PARSE_T_INT
    then obtain k where "vars ! def_pvar p = CV_INT k" using st by (auto simp: cfg_storable_def fits_def)
    then show ?thesis using CFG_PARSE_T_INT st ih lim by (simp add: cfg_line_def [of vars p])
  next
    case CFG_PARSE_T_STR
    then obtain t where t: "vars ! def_pvar p = CV_STR t"
      using st by (auto simp: cfg_storable_def fits_def)
    then obtain s where "vars ! def_pvar p = CV_STR (Some s)"
      using st by (cases t) (auto simp: cfg_storable_def)
    then show ?thesis using CFG_PARSE_T_STR st ih lim by (simp add: cfg_line_def [of vars p])
  qed
qed

lemma int_of_long_id: "- (2 ^ 31) \<le> k \<Longrightarrow> k < 2 ^ 31 \<Longrightarrow> int_of_long k = k"
  by (simp add: int_of_long_def)

lemma cfg_parse_assign_found:
  assumes "distinct (map def_name def)" and "p \<in> set def" and "cfg_storable p v"
    and "def_pvar p < length vars" and "fits p (vars ! def_pvar p)"
  shows "cfg_parse_assign (def_name p) (cfg_text v) def vars = Inr (0, vars[def_pvar p := v])"
  using assms(1,2)
proof (induction "def")
  case Nil
  then show ?case by simp
next
  case (Cons q "def")
  show ?case
  proof (cases "p = q")
    case True
    show ?thesis
    proof (cases "def_type p")
      case CFG_PARSE_T_NONE
      then show ?thesis using assms(3) by (simp add: cfg_storable_def)
    next
      case CFG_PARSE_T_INT
      then obtain k j where k: "v = CV_INT k" and "vars ! def_pvar p = CV_INT j"
        using assms(3,5) by (auto simp: cfg_storable_def fits_def)
      moreover have "- (2 ^ 31) \<le> k" "k < 2 ^ 31" using assms(3) k by (auto simp: cfg_storable_def)
      ultimately show ?thesis using True CFG_PARSE_T_INT assms(4)
        by (simp add: strtol0_print_int int_of_long_id)
    next
      case CFG_PARSE_T_STR
      then obtain t j where t: "v = CV_STR t" and j: "vars ! def_pvar p = CV_STR j"
        using assms(3,5) by (auto simp: cfg_storable_def fits_def)
      moreover obtain s where "t = Some s" using assms(3) t by (cases t) (auto simp: cfg_storable_def)
      ultimately have "v = CV_STR (Some s)" "vars ! def_pvar p = CV_STR j" by auto
      then show ?thesis using True CFG_PARSE_T_STR assms(4) by simp
    qed
  next
    case False
    then have "p \<in> set def" using Cons.prems by simp
    then have "def_name p \<noteq> def_name q" using Cons.prems(1) by (auto simp: image_iff)
    then show ?thesis using Cons False by simp
  qed
qed

lemma cfg_line_parsed:
  assumes "distinct (map def_name def)" and "p \<in> set def" and "cfg_storable p (vars ! def_pvar p)"
    and "def_pvar p < length vs" and "fits p (vs ! def_pvar p)"
  shows "cfg_parse_lines r (cfg_line vars p @ rest) def vs
    = cfg_parse_lines r rest def (vs[def_pvar p := vars ! def_pvar p])"
proof -
  let ?v = "vars ! def_pvar p"
  let ?l = "def_name p @ [61] @ cfg_text ?v"
  have n: "good_name (def_name p)" and v: "good_value (cfg_text ?v)"
    and len: "length ?l < LINE_MAX - 1"
    using assms(3) by (auto simp: cfg_storable_def)
  have "10 \<notin> set (def_name p)" using n by (auto simp: good_name_def isspace_def)
  then have nl: "10 \<notin> set ?l" and z: "0 \<notin> set (?l @ [10])"
    using n v by (auto simp: good_value_def good_name_def)
  have f: "fgets (LINE_MAX - 1) (cfg_line vars p @ rest) = (?l @ [10], rest)"
    using fgets_line [OF nl len] by (simp add: cfg_line_def)
  have "takeWhile (\<lambda>c. c \<noteq> 0) (?l @ [10]) = ?l @ [10]" using z by (intro takeWhile_all) metis
  moreover have "cfg_parse_line (?l @ [10]) def vs = Inr (0, vs[def_pvar p := ?v])"
    using cfg_parse_line_assign [OF n v, of "[]" "[]" "[]" "[10]" "def" vs]
      cfg_parse_assign_found [OF assms(1-3,4,5)] by (simp add: isspace_def)
  ultimately show ?thesis
    using f by (subst cfg_parse_lines.simps) (simp add: cfg_line_def)
qed

text \<open>Reading all lines sets the variables of the table one after the other.\<close>

definition restore :: "cfg_store \<Rightarrow> cfg_parse_def_t list \<Rightarrow> cfg_store \<Rightarrow> cfg_store" where
  "restore vars def vs = foldl (\<lambda>vs p. vs[def_pvar p := vars ! def_pvar p]) vs def"

lemma cfg_lines_parsed:
  assumes "distinct (map def_name def)" and "set ps \<subseteq> set def" and "length vs = length vars"
    and "\<forall>p \<in> set def. def_pvar p < length vars \<and> cfg_storable p (vars ! def_pvar p)
      \<and> fits p (vs ! def_pvar p)"
  shows "cfg_parse_lines r (concat (map (cfg_line vars) ps)) def vs = Inr (r, restore vars ps vs)"
  using assms(2-4)
proof (induction ps arbitrary: vs)
  case Nil
  then show ?case by (subst cfg_parse_lines.simps) (simp add: restore_def)
next
  case (Cons p ps)
  have p: "p \<in> set def" using Cons.prems(1) by simp
  let ?vs = "vs[def_pvar p := vars ! def_pvar p]"
  have "fits q (?vs ! def_pvar q)" if "q \<in> set def" for q
    using Cons.prems(3) that Cons.prems(2) p
    by (cases "def_pvar q = def_pvar p") (auto simp: cfg_storable_def)
  then have "cfg_parse_lines r (concat (map (cfg_line vars) ps)) def ?vs = Inr (r, restore vars ps ?vs)"
    using Cons.IH [of ?vs] Cons.prems by simp
  then show ?case
    using cfg_line_parsed [OF assms(1) p, of vars vs r] Cons.prems p by (simp add: restore_def)
qed

lemma restore_nth:
  assumes "length vs = length vars" and "i < length vars"
  shows "restore vars ps vs ! i = (if i \<in> def_pvar ` set ps then vars ! i else vs ! i)"
  using assms
  by (induction ps arbitrary: vs) (auto simp: restore_def nth_list_update)

lemma length_restore [simp]: "length (restore vars ps vs) = length vs"
  by (induction ps arbitrary: vs) (auto simp: restore_def)

end
