(* ===== verification/Files.thy ===== *)
theory Files
  imports Clib
begin

text \<open>
  The file operations of POSIX that src/transfer.c and src/cltmain.c use, on a file system of one
  directory level of names: a name refers to an inode, an inode holds bytes, and an open
  descriptor refers to an inode with a position. \<open>fs_fds\<close> is the process's descriptor
  table; a new descriptor is the lowest free one. Descriptors that are not files (standard input
  and output, the connection) are \<open>Reserved\<close>. A name may refuse to be opened or removed
  (permissions, a missing directory), the table may be full, and the device may run out of room,
  so that a write falls short or fails.
\<close>

section \<open>State and operations\<close>

datatype open_file = Reserved | Opened (of_inode: nat) (of_pos: nat) (of_writable: bool)

record fsys =
  fs_names :: "cstring \<Rightarrow> nat option"
  fs_inodes :: "byte list list"
  fs_fds :: "open_file option list"
  fs_maxfd :: nat
  fs_room :: nat
  fs_deny :: "cstring \<Rightarrow> bool"

text \<open>The descriptor a number refers to, and the change of a slot of the table.\<close>

definition fd_get :: "fsys \<Rightarrow> int \<Rightarrow> open_file option" where
  "fd_get fs fd = (if 0 \<le> fd \<and> nat fd < length (fs_fds fs) then fs_fds fs ! nat fd else None)"

definition fd_put :: "int \<Rightarrow> open_file option \<Rightarrow> fsys \<Rightarrow> fsys" where
  "fd_put fd e fs =
     fs\<lparr>fs_fds := (if nat fd < length (fs_fds fs) then (fs_fds fs)[nat fd := e] else fs_fds fs @ [e])\<rparr>"

definition fd_lowest :: "fsys \<Rightarrow> nat" where
  "fd_lowest fs = length (takeWhile (\<lambda>e. e \<noteq> None) (fs_fds fs))"

definition fd_alloc :: "open_file \<Rightarrow> fsys \<Rightarrow> int \<times> fsys" where
  "fd_alloc e fs =
     (if fs_maxfd fs \<le> fd_lowest fs then (- 1, fs)
      else (int (fd_lowest fs), fd_put (int (fd_lowest fs)) (Some e) fs))"

text \<open>\<^verbatim>\<open>open( name, O_WRONLY | O_CREAT | O_EXCL )\<close>\<close>

definition sys_create :: "cstring \<Rightarrow> fsys \<Rightarrow> int \<times> fsys" where
  "sys_create name fs =
     (if fs_deny fs name \<or> fs_names fs name \<noteq> None then (- 1, fs)
      else case fd_alloc (Opened (length (fs_inodes fs)) 0 True) fs of
        (fd, fs') \<Rightarrow>
          if fd < 0 then (- 1, fs)
          else (fd, fs'\<lparr>fs_names := (fs_names fs)(name \<mapsto> length (fs_inodes fs)),
                        fs_inodes := fs_inodes fs @ [[]]\<rparr>))"

text \<open>\<^verbatim>\<open>open( name, O_RDONLY )\<close> and \<^verbatim>\<open>open( name, O_WRONLY )\<close>\<close>

definition sys_open :: "bool \<Rightarrow> cstring \<Rightarrow> fsys \<Rightarrow> int \<times> fsys" where
  "sys_open writable name fs =
     (if fs_deny fs name then (- 1, fs)
      else case fs_names fs name of
        None \<Rightarrow> (- 1, fs)
      | Some ino \<Rightarrow> fd_alloc (Opened ino 0 writable) fs)"

definition sys_close :: "int \<Rightarrow> fsys \<Rightarrow> fsys" where
  "sys_close fd fs = (if fd_get fs fd = None then fs else fd_put fd None fs)"

text \<open>\<^verbatim>\<open>lseek\<close> with \<^verbatim>\<open>SEEK_SET\<close>, whose argument is a signed 64-bit \<^verbatim>\<open>off_t\<close>,
  and with \<^verbatim>\<open>SEEK_END\<close> and offset 0.\<close>

definition sys_seek_set :: "int \<Rightarrow> u64 \<Rightarrow> fsys \<Rightarrow> int \<times> fsys" where
  "sys_seek_set fd off fs =
     (case fd_get fs fd of
        Some (Opened ino pos w) \<Rightarrow>
          if sint off < 0 then (- 1, fs)
          else (sint off, fd_put fd (Some (Opened ino (unat off) w)) fs)
      | _ \<Rightarrow> (- 1, fs))"

definition sys_seek_end :: "int \<Rightarrow> fsys \<Rightarrow> int \<times> fsys" where
  "sys_seek_end fd fs =
     (case fd_get fs fd of
        Some (Opened ino pos w) \<Rightarrow>
          (int (length (fs_inodes fs ! ino)),
           fd_put fd (Some (Opened ino (length (fs_inodes fs ! ino)) w)) fs)
      | _ \<Rightarrow> (- 1, fs))"

text \<open>\<^verbatim>\<open>read\<close>: the bytes read, or nothing on an error.\<close>

definition sys_read :: "int \<Rightarrow> nat \<Rightarrow> fsys \<Rightarrow> byte list option \<times> fsys" where
  "sys_read fd n fs =
     (case fd_get fs fd of
        Some (Opened ino pos w) \<Rightarrow>
          (let bs = take n (drop pos (fs_inodes fs ! ino))
           in (Some bs, fd_put fd (Some (Opened ino (pos + length bs) w)) fs))
      | _ \<Rightarrow> (None, fs))"

text \<open>
  \<^verbatim>\<open>write\<close>: as many bytes as there is room for, at the position; a gap between the end of the
  file and the position reads as zeros.
\<close>

definition write_at :: "byte list \<Rightarrow> nat \<Rightarrow> byte list \<Rightarrow> byte list" where
  "write_at f pos bs = take pos (f @ replicate (pos - length f) 0) @ bs @ drop (pos + length bs) f"

definition sys_write :: "int \<Rightarrow> byte list \<Rightarrow> fsys \<Rightarrow> int \<times> fsys" where
  "sys_write fd bs fs =
     (case fd_get fs fd of
        Some (Opened ino pos True) \<Rightarrow>
          if bs = [] then (0, fs)
          else if fs_room fs = 0 then (- 1, fs)
          else (let out = take (fs_room fs) bs; f = fs_inodes fs ! ino
            in (int (length out),
                (fd_put fd (Some (Opened ino (pos + length out) True)) fs)
                  \<lparr>fs_inodes := (fs_inodes fs)[ino := write_at f pos out],
                   fs_room := fs_room fs - length out\<rparr>))
      | _ \<Rightarrow> (- 1, fs))"

definition sys_unlink :: "cstring \<Rightarrow> fsys \<Rightarrow> fsys" where
  "sys_unlink name fs = (if fs_deny fs name then fs else fs\<lparr>fs_names := (fs_names fs)(name := None)\<rparr>)"

definition sys_rename :: "cstring \<Rightarrow> cstring \<Rightarrow> fsys \<Rightarrow> int \<times> fsys" where
  "sys_rename old new fs =
     (if fs_deny fs old \<or> fs_deny fs new then (- 1, fs)
      else case fs_names fs old of
        None \<Rightarrow> (- 1, fs)
      | Some ino \<Rightarrow>
          if old = new then (0, fs)
          else (0, fs\<lparr>fs_names := (fs_names fs)(old := None, new \<mapsto> ino)\<rparr>))"

definition sys_size :: "cstring \<Rightarrow> fsys \<Rightarrow> int option" where
  "sys_size name fs = map_option (\<lambda>ino. int (length (fs_inodes fs ! ino))) (fs_names fs name)"

text \<open>The content a name refers to.\<close>

definition file_content :: "fsys \<Rightarrow> cstring \<Rightarrow> byte list option" where
  "file_content fs name = map_option (\<lambda>ino. fs_inodes fs ! ino) (fs_names fs name)"

section \<open>The descriptor table\<close>

lemma fd_put_simps [simp]:
  "fs_names (fd_put fd e fs) = fs_names fs" "fs_inodes (fd_put fd e fs) = fs_inodes fs"
  "fs_maxfd (fd_put fd e fs) = fs_maxfd fs" "fs_room (fd_put fd e fs) = fs_room fs"
  "fs_deny (fd_put fd e fs) = fs_deny fs"
  by (simp_all add: fd_put_def)

lemma fd_get_update [simp]:
  "fd_get (fs\<lparr>fs_names := n\<rparr>) = fd_get fs" "fd_get (fs\<lparr>fs_inodes := i\<rparr>) = fd_get fs"
  "fd_get (fs\<lparr>fs_room := r\<rparr>) = fd_get fs"
  by (simp_all add: fd_get_def fun_eq_iff)

lemma fd_get_neg [simp]: "fd < 0 \<Longrightarrow> fd_get fs fd = None"
  by (simp add: fd_get_def)

lemma fd_get_put:
  assumes "0 \<le> fd" and "nat fd \<le> length (fs_fds fs)" and "0 \<le> fd'"
  shows "fd_get (fd_put fd e fs) fd' = (if fd' = fd then e else fd_get fs fd')"
proof -
  have "nat fd' = nat fd \<longleftrightarrow> fd' = fd" using assms by auto
  then show ?thesis using assms by (auto simp: fd_get_def fd_put_def nth_append)
qed

lemma fd_get_Some_less: "fd_get fs fd = Some e \<Longrightarrow> 0 \<le> fd \<and> nat fd < length (fs_fds fs)"
  by (auto simp: fd_get_def split: if_splits)

lemma fd_get_put_live:
  assumes "fd_get fs fd = Some e"
  shows "fd_get (fd_put fd e' fs) fd' = (if fd' = fd then e' else fd_get fs fd')"
proof (cases "0 \<le> fd'")
  case True
  then show ?thesis using fd_get_put [OF _ _ True] fd_get_Some_less [OF assms] by simp
next
  case False
  then show ?thesis using fd_get_Some_less [OF assms] by auto
qed

lemma fd_lowest_free: "fd_get fs (int (fd_lowest fs)) = None"
proof (cases "fd_lowest fs < length (fs_fds fs)")
  case True
  have "\<not> (\<lambda>e. e \<noteq> None) (fs_fds fs ! length (takeWhile (\<lambda>e. e \<noteq> None) (fs_fds fs)))"
    by (rule nth_length_takeWhile) (use True in \<open>simp add: fd_lowest_def\<close>)
  then have "fs_fds fs ! fd_lowest fs = None" by (simp add: fd_lowest_def)
  then show ?thesis by (simp add: fd_get_def)
qed (simp add: fd_get_def)

lemma fd_alloc_cases:
  obtains "fd_alloc e fs = (- 1, fs)"
  | fd where "0 \<le> fd" and "fd_alloc e fs = (fd, fd_put fd (Some e) fs)" and "fd_get fs fd = None"
    and "\<forall>fd'. fd_get (fd_put fd (Some e) fs) fd' = (if fd' = fd then Some e else fd_get fs fd')"
proof (cases "fs_maxfd fs \<le> fd_lowest fs")
  case True
  then show ?thesis using that(1) by (simp add: fd_alloc_def)
next
  case False
  have "nat (int (fd_lowest fs)) \<le> length (fs_fds fs)"
    by (simp add: fd_lowest_def length_takeWhile_le)
  then have "fd_get (fd_put (int (fd_lowest fs)) (Some e) fs) fd'
      = (if fd' = int (fd_lowest fs) then Some e else fd_get fs fd')" for fd'
    using fd_get_put [of "int (fd_lowest fs)" fs fd' "Some e"] by (cases "0 \<le> fd'") auto
  then show ?thesis
    using that(2) [of "int (fd_lowest fs)"] False fd_lowest_free by (simp add: fd_alloc_def)
qed

lemma fd_get_close: "fd_get (sys_close fd fs) fd' = (if fd' = fd then None else fd_get fs fd')"
proof (cases "fd_get fs fd")
  case None
  then show ?thesis by (auto simp: sys_close_def)
next
  case (Some e)
  then show ?thesis using fd_get_put_live [OF Some] by (simp add: sys_close_def)
qed

lemma sys_close_simps [simp]:
  "fs_names (sys_close fd fs) = fs_names fs" "fs_inodes (sys_close fd fs) = fs_inodes fs"
  "fs_room (sys_close fd fs) = fs_room fs" "fs_deny (sys_close fd fs) = fs_deny fs"
  by (simp_all add: sys_close_def)

lemma sys_close_neg [simp]: "fd < 0 \<Longrightarrow> sys_close fd fs = fs"
  by (simp add: sys_close_def)

lemma sys_create_cases:
  obtains "sys_create name fs = (- 1, fs)"
  | fd fs' where "0 \<le> fd" and "sys_create name fs = (fd, fs')" and "fs_names fs name = None"
    and "fd_get fs fd = None"
    and "\<forall>fd'. fd_get fs' fd' = (if fd' = fd then Some (Opened (length (fs_inodes fs)) 0 True) else fd_get fs fd')"
    and "fs_names fs' = (fs_names fs)(name \<mapsto> length (fs_inodes fs))"
    and "fs_inodes fs' = fs_inodes fs @ [[]]" and "fs_room fs' = fs_room fs" and "fs_deny fs' = fs_deny fs"
proof (cases "fs_deny fs name \<or> fs_names fs name \<noteq> None")
  case True
  then show ?thesis using that(1) by (simp add: sys_create_def)
next
  case False
  show ?thesis
  proof (cases rule: fd_alloc_cases [of "Opened (length (fs_inodes fs)) 0 True" fs])
    case 1
    then show ?thesis using that(1) by (simp add: sys_create_def)
  next
    case (2 fd)
    then show ?thesis using that(2) [OF 2(1), where fs' =
        "(fd_put fd (Some (Opened (length (fs_inodes fs)) 0 True)) fs)
          \<lparr>fs_names := (fs_names fs)(name \<mapsto> length (fs_inodes fs)), fs_inodes := fs_inodes fs @ [[]]\<rparr>"] False
      by (simp add: sys_create_def)
  qed
qed

lemma sys_open_cases:
  obtains "sys_open w name fs = (- 1, fs)"
  | fd fs' ino where "0 \<le> fd" and "sys_open w name fs = (fd, fs')" and "fs_names fs name = Some ino"
    and "fd_get fs fd = None"
    and "\<forall>fd'. fd_get fs' fd' = (if fd' = fd then Some (Opened ino 0 w) else fd_get fs fd')"
    and "fs_names fs' = fs_names fs" and "fs_inodes fs' = fs_inodes fs"
    and "fs_room fs' = fs_room fs" and "fs_deny fs' = fs_deny fs"
proof (cases "fs_deny fs name \<or> fs_names fs name = None")
  case True
  then show ?thesis using that(1) by (auto simp: sys_open_def)
next
  case False
  then obtain ino where ino: "fs_names fs name = Some ino" by auto
  show ?thesis
  proof (cases rule: fd_alloc_cases [of "Opened ino 0 w" fs])
    case 1
    then show ?thesis using that(1) ino by (simp add: sys_open_def)
  next
    case (2 fd)
    then show ?thesis using that(2) [OF 2(1) _ ino, where fs' = "fd_put fd (Some (Opened ino 0 w)) fs"] False ino
      by (simp add: sys_open_def)
  qed
qed

end
