(* ===== verification/Transfer_List.thy ===== *)
theory Transfer_List
  imports Files Prng "HOL-Library.Signed_Division"
begin

text \<open>
  The client's list of offers and downloads, src/transfer.c and src/transfer.h. The module's
  state is the list \<^verbatim>\<open>transfers\<close> (its head first), the file system and the generator of
  \<^verbatim>\<open>prng_random()\<close>; a \<^verbatim>\<open>transfer_t *\<close> is an index of the list. \<open>now\<close> is what
  \<^verbatim>\<open>time( NULL )\<close> returns in a call.
\<close>

section \<open>State\<close>

datatype transfer_type = TTYPE_OFFER | TTYPE_DOWNLOAD

record transfer_t =
  tr_type :: transfer_type
  tr_rid :: u64
  tr_oid :: u64
  tr_name :: "cstring option"
  tr_partname :: "cstring option"
  tr_size :: u64
  tr_offset :: u64
  tr_fd :: int
  tr_tstart :: int
  tr_tact :: int

record xfer =
  transfers :: "transfer_t list"
  x_fs :: fsys
  x_rng :: prng_random_ctx_t

definition prng_random :: "xfer \<Rightarrow> u64 \<times> xfer" where
  "prng_random x = (case prng_random_r (x_rng x) of (r, ctx) \<Rightarrow> (r, x\<lparr>x_rng := ctx\<rparr>))"

section \<open>Helpers\<close>

definition fsize :: "cstring \<Rightarrow> fsys \<Rightarrow> int" where
  "fsize filename fs = (case sys_size filename fs of Some n \<Rightarrow> n | None \<Rightarrow> - 1)"

definition INT_MAX :: nat where
  "INT_MAX = 2 ^ 31 - 1"

text \<open>The index of the last dot, the end of the string when there is none.\<close>

definition extpos :: "cstring \<Rightarrow> nat" where
  "extpos s =
     (if 46 \<in> set s then length s - 1 - length (takeWhile (\<lambda>c. c \<noteq> 46) (rev s)) else length s)"

definition numbered :: "cstring \<Rightarrow> nat \<Rightarrow> cstring" where
  "numbered s i = take (extpos s) s @ [46] @ dec_digits i @ drop (extpos s) s"

definition part :: "cstring \<Rightarrow> cstring" where
  "part s = s @ str ''.part''"

text \<open>
  The search for a free pair of names; the result is the pair, both descriptors, and the file
  system. When no number is left the descriptors are those of the last attempt.
\<close>

function make_names :: "cstring \<Rightarrow> nat \<Rightarrow> cstring \<times> cstring \<times> int \<times> int \<Rightarrow> fsys
    \<Rightarrow> (cstring \<times> cstring \<times> int \<times> int) \<times> fsys" where
  "make_names s i (nm, pn, fd0, fd1) fs =
     (if INT_MAX \<le> i then ((nm, pn, fd0, fd1), fs)
      else let nm = numbered s i; pn = part nm in
        case sys_create nm fs of (fd0, fs) \<Rightarrow>
          if fd0 < 0 then make_names s (i + 1) (nm, pn, fd0, fd1) fs
          else case sys_create pn fs of (fd1, fs) \<Rightarrow>
            if fd1 < 0 then make_names s (i + 1) (nm, pn, fd0, fd1) (sys_close fd0 (sys_unlink nm fs))
            else ((nm, pn, fd0, fd1), fs))"
  by pat_completeness auto
termination
  by (relation "measure (\<lambda>(s, i, p, fs). INT_MAX - i)") auto

declare make_names.simps [simp del]

definition make_filenames :: "transfer_t \<Rightarrow> cstring \<Rightarrow> bool \<Rightarrow> fsys \<Rightarrow> transfer_t \<times> fsys" where
  "make_filenames d s no_clobber fs =
     (if no_clobber then
        (case make_names s 1 (s, part s, - 1, - 1) fs of ((nm, pn, fd0, fd1), fs) \<Rightarrow>
           (d\<lparr>tr_fd := fd1, tr_name := Some nm, tr_partname := Some pn\<rparr>, sys_close fd0 fs))
      else (d\<lparr>tr_name := Some s, tr_partname := Some (part s)\<rparr>, fs))"

section \<open>Formatting\<close>

text \<open>
  Division rounded to the nearest, ties to even; the \<^verbatim>\<open>double\<close> nearest to a 64-bit number,
  which is again an integer. Dividing it by powers of 1024 is exact, so that the value the loop
  of \<^verbatim>\<open>human_size()\<close> ends with is the quotient of \<open>dbl sz\<close> and \<open>1024 ^ m\<close>.
\<close>

definition rdiv :: "nat \<Rightarrow> nat \<Rightarrow> nat" where
  "rdiv a b =
     (let q = a div b; r = a mod b in if 2 * r < b \<or> 2 * r = b \<and> even q then q else q + 1)"

fun dbl_exp :: "nat \<Rightarrow> nat" where
  "dbl_exp n = (if n < 2 ^ 53 then 0 else Suc (dbl_exp (n div 2)))"

declare dbl_exp.simps [simp del]

definition dbl :: "nat \<Rightarrow> nat" where
  "dbl n = rdiv n (2 ^ dbl_exp n) * 2 ^ dbl_exp n"

function size_prefix :: "nat \<Rightarrow> nat \<Rightarrow> nat" where
  "size_prefix f m = (if 1024 * 1024 ^ m < f then size_prefix f (m + 1) else m)"
  by pat_completeness auto
termination
proof (relation "measure (\<lambda>(f, m). f - m)", goal_cases)
  case (2 f m)
  have "m < 1024 ^ m" by (rule power_gt_expt) simp
  then show ?case using 2 by simp
qed simp

declare size_prefix.simps [simp del]

definition size_units :: "cstring list" where
  "size_units = map str ['''', ''Ki'', ''Mi'', ''Gi'', ''Ti'', ''Pi'', ''Ei'']"

text \<open>\<^verbatim>\<open>%.2f\<close> of the quotient of \<open>f\<close> and \<open>g\<close>.\<close>

definition print_2f :: "nat \<Rightarrow> nat \<Rightarrow> cstring" where
  "print_2f f g =
     (let q = rdiv (f * 100) g
      in dec_digits (q div 100) @ [46, of_nat (48 + q div 10 mod 10), of_nat (48 + q mod 10)])"

definition human_size :: "u64 \<Rightarrow> cstring res" where
  "human_size sz =
     (let f = dbl (unat sz); m = size_prefix f 0
      in if length size_units \<le> m then Inl OutOfBounds
         else Inr (take 29 (print_2f f (1024 ^ m) @ size_units ! m @ str ''B'')))"

text \<open>The number of days is converted to an \<^verbatim>\<open>int\<close>.\<close>

definition human_timespan :: "int \<Rightarrow> cstring" where
  "human_timespan t =
     (let s = t smod 60; t = t sdiv 60;
          m = t smod 60; t = t sdiv 60;
          h = t smod 24; t = t sdiv 24;
          d = (t + 2 ^ 31) mod 2 ^ 32 - 2 ^ 31
      in (if d \<noteq> 0 then print_int d @ str ''d'' else []) @
         (if h \<noteq> 0 then print_int h @ str ''h'' else []) @
         (if m \<noteq> 0 then print_int m @ str ''m'' else []) @
         (if s \<noteq> 0 \<or> m + h + d = 0 then print_int s @ str ''s'' else []))"

definition print_u64 :: "u64 \<Rightarrow> cstring" where
  "print_u64 v = dec_digits (unat v)"

definition print_016x :: "u64 \<Rightarrow> cstring" where
  "print_016x v = hex_digits 16 (unat v)"

text \<open>
  One conversion of \<^verbatim>\<open>transfer_itostr()\<close>. \<open>iso8601\<close> is what
  \<^verbatim>\<open>strftime( "%Y-%m-%dT%H:%M:%S%z" )\<close> gives for the local time of a second.
\<close>

definition need_str :: "cstring option \<Rightarrow> cstring res" where
  "need_str s = (case s of None \<Rightarrow> Inl NullDeref | Some s \<Rightarrow> Inr s)"

definition itostr_conv :: "(int \<Rightarrow> cstring) \<Rightarrow> int \<Rightarrow> transfer_t \<Rightarrow> byte \<Rightarrow> cstring res" where
  "itostr_conv iso8601 now t c =
     (if c = of_char CHR ''i'' then
        Inr ((case tr_type t of TTYPE_DOWNLOAD \<Rightarrow> str ''D'' | TTYPE_OFFER \<Rightarrow> str ''O'') @ [44] @
             print_016x (tr_rid t) @ [44] @ print_016x (tr_oid t))
      else if c = of_char CHR ''n'' then need_str (tr_name t)
      else if c = of_char CHR ''N'' then need_str (tr_partname t)
      else if c = of_char CHR ''o'' then Inr (print_u64 (tr_offset t) @ str ''B'')
      else if c = of_char CHR ''O'' then human_size (tr_offset t)
      else if c = of_char CHR ''s'' then Inr (print_u64 (tr_size t) @ str ''B'')
      else if c = of_char CHR ''S'' then human_size (tr_size t)
      else if c = of_char CHR ''d'' then Inr (print_u64 (of_int (now - tr_tstart t)) @ str ''s'')
      else if c = of_char CHR ''D'' then Inr (human_timespan (now - tr_tstart t))
      else if c = of_char CHR ''a'' then Inr (print_u64 (of_int (now - tr_tact t)) @ str ''s'')
      else if c = of_char CHR ''A'' then Inr (human_timespan (now - tr_tact t))
      else if c = of_char CHR ''t'' then Inr (print_u64 (of_int (tr_tstart t)) @ str ''s'')
      else if c = of_char CHR ''T'' then Inr (take 29 (iso8601 (tr_tstart t)))
      else Inr [c])"

text \<open>
  \<^verbatim>\<open>n += snprintf( buf + n, size - n, ... )\<close> with \<open>n = length out\<close>: once \<open>n\<close> exceeds
  \<open>size\<close>, the difference, a \<^verbatim>\<open>size_t\<close>, wraps around, and the write is outside the buffer.
\<close>

definition emit :: "nat \<Rightarrow> cstring \<Rightarrow> cstring \<Rightarrow> cstring res" where
  "emit sz out s = (if sz < length out then Inl OutOfBounds else Inr (out @ s))"

fun itostr_loop ::
    "(int \<Rightarrow> cstring) \<Rightarrow> nat \<Rightarrow> int \<Rightarrow> transfer_t \<Rightarrow> cstring \<Rightarrow> cstring \<Rightarrow> cstring res" where
  "itostr_loop iso8601 sz now t [] out = Inr out"
| "itostr_loop iso8601 sz now t [c] out =
     (if c \<noteq> 37 then emit sz out [c] else Inl OutOfBounds)"
| "itostr_loop iso8601 sz now t (c # d # p) out =
     (if c \<noteq> 37 then bindr (emit sz out [c]) (\<lambda>out. itostr_loop iso8601 sz now t (d # p) out)
      else bindr (itostr_conv iso8601 now t d) (\<lambda>s. bindr (emit sz out s)
        (\<lambda>out. itostr_loop iso8601 sz now t p out)))"

text \<open>The string the buffer holds afterwards. (For an empty format the buffer is not written.)\<close>

definition transfer_itostr ::
    "(int \<Rightarrow> cstring) \<Rightarrow> nat \<Rightarrow> cstring option \<Rightarrow> int \<Rightarrow> transfer_t \<Rightarrow> cstring res" where
  "transfer_itostr iso8601 sz fmt now t =
     bindr (itostr_loop iso8601 sz now t
              (case fmt of None \<Rightarrow> str ''%i '' @ [39] @ str ''%n'' @ [39] @ str '' %o/%s %d %a''
                         | Some f \<Rightarrow> f) [])
       (\<lambda>out. Inr (take (sz - 1) out))"

text \<open>
  The conversions of \<^verbatim>\<open>sscanf\<close>: \<open>scan_hex\<close> is \<^verbatim>\<open>%llx\<close>. \<open>scan_pair\<close>
  is \<^verbatim>\<open>%llx,%llx\<close> with the values assigned so far; it gives the number of conversions.
\<close>

definition scan_hex :: "cstring \<Rightarrow> (u64 \<times> cstring) option" where
  "scan_hex s =
     (let t = dropWhile isspace s;
          t = (if t \<noteq> [] \<and> (hd t = 45 \<or> hd t = 43) then tl t else t)
      in if 2 \<le> length t \<and> hd t = 48 \<and> (t ! 1 = 120 \<or> t ! 1 = 88) \<and>
            (length t = 2 \<or> xdigit (t ! 2) = None) then None
         else case strtoull16 s of (v, rest) \<Rightarrow> if length rest < length s then Some (v, rest) else None)"

definition scan_pair :: "cstring \<Rightarrow> u64 \<times> u64 \<Rightarrow> nat \<times> u64 \<times> u64" where
  "scan_pair s ro =
     (case scan_hex s of
        None \<Rightarrow> (0, ro)
      | Some (r, s) \<Rightarrow>
          if s = [] \<or> hd s \<noteq> 44 then (1, r, snd ro)
          else case scan_hex (tl s) of None \<Rightarrow> (1, r, snd ro) | Some (q, _) \<Rightarrow> (2, r, q))"

definition toupper :: "byte \<Rightarrow> byte" where
  "toupper c = (if 97 \<le> c \<and> c \<le> 122 then c - 32 else c)"

definition type_of_letter :: "byte \<Rightarrow> transfer_type option" where
  "type_of_letter c =
     (if toupper c = of_char CHR ''D'' then Some TTYPE_DOWNLOAD
      else if toupper c = of_char CHR ''O'' then Some TTYPE_OFFER else None)"

text \<open>
  The result is the returned number, the type when one is stored through \<^verbatim>\<open>ptype\<close>, and the
  two ids when they are stored. \<open>want\<close>: \<^verbatim>\<open>ptype\<close> is not null.
\<close>

definition transfer_strtoi ::
    "bool \<Rightarrow> cstring \<Rightarrow> int \<times> transfer_type option \<times> (u64 \<times> u64) option" where
  "transfer_strtoi want s =
     (let s1 = dropWhile isspace s;
          (n1, ro1) = (if s1 = [] then (0, 0, 0)
                 else if tl s1 = [] \<or> hd (tl s1) \<noteq> 44 then (1, 0, 0)
                 else case scan_pair (tl (tl s1)) (0, 0) of (k, ro) \<Rightarrow> (k + 1, ro))
      in if n1 = 3 then
           (if want then (case type_of_letter (hd s1) of
                            None \<Rightarrow> (- 1, None, None)
                          | Some ty \<Rightarrow> (3, Some ty, Some ro1))
            else (3, None, Some ro1))
         else case scan_pair s ro1 of (n2, ro2) \<Rightarrow>
           if n2 = 2 then (2, None, Some ro2)
           else case scan_hex s of
             None \<Rightarrow> (- 1, None, None)
           | Some (q, _) \<Rightarrow> (1, None, Some (fst ro2, q)))"

section \<open>The list\<close>

definition transfer_new :: "transfer_type \<Rightarrow> int \<Rightarrow> xfer \<Rightarrow> xfer" where
  "transfer_new type now x =
     x\<lparr>transfers := \<lparr>tr_type = type, tr_rid = 0, tr_oid = 0, tr_name = None, tr_partname = None,
        tr_size = 0, tr_offset = 0, tr_fd = - 1, tr_tstart = now, tr_tact = now\<rparr> # transfers x\<rparr>"

definition put_transfer :: "nat \<Rightarrow> transfer_t \<Rightarrow> xfer \<Rightarrow> xfer" where
  "put_transfer i t x = x\<lparr>transfers := (transfers x)[i := t]\<rparr>"

fun match_list :: "transfer_type \<Rightarrow> u64 \<Rightarrow> u64 \<Rightarrow> transfer_t list \<Rightarrow> nat option" where
  "match_list type rid oid [] = None"
| "match_list type rid oid (t # ts) =
     (if type = tr_type t \<and> oid = tr_oid t \<and> rid = tr_rid t \<and> 0 < tr_tact t then Some 0
      else map_option Suc (match_list type rid oid ts))"

definition transfer_match :: "transfer_type \<Rightarrow> u64 \<Rightarrow> u64 \<Rightarrow> int \<Rightarrow> xfer \<Rightarrow> nat option \<times> xfer" where
  "transfer_match type rid oid now x =
     (case match_list type rid oid (transfers x) of
        None \<Rightarrow> (None, x)
      | Some i \<Rightarrow> (Some i, put_transfer i ((transfers x ! i)\<lparr>tr_tact := now\<rparr>) x))"

fun closeall_list :: "transfer_t list \<Rightarrow> fsys \<Rightarrow> transfer_t list \<times> fsys" where
  "closeall_list [] fs = ([], fs)"
| "closeall_list (p # ps) fs =
     (let (p, fs) = (if 0 \<le> tr_fd p then (p\<lparr>tr_fd := - 1\<rparr>, sys_close (tr_fd p) fs) else (p, fs));
          (ps, fs) = closeall_list ps fs
      in (p # ps, fs))"

definition transfer_closeall :: "xfer \<Rightarrow> xfer" where
  "transfer_closeall x =
     (case closeall_list (transfers x) (x_fs x) of (ts, fs) \<Rightarrow> x\<lparr>transfers := ts, x_fs := fs\<rparr>)"

definition invalidate_entry :: "transfer_t \<Rightarrow> fsys \<Rightarrow> transfer_t \<times> fsys" where
  "invalidate_entry p fs =
     (p\<lparr>tr_rid := 0, tr_oid := 0, tr_tact := 0, tr_fd := - 1\<rparr>, sys_close (tr_fd p) fs)"

definition transfer_invalidate :: "nat \<Rightarrow> xfer \<Rightarrow> xfer" where
  "transfer_invalidate i x =
     (case invalidate_entry (transfers x ! i) (x_fs x) of (t, fs) \<Rightarrow> put_transfer i t (x\<lparr>x_fs := fs\<rparr>))"

fun upkeep_list :: "int \<Rightarrow> int \<Rightarrow> transfer_t list \<Rightarrow> fsys \<Rightarrow> transfer_t list \<times> fsys" where
  "upkeep_list timeout now [] fs = ([], fs)"
| "upkeep_list timeout now (p # ps) fs =
     (if tr_tact p + timeout < now then
        upkeep_list timeout now ps (if 0 \<le> tr_fd p then sys_close (tr_fd p) fs else fs)
      else case upkeep_list timeout now ps fs of (ps, fs) \<Rightarrow> (p # ps, fs))"

definition transfer_upkeep :: "int \<Rightarrow> int \<Rightarrow> xfer \<Rightarrow> xfer" where
  "transfer_upkeep timeout now x =
     (case upkeep_list timeout now (transfers x) (x_fs x) of (ts, fs) \<Rightarrow>
        x\<lparr>transfers := ts, x_fs := fs\<rparr>)"

text \<open>The callback gets the output so far and the entry, and gives its result and the output.\<close>

fun list_entries :: "('o \<Rightarrow> transfer_t \<Rightarrow> (int \<times> 'o) res) \<Rightarrow> int \<Rightarrow> transfer_t list \<Rightarrow> 'o
    \<Rightarrow> (int \<times> 'o) res" where
  "list_entries cb n [] out = Inr (n, out)"
| "list_entries cb n (p # ps) out =
     (if tr_rid p \<noteq> 0 \<and> tr_oid p \<noteq> 0 \<and> tr_tact p \<noteq> 0 then
        bindr (cb out p) (\<lambda>(r, out).
          if r < 0 then Inr (n, out) else list_entries cb (n + 1) ps out)
      else list_entries cb n ps out)"

definition transfer_list ::
    "('o \<Rightarrow> transfer_t \<Rightarrow> (int \<times> 'o) res) \<Rightarrow> xfer \<Rightarrow> 'o \<Rightarrow> (int \<times> 'o) res" where
  "transfer_list cb x out = list_entries cb 0 (transfers x) out"

text \<open>
  The mask of \<^verbatim>\<open>transfer_remove()\<close>: a letter and two fields of at most 16 hexadecimal digits
  or asterisks, read by \<^verbatim>\<open>sscanf\<close>.
\<close>

definition mask_char :: "byte \<Rightarrow> bool" where
  "mask_char c \<longleftrightarrow> c = 42 \<or> xdigit c \<noteq> None"

definition scan_mask :: "cstring \<Rightarrow> (byte \<times> cstring \<times> cstring) option" where
  "scan_mask s =
     (let s = dropWhile isspace s in
      if length s < 2 \<or> s ! 1 \<noteq> 44 then None
      else let t = drop 2 s; rids = take 16 (takeWhile mask_char t); u = drop (length rids) t in
        if rids = [] \<or> u = [] \<or> hd u \<noteq> 44 then None
        else let oids = take 16 (takeWhile mask_char (tl u)) in
          if oids = [] then None else Some (hd s, rids, oids))"

definition type_letter :: "transfer_type \<Rightarrow> byte" where
  "type_letter ty = (case ty of TTYPE_OFFER \<Rightarrow> of_char CHR ''O'' | TTYPE_DOWNLOAD \<Rightarrow> of_char CHR ''D'')"

definition mask_matches :: "byte \<Rightarrow> cstring \<Rightarrow> cstring \<Rightarrow> transfer_t \<Rightarrow> bool" where
  "mask_matches t rids oids p \<longleftrightarrow>
     (t = 42 \<or> type_letter (tr_type p) = t) \<and>
     (hd rids = 42 \<or> fst (strtoull16 rids) = tr_rid p) \<and>
     (hd oids = 42 \<or> fst (strtoull16 oids) = tr_oid p)"

fun remove_list :: "(transfer_t \<Rightarrow> bool) \<Rightarrow> transfer_t list \<Rightarrow> fsys \<Rightarrow> int \<times> transfer_t list \<times> fsys" where
  "remove_list m [] fs = (0, [], fs)"
| "remove_list m (p # ps) fs =
     (if m p then
        (case invalidate_entry p fs of (q, fs) \<Rightarrow>
           case remove_list m ps fs of (n, qs, fs) \<Rightarrow> (n + 1, q # qs, fs))
      else case remove_list m ps fs of (n, qs, fs) \<Rightarrow> (n, p # qs, fs))"

definition transfer_remove :: "cstring \<Rightarrow> xfer \<Rightarrow> int \<times> xfer" where
  "transfer_remove s x =
     (case scan_mask s of
        None \<Rightarrow> (- 1, x)
      | Some (t, rids, oids) \<Rightarrow>
          (let t = toupper t in
           if t \<noteq> 42 \<and> t \<noteq> of_char CHR ''O'' \<and> t \<noteq> of_char CHR ''D'' \<or>
              42 \<in> set rids \<and> length rids \<noteq> 1 \<or> 42 \<in> set oids \<and> length oids \<noteq> 1 then (- 1, x)
           else case remove_list (mask_matches t rids oids) (transfers x) (x_fs x) of
             (n, ts, fs) \<Rightarrow> (n, x\<lparr>transfers := ts, x_fs := fs\<rparr>)))"

section \<open>Offers\<close>

definition offer_new :: "u64 \<Rightarrow> cstring \<Rightarrow> int \<Rightarrow> xfer \<Rightarrow> nat option \<times> xfer" where
  "offer_new dest filename now x =
     (let fsz = fsize filename (x_fs x) in
      if fsz < 0 then (None, x)
      else let x = transfer_new TTYPE_OFFER now x; (r, x) = prng_random x in
        (Some 0, put_transfer 0 ((transfers x ! 0)\<lparr>tr_rid := dest, tr_oid := r,
                   tr_name := Some filename, tr_size := of_int fsz\<rparr>) x))"

text \<open>
  \<^verbatim>\<open>offer_read()\<close> opens the file when it is not open, then seeks and reads. \<open>mem\<close>
  bounds what \<^verbatim>\<open>malloc\<close> can give; \<^verbatim>\<open>malloc_s\<close> ends the process above it. The
  result is the returned buffer's content and the new \<^verbatim>\<open>*psz\<close>.
\<close>

definition open_unless :: "(cstring \<Rightarrow> fsys \<Rightarrow> int \<times> fsys) \<Rightarrow> cstring option \<Rightarrow> transfer_t \<Rightarrow> fsys
    \<Rightarrow> (transfer_t \<times> fsys) res" where
  "open_unless opn name t fs =
     (if 0 \<le> tr_fd t then Inr (t, fs)
      else bindr (need_str name) (\<lambda>nm. case opn nm fs of (fd, fs) \<Rightarrow> Inr (t\<lparr>tr_fd := fd\<rparr>, fs)))"

definition offer_fetch :: "nat \<Rightarrow> u64 \<Rightarrow> u64 \<Rightarrow> transfer_t \<Rightarrow> fsys
    \<Rightarrow> ((byte list option \<times> u64) \<times> transfer_t \<times> fsys) res" where
  "offer_fetch mem off sz t fs =
     (if tr_fd t < 0 then Inr ((None, sz), t, fs)
      else case sys_seek_set (tr_fd t) off fs of (p, fs) \<Rightarrow>
        if p < 0 then Inr ((None, sz), t, fs)
        else if mem < unat sz then Inl Die
        else case sys_read (tr_fd t) (unat sz) fs of
          (None, fs) \<Rightarrow> Inr ((None, sz), t\<lparr>tr_fd := - 1\<rparr>, sys_close (tr_fd t) fs)
        | (Some bs, fs) \<Rightarrow>
            if bs = [] then Inr ((None, 0), t\<lparr>tr_fd := - 1\<rparr>, sys_close (tr_fd t) fs)
            else Inr ((Some bs, of_nat (length bs)), t, fs))"

definition offer_read ::
    "nat \<Rightarrow> nat \<Rightarrow> u64 \<Rightarrow> u64 \<Rightarrow> xfer \<Rightarrow> ((byte list option \<times> u64) \<times> xfer) res" where
  "offer_read mem i off sz x =
     bindr (open_unless (sys_open False) (tr_name (transfers x ! i)) (transfers x ! i) (x_fs x))
       (\<lambda>(t, fs). bindr (offer_fetch mem off sz t fs)
         (\<lambda>(r, t, fs). Inr (r, put_transfer i t (x\<lparr>x_fs := fs\<rparr>))))"

section \<open>Downloads\<close>

definition download_new :: "int \<Rightarrow> xfer \<Rightarrow> xfer" where
  "download_new now x = transfer_new TTYPE_DOWNLOAD now x"

definition download_put :: "byte list \<Rightarrow> transfer_t \<Rightarrow> fsys \<Rightarrow> int \<times> transfer_t \<times> fsys" where
  "download_put data t fs =
     (if tr_fd t < 0 then (- 1, t, fs)
      else case sys_write (tr_fd t) data fs of (n, fs) \<Rightarrow>
        if n < int (length data) then (- 1, t\<lparr>tr_fd := - 1\<rparr>, sys_close (tr_fd t) fs)
        else (0, t, fs))"

definition download_write :: "nat \<Rightarrow> byte list \<Rightarrow> xfer \<Rightarrow> (int \<times> xfer) res" where
  "download_write i data x =
     bindr (open_unless sys_create (tr_partname (transfers x ! i)) (transfers x ! i) (x_fs x))
       (\<lambda>(t, fs). case download_put data t fs of (r, t, fs) \<Rightarrow>
         Inr (r, put_transfer i t (x\<lparr>x_fs := fs\<rparr>)))"

definition download_resume :: "nat \<Rightarrow> xfer \<Rightarrow> (int \<times> xfer) res" where
  "download_resume i x =
     (let d = transfers x ! i in
      if 0 \<le> tr_fd d then Inr (- 1, x)
      else case tr_partname d of
        None \<Rightarrow> Inl NullDeref
      | Some pn \<Rightarrow>
          (case sys_open True pn (x_fs x) of (fd, fs) \<Rightarrow>
             if fd < 0 then Inr (- 1, put_transfer i (d\<lparr>tr_fd := fd\<rparr>) (x\<lparr>x_fs := fs\<rparr>))
             else case sys_seek_end fd fs of (off, fs) \<Rightarrow>
               if off = - 1 then
                 Inr (- 1, put_transfer i (d\<lparr>tr_fd := - 1\<rparr>) (x\<lparr>x_fs := sys_close fd fs\<rparr>))
               else Inr (0, put_transfer i (d\<lparr>tr_fd := fd, tr_offset := of_int off\<rparr>) (x\<lparr>x_fs := fs\<rparr>))))"
section \<open>Ownership of the descriptors\<close>

text \<open>
  Every open file belongs to exactly one entry of the list, so that no entry reads or writes
  another's file, nothing is closed twice and no descriptor is lost. \<open>fd_kind\<close> tells whether a
  descriptor is reserved (a stream or a socket) or an open file; \<open>K\<close> are the descriptors of the
  process that are not the business of the transfers: they stay as they are.
\<close>

definition fds :: "transfer_t list \<Rightarrow> int list" where
  "fds ts = filter (\<lambda>fd. 0 \<le> fd) (map tr_fd ts)"

definition fd_kind :: "fsys \<Rightarrow> int \<Rightarrow> bool option" where
  "fd_kind fs fd = map_option (\<lambda>e. e = Reserved) (fd_get fs fd)"

definition owned :: "(int \<Rightarrow> bool option) \<Rightarrow> transfer_t list \<Rightarrow> fsys \<Rightarrow> bool" where
  "owned K ts fs \<longleftrightarrow> distinct (fds ts) \<and> (\<forall>fd \<in> set (fds ts). K fd = None) \<and>
     fd_kind fs = (\<lambda>fd. if fd \<in> set (fds ts) then Some False else K fd)"

definition xfer_inv :: "(int \<Rightarrow> bool option) \<Rightarrow> xfer \<Rightarrow> bool" where
  "xfer_inv K x \<longleftrightarrow> owned K (transfers x) (x_fs x)"

lemma fds_Nil [simp]: "fds [] = []"
  and fds_append [simp]: "fds (xs @ ys) = fds xs @ fds ys"
  and fds_Cons: "fds (t # ts) = (if 0 \<le> tr_fd t then [tr_fd t] else []) @ fds ts"
  by (simp_all add: fds_def)

lemma fds_nonneg: "fd \<in> set (fds ts) \<Longrightarrow> 0 \<le> fd"
  by (simp add: fds_def)

lemma fd_kind_close: "fd_kind (sys_close fd fs) = (fd_kind fs)(fd := None)"
  by (simp add: fd_kind_def fd_get_close fun_eq_iff)

lemma owned_split:
  assumes "i < length ts"
  obtains pre post where "ts = pre @ ts ! i # post" and "\<And>t. ts[i := t] = pre @ t # post"
    and "length pre = i"
  using assms id_take_nth_drop [OF assms] upd_conv_take_nth_drop [OF assms]
    that [of "take i ts" "drop (Suc i) ts"] by simp

lemma owned_same:
  assumes "owned K ts fs" and "i < length ts" and "tr_fd t = tr_fd (ts ! i)" and "fd_kind fs' = fd_kind fs"
  shows "owned K (ts[i := t]) fs'"
proof -
  obtain pre post where s: "ts = pre @ ts ! i # post" "ts[i := t] = pre @ t # post"
    using owned_split [OF assms(2)] by metis
  have "fds (ts[i := t]) = fds ts" using assms(3) by (subst s(1)) (simp add: s(2) fds_Cons)
  then show ?thesis using assms by (simp add: owned_def)
qed

lemma owned_close:
  assumes "owned K ts fs" and "i < length ts" and "tr_fd t < 0"
  shows "owned K (ts[i := t]) (sys_close (tr_fd (ts ! i)) fs)"
proof -
  obtain pre post where s: "ts = pre @ ts ! i # post" "ts[i := t] = pre @ t # post"
    using owned_split [OF assms(2)] by metis
  have "fds ts = fds pre @ (if 0 \<le> tr_fd (ts ! i) then [tr_fd (ts ! i)] else []) @ fds post"
    by (subst s(1)) (simp add: fds_Cons)
  moreover have "fds (ts[i := t]) = fds pre @ fds post" using assms(3) by (simp add: s(2) fds_Cons)
  ultimately show ?thesis
    using assms(1)
    by (cases "0 \<le> tr_fd (ts ! i)") (auto simp: owned_def fd_kind_close fun_eq_iff)
qed

lemma owned_open:
  assumes "owned K ts fs" and "i < length ts" and "tr_fd (ts ! i) < 0" and "0 \<le> tr_fd t"
    and "fd_kind fs (tr_fd t) = None" and "fd_kind fs' = (fd_kind fs)(tr_fd t := Some False)"
  shows "owned K (ts[i := t]) fs'"
proof -
  obtain pre post where s: "ts = pre @ ts ! i # post" "ts[i := t] = pre @ t # post"
    using owned_split [OF assms(2)] by metis
  have "fds ts = fds pre @ fds post" using assms(3) by (subst s(1)) (simp add: fds_Cons)
  moreover have "fds (ts[i := t]) = fds pre @ tr_fd t # fds post"
    using assms(4) by (simp add: s(2) fds_Cons)
  ultimately show ?thesis using assms by (auto simp: owned_def fun_eq_iff split: if_splits)
qed

lemma owned_Cons_closed: "tr_fd t < 0 \<Longrightarrow> owned K (t # ts) fs = owned K ts fs"
  by (simp add: owned_def fds_Cons)

text \<open>The file operations and the set of open files.\<close>

lemma fd_kind_put:
  assumes "fd_get fs fd = Some (Opened ino pos w)"
  shows "fd_kind (fd_put fd (Some (Opened ino' pos' w')) fs) = fd_kind fs"
  using assms by (simp add: fd_kind_def fd_get_put_live [OF assms] fun_eq_iff)

lemma fd_kind_update [simp]: "fd_kind (fs\<lparr>fs_inodes := i, fs_room := r\<rparr>) = fd_kind fs"
  by (simp add: fd_kind_def fd_get_def fun_eq_iff)

lemma fd_kind_seek: "sys_seek_set fd off fs = (p, fs') \<Longrightarrow> fd_kind fs' = fd_kind fs"
  by (auto simp: sys_seek_set_def fd_kind_put split: option.splits open_file.splits if_splits)

lemma fd_kind_seek_end: "sys_seek_end fd fs = (p, fs') \<Longrightarrow> fd_kind fs' = fd_kind fs"
  by (auto simp: sys_seek_end_def fd_kind_put split: option.splits open_file.splits if_splits)

lemma fd_kind_read: "sys_read fd n fs = (r, fs') \<Longrightarrow> fd_kind fs' = fd_kind fs"
  by (auto simp: sys_read_def fd_kind_put Let_def split: option.splits open_file.splits if_splits)

lemma fd_kind_write: "sys_write fd bs fs = (r, fs') \<Longrightarrow> fd_kind fs' = fd_kind fs"
  by (auto simp: sys_write_def fd_kind_put Let_def split: option.splits open_file.splits if_splits bool.splits)

lemma sys_open_fds:
  assumes "sys_open w name fs = (fd, fs')"
  shows "fd < 0 \<and> fs' = fs \<and> fd = - 1
    \<or> 0 \<le> fd \<and> fd_kind fs fd = None \<and> fd_kind fs' = (fd_kind fs)(fd := Some False)"
  by (rule sys_open_cases [of w name fs]) (use assms in \<open>auto simp: fd_kind_def fun_eq_iff\<close>)

lemma sys_create_fds:
  assumes "sys_create name fs = (fd, fs')"
  shows "fd < 0 \<and> fs' = fs \<and> fd = - 1
    \<or> 0 \<le> fd \<and> fd_kind fs fd = None \<and> fd_kind fs' = (fd_kind fs)(fd := Some False)"
  by (rule sys_create_cases [of name fs]) (use assms in \<open>auto simp: fd_kind_def fun_eq_iff\<close>)

lemma fd_kind_unlink [simp]: "fd_kind (sys_unlink name fs) = fd_kind fs"
  by (simp add: sys_unlink_def fd_kind_def fun_eq_iff)

lemma put_transfer_simps [simp]:
  "transfers (put_transfer i t x) = (transfers x)[i := t]" "x_fs (put_transfer i t x) = x_fs x"
  "x_rng (put_transfer i t x) = x_rng x"
  by (simp_all add: put_transfer_def)

text \<open>Each operation keeps the ownership.\<close>

lemma transfer_new_inv: "xfer_inv K x \<Longrightarrow> xfer_inv K (transfer_new type now x)"
  by (simp add: xfer_inv_def transfer_new_def owned_Cons_closed)

lemma match_list_Some:
  "match_list type rid oid ts = Some i \<Longrightarrow>
    i < length ts \<and> tr_type (ts ! i) = type \<and> tr_rid (ts ! i) = rid \<and> tr_oid (ts ! i) = oid \<and>
    0 < tr_tact (ts ! i)"
  by (induction ts arbitrary: i) (auto split: if_splits)

lemma match_list_None:
  "match_list type rid oid ts = None \<longleftrightarrow>
    (\<forall>t \<in> set ts. \<not> (tr_type t = type \<and> tr_rid t = rid \<and> tr_oid t = oid \<and> 0 < tr_tact t))"
  by (induction ts) auto

lemma transfer_match_inv: "xfer_inv K x \<Longrightarrow> transfer_match type rid oid now x = (r, x') \<Longrightarrow> xfer_inv K x'"
  by (auto simp: xfer_inv_def transfer_match_def dest!: match_list_Some [OF sym]
      intro!: owned_same split: option.splits)

lemma closeall_list_owned:
  "owned K (pre @ ts) fs \<Longrightarrow> fds pre = [] \<Longrightarrow> closeall_list ts fs = (ts', fs') \<Longrightarrow>
    owned K [] fs' \<and> ts' = map (\<lambda>t. t\<lparr>tr_fd := (if 0 \<le> tr_fd t then - 1 else tr_fd t)\<rparr>) ts"
proof (induction ts arbitrary: pre fs ts' fs')
  case Nil
  then show ?case by (simp add: owned_def)
next
  case (Cons p ts)
  let ?p = "p\<lparr>tr_fd := (if 0 \<le> tr_fd p then - 1 else tr_fd p)\<rparr>"
  let ?fs = "if 0 \<le> tr_fd p then sys_close (tr_fd p) fs else fs"
  obtain ts1 where r: "closeall_list ts ?fs = (ts1, fs')" "ts' = ?p # ts1"
    using Cons.prems(3) by (auto simp: Let_def split: if_splits prod.splits)
  have "owned K (pre @ ?p # ts) ?fs"
    using owned_close [OF Cons.prems(1), of "length pre" ?p] Cons.prems(1)
      by (cases "0 \<le> tr_fd p") (simp_all add: owned_def fds_Cons)
  moreover have "fds (pre @ [?p]) = []" using Cons.prems(2) by (simp add: fds_Cons)
  ultimately show ?case using Cons.IH [of "pre @ [?p]" ?fs] r by simp
qed

lemma transfer_closeall_inv:
  assumes "xfer_inv K x"
  shows "xfer_inv K (transfer_closeall x)" and "fd_kind (x_fs (transfer_closeall x)) = K"
proof -
  obtain ts fs where c: "closeall_list (transfers x) (x_fs x) = (ts, fs)" by fastforce
  have "owned K [] fs" "fds ts = []"
    using closeall_list_owned [of K "[]" "transfers x" "x_fs x"] c assms
    by (auto simp: xfer_inv_def fds_def filter_empty_conv)
  then show "xfer_inv K (transfer_closeall x)" "fd_kind (x_fs (transfer_closeall x)) = K"
    using c by (auto simp: xfer_inv_def transfer_closeall_def owned_def)
qed

lemma transfer_invalidate_inv:
  "xfer_inv K x \<Longrightarrow> i < length (transfers x) \<Longrightarrow> xfer_inv K (transfer_invalidate i x)"
  by (simp add: xfer_inv_def transfer_invalidate_def invalidate_entry_def owned_close)

lemma upkeep_list_owned:
  "owned K (pre @ ts) fs \<Longrightarrow> upkeep_list timeout now ts fs = (ts', fs') \<Longrightarrow>
    owned K (pre @ ts') fs' \<and> ts' = filter (\<lambda>p. now \<le> tr_tact p + timeout) ts"
proof (induction ts arbitrary: pre fs ts' fs')
  case Nil
  then show ?case by simp
next
  case (Cons p ts)
  show ?case
  proof (cases "tr_tact p + timeout < now")
    case True
    let ?fs = "if 0 \<le> tr_fd p then sys_close (tr_fd p) fs else fs"
    have "owned K (pre @ ts) ?fs"
      using owned_close [OF Cons.prems(1), of "length pre" "p\<lparr>tr_fd := - 1\<rparr>"] Cons.prems(1)
      by (cases "0 \<le> tr_fd p") (simp_all add: owned_def fds_Cons)
    then show ?thesis using Cons.IH [of pre ?fs] Cons.prems(2) True by auto
  next
    case False
    then obtain ts1 where r: "upkeep_list timeout now ts fs = (ts1, fs')" "ts' = p # ts1"
      using Cons.prems(2) by (auto split: prod.splits)
    show ?thesis using Cons.IH [of "pre @ [p]" fs] Cons.prems(1) r False by auto
  qed
qed

lemma transfer_upkeep_inv:
  assumes "xfer_inv K x"
  shows "xfer_inv K (transfer_upkeep timeout now x)"
    and "transfers (transfer_upkeep timeout now x)
      = filter (\<lambda>p. now \<le> tr_tact p + timeout) (transfers x)"
proof -
  obtain ts fs where c: "upkeep_list timeout now (transfers x) (x_fs x) = (ts, fs)" by fastforce
  show "xfer_inv K (transfer_upkeep timeout now x)" "transfers (transfer_upkeep timeout now x)
      = filter (\<lambda>p. now \<le> tr_tact p + timeout) (transfers x)"
    using upkeep_list_owned [of K "[]" "transfers x" "x_fs x"] c assms
    by (auto simp: xfer_inv_def transfer_upkeep_def)
qed

definition invalidated :: "transfer_t \<Rightarrow> transfer_t" where
  "invalidated p = p\<lparr>tr_rid := 0, tr_oid := 0, tr_tact := 0, tr_fd := - 1\<rparr>"

lemma remove_list_owned:
  "owned K (pre @ ts) fs \<Longrightarrow> remove_list m ts fs = (n, ts', fs') \<Longrightarrow>
    owned K (pre @ ts') fs' \<and> n = int (length (filter m ts)) \<and>
    ts' = map (\<lambda>p. if m p then invalidated p else p) ts"
proof (induction ts arbitrary: pre fs ts' fs' n)
  case Nil
  then show ?case by simp
next
  case (Cons p ts)
  show ?case
  proof (cases "m p")
    case True
    obtain n1 ts1 where r: "remove_list m ts (sys_close (tr_fd p) fs) = (n1, ts1, fs')"
      "ts' = invalidated p # ts1" "n = n1 + 1"
      using Cons.prems(2) True by (auto simp: invalidate_entry_def invalidated_def split: prod.splits)
    have "owned K (pre @ invalidated p # ts) (sys_close (tr_fd p) fs)"
      using owned_close [OF Cons.prems(1), of "length pre" "invalidated p"] by (simp add: invalidated_def)
    then show ?thesis using Cons.IH [of "pre @ [invalidated p]"] r True by auto
  next
    case False
    then obtain n1 ts1 where r: "remove_list m ts fs = (n1, ts1, fs')" "ts' = p # ts1" "n = n1"
      using Cons.prems(2) by (auto split: prod.splits)
    show ?thesis using Cons.IH [of "pre @ [p]" fs] Cons.prems(1) r False by auto
  qed
qed

lemma transfer_remove_inv:
  assumes "xfer_inv K x" and "transfer_remove s x = (n, x')"
  shows "xfer_inv K x'"
proof -
  have "xfer_inv K (x\<lparr>transfers := ts, x_fs := fs\<rparr>)"
    if "remove_list m (transfers x) (x_fs x) = (k, ts, fs)" for m k ts fs
    using remove_list_owned [of K "[]", OF _ that] assms(1) by (auto simp: xfer_inv_def)
  then show ?thesis using assms
    by (auto simp: transfer_remove_def Let_def split: option.splits if_splits prod.splits)
qed

lemma offer_new_inv: "xfer_inv K x \<Longrightarrow> offer_new dest filename now x = (r, x') \<Longrightarrow> xfer_inv K x'"
  by (auto simp: xfer_inv_def offer_new_def transfer_new_def prng_random_def Let_def
      owned_Cons_closed put_transfer_def split: if_splits prod.splits)

lemma open_unless_inv:
  assumes r: "open_unless opn nm t fs = Inr (t', fs')" and inv: "owned K ts fs"
    and i: "i < length ts" "t = ts ! i"
    and opn: "\<And>name fd fs'. opn name fs = (fd, fs') \<Longrightarrow> fd < 0 \<and> fs' = fs \<and> fd = - 1
      \<or> 0 \<le> fd \<and> fd_kind fs fd = None \<and> fd_kind fs' = (fd_kind fs)(fd := Some False)"
  shows "owned K (ts[i := t']) fs'"
proof (cases "0 \<le> tr_fd t")
  case True
  then show ?thesis using r inv i by (auto simp: open_unless_def)
next
  case False
  obtain name fd where n: "t' = t\<lparr>tr_fd := fd\<rparr>" and op: "opn name fs = (fd, fs')"
    using r False by (auto simp: open_unless_def split: prod.splits)
  from opn [OF op] show ?thesis
  proof (elim disjE conjE)
    assume "fd < 0" "fs' = fs" "fd = - 1"
    then show ?thesis using owned_close [OF inv i(1), of "t\<lparr>tr_fd := - 1\<rparr>"] False i(2) n by simp
  next
    assume "0 \<le> fd" "fd_kind fs fd = None" "fd_kind fs' = (fd_kind fs)(fd := Some False)"
    then show ?thesis using owned_open [OF inv i(1), of t' fs'] False i(2) n by simp
  qed
qed

lemma offer_fetch_inv:
  assumes r: "offer_fetch mem off sz t fs = Inr (r, t', fs')" and inv: "owned K (ts[i := t]) fs"
    and i: "i < length ts"
  shows "owned K (ts[i := t']) fs'"
proof -
  have set: "owned K (ts[i := t]) fs1" if "fd_kind fs1 = fd_kind fs" for fs1
    using inv that by (simp add: owned_def)
  have cl: "owned K (ts[i := t\<lparr>tr_fd := - 1\<rparr>]) (sys_close (tr_fd t) fs1)"
    if "fd_kind fs1 = fd_kind fs" for fs1
    using owned_close [OF set [OF that], of i "t\<lparr>tr_fd := - 1\<rparr>"] i by simp
  show ?thesis
    using r set cl inv unfolding offer_fetch_def
    by (auto dest!: fd_kind_seek fd_kind_read split: if_splits prod.splits option.splits)
qed

lemma offer_read_inv:
  assumes inv: "xfer_inv K x" and i: "i < length (transfers x)"
    and r: "offer_read mem i off sz x = Inr (r, x')"
  shows "xfer_inv K x'"
proof -
  obtain t fs t' fs' where op: "open_unless (sys_open False) (tr_name (transfers x ! i)) (transfers x ! i) (x_fs x)
      = Inr (t, fs)"
    and fe: "offer_fetch mem off sz t fs = Inr (r, t', fs')" and x': "x' = put_transfer i t' (x\<lparr>x_fs := fs'\<rparr>)"
    using r by (auto simp: offer_read_def)
  have "owned K ((transfers x)[i := t]) fs"
    by (rule open_unless_inv [OF op _ i refl sys_open_fds]) (use inv in \<open>simp add: xfer_inv_def\<close>)
  then show ?thesis using offer_fetch_inv [OF fe _ i] x' by (simp add: xfer_inv_def)
qed

lemma download_put_inv:
  assumes r: "download_put data t fs = (r, t', fs')" and inv: "owned K (ts[i := t]) fs" and i: "i < length ts"
  shows "owned K (ts[i := t']) fs'"
proof -
  have set: "owned K (ts[i := t]) fs1" if "fd_kind fs1 = fd_kind fs" for fs1
    using inv that by (simp add: owned_def)
  have cl: "owned K (ts[i := t\<lparr>tr_fd := - 1\<rparr>]) (sys_close (tr_fd t) fs1)"
    if "fd_kind fs1 = fd_kind fs" for fs1
    using owned_close [OF set [OF that], of i "t\<lparr>tr_fd := - 1\<rparr>"] i by simp
  show ?thesis
    using r set cl inv unfolding download_put_def
    by (auto dest!: fd_kind_write split: if_splits prod.splits)
qed

lemma download_write_inv:
  assumes inv: "xfer_inv K x" and i: "i < length (transfers x)" and r: "download_write i data x = Inr (r, x')"
  shows "xfer_inv K x'"
proof -
  obtain t fs t' fs' where op: "open_unless sys_create (tr_partname (transfers x ! i)) (transfers x ! i) (x_fs x)
      = Inr (t, fs)"
    and pu: "download_put data t fs = (r, t', fs')" and x': "x' = put_transfer i t' (x\<lparr>x_fs := fs'\<rparr>)"
    using r by (auto simp: download_write_def split: prod.splits)
  have "owned K ((transfers x)[i := t]) fs"
    by (rule open_unless_inv [OF op _ i refl sys_create_fds]) (use inv in \<open>simp add: xfer_inv_def\<close>)
  then show ?thesis using download_put_inv [OF pu _ i] x' by (simp add: xfer_inv_def)
qed

lemma download_resume_inv:
  assumes inv: "xfer_inv K x" and i: "i < length (transfers x)" and r: "download_resume i x = Inr (r, x')"
  shows "xfer_inv K x'"
proof (cases "0 \<le> tr_fd (transfers x ! i)")
  case True
  then show ?thesis using r inv by (simp add: download_resume_def)
next
  case False
  let ?d = "transfers x ! i"
  obtain pn fd fs where pn: "tr_partname ?d = Some pn" and op: "sys_open True pn (x_fs x) = (fd, fs)"
    using r False by (auto simp: download_resume_def Let_def split: option.splits prod.splits)
  have "open_unless (sys_open True) (Some pn) ?d (x_fs x) = Inr (?d\<lparr>tr_fd := fd\<rparr>, fs)"
    using False op by (simp add: open_unless_def need_str_def)
  from open_unless_inv [OF this _ i refl sys_open_fds] inv
  have o: "owned K ((transfers x)[i := ?d\<lparr>tr_fd := fd\<rparr>]) fs" by (simp add: xfer_inv_def)
  have set: "owned K ((transfers x)[i := ?d\<lparr>tr_fd := fd, tr_offset := off\<rparr>]) fs1"
    if "fd_kind fs1 = fd_kind fs" for fs1 off
    using owned_same [OF o, of i "?d\<lparr>tr_fd := fd, tr_offset := off\<rparr>" fs1] i that by simp
  have cl: "owned K ((transfers x)[i := ?d\<lparr>tr_fd := - 1\<rparr>]) (sys_close fd fs1)"
    if "fd_kind fs1 = fd_kind fs" for fs1
    using owned_close [of K "(transfers x)[i := ?d\<lparr>tr_fd := fd\<rparr>]" fs1 i "?d\<lparr>tr_fd := - 1\<rparr>"] o i that
    by (simp add: owned_def)
  show ?thesis
    using r set cl o False pn op unfolding download_resume_def Let_def xfer_inv_def
    by (auto dest!: fd_kind_seek_end split: if_splits prod.splits)
qed
lemma sint_of_small:
  fixes v :: u64
  assumes "unat v < 2 ^ 63"
  shows "sint v = int (unat v)"
proof -
  have "int (unat v) < int (2 ^ 63)" using assms by (simp only: of_nat_less_iff)
  then have "uint v < 2 ^ 63" by simp
  moreover have "0 \<le> uint v" by simp
  ultimately have "signed_take_bit 63 (uint v) = uint v"
    by (intro signed_take_bit_int_eq_self) linarith+
  then show ?thesis by (simp add: sint_uint)
qed

section \<open>What the operations on files do\<close>

text \<open>
  \<open>reads t fs ino\<close>: the entry \<open>t\<close> is open on the inode, or can be opened by its name.
  \<open>appends t fs ino\<close>: the entry is open for writing at the end of the inode's file.
\<close>

definition reads :: "transfer_t \<Rightarrow> fsys \<Rightarrow> nat \<Rightarrow> bool" where
  "reads t fs ino \<longleftrightarrow>
     (if 0 \<le> tr_fd t then \<exists>pos w. fd_get fs (tr_fd t) = Some (Opened ino pos w)
      else \<exists>nm. tr_name t = Some nm \<and> fs_names fs nm = Some ino \<and> \<not> fs_deny fs nm \<and>
        fd_lowest fs < fs_maxfd fs)"

definition appends :: "transfer_t \<Rightarrow> fsys \<Rightarrow> nat \<Rightarrow> bool" where
  "appends t fs ino \<longleftrightarrow>
     0 \<le> tr_fd t \<and> ino < length (fs_inodes fs) \<and>
     fd_get fs (tr_fd t) = Some (Opened ino (length (fs_inodes fs ! ino)) True)"

lemma sys_open_ok:
  assumes "fs_names fs nm = Some ino" and "\<not> fs_deny fs nm" and "fd_lowest fs < fs_maxfd fs"
  obtains fd fs' where "sys_open w nm fs = (fd, fs')" and "0 \<le> fd"
    and "fd_get fs' fd = Some (Opened ino 0 w)" and "fs_inodes fs' = fs_inodes fs"
    and "fs_names fs' = fs_names fs"
proof -
  obtain fd fs' where o: "sys_open w nm fs = (fd, fs')" by fastforce
  have nn: "fd \<noteq> - 1"
    using o assms by (auto simp: sys_open_def fd_alloc_def split: if_splits)
  show ?thesis
    by (rule sys_open_cases [of w nm fs]) (use o nn that assms(1) in auto)
qed

lemma offer_read_slice:
  assumes i: "i < length (transfers x)" and rd: "reads (transfers x ! i) (x_fs x) ino"
    and off: "unat off < 2 ^ 63" and mem: "unat sz \<le> mem"
  obtains x' t where "offer_read mem i off sz x =
      Inr (let bs = take (unat sz) (drop (unat off) (fs_inodes (x_fs x) ! ino)) in
        if bs = [] then (None, 0) else (Some bs, of_nat (length bs)), x')"
    and "fs_inodes (x_fs x') = fs_inodes (x_fs x)" and "fs_names (x_fs x') = fs_names (x_fs x)"
    and "transfers x' = (transfers x)[i := (transfers x ! i)\<lparr>tr_fd := t\<rparr>]"
    and "take (unat sz) (drop (unat off) (fs_inodes (x_fs x) ! ino)) \<noteq> [] \<Longrightarrow>
      0 \<le> t \<and> reads ((transfers x ! i)\<lparr>tr_fd := t\<rparr>) (x_fs x') ino"
proof -
  let ?t = "transfers x ! i" and ?fs = "x_fs x"
  let ?bs = "take (unat sz) (drop (unat off) (fs_inodes ?fs ! ino))"
  obtain fd fs pos w where op: "open_unless (sys_open False) (tr_name ?t) ?t ?fs = Inr (?t\<lparr>tr_fd := fd\<rparr>, fs)"
    and fd: "0 \<le> fd" "fd_get fs fd = Some (Opened ino pos w)"
    and eq: "fs_inodes fs = fs_inodes ?fs" "fs_names fs = fs_names ?fs"
  proof (cases "0 \<le> tr_fd ?t")
    case True
    then obtain pos w where "fd_get ?fs (tr_fd ?t) = Some (Opened ino pos w)"
      using rd by (auto simp: reads_def)
    then show ?thesis using that [of "tr_fd ?t" ?fs pos w] True by (simp add: open_unless_def)
  next
    case False
    then obtain nm where nm: "tr_name ?t = Some nm" "fs_names ?fs nm = Some ino" "\<not> fs_deny ?fs nm"
      "fd_lowest ?fs < fs_maxfd ?fs"
      using rd by (auto simp: reads_def)
    obtain fd fs where "sys_open False nm ?fs = (fd, fs)" "0 \<le> fd"
      "fd_get fs fd = Some (Opened ino 0 False)" "fs_inodes fs = fs_inodes ?fs" "fs_names fs = fs_names ?fs"
      using sys_open_ok [OF nm(2-4)] by metis
    then show ?thesis using that [of fd fs 0 False] False nm(1) by (simp add: open_unless_def need_str_def)
  qed
  have "sint off = int (unat off)"
    using off by (rule sint_of_small)
  then have s: "sint off = int (unat off)" "\<not> sint off < 0" by simp_all
  let ?fs1 = "fd_put fd (Some (Opened ino (unat off) w)) fs"
  have sk: "sys_seek_set fd off fs = (sint off, ?fs1)"
    using fd s by (simp add: sys_seek_set_def)
  have g1: "fd_get ?fs1 fd = Some (Opened ino (unat off) w)" using fd by (simp add: fd_get_put_live [OF fd(2)])
  let ?fs2 = "fd_put fd (Some (Opened ino (unat off + length ?bs) w)) ?fs1"
  have rdd: "sys_read fd (unat sz) ?fs1 = (Some ?bs, ?fs2)"
    using g1 eq by (simp add: sys_read_def Let_def)
  have g2: "fd_get ?fs2 fd = Some (Opened ino (unat off + length ?bs) w)"
    by (simp add: fd_get_put_live [OF g1])
  let ?ne = "?bs \<noteq> []"
  let ?tf = "if ?ne then fd else - 1"
  let ?fs3 = "if ?ne then ?fs2 else sys_close fd ?fs2"
  have fe: "offer_fetch mem off sz (?t\<lparr>tr_fd := fd\<rparr>) fs =
      Inr (if ?bs = [] then (None, 0) else (Some ?bs, of_nat (length ?bs)), ?t\<lparr>tr_fd := ?tf\<rparr>, ?fs3)"
    unfolding offer_fetch_def using fd(1) sk s(2) mem rdd by simp
  show ?thesis
  proof (rule that [of "put_transfer i (?t\<lparr>tr_fd := ?tf\<rparr>) (x\<lparr>x_fs := ?fs3\<rparr>)" ?tf])
    show "offer_read mem i off sz x = Inr (let bs = ?bs in
        if bs = [] then (None, 0) else (Some bs, of_nat (length bs)),
        put_transfer i (?t\<lparr>tr_fd := ?tf\<rparr>) (x\<lparr>x_fs := ?fs3\<rparr>))"
      unfolding offer_read_def op by (simp add: fe Let_def)
  qed (use eq fd(1) g2 in \<open>auto simp: reads_def\<close>)
qed

lemma write_at_end: "write_at f (length f) bs = f @ bs"
  by (simp add: write_at_def)

lemma download_write_append:
  assumes i: "i < length (transfers x)" and ap: "appends (transfers x ! i) (x_fs x) ino"
    and room: "length data \<le> fs_room (x_fs x)"
  obtains x' where "download_write i data x = Inr (0, x')" and "transfers x' = transfers x"
    and "appends (transfers x ! i) (x_fs x') ino" and "fs_names (x_fs x') = fs_names (x_fs x)"
    and "fs_inodes (x_fs x') = (fs_inodes (x_fs x))[ino := fs_inodes (x_fs x) ! ino @ data]"
    and "fs_room (x_fs x') = fs_room (x_fs x) - length data"
proof -
  let ?t = "transfers x ! i" and ?fs = "x_fs x"
  let ?f = "fs_inodes ?fs ! ino"
  have fd: "0 \<le> tr_fd ?t" "fd_get ?fs (tr_fd ?t) = Some (Opened ino (length ?f) True)"
    and ino: "ino < length (fs_inodes ?fs)"
    using ap by (auto simp: appends_def)
  have op: "open_unless sys_create (tr_partname ?t) ?t ?fs = Inr (?t, ?fs)"
    using fd by (simp add: open_unless_def)
  let ?fs1 = "if data = [] then ?fs else
      (fd_put (tr_fd ?t) (Some (Opened ino (length ?f + length data) True)) ?fs)
        \<lparr>fs_inodes := (fs_inodes ?fs)[ino := ?f @ data], fs_room := fs_room ?fs - length data\<rparr>"
  have w: "sys_write (tr_fd ?t) data ?fs = (int (length data), ?fs1)"
    using fd room by (auto simp: sys_write_def Let_def write_at_end)
  have pu: "download_put data ?t ?fs = (0, ?t, ?fs1)"
    using fd w by (simp add: download_put_def)
  have same: "put_transfer i ?t (x\<lparr>x_fs := ?fs1\<rparr>) = x\<lparr>x_fs := ?fs1\<rparr>"
    by (simp add: put_transfer_def)
  show ?thesis
  proof (rule that [of "x\<lparr>x_fs := ?fs1\<rparr>"])
    show "download_write i data x = Inr (0, x\<lparr>x_fs := ?fs1\<rparr>)"
      unfolding download_write_def op using pu same by simp
    show "appends ?t (x_fs (x\<lparr>x_fs := ?fs1\<rparr>)) ino"
      using ap fd ino by (auto simp: appends_def fd_get_put_live [OF fd(2)])
  qed (use ino in \<open>auto\<close>)
qed

text \<open>Opening a part file: a new one is empty, an existing one is continued at its end.\<close>

lemma download_resume_existing:
  assumes i: "i < length (transfers x)" and fd: "tr_fd (transfers x ! i) < 0"
    and pn: "tr_partname (transfers x ! i) = Some pn" and nm: "fs_names (x_fs x) pn = Some ino"
      "\<not> fs_deny (x_fs x) pn" "fd_lowest (x_fs x) < fs_maxfd (x_fs x)"
    and ino: "ino < length (fs_inodes (x_fs x))"
  obtains x' fd where "download_resume i x = Inr (0, x')"
    and "transfers x' = (transfers x)[i := (transfers x ! i)\<lparr>tr_fd := fd,
           tr_offset := of_nat (length (fs_inodes (x_fs x) ! ino))\<rparr>]"
    and "appends (transfers x' ! i) (x_fs x') ino" and "fs_inodes (x_fs x') = fs_inodes (x_fs x)"
proof -
  let ?d = "transfers x ! i"
  obtain fd fs where o: "sys_open True pn (x_fs x) = (fd, fs)" "0 \<le> fd"
    "fd_get fs fd = Some (Opened ino 0 True)" "fs_inodes fs = fs_inodes (x_fs x)"
    using sys_open_ok [OF nm] by metis
  let ?n = "length (fs_inodes (x_fs x) ! ino)"
  let ?fs = "fd_put fd (Some (Opened ino ?n True)) fs"
  have s: "sys_seek_end fd fs = (int ?n, ?fs)" using o by (simp add: sys_seek_end_def)
  show ?thesis
  proof (rule that [of "put_transfer i (?d\<lparr>tr_fd := fd, tr_offset := of_nat ?n\<rparr>) (x\<lparr>x_fs := ?fs\<rparr>)" fd])
    show "download_resume i x = Inr (0, put_transfer i (?d\<lparr>tr_fd := fd, tr_offset := of_nat ?n\<rparr>) (x\<lparr>x_fs := ?fs\<rparr>))"
      using fd pn o s by (simp add: download_resume_def Let_def)
  qed (use i o ino in \<open>auto simp: appends_def fd_get_put_live [OF o(3)]\<close>)
qed

lemma download_resume_missing:
  assumes "tr_fd (transfers x ! i) < 0" and "tr_partname (transfers x ! i) = Some pn"
    and "fs_names (x_fs x) pn = None"
  shows "download_resume i x = Inr (- 1, put_transfer i ((transfers x ! i)\<lparr>tr_fd := - 1\<rparr>) x)"
  using assms by (simp add: download_resume_def sys_open_def put_transfer_def)

lemma download_write_create:
  assumes i: "i < length (transfers x)" and fd: "tr_fd (transfers x ! i) < 0"
    and pn: "tr_partname (transfers x ! i) = Some pn" and nm: "fs_names (x_fs x) pn = None"
      "\<not> fs_deny (x_fs x) pn" "fd_lowest (x_fs x) < fs_maxfd (x_fs x)"
  obtains x' fd where "download_write i [] x = Inr (0, x')" and "0 \<le> fd"
    and "transfers x' = (transfers x)[i := (transfers x ! i)\<lparr>tr_fd := fd\<rparr>]"
    and "appends (transfers x' ! i) (x_fs x') (length (fs_inodes (x_fs x)))"
    and "fs_inodes (x_fs x') = fs_inodes (x_fs x) @ [[]]"
    and "fs_names (x_fs x') = (fs_names (x_fs x))(pn \<mapsto> length (fs_inodes (x_fs x)))"
    and "fs_room (x_fs x') = fs_room (x_fs x)" and "fs_deny (x_fs x') = fs_deny (x_fs x)"
proof -
  let ?d = "transfers x ! i"
  obtain fd fs where c: "sys_create pn (x_fs x) = (fd, fs)" by fastforce
  then have "fd \<noteq> - 1" using nm by (auto simp: sys_create_def fd_alloc_def split: if_splits)
  then have o: "0 \<le> fd" "fd_get fs fd = Some (Opened (length (fs_inodes (x_fs x))) 0 True)"
    "fs_names fs = (fs_names (x_fs x))(pn \<mapsto> length (fs_inodes (x_fs x)))"
    "fs_inodes fs = fs_inodes (x_fs x) @ [[]]" "fs_room fs = fs_room (x_fs x)" "fs_deny fs = fs_deny (x_fs x)"
    using c sys_create_cases [of pn "x_fs x"] by (metis prod.inject)+
  have op: "open_unless sys_create (tr_partname ?d) ?d (x_fs x) = Inr (?d\<lparr>tr_fd := fd\<rparr>, fs)"
    using fd pn c by (simp add: open_unless_def need_str_def)
  have pu: "download_put [] (?d\<lparr>tr_fd := fd\<rparr>) fs = (0, ?d\<lparr>tr_fd := fd\<rparr>, fs)"
    using o by (simp add: download_put_def sys_write_def)
  show ?thesis
  proof (rule that [of "put_transfer i (?d\<lparr>tr_fd := fd\<rparr>) (x\<lparr>x_fs := fs\<rparr>)" fd])
    show "download_write i [] x = Inr (0, put_transfer i (?d\<lparr>tr_fd := fd\<rparr>) (x\<lparr>x_fs := fs\<rparr>))"
      unfolding download_write_def op using pu by simp
  qed (use o i in \<open>auto simp: appends_def\<close>)
qed
section \<open>Names for a download\<close>

definition same_names :: "fsys \<Rightarrow> fsys \<Rightarrow> bool" where
  "same_names fs fs' \<longleftrightarrow>
     fs_names fs' = fs_names fs \<and> fs_deny fs' = fs_deny fs \<and> fd_get fs' = fd_get fs \<and>
     (\<exists>k. fs_inodes fs' = fs_inodes fs @ replicate k [])"

lemma same_names_refl [simp]: "same_names fs fs"
  by (auto simp: same_names_def intro: exI [of _ 0])

lemma same_names_trans: "same_names a b \<Longrightarrow> same_names b c \<Longrightarrow> same_names a c"
  by (auto simp: same_names_def simp flip: replicate_add)

lemma sys_create_undo:
  assumes c: "sys_create nm fs = (fd, fs')" and fd: "0 \<le> fd"
  shows "same_names fs (sys_close fd (sys_unlink nm fs'))"
proof -
  have nd: "\<not> fs_deny fs nm" using c fd by (auto simp: sys_create_def split: if_splits)
  have f: "fs_names fs nm = None" "fd_get fs fd = None"
    "\<forall>fd'. fd_get fs' fd' = (if fd' = fd then Some (Opened (length (fs_inodes fs)) 0 True) else fd_get fs fd')"
    "fs_names fs' = (fs_names fs)(nm \<mapsto> length (fs_inodes fs))" "fs_inodes fs' = fs_inodes fs @ [[]]"
    "fs_deny fs' = fs_deny fs"
    by (rule sys_create_cases [of nm fs]; use c fd in auto)+
  have "fd_get (sys_close fd (sys_unlink nm fs')) = fd_get fs"
    using f by (auto simp: fun_eq_iff fd_get_close sys_unlink_def)
  moreover have "fs_names (sys_close fd (sys_unlink nm fs')) = fs_names fs"
    using f nd by (auto simp: sys_unlink_def fun_eq_iff)
  moreover have "fs_inodes (sys_close fd (sys_unlink nm fs')) = fs_inodes fs @ replicate 1 []"
    "fs_deny (sys_close fd (sys_unlink nm fs')) = fs_deny fs"
    using f by (auto simp: sys_unlink_def)
  ultimately show ?thesis unfolding same_names_def by blast
qed

lemma make_names_result:
  assumes "make_names s i (nm0, pn0, a, b) fs = ((nm, pn, fd0, fd1), fs')" and "b < 0"
  shows "fd1 < 0 \<and> same_names fs fs' \<or>
    (\<exists>k fs1 fs2. i \<le> k \<and> k < INT_MAX \<and> nm = numbered s k \<and> pn = part nm \<and> same_names fs fs1 \<and>
      sys_create nm fs1 = (fd0, fs2) \<and> 0 \<le> fd0 \<and> sys_create pn fs2 = (fd1, fs') \<and> 0 \<le> fd1)"
  using assms
proof (induction s i "(nm0, pn0, a, b)" fs arbitrary: nm0 pn0 a b rule: make_names.induct)
  case (1 s i nm0 pn0 a b fs)
  let ?nm = "numbered s i"
  show ?case
  proof (cases "INT_MAX \<le> i")
    case True
    then show ?thesis using 1(3,4) by (subst (asm) make_names.simps) auto
  next
    case False
    obtain f0 fs1 where c0: "sys_create ?nm fs = (f0, fs1)" by fastforce
    show ?thesis
    proof (cases "f0 < 0")
      case True
      have same: "fs1 = fs" using sys_create_fds [OF c0] True by auto
      have r: "make_names s (i + 1) (?nm, part ?nm, f0, b) fs1 = ((nm, pn, fd0, fd1), fs')"
        using 1(3) False True c0 by (subst (asm) make_names.simps) (simp add: Let_def)
      have "fd1 < 0 \<and> same_names fs1 fs' \<or>
        (\<exists>k fs1' fs2. i + 1 \<le> k \<and> k < INT_MAX \<and> nm = numbered s k \<and> pn = part nm \<and> same_names fs1 fs1' \<and>
          sys_create nm fs1' = (fd0, fs2) \<and> 0 \<le> fd0 \<and> sys_create pn fs2 = (fd1, fs') \<and> 0 \<le> fd1)"
        by (rule 1(1) [OF False refl refl c0 [symmetric] True r 1(4)])
      then show ?thesis using same by (metis add_leD1)
    next
      case pos: False
      obtain f1 fs2 where c1: "sys_create (part ?nm) fs1 = (f1, fs2)" by fastforce
      show ?thesis
      proof (cases "f1 < 0")
        case True
        have "fs2 = fs1" using sys_create_fds [OF c1] True by auto
        then have same: "same_names fs (sys_close f0 (sys_unlink ?nm fs2))"
          using sys_create_undo [OF c0] pos by simp
        have r: "make_names s (i + 1) (?nm, part ?nm, f0, f1) (sys_close f0 (sys_unlink ?nm fs2))
            = ((nm, pn, fd0, fd1), fs')"
          using 1(3) False pos True c0 c1 by (subst (asm) make_names.simps) (simp add: Let_def)
        have "fd1 < 0 \<and> same_names (sys_close f0 (sys_unlink ?nm fs2)) fs' \<or>
          (\<exists>k fs1' fs2'. i + 1 \<le> k \<and> k < INT_MAX \<and> nm = numbered s k \<and> pn = part nm \<and>
            same_names (sys_close f0 (sys_unlink ?nm fs2)) fs1' \<and>
            sys_create nm fs1' = (fd0, fs2') \<and> 0 \<le> fd0 \<and> sys_create pn fs2' = (fd1, fs') \<and> 0 \<le> fd1)"
          by (rule 1(2) [OF False refl refl c0 [symmetric] pos c1 [symmetric] True r True])
        then show ?thesis using same_names_trans [OF same] by (metis add_leD1)
      next
        case pos1: False
        have "make_names s i (nm0, pn0, a, b) fs = ((?nm, part ?nm, f0, f1), fs2)"
          using False pos pos1 c0 c1 by (subst make_names.simps) (simp add: Let_def)
        then have e: "nm = ?nm" "pn = part ?nm" "fd0 = f0" "fd1 = f1" "fs' = fs2" using 1(3) by simp_all
        show ?thesis
          unfolding e using False pos pos1 c0 c1 same_names_refl [of fs]
          by (intro disjI2 exI [of _ i] exI [of _ fs] exI [of _ fs1]) auto
      qed
    qed
  qed
qed

text \<open>
  With \<open>no_clobber\<close> both names are new: no name that existed is changed, and the two that
  appear did not exist.
\<close>

lemma make_filenames_fresh:
  assumes m: "make_filenames d s True fs = (d', fs')" and fd: "0 \<le> tr_fd d'"
  obtains nm pn where "tr_name d' = Some nm" and "tr_partname d' = Some pn"
    and "fs_names fs nm = None" and "fs_names fs pn = None" and "nm \<noteq> pn"
    and "\<And>n. n \<noteq> nm \<Longrightarrow> n \<noteq> pn \<Longrightarrow> fs_names fs' n = fs_names fs n"
    and "file_content fs' nm = Some []" and "file_content fs' pn = Some []"
    and "\<And>ino. ino < length (fs_inodes fs) \<Longrightarrow> fs_inodes fs' ! ino = fs_inodes fs ! ino"
    and "fd_kind fs' = (fd_kind fs)(tr_fd d' := Some False)" and "fd_kind fs (tr_fd d') = None"
proof -
  obtain nm pn fd0 fd1 fs3 where mk: "make_names s 1 (s, part s, - 1, - 1) fs = ((nm, pn, fd0, fd1), fs3)"
    by (metis surj_pair)
  have d': "d' = d\<lparr>tr_fd := fd1, tr_name := Some nm, tr_partname := Some pn\<rparr>" "fs' = sys_close fd0 fs3"
    using m mk by (auto simp: make_filenames_def)
  obtain fs1 fs2 where r: "pn = part nm" "same_names fs fs1"
    "sys_create nm fs1 = (fd0, fs2)" "0 \<le> fd0" "sys_create pn fs2 = (fd1, fs3)" "0 \<le> fd1"
    using make_names_result [OF mk] fd d' by auto
  have a: "fs_names fs1 nm = None" "fd_get fs1 fd0 = None"
    "\<forall>fd'. fd_get fs2 fd' = (if fd' = fd0 then Some (Opened (length (fs_inodes fs1)) 0 True) else fd_get fs1 fd')"
    "fs_names fs2 = (fs_names fs1)(nm \<mapsto> length (fs_inodes fs1))" "fs_inodes fs2 = fs_inodes fs1 @ [[]]"
    by (rule sys_create_cases [of nm fs1]; use r in auto)+
  have b: "fs_names fs2 pn = None" "fd_get fs2 fd1 = None"
    "\<forall>fd'. fd_get fs3 fd' = (if fd' = fd1 then Some (Opened (length (fs_inodes fs2)) 0 True) else fd_get fs2 fd')"
    "fs_names fs3 = (fs_names fs2)(pn \<mapsto> length (fs_inodes fs2))" "fs_inodes fs3 = fs_inodes fs2 @ [[]]"
    by (rule sys_create_cases [of pn fs2]; use r in auto)+
  obtain k where s: "fs_names fs1 = fs_names fs" "fd_get fs1 = fd_get fs"
    "fs_inodes fs1 = fs_inodes fs @ replicate k []"
    using r(2) by (auto simp: same_names_def)
  have ne: "nm \<noteq> pn" using r(1) by (auto simp: part_def str_def)
  have d01: "fd1 \<noteq> fd0" using a(3) b(2) by auto
  have fg: "fd_get fs' fd' = (if fd' = fd1 then Some (Opened (length (fs_inodes fs2)) 0 True) else fd_get fs fd')" for fd'
    using a b s d01 by (auto simp: d' fd_get_close)
  show ?thesis
  proof (rule that [of nm pn])
    show "file_content fs' nm = Some []" "file_content fs' pn = Some []"
      using a b s d' ne by (simp_all add: file_content_def nth_append)
    show "fd_kind fs' = (fd_kind fs)(tr_fd d' := Some False)"
      using fg d'(1) by (auto simp: fd_kind_def)
    show "fd_kind fs (tr_fd d') = None"
      using d'(1) b(2) a(3) s d01 by (auto simp: fd_kind_def)
    show "fs_inodes fs' ! ino = fs_inodes fs ! ino" if "ino < length (fs_inodes fs)" for ino
      using that a b s d' by (simp add: nth_append)
  qed (use a b s d' ne in auto)
qed

section \<open>Entries found and removed\<close>

lemma make_names_closed:
  assumes "make_names s i (nm0, pn0, a, b) fs = ((nm, pn, fd0, fd1), fs')" and "b < 0"
    and "fd_get fs a = None" and "fd1 < 0"
  shows "fd_get fs' fd0 = None"
  using assms(1-3)
proof (induction s i "(nm0, pn0, a, b)" fs arbitrary: nm0 pn0 a b rule: make_names.induct)
  case (1 s i nm0 pn0 a b fs)
  let ?nm = "numbered s i"
  obtain f0 fs1 where c0: "sys_create ?nm fs = (f0, fs1)" by fastforce
  obtain f1 fs2 where c1: "sys_create (part ?nm) fs1 = (f1, fs2)" by fastforce
  consider "INT_MAX \<le> i" | (first) "\<not> INT_MAX \<le> i" "f0 < 0" | (second) "\<not> INT_MAX \<le> i" "\<not> f0 < 0" "f1 < 0"
    | "\<not> INT_MAX \<le> i" "\<not> f0 < 0" "\<not> f1 < 0"
    by blast
  then show ?case
  proof cases
    case first
    have "fd_get fs1 f0 = None" using first(2) by (simp add: fd_get_def)
    moreover have "make_names s (i + 1) (?nm, part ?nm, f0, b) fs1 = ((nm, pn, fd0, fd1), fs')"
      using 1(3) first c0 by (subst (asm) make_names.simps) (simp add: Let_def)
    ultimately show ?thesis using 1(1) [OF first(1) refl refl c0 [symmetric] first(2)] 1(4) by blast
  next
    case second
    have "fd_get (sys_close f0 (sys_unlink ?nm fs2)) f0 = None" by (simp add: fd_get_close)
    moreover have "make_names s (i + 1) (?nm, part ?nm, f0, f1) (sys_close f0 (sys_unlink ?nm fs2))
        = ((nm, pn, fd0, fd1), fs')"
      using 1(3) second c0 c1 by (subst (asm) make_names.simps) (simp add: Let_def)
    ultimately show ?thesis
      using 1(2) [OF second(1) refl refl c0 [symmetric] second(2) c1 [symmetric] second(3)] second(3) by blast
  qed (use 1(3-5) c0 c1 assms(4) in \<open>subst (asm) make_names.simps; simp add: Let_def\<close>)+
qed

lemma make_filenames_owned:
  assumes m: "make_filenames (ts ! i) s nc fs = (t, fs')" and closed: "tr_fd (ts ! i) < 0"
    and own: "owned K ts fs" and i: "i < length ts"
  shows "owned K (ts[i := t]) fs'"
proof (cases nc)
  case False
  with m have "tr_fd t = tr_fd (ts ! i)" "fs' = fs" by (auto simp: make_filenames_def)
  then show ?thesis using owned_same [OF own i] by simp
next
  case True
  obtain nm pn fd0 fd1 fs3 where mk: "make_names s 1 (s, part s, - 1, - 1) fs = ((nm, pn, fd0, fd1), fs3)"
    by (metis surj_pair)
  have t: "tr_fd t = fd1" "fs' = sys_close fd0 fs3" using m mk True by (auto simp: make_filenames_def)
  show ?thesis
  proof (cases "fd1 < 0")
    case neg: True
    have "same_names fs fs3" using make_names_result [OF mk] neg by auto
    moreover have "fd_get fs3 fd0 = None" using make_names_closed [OF mk _ _ neg] by (simp add: fd_get_def)
    ultimately have "fd_kind fs' = fd_kind fs"
      by (simp add: t sys_close_def fd_kind_def same_names_def fun_eq_iff)
    then have "fds (ts[i := t]) = fds ts"
    proof -
      obtain pre post where "ts = pre @ ts ! i # post" "ts[i := t] = pre @ t # post"
        using owned_split [OF i] by metis
      then show ?thesis using closed neg t(1) by (metis fds_append fds_Cons append_Nil leD)
    qed
    with own \<open>fd_kind fs' = fd_kind fs\<close> show ?thesis by (simp add: owned_def)
  next
    case False
    then have "0 \<le> tr_fd t" using t by simp
    have "make_filenames (ts ! i) s True fs = (t, fs')" using m True by simp
    then have "fd_kind fs' = (fd_kind fs)(tr_fd t := Some False) \<and> fd_kind fs (tr_fd t) = None"
      by (rule make_filenames_fresh [OF _ \<open>0 \<le> tr_fd t\<close>]) blast
    with owned_open [OF own i closed \<open>0 \<le> tr_fd t\<close>] show ?thesis by blast
  qed
qed

text \<open>A second file name for the same download: the file of the first one is lost.\<close>

lemma owned_forget:
  assumes "owned K ts fs" and "i < length ts" and "0 \<le> tr_fd (ts ! i)"
  shows "owned (K(tr_fd (ts ! i) := Some False)) (ts[i := (ts ! i)\<lparr>tr_fd := - 1\<rparr>]) fs"
proof -
  obtain pre post where s: "ts = pre @ ts ! i # post" "\<And>t. ts[i := t] = pre @ t # post"
    using owned_split [OF assms(2)] by metis
  have "fds ts = fds pre @ tr_fd (ts ! i) # fds post"
    using assms(3) by (subst s(1)) (simp add: fds_Cons)
  moreover have "fds (ts[i := (ts ! i)\<lparr>tr_fd := - 1\<rparr>]) = fds pre @ fds post"
    by (simp add: s(2) fds_Cons)
  ultimately show ?thesis using assms(1) by (auto simp: owned_def fun_eq_iff)
qed

lemma make_filenames_other_fields:
  "make_filenames (d\<lparr>tr_fd := k\<rparr>) s True fs = make_filenames d s True fs"
  by (simp add: make_filenames_def split: prod.split)

lemma make_filenames_leak:
  assumes m: "make_filenames (ts ! i) s nc fs = (t, fs')" and own: "owned K ts fs" and i: "i < length ts"
  shows "owned (if nc \<and> 0 \<le> tr_fd (ts ! i) then K(tr_fd (ts ! i) := Some False) else K) (ts[i := t]) fs'"
proof (cases "nc \<and> 0 \<le> tr_fd (ts ! i)")
  case True
  let ?ts = "ts[i := (ts ! i)\<lparr>tr_fd := - 1\<rparr>]" and ?K = "K(tr_fd (ts ! i) := Some False)"
  have "owned ?K (?ts[i := t]) fs'"
    using make_filenames_owned [of ?ts i s True fs t fs' ?K] owned_forget [OF own i] True m i
    by (simp add: make_filenames_other_fields)
  then show ?thesis using True by simp
next
  case False
  have "owned K (ts[i := t]) fs'"
  proof (cases nc)
    case True
    with False make_filenames_owned [OF m _ own i] show ?thesis by simp
  next
    case False
    with m have "tr_fd t = tr_fd (ts ! i)" "fs' = fs" by (auto simp: make_filenames_def)
    then show ?thesis using owned_same [OF own i] by simp
  qed
  then show ?thesis using False by auto
qed

lemma owned_fd_free:
  assumes "owned K ts fs" and "i < length ts" and "0 \<le> tr_fd (ts ! i)"
  shows "K (tr_fd (ts ! i)) = None"
proof -
  have "tr_fd (ts ! i) \<in> set (fds ts)" using assms(2,3) by (auto simp: fds_def)
  then show ?thesis using assms(1) by (simp add: owned_def)
qed

lemma transfer_match_Some:
  assumes "transfer_match type rid oid now x = (Some i, x')"
  shows "i < length (transfers x)" and "tr_type (transfers x ! i) = type" and "tr_rid (transfers x ! i) = rid"
    and "tr_oid (transfers x ! i) = oid" and "0 < tr_tact (transfers x ! i)"
    and "transfers x' = (transfers x)[i := (transfers x ! i)\<lparr>tr_tact := now\<rparr>]" and "x_fs x' = x_fs x"
    and "x_rng x' = x_rng x"
  using assms by (auto simp: transfer_match_def dest!: match_list_Some split: option.splits)

lemma transfer_match_None:
  "transfer_match type rid oid now x = (None, x') \<Longrightarrow>
    x' = x \<and> (\<forall>t \<in> set (transfers x). \<not> (tr_type t = type \<and> tr_rid t = rid \<and> tr_oid t = oid \<and> 0 < tr_tact t))"
  using match_list_None [of type rid oid "transfers x"] by (auto simp: transfer_match_def split: option.splits)

lemma transfers_invalidate:
  "transfers (transfer_invalidate i x) = (transfers x)[i := invalidated (transfers x ! i)]"
  by (simp add: transfer_invalidate_def invalidate_entry_def invalidated_def)

lemma list_entries_all:
  assumes "\<And>out p. \<exists>out'. cb out p = Inr (0, out')"
  shows "\<exists>out'. list_entries cb n ts out
    = Inr (n + int (length (filter (\<lambda>p. tr_rid p \<noteq> 0 \<and> tr_oid p \<noteq> 0 \<and> tr_tact p \<noteq> 0) ts)), out')"
proof (induction ts arbitrary: n out)
  case (Cons p ts)
  obtain out1 where "cb out p = Inr (0, out1)" using assms by blast
  then show ?case using Cons.IH [of "n + 1" out1] Cons.IH [of n out] by auto
qed simp

lemma transfer_remove_all:
  assumes "xfer_inv K x" and "transfer_remove (str ''*,*,*'') x = (n, x')"
  shows "n = int (length (transfers x))" and "transfers x' = map invalidated (transfers x)"
    and "fd_kind (x_fs x') = K"
proof -
  have m: "scan_mask (str ''*,*,*'') = Some (42, [42], [42])"
    by code_simp
  obtain k ts fs where r: "remove_list (mask_matches 42 [42] [42]) (transfers x) (x_fs x) = (k, ts, fs)"
    by (metis surj_pair)
  have all: "mask_matches 42 [42] [42] = (\<lambda>p. True)" by (auto simp: mask_matches_def fun_eq_iff)
  have x': "n = k" "x' = x\<lparr>transfers := ts, x_fs := fs\<rparr>"
    using assms(2) m r by (auto simp: transfer_remove_def Let_def toupper_def)
  have o: "owned K ts fs \<and> k = int (length (transfers x)) \<and> ts = map invalidated (transfers x)"
    using remove_list_owned [of K "[]" "transfers x" "x_fs x", OF _ r] assms(1) all by (auto simp: xfer_inv_def)
  then show "n = int (length (transfers x))" "transfers x' = map invalidated (transfers x)"
    using x' by auto
  have "fds ts = []" using o by (auto simp: fds_def invalidated_def filter_empty_conv)
  then show "fd_kind (x_fs x') = K" using o x' by (auto simp: owned_def)
qed
section \<open>Formatting and parsing\<close>

text \<open>The number of bytes is printed with a known unit.\<close>

lemma pow_dbl_exp: "0 < n \<Longrightarrow> 2 ^ dbl_exp n \<le> n"
proof (induction n rule: dbl_exp.induct)
  case (1 n)
  show ?case
  proof (cases "n < 2 ^ 53")
    case True
    then show ?thesis using 1(2) by (simp add: dbl_exp.simps)
  next
    case False
    then have pos: "0 < n div 2" by simp
    have "2 ^ dbl_exp n = 2 * 2 ^ dbl_exp (n div 2)" using False by (subst dbl_exp.simps) simp
    also have "\<dots> \<le> 2 * (n div 2)" using 1(1) [OF False pos] by simp
    finally show ?thesis by simp
  qed
qed

lemma rdiv_le: "rdiv a b \<le> a div b + 1"
  by (simp add: rdiv_def Let_def)

lemma dbl_le: "dbl n \<le> 2 * n"
proof (cases "n = 0")
  case True
  then show ?thesis by (simp add: dbl_def dbl_exp.simps rdiv_def)
next
  case False
  let ?b = "2 ^ dbl_exp n"
  have "dbl n \<le> (n div ?b + 1) * ?b" unfolding dbl_def using rdiv_le by (intro mult_right_mono) auto
  also have "\<dots> = n div ?b * ?b + ?b" by simp
  also have "\<dots> \<le> n + n" using pow_dbl_exp [of n] False by (intro add_mono) auto
  finally show ?thesis by simp
qed

lemma size_prefix_le: "f \<le> 1024 ^ (k + 1) \<Longrightarrow> m \<le> k \<Longrightarrow> size_prefix f m \<le> k"
proof (induction f m rule: size_prefix.induct)
  case (1 f m)
  show ?case
  proof (cases "1024 * 1024 ^ m < f")
    case True
    have "(1024::nat) ^ (m + 1) = 1024 * 1024 ^ m" by simp
    also have "\<dots> < f" by (rule True)
    also have "\<dots> \<le> 1024 ^ (k + 1)" by (rule 1(2))
    finally have "m + 1 < k + 1" by (rule power_less_imp_less_exp [rotated]) simp
    then have "m + 1 \<le> k" by simp
    then show ?thesis using 1(1) [OF True 1(2)] True by (subst size_prefix.simps) simp
  next
    case False
    then show ?thesis using 1(3) by (subst size_prefix.simps) simp
  qed
qed

lemma human_size_ok:
  obtains s where "human_size sz = Inr s"
proof -
  have "dbl (unat sz) \<le> 2 * unat sz" by (rule dbl_le)
  also have "\<dots> \<le> 1024 ^ (6 + 1)" using unsigned_less [of sz, where ?'a = nat] by simp
  finally have "size_prefix (dbl (unat sz)) 0 \<le> 6" by (rule size_prefix_le) simp
  then show ?thesis using that by (simp add: human_size_def size_units_def Let_def)
qed

text \<open>
  The text a format stands for, without a bound on its length: what \<^verbatim>\<open>transfer_itostr()\<close>
  produces as long as the buffer is large enough.
\<close>

fun itostr_text :: "(int \<Rightarrow> cstring) \<Rightarrow> int \<Rightarrow> transfer_t \<Rightarrow> cstring \<Rightarrow> cstring res" where
  "itostr_text iso8601 now t [] = Inr []"
| "itostr_text iso8601 now t [c] = (if c \<noteq> 37 then Inr [c] else Inl OutOfBounds)"
| "itostr_text iso8601 now t (c # d # p) =
     (if c \<noteq> 37 then bindr (itostr_text iso8601 now t (d # p)) (\<lambda>s. Inr (c # s))
      else bindr (itostr_conv iso8601 now t d) (\<lambda>s. bindr (itostr_text iso8601 now t p) (\<lambda>r. Inr (s @ r))))"

lemma itostr_loop_text:
  "itostr_text iso8601 now t fmt = Inr s \<Longrightarrow> length out + length s \<le> sz \<Longrightarrow>
    itostr_loop iso8601 sz now t fmt out = Inr (out @ s)"
proof (induction iso8601 now t fmt arbitrary: s out rule: itostr_text.induct)
  case (3 iso8601 now t c d p)
  show ?case
  proof (cases "c = 37")
    case False
    then obtain r where "itostr_text iso8601 now t (d # p) = Inr r" "s = c # r"
      using 3(3) by auto
    then show ?thesis using 3(1) [OF False, of r "out @ [c]"] 3(4) False by (simp add: emit_def)
  next
    case True
    then obtain a r where a: "itostr_conv iso8601 now t d = Inr a" "itostr_text iso8601 now t p = Inr r" "s = a @ r"
      using 3(3) by auto
    then show ?thesis using 3(2) [OF _ a(2), of "out @ a"] 3(4) True by (simp add: emit_def)
  qed
qed (auto simp: emit_def split: if_splits)

lemma itostr_loop_full:
  "sz < length out \<Longrightarrow> fmt \<noteq> [] \<Longrightarrow> hd fmt \<noteq> 37 \<Longrightarrow>
    itostr_loop iso8601 sz now t fmt out = Inl OutOfBounds"
  by (cases fmt; cases "tl fmt") (auto simp: emit_def)

text \<open>The identification of a transfer, printed by \<open>%i\<close> and parsed by \<open>transfer_strtoi\<close>.\<close>

definition transfer_id :: "transfer_t \<Rightarrow> cstring" where
  "transfer_id t = type_letter (tr_type t) # 44 # print_016x (tr_rid t) @ [44] @ print_016x (tr_oid t)"

lemma length_transfer_id [simp]: "length (transfer_id t) = 35"
  by (simp add: transfer_id_def print_016x_def)

lemma itostr_conv_i: "itostr_conv iso8601 now t (of_char CHR ''i'') = Inr (transfer_id t)"
  by (simp add: itostr_conv_def transfer_id_def type_letter_def str_def split: transfer_type.split)

lemma scan_hex_16:
  fixes v :: u64
  assumes "rest = [] \<or> xdigit (hd rest) = None"
  shows "scan_hex (print_016x v @ rest) = Some (v, rest)"
proof -
  let ?ds = "hex_digits 16 (unat v)"
  have len: "length ?ds = 16" by simp
  then obtain a ds1 where ds1: "?ds = a # ds1" by (cases ?ds) simp_all
  with len obtain b cs where "ds1 = b # cs" by (cases ds1) simp_all
  with ds1 have ds: "?ds = a # b # cs" by simp
  have a: "\<not> isspace a" "a \<noteq> 45" "a \<noteq> 43" "b \<noteq> 120" "b \<noteq> 88"
    using xdigit_Some [OF hex_digits_xdigit, of a 16 "unat v"] xdigit_Some [OF hex_digits_xdigit, of b 16 "unat v"]
      ds by auto
  have st: "strtoull16 (print_016x v @ rest) = (v, rest)"
    unfolding print_016x_def by (rule strtoull16_hex16 [OF assms])
  show ?thesis
    unfolding scan_hex_def Let_def st using a len by (simp add: print_016x_def ds)
qed

lemma transfer_strtoi_id:
  assumes "rest = [] \<or> xdigit (hd rest) = None"
  shows "transfer_strtoi True (transfer_id t @ rest) = (3, Some (tr_type t), Some (tr_rid t, tr_oid t))"
    and "transfer_strtoi False (transfer_id t @ rest) = (3, None, Some (tr_rid t, tr_oid t))"
proof -
  have c: "xdigit 44 = None" by (simp add: xdigit_def)
  have sp: "scan_pair (print_016x (tr_rid t) @ 44 # print_016x (tr_oid t) @ rest) (0, 0) = (2, tr_rid t, tr_oid t)"
    by (simp add: scan_pair_def scan_hex_16 c assms)
  have l: "\<not> isspace (type_letter (tr_type t))" "type_of_letter (type_letter (tr_type t)) = Some (tr_type t)"
    by (cases "tr_type t"; simp add: type_letter_def isspace_def type_of_letter_def toupper_def)+
  show "transfer_strtoi True (transfer_id t @ rest) = (3, Some (tr_type t), Some (tr_rid t, tr_oid t))"
    and "transfer_strtoi False (transfer_id t @ rest) = (3, None, Some (tr_rid t, tr_oid t))"
    using l sp by (simp_all add: transfer_strtoi_def transfer_id_def Let_def)
qed

end
