(* ===== verification/File_Properties.thy ===== *)
theory File_Properties
  imports Cfgparse Transfer_List
begin

text \<open>
  The properties of the configuration files (src/cfgparse.c) and of the transfer lists
  (src/transfer.c): what is written is read back, no line of a file can harm the variables, every
  open file has one owner, existing files are left alone, and the texts that identify a transfer.
\<close>

section \<open>Configuration files\<close>

text \<open>C21: A configuration that is written to a file and read back is the same: every variable
  of the table gets the value it had, whatever it was before, and the others are untouched. This holds
  for values a line of the file can hold (\<open>cfg_storable\<close>): numbers of 32 bits, and strings that are set, have no
  line feed, neither begin nor end with white space and fit with the name into the line buffer, since
  the reader ends a value at the end of the line and strips the white space around it.\<close>

theorem config_write_read:
  assumes "distinct (map def_name def)" and "length def \<le> lim" and "length vs = length vars"
    and "\<forall>p \<in> set def. def_pvar p < length vars \<and> cfg_storable p (vars ! def_pvar p) \<and> fits p (vs ! def_pvar p)"
  shows "\<exists>bs vs'. cfg_write_file True lim old def vars = Inr (0, Some bs) \<and>
    cfg_parse_file (Some bs) def vs = Inr (0, vs') \<and> length vs' = length vars \<and>
    (\<forall>i < length vars. vs' ! i = (if i \<in> def_pvar ` set def then vars ! i else vs ! i))"
proof -
  let ?bs = "concat (map (cfg_line vars) def)"
  have "cfg_write_file True lim old def vars = Inr (0, Some ?bs)"
    using cfg_write_all [OF assms(2)] assms(4) by (simp add: cfg_write_file_def cfg_write_fp_def)
  moreover have "cfg_parse_file (Some ?bs) def vs = Inr (0, restore vars def vs)"
    using cfg_lines_parsed [OF assms(1) subset_refl assms(3,4), of 0]
    by (simp add: cfg_parse_file_def cfg_parse_fp_def)
  ultimately show ?thesis using restore_nth [OF assms(3)] assms(3) by auto
qed

definition demo_table :: "cfg_parse_def_t list" where
  "demo_table = [\<lparr>def_name = str ''port'', def_type = CFG_PARSE_T_INT, def_pvar = 0\<rparr>,
     \<lparr>def_name = str ''host'', def_type = CFG_PARSE_T_STR, def_pvar = 1\<rparr>]"

theorem config_write_read_witness:
  "\<exists>bs vs'. cfg_write_file True 9 None demo_table [CV_INT 64, CV_STR (Some (str ''h''))] = Inr (0, Some bs) \<and>
    cfg_parse_file (Some bs) demo_table [CV_INT 1, CV_STR None] = Inr (0, vs') \<and>
    vs' ! 0 = CV_INT 64 \<and> vs' ! 1 = CV_STR (Some (str ''h''))"
proof -
  have "print_int 64 = [54, 52]"
    by (simp add: print_int_def dec_digits.simps)
  then have "\<forall>p \<in> set demo_table. def_pvar p < length [CV_INT 64, CV_STR (Some (str ''h''))] \<and>
      cfg_storable p ([CV_INT 64, CV_STR (Some (str ''h''))] ! def_pvar p) \<and>
      fits p ([CV_INT 1, CV_STR None] ! def_pvar p)"
    by (simp add: demo_table_def cfg_storable_def good_name_def good_value_def fits_def str_def
        isspace_def LINE_MAX_def)
  moreover have "distinct (map def_name demo_table)" by (simp add: demo_table_def str_def)
  ultimately show ?thesis
    using config_write_read [of demo_table 9 "[CV_INT 1, CV_STR None]" "[CV_INT 64, CV_STR (Some (str ''h''))]" None]
    by (auto simp: demo_table_def)
qed

text \<open>Whatever a configuration file holds, reading it is harmless: the parser ends, writes
  only to the variables of the table, each with a value of its type, and reports an error by -1.\<close>

lemma config_read_safe:
  assumes "table_fits def vars"
  shows "\<exists>r vars'. cfg_parse_file fp def vars = Inr (r, vars') \<and> (r = 0 \<or> r = - 1) \<and> same_types vars vars'"
proof (cases fp)
  case (Some bs)
  then show ?thesis
    using cfg_parse_lines_safe [OF assms, of 0 bs]
    by (auto simp: cfg_parse_file_def cfg_parse_fp_def)
qed (simp add: cfg_parse_file_def)

lemma config_read_safe_example:
  "\<exists>r vars'. cfg_parse_file (Some [61, 61, 0, 255, 10, 112]) demo_table [CV_INT 1, CV_STR None] = Inr (r, vars') \<and>
     same_types [CV_INT 1, CV_STR None] vars'"
proof -
  have "table_fits demo_table [CV_INT 1, CV_STR None]"
    by (simp add: table_fits_def demo_table_def fits_def)
  from config_read_safe [OF this] show ?thesis by blast
qed

section \<open>Transfers\<close>

text \<open>
  The calls that change the list of transfers or the files they have open, on the list and the set of
  descriptors that are open but in no variable any more. One call adds to this set: \<open>make_filenames\<close>
  with no-clobber sets the descriptor of the transfer without closing the file it had open, as a second
  file name in one offer makes it do.
\<close>

definition overwritten_fd :: "bool \<Rightarrow> transfer_t \<Rightarrow> int set" where
  "overwritten_fd no_clobber t = (if no_clobber \<and> 0 \<le> tr_fd t then {tr_fd t} else {})"

inductive xfer_step :: "int set \<times> xfer \<Rightarrow> int set \<times> xfer \<Rightarrow> bool" where
  Download_New: "xfer_step (L, x) (L, download_new now x)"
| Offer_New: "offer_new dest filename now x = (r, x') \<Longrightarrow> xfer_step (L, x) (L, x')"
| Match: "transfer_match type rid oid now x = (i, x') \<Longrightarrow> xfer_step (L, x) (L, x')"
| Closeall: "xfer_step (L, x) (L, transfer_closeall x)"
| Invalidate: "i < length (transfers x) \<Longrightarrow> xfer_step (L, x) (L, transfer_invalidate i x)"
| Upkeep: "xfer_step (L, x) (L, transfer_upkeep timeout now x)"
| Remove: "transfer_remove s x = (n, x') \<Longrightarrow> xfer_step (L, x) (L, x')"
| Offer_Read: "i < length (transfers x) \<Longrightarrow> offer_read mem i off sz x = Inr (bs, x') \<Longrightarrow> xfer_step (L, x) (L, x')"
| Download_Write: "i < length (transfers x) \<Longrightarrow> download_write i data x = Inr (n, x') \<Longrightarrow> xfer_step (L, x) (L, x')"
| Download_Resume: "i < length (transfers x) \<Longrightarrow> download_resume i x = Inr (n, x') \<Longrightarrow> xfer_step (L, x) (L, x')"
| Names: "i < length (transfers x) \<Longrightarrow>
    make_filenames (transfers x ! i) name no_clobber (x_fs x) = (t, fs) \<Longrightarrow>
    xfer_step (L, x) (L \<union> overwritten_fd no_clobber (transfers x ! i), (put_transfer i t x)\<lparr>x_fs := fs\<rparr>)"
| Fill_In: "i < length (transfers x) \<Longrightarrow> tr_fd t = tr_fd (transfers x ! i) \<Longrightarrow>
    xfer_step (L, x) (L, put_transfer i t x)"

text \<open>The descriptors that belong to no transfer: those in \<open>K\<close> and the lost ones, which stay open.\<close>

definition with_lost :: "(int \<Rightarrow> bool option) \<Rightarrow> int set \<Rightarrow> int \<Rightarrow> bool option" where
  "with_lost K L fd = (if fd \<in> L then Some False else K fd)"

text \<open>C20: Whatever sequence of calls the list of transfers has seen, the open descriptors of the
  process are those it has for other purposes (\<open>K\<close>: the terminal, the socket), untouched, those of
  the transfers, which are open files, each of exactly one transfer, and those lost on the way: no call
  reads, writes or closes the file of another transfer or the socket, or closes twice. Descriptors are
  lost in one way only: when \<open>make_filenames\<close> names a transfer that has a file open once more
  under no-clobber, the descriptor of that file is overwritten and stays open until the process ends. It
  is never one of \<open>K\<close>.\<close>

theorem descriptors_owned:
  assumes "xfer_step\<^sup>*\<^sup>* ({}, x) (L, x')" and "xfer_inv K x"
  shows "xfer_inv (with_lost K L) x' \<and> (\<forall>fd \<in> L. K fd = None)"
  using assms
proof (induction rule: rtranclp_induct2)
  case refl
  then show ?case by (simp add: with_lost_def [abs_def])
next
  case (step L y M z)
  then have inv: "xfer_inv (with_lost K L) y" and L: "\<forall>fd \<in> L. K fd = None" by blast+
  from step(2) show ?case
  proof cases
    case (Names i name nc t fs)
    have "owned (with_lost K M) ((transfers y)[i := t]) fs"
    proof -
      have "with_lost K M =
          (if nc \<and> 0 \<le> tr_fd (transfers y ! i) then (with_lost K L)(tr_fd (transfers y ! i) := Some False) else with_lost K L)"
        by (auto simp: Names overwritten_fd_def with_lost_def fun_eq_iff)
      then show ?thesis
        using make_filenames_leak [OF Names(4) _ Names(3), of "with_lost K L"] inv by (simp only: xfer_inv_def)
    qed
    moreover have "K fd = None" if "fd \<in> overwritten_fd nc (transfers y ! i)" for fd
      using owned_fd_free [of "with_lost K L" "transfers y" "x_fs y" i] inv Names(3) that
      by (auto simp: overwritten_fd_def with_lost_def xfer_inv_def split: if_splits)
    ultimately show ?thesis using L Names by (auto simp: xfer_inv_def)
  next
    case (Fill_In i t)
    with inv L owned_same [of "with_lost K L" "transfers y" "x_fs y" i t] show ?thesis by (simp add: xfer_inv_def)
  qed (use inv L in \<open>auto simp: download_new_def intro: transfer_new_inv offer_new_inv transfer_match_inv
      transfer_closeall_inv transfer_invalidate_inv transfer_upkeep_inv transfer_remove_inv
      offer_read_inv download_write_inv download_resume_inv\<close>)
qed

definition demo_fs :: fsys where
  "demo_fs = \<lparr>fs_names = (\<lambda>_. None), fs_inodes = [], fs_fds = [Some Reserved], fs_maxfd = 9, fs_room = 99,
     fs_deny = (\<lambda>_. False)\<rparr>"

definition demo_xfer :: xfer where
  "demo_xfer = \<lparr>transfers = [], x_fs = demo_fs, x_rng = prng_srandom_r 0\<rparr>"

definition demo_streams :: "int \<Rightarrow> bool option" where
  "demo_streams fd = (if fd = 0 then Some True else None)"

lemma demo_xfer_inv: "xfer_inv demo_streams demo_xfer"
  by (auto simp: xfer_inv_def owned_def demo_xfer_def demo_fs_def fd_kind_def fd_get_def demo_streams_def)

text \<open>A download that is named twice: its first file stays open when the transfers are closed.\<close>

theorem descriptors_owned_witness:
  "\<exists>x. xfer_step\<^sup>*\<^sup>* ({}, demo_xfer) ({2}, x) \<and> xfer_inv (with_lost demo_streams {2}) x \<and>
     transfers x \<noteq> [] \<and> fds (transfers x) = [] \<and> fd_kind (x_fs x) 2 = Some False"
proof -
  let ?x1 = "download_new 5 demo_xfer"
  let ?d = "transfers ?x1 ! 0"
  have one: "length (transfers ?x1) = 1" by (simp add: download_new_def transfer_new_def demo_xfer_def)
  obtain t1 fs1 where m1: "make_filenames ?d [97] True (x_fs ?x1) = (t1, fs1)" by fastforce
  have dec: "dec_digits 1 = [49]" by (simp add: dec_digits.simps)
  have fd: "tr_fd t1 = 2"
    using m1 by (subst (asm) make_filenames_def, subst (asm) make_names.simps)
      (auto simp: download_new_def transfer_new_def demo_xfer_def INT_MAX_def numbered_def extpos_def dec part_def
        str_def sys_create_def demo_fs_def fd_alloc_def fd_lowest_def fd_put_def Let_def split: prod.splits)
  let ?x2 = "(put_transfer 0 t1 ?x1)\<lparr>x_fs := fs1\<rparr>"
  have t1: "transfers ?x2 = [t1]" using one by (cases "transfers ?x1") (auto simp: put_transfer_def)
  obtain t2 fs2 where m2: "make_filenames (transfers ?x2 ! 0) [98] True (x_fs ?x2) = (t2, fs2)" by fastforce
  let ?x3 = "(put_transfer 0 t2 ?x2)\<lparr>x_fs := fs2\<rparr>"
  have t3: "transfers ?x3 = [t2]" using t1 by (auto simp: put_transfer_def)
  have "xfer_step ({}, demo_xfer) ({}, ?x1)" by (rule Download_New)
  moreover have "xfer_step ({}, ?x1) ({}, ?x2)"
    using Names [OF _ m1, of "{}"] one by (simp add: overwritten_fd_def download_new_def transfer_new_def)
  moreover have "xfer_step ({}, ?x2) ({2}, ?x3)"
    using Names [OF _ m2, of "{}"] t1 fd by (simp add: overwritten_fd_def)
  moreover have "xfer_step ({2}, ?x3) ({2}, transfer_closeall ?x3)" by (rule Closeall)
  ultimately have steps: "xfer_step\<^sup>*\<^sup>* ({}, demo_xfer) ({2}, transfer_closeall ?x3)" by (meson r_into_rtranclp rtranclp_trans)
  then have inv: "xfer_inv (with_lost demo_streams {2}) (transfer_closeall ?x3)"
    using descriptors_owned demo_xfer_inv by blast
  have "transfers (transfer_closeall ?x3) \<noteq> []" "fds (transfers (transfer_closeall ?x3)) = []"
    using t3 by (auto simp: transfer_closeall_def fds_def split: prod.split)
  then show ?thesis using steps inv by (auto simp: xfer_inv_def owned_def with_lost_def intro!: exI)
qed

text \<open>C22: A download never overwrites a file: both its name and the name of its partial file
  were unused before, both exist and are empty afterwards, no other name or file content has changed,
  and the download owns a new descriptor.\<close>

theorem download_names_fresh:
  assumes "make_filenames d s True fs = (d', fs')" and "0 \<le> tr_fd d'"
  shows "\<exists>nm pn. tr_name d' = Some nm \<and> tr_partname d' = Some pn \<and> nm \<noteq> pn \<and>
    fs_names fs nm = None \<and> fs_names fs pn = None \<and>
    file_content fs' nm = Some [] \<and> file_content fs' pn = Some [] \<and>
    (\<forall>n. n \<noteq> nm \<and> n \<noteq> pn \<longrightarrow> fs_names fs' n = fs_names fs n) \<and>
    (\<forall>ino < length (fs_inodes fs). fs_inodes fs' ! ino = fs_inodes fs ! ino) \<and> fd_kind fs (tr_fd d') = None"
  by (rule make_filenames_fresh [OF assms]) blast

theorem download_names_fresh_witness:
  "\<exists>d' fs' nm pn. make_filenames (hd (transfers (download_new 5 demo_xfer))) [97, 46, 98] True demo_fs = (d', fs') \<and>
     tr_name d' = Some nm \<and> tr_partname d' = Some pn \<and> file_content fs' nm = Some [] \<and> file_content fs' pn = Some []"
proof -
  let ?d = "hd (transfers (download_new 5 demo_xfer))"
  obtain d' fs' where m: "make_filenames ?d [97, 46, 98] True demo_fs = (d', fs')" by fastforce
  have dec: "dec_digits 1 = [49]" by (simp add: dec_digits.simps)
  have "tr_fd d' = 2"
    using m by (subst (asm) make_filenames_def, subst (asm) make_names.simps)
      (auto simp: INT_MAX_def numbered_def extpos_def dec part_def str_def sys_create_def demo_fs_def
        fd_alloc_def fd_lowest_def fd_put_def Let_def split: prod.splits)
  with download_names_fresh [OF m] m show ?thesis by fastforce
qed

text \<open>C34: The text that \<open>transfer_itostr\<close> prints for \<open>%i\<close> identifies a transfer:
  \<open>transfer_strtoi\<close> reads its type and both identifiers back from it, also when something that
  is no hexadecimal digit follows.\<close>

theorem transfer_id_round_trip:
  assumes "rest = [] \<or> xdigit (hd rest) = None" and "36 \<le> sz"
  shows "\<exists>s. transfer_itostr iso8601 sz (Some (str ''%i'')) now t = Inr s \<and> length s = 35 \<and>
    transfer_strtoi True (s @ rest) = (3, Some (tr_type t), Some (tr_rid t, tr_oid t))"
proof -
  have "itostr_text iso8601 now t (str ''%i'') = Inr (transfer_id t)"
    using itostr_conv_i [of iso8601 now t] by (simp add: str_def)
  then have "itostr_loop iso8601 sz now t (str ''%i'') [] = Inr ([] @ transfer_id t)"
    by (rule itostr_loop_text) (use assms(2) in simp)
  then have "transfer_itostr iso8601 sz (Some (str ''%i'')) now t = Inr (transfer_id t)"
    using assms(2) by (simp add: transfer_itostr_def)
  then show ?thesis using transfer_strtoi_id(1) [OF assms(1), of t] by simp
qed

theorem transfer_id_round_trip_witness:
  "\<exists>s. transfer_itostr (\<lambda>_. []) 100 (Some (str ''%i'')) 7 (hd (transfers (download_new 5 demo_xfer))) = Inr s \<and>
    transfer_strtoi True (s @ [32]) = (3, Some TTYPE_DOWNLOAD, Some (0, 0))"
  using transfer_id_round_trip [of "[32]" 100 "\<lambda>_. []" 7 "hd (transfers (download_new 5 demo_xfer))"]
  by (auto simp: xdigit_def download_new_def transfer_new_def)

text \<open>\<open>transfer_itostr\<close> prints the text its format stands for, cut to the buffer, as long as
  that text fits; but once the text so far is longer than the buffer, the next ordinary character of the
  format is written outside it: the remaining size is unsigned and wraps around.\<close>

lemma itostr_prints_or_overflows:
  "(\<forall>s. itostr_text iso8601 now t fmt = Inr s \<and> length s \<le> sz \<longrightarrow>
      transfer_itostr iso8601 sz (Some fmt) now t = Inr (take (sz - 1) s)) \<and>
   (\<forall>nm c rest. tr_name t = Some nm \<and> fmt = [37, of_char CHR ''n'', c] @ rest \<and> c \<noteq> 37 \<and> sz < length nm \<longrightarrow>
      transfer_itostr iso8601 sz (Some fmt) now t = Inl OutOfBounds)"
proof (intro conjI allI impI; elim conjE)
  fix s assume "itostr_text iso8601 now t fmt = Inr s" "length s \<le> sz"
  then show "transfer_itostr iso8601 sz (Some fmt) now t = Inr (take (sz - 1) s)"
    using itostr_loop_text [of iso8601 now t fmt s "[]" sz] by (simp add: transfer_itostr_def)
next
  fix nm c rest assume n: "tr_name t = Some nm" "fmt = [37, of_char CHR ''n'', c] @ rest" "c \<noteq> 37" "sz < length nm"
  have "itostr_conv iso8601 now t (of_char CHR ''n'') = Inr nm"
    using n(1) by (simp add: itostr_conv_def need_str_def)
  then show "transfer_itostr iso8601 sz (Some fmt) now t = Inl OutOfBounds"
    using n itostr_loop_full [of sz nm "c # rest" iso8601 now t] by (simp add: transfer_itostr_def emit_def)
qed

lemma itostr_prints_or_overflows_example:
  "transfer_itostr (\<lambda>_. []) 4 (Some [37, of_char CHR ''n'', 10]) 0
     ((hd (transfers (download_new 5 demo_xfer)))\<lparr>tr_name := Some [97, 97, 97, 97, 97]\<rparr>) = Inl OutOfBounds"
  using itostr_prints_or_overflows [of "\<lambda>_. []" 0 "(hd (transfers (download_new 5 demo_xfer)))\<lparr>tr_name := Some [97, 97, 97, 97, 97]\<rparr>"
      "[37, of_char CHR ''n'', 10]" 4]
  by simp

end
