(* ===== verification/Client.thy ===== *)
theory Client
  imports Framing Transfer_List Ntime Stricmp
begin

text \<open>
  src/cltmain.c, the state of the client: its configuration, the connection to the server, the
  receive buffer, the send queue, the requests that wait for a response, the transfers
  (\<open>Transfer_List\<close>) and what it has written to standard output; printing, connecting and
  disconnecting, and the operations on the queue and on the pending requests. A command and a
  message of the server are handled in \<open>Client_Cmd\<close> and \<open>Client_Msg\<close>.

  Descriptors are those of the file model of \<open>Files\<close>: the standard streams and the socket are
  \<open>Reserved\<close> entries of its table. The prompt and the log go to standard error and are left out.
\<close>

section \<open>State\<close>

datatype CLIENT_STATE = ST_INVALID | ST_PRE_LOGIN | ST_LOGIN_OK | ST_AUTH_OK

record clt_cfg =
  cf_host :: "cstring option"
  cf_port :: "cstring option"
  cf_select_timeout :: int
  cf_msg_timeout :: int
  cf_resp_timeout :: int
  cf_offer_timeout :: int
  cf_username :: "cstring option"
  cf_pubkey :: "cstring option"
  cf_privkey :: "cstring option"
  cf_no_clobber :: bool
  cf_autoconnect :: bool
  cf_stdin_tty :: bool
  cf_stdout_tty :: bool

record frelay =
  fr_cfg :: clt_cfg
  fr_st :: CLIENT_STATE
  fr_srvfd :: int
  fr_rbuf :: "mbuf option"
  fr_queue :: "mbuf list"
  fr_requests :: "mbuf list"
  fr_xfer :: xfer
  fr_out :: "byte list"

definition set_xfer :: "xfer \<Rightarrow> frelay \<Rightarrow> frelay" where
  "set_xfer x s = s\<lparr>fr_xfer := x\<rparr>"

definition entry :: "frelay \<Rightarrow> nat \<Rightarrow> transfer_t" where
  "entry s i = transfers (fr_xfer s) ! i"

text \<open>\<open>MAX_DATA_SIZE\<close>: the most octets of a file that one response carries.\<close>

definition MAX_DATA_SIZE :: u64 where
  "MAX_DATA_SIZE = 65400 - 24"

section \<open>Console output\<close>

definition PFX_CONN :: cstring where "PFX_CONN = str ''CONN''"
definition PFX_DISC :: cstring where "PFX_DISC = str ''DISC''"
definition PFX_AUTH :: cstring where "PFX_AUTH = str ''AUTH''"
definition PFX_NAUT :: cstring where "PFX_NAUT = str ''NAUT''"
definition PFX_TLST :: cstring where "PFX_TLST = str ''TLST''"
definition PFX_PLST :: cstring where "PFX_PLST = str ''PLST''"
definition PFX_COUT :: cstring where "PFX_COUT = str ''COUT''"
definition PFX_WDIR :: cstring where "PFX_WDIR = str ''WDIR''"
definition PFX_IMSG :: cstring where "PFX_IMSG = str ''IMSG''"
definition PFX_SMSG :: cstring where "PFX_SMSG = str ''SMSG''"
definition PFX_QPNG :: cstring where "PFX_QPNG = str ''QPNG''"
definition PFX_RPNG :: cstring where "PFX_RPNG = str ''RPNG''"
definition PFX_OFFR :: cstring where "PFX_OFFR = str ''OFFR''"
definition PFX_DSTA :: cstring where "PFX_DSTA = str ''DSTA''"
definition PFX_DFIN :: cstring where "PFX_DFIN = str ''DFIN''"
definition PFX_DERR :: cstring where "PFX_DERR = str ''DERR''"
definition PFX_UFIN :: cstring where "PFX_UFIN = str ''UFIN''"
definition PFX_CERR :: cstring where "PFX_CERR = str ''CERR''"
definition PFX_LERR :: cstring where "PFX_LERR = str ''LERR''"
definition PFX_SERR :: cstring where "PFX_SERR = str ''SERR''"

text \<open>
  \<open>printcon pfx txt\<close>: the formatted text \<open>txt\<close> (none for a null format) on standard output,
  behind the prefix when that is not a terminal.
\<close>

definition printcon :: "cstring \<Rightarrow> cstring option \<Rightarrow> frelay \<Rightarrow> frelay" where
  "printcon pfx txt s =
     s\<lparr>fr_out := fr_out s @
         (if cf_stdout_tty (fr_cfg s) then []
          else pfx @ [58] @ (case txt of None \<Rightarrow> [10] | Some _ \<Rightarrow> [])) @
         (case txt of None \<Rightarrow> [] | Some t \<Rightarrow> t)\<rparr>"

text \<open>A line of text: \<^verbatim>\<open>"...\n"\<close>.\<close>

definition say :: "cstring \<Rightarrow> cstring \<Rightarrow> frelay \<Rightarrow> frelay" where
  "say pfx txt s = printcon pfx (Some (txt @ [10])) s"

definition print_hex :: "u64 \<Rightarrow> cstring" where
  "print_hex v = (let ds = dropWhile (\<lambda>c. c = 48) (print_016x v) in if ds = [] then [48] else ds)"

section \<open>Connection\<close>

definition disconnect_srv :: "frelay \<Rightarrow> int \<times> frelay" where
  "disconnect_srv s =
     (if fr_srvfd s < 0 then (- 1, s)
      else (0, s\<lparr>fr_srvfd := - 1,
                 fr_xfer := (fr_xfer s)\<lparr>x_fs := sys_close (fr_srvfd s) (x_fs (fr_xfer s))\<rparr>\<rparr>))"

text \<open>
  What the system answers to one address of the list that \<^verbatim>\<open>getaddrinfo\<close> returns: no socket, a
  socket whose option cannot be set, a refused connection, or a connection. \<open>conn_res\<close> is the
  error text of \<^verbatim>\<open>getaddrinfo\<close>, or the answers and the text of the last error.
\<close>

datatype attempt = At_No_Socket | At_No_Option | At_Refused | At_Connected

type_synonym conn_res = "cstring + attempt list \<times> cstring"

fun connect_addrs :: "attempt list \<Rightarrow> fsys \<Rightarrow> int \<times> fsys" where
  "connect_addrs [] fs = (- 1, fs)"
| "connect_addrs (a # as) fs =
     (if a = At_No_Socket then connect_addrs as fs
      else case fd_alloc Reserved fs of (fd, fs') \<Rightarrow>
        if fd < 0 then connect_addrs as fs'
        else if a = At_Connected then (fd, fs')
        else connect_addrs as (sys_close fd fs'))"

definition host_colon :: "cstring \<Rightarrow> cstring \<Rightarrow> cstring" where
  "host_colon host service = host @ [58] @ service"

definition connect_srv :: "conn_res \<Rightarrow> cstring \<Rightarrow> cstring \<Rightarrow> frelay \<Rightarrow> int \<times> frelay" where
  "connect_srv res host service s =
     (let s = snd (disconnect_srv s) in
      case res of
        Inl emsg \<Rightarrow> (- 1, say PFX_CERR (host_colon host service @ str '': '' @ emsg) s)
      | Inr (as, emsg) \<Rightarrow>
          (case connect_addrs as (x_fs (fr_xfer s)) of (fd, fs) \<Rightarrow>
             let s = s\<lparr>fr_xfer := (fr_xfer s)\<lparr>x_fs := fs\<rparr>\<rparr> in
             if fd < 0 then (- 1, say PFX_CERR (host_colon host service @ str '': '' @ emsg) s)
             else (0, (say PFX_CONN (str ''Connected to '' @ host_colon host service) s)
                        \<lparr>fr_srvfd := fd\<rparr>)))"

section \<open>Send queue and pending requests\<close>

definition clt_enqueue :: "mbuf \<Rightarrow> frelay \<Rightarrow> frelay" where
  "clt_enqueue m s = s\<lparr>fr_queue := list_enq m (fr_queue s)\<rparr>"

text \<open>A request that has been sent moves to the front of the pending requests.\<close>

definition clt_dequeue :: "frelay \<Rightarrow> frelay res" where
  "clt_dequeue s =
     (case fr_queue s of
        [] \<Rightarrow> Inl NullDeref
      | m # ms \<Rightarrow>
          Inr (s\<lparr>fr_queue := ms,
                 fr_requests := (if MCLASS_IS_REQ (HDR_GET_TYPE m) then m # fr_requests s
                                 else fr_requests s)\<rparr>))"

definition answers :: "mbuf \<Rightarrow> mbuf \<Rightarrow> bool" where
  "answers m q \<longleftrightarrow> HDR_GET_DSTID q = HDR_GET_SRCID m \<and> HDR_GET_TRFID q = HDR_GET_TRFID m \<and>
     MCLASS_TO_RES (HDR_GET_TYPE q) = HDR_GET_TYPE m"

fun take_pending :: "mbuf \<Rightarrow> mbuf list \<Rightarrow> mbuf option \<times> mbuf list" where
  "take_pending m [] = (None, [])"
| "take_pending m (q # qs) =
     (if answers m q then (Some q, qs)
      else case take_pending m qs of (r, qs) \<Rightarrow> (r, q # qs))"

definition match_pending_req :: "mbuf \<Rightarrow> frelay \<Rightarrow> mbuf option \<times> frelay" where
  "match_pending_req m s =
     (case take_pending m (fr_requests s) of (r, qs) \<Rightarrow> (r, s\<lparr>fr_requests := qs\<rparr>))"

text \<open>The time stamp is unsigned, so the division by nanoseconds per second is, too.\<close>

definition req_expired :: "int \<Rightarrow> int \<Rightarrow> mbuf \<Rightarrow> bool" where
  "req_expired timeout now q \<longleftrightarrow> ntime_to_s (uint (HDR_GET_TS q)) + timeout < now"

fun drop_expired :: "int \<Rightarrow> int \<Rightarrow> mbuf list \<Rightarrow> mbuf list" where
  "drop_expired timeout now [] = []"
| "drop_expired timeout now (q # qs) =
     (if req_expired timeout now q then drop_expired timeout now qs
      else q # drop_expired timeout now qs)"

definition upkeep_pending :: "int \<Rightarrow> frelay \<Rightarrow> frelay" where
  "upkeep_pending now s =
     s\<lparr>fr_requests := drop_expired (cf_resp_timeout (fr_cfg s)) now (fr_requests s)\<rparr>"

section \<open>Requests and responses\<close>

definition clt_random :: "frelay \<Rightarrow> u64 \<times> frelay" where
  "clt_random s = (case prng_random (fr_xfer s) of (r, x) \<Rightarrow> (r, s\<lparr>fr_xfer := x\<rparr>))"

text \<open>\<^verbatim>\<open>mbuf_compose\<close> with a random transfer id, then the attributes in turn.\<close>

definition clt_request ::
    "u64 \<Rightarrow> u16 \<Rightarrow> u64 \<Rightarrow> (u16 \<times> nat \<times> va_value) list \<Rightarrow> frelay \<Rightarrow> (mbuf \<times> frelay) res" where
  "clt_request ts type dst as s =
     (case clt_random s of (r, s) \<Rightarrow>
        bindr (mbuf_compose ts None type 0 dst r) (\<lambda>p.
        bindr (add_all as p) (\<lambda>p. Inr (p, s))))"

definition clt_reply ::
    "u64 \<Rightarrow> u16 \<Rightarrow> u64 \<Rightarrow> u64 \<Rightarrow> (u16 \<times> nat \<times> va_value) list \<Rightarrow> mbuf res" where
  "clt_reply ts type dst trfid as =
     bindr (mbuf_compose ts None type 0 dst trfid) (add_all as)"

definition str_attr :: "u16 \<Rightarrow> cstring \<Rightarrow> u16 \<times> nat \<times> va_value" where
  "str_attr attr s = (attr, length s + 1, VA_STR s)"

definition blob_attr :: "u16 \<Rightarrow> byte list \<Rightarrow> u16 \<times> nat \<times> va_value" where
  "blob_attr attr d = (attr, length d, VA_BLOB d)"

definition u64_attr :: "u16 \<Rightarrow> u64 \<Rightarrow> u16 \<times> nat \<times> va_value" where
  "u64_attr attr v = (attr, 8, VA_UI64 v)"

section \<open>Invariant\<close>

text \<open>
  The client is connected exactly when its state is not \<open>ST_INVALID\<close>; the socket is a reserved
  descriptor; everything queued is a well-framed message of which only the first may be partly
  sent; only requests wait for a response; the receive buffer is a message being received; and
  every transfer owns its descriptor.
\<close>

definition files_ok :: "frelay \<Rightarrow> bool" where
  "files_ok s \<longleftrightarrow>
     (\<exists>K. xfer_inv K (fr_xfer s) \<and> (0 \<le> fr_srvfd s \<longrightarrow> K (fr_srvfd s) = Some True))"

definition clt_inv :: "frelay \<Rightarrow> bool" where
  "clt_inv s \<longleftrightarrow> (fr_st s = ST_INVALID \<longleftrightarrow> fr_srvfd s < 0) \<and> tx_inv (fr_queue s) \<and>
     (\<forall>q \<in> set (fr_requests s). mbuf_framed q \<and> MCLASS_IS_REQ (HDR_GET_TYPE q)) \<and>
     (\<forall>p. fr_rbuf s = Some p \<longrightarrow> rx_inv p) \<and> files_ok s"

lemma say_simps [simp]:
  "fr_cfg (say p t s) = fr_cfg s" "fr_st (say p t s) = fr_st s" "fr_srvfd (say p t s) = fr_srvfd s"
  "fr_rbuf (say p t s) = fr_rbuf s" "fr_queue (say p t s) = fr_queue s"
  "fr_requests (say p t s) = fr_requests s" "fr_xfer (say p t s) = fr_xfer s" "entry (say p t s) = entry s"
  by (simp_all add: say_def printcon_def entry_def fun_eq_iff)

lemma printcon_simps [simp]:
  "fr_cfg (printcon p u s) = fr_cfg s" "fr_st (printcon p u s) = fr_st s"
  "fr_srvfd (printcon p u s) = fr_srvfd s" "fr_rbuf (printcon p u s) = fr_rbuf s"
  "fr_queue (printcon p u s) = fr_queue s" "fr_requests (printcon p u s) = fr_requests s"
  "fr_xfer (printcon p u s) = fr_xfer s"
  by (simp_all add: printcon_def)

lemma set_xfer_simps [simp]:
  "fr_cfg (set_xfer x s) = fr_cfg s" "fr_st (set_xfer x s) = fr_st s"
  "fr_srvfd (set_xfer x s) = fr_srvfd s" "fr_rbuf (set_xfer x s) = fr_rbuf s"
  "fr_queue (set_xfer x s) = fr_queue s" "fr_requests (set_xfer x s) = fr_requests s"
  "fr_xfer (set_xfer x s) = x" "entry (set_xfer x s) i = transfers x ! i"
  by (simp_all add: set_xfer_def entry_def)

lemma clt_inv_say [simp]: "clt_inv (say p t s) = clt_inv s"
  by (simp add: clt_inv_def files_ok_def)

lemma clt_inv_printcon [simp]: "clt_inv (printcon p u s) = clt_inv s"
  by (simp add: clt_inv_def files_ok_def)

lemma clt_inv_say_state [simp]: "clt_inv ((say p t s)\<lparr>fr_st := st\<rparr>) = clt_inv (s\<lparr>fr_st := st\<rparr>)"
  by (simp add: say_def printcon_def clt_inv_def files_ok_def)

lemma clt_inv_cfg [simp]: "clt_inv (s\<lparr>fr_cfg := c\<rparr>) = clt_inv s"
  by (simp add: clt_inv_def files_ok_def)

lemma clt_inv_rbuf: "clt_inv s \<Longrightarrow> (\<And>p. b = Some p \<Longrightarrow> rx_inv p) \<Longrightarrow> clt_inv (s\<lparr>fr_rbuf := b\<rparr>)"
  by (simp add: clt_inv_def files_ok_def)

lemma clt_inv_xfer:
  assumes "clt_inv s" and "\<And>K. xfer_inv K (fr_xfer s) \<Longrightarrow> xfer_inv K x"
  shows "clt_inv (set_xfer x s)"
  using assms by (auto simp: clt_inv_def files_ok_def)

lemma clt_inv_state:
  "clt_inv s \<Longrightarrow> st \<noteq> ST_INVALID \<Longrightarrow> fr_st s \<noteq> ST_INVALID \<Longrightarrow> clt_inv (s\<lparr>fr_st := st\<rparr>)"
  by (auto simp: clt_inv_def files_ok_def)

lemma clt_inv_enqueue: "clt_inv s \<Longrightarrow> mbuf_framed m \<Longrightarrow> clt_inv (clt_enqueue m s)"
  by (simp add: clt_inv_def files_ok_def clt_enqueue_def tx_inv_enq)

lemma clt_inv_lists:
  assumes "clt_inv s" and "tx_inv ms" and "\<forall>q \<in> set qs. mbuf_framed q \<and> MCLASS_IS_REQ (HDR_GET_TYPE q)"
  shows "clt_inv (s\<lparr>fr_queue := ms, fr_requests := qs\<rparr>)"
  using assms by (simp add: clt_inv_def files_ok_def)

lemma clt_inv_requests:
  "clt_inv s \<Longrightarrow> set qs \<subseteq> set (fr_requests s) \<Longrightarrow> clt_inv (s\<lparr>fr_requests := qs\<rparr>)"
  by (auto simp: clt_inv_def files_ok_def)

lemma tx_inv_tail: "tx_inv (m # ms) \<Longrightarrow> tx_inv ms \<and> mbuf_framed m"
  by (cases ms) (auto simp: tx_inv_def)

lemma clt_inv_dequeue:
  assumes inv: "clt_inv s" and d: "clt_dequeue s = Inr s'"
  shows "clt_inv s'"
proof -
  obtain m ms where q: "fr_queue s = m # ms" using d by (auto simp: clt_dequeue_def split: list.splits)
  let ?qs = "if MCLASS_IS_REQ (HDR_GET_TYPE m) then m # fr_requests s else fr_requests s"
  have "tx_inv ms \<and> mbuf_framed m" using inv q by (intro tx_inv_tail) (simp add: clt_inv_def)
  moreover have "\<forall>q \<in> set (fr_requests s). mbuf_framed q \<and> MCLASS_IS_REQ (HDR_GET_TYPE q)"
    using inv by (simp add: clt_inv_def)
  ultimately have "clt_inv (s\<lparr>fr_queue := ms, fr_requests := ?qs\<rparr>)"
    by (intro clt_inv_lists [OF inv]) auto
  then show ?thesis using d q by (simp add: clt_dequeue_def)
qed

section \<open>Pending requests\<close>

text \<open>A response takes the latest request it answers off the list, if there is one, and only that.\<close>

lemma take_pending_None_iff: "fst (take_pending m qs) = None \<longleftrightarrow> (\<forall>q \<in> set qs. \<not> answers m q)"
  by (induction qs) (auto split: prod.splits)

lemma take_pending_None: "take_pending m qs = (None, qs') \<Longrightarrow> qs' = qs"
  by (induction qs arbitrary: qs') (auto split: if_splits prod.splits)

lemma take_pending_Some:
  assumes "take_pending m qs = (Some q, qs')"
  obtains xs ys where "qs = xs @ q # ys" and "qs' = xs @ ys" and "answers m q"
    and "\<forall>x \<in> set xs. \<not> answers m x"
  using assms
proof (induction qs arbitrary: qs' thesis)
  case (Cons a qs)
  show ?case
  proof (cases "answers m a")
    case True
    with Cons.prems(2) show ?thesis by (intro Cons.prems(1) [of "[]" qs]) auto
  next
    case False
    then obtain r where r: "take_pending m qs = (Some q, r)" "qs' = a # r"
      using Cons.prems(2) by (auto split: prod.splits)
    obtain xs ys where "qs = xs @ q # ys" "r = xs @ ys" "answers m q" "\<forall>x \<in> set xs. \<not> answers m x"
      using Cons.IH [OF _ r(1)] .
    with r False show ?thesis by (intro Cons.prems(1) [of "a # xs" ys]) auto
  qed
qed simp

lemma drop_expired_filter: "drop_expired timeout now qs = filter (\<lambda>q. \<not> req_expired timeout now q) qs"
  by (induction qs) auto

lemma clt_inv_match: "clt_inv s \<Longrightarrow> match_pending_req m s = (r, s') \<Longrightarrow> clt_inv s'"
proof -
  assume inv: "clt_inv s" and m: "match_pending_req m s = (r, s')"
  obtain r' qs where t: "take_pending m (fr_requests s) = (r', qs)" by fastforce
  then have qs: "take_pending m (fr_requests s) = (r, qs)" "s' = s\<lparr>fr_requests := qs\<rparr>"
    using m by (simp_all add: match_pending_req_def)
  have "set qs \<subseteq> set (fr_requests s)"
  proof (cases r)
    case None
    then show ?thesis using take_pending_None qs by blast
  next
    case (Some q)
    obtain xs ys where "fr_requests s = xs @ q # ys" "qs = xs @ ys"
      by (rule take_pending_Some [OF qs(1) [unfolded Some]])
    then show ?thesis by auto
  qed
  then show "clt_inv s'" using clt_inv_requests [OF inv] qs(2) by simp
qed

lemma clt_inv_upkeep_pending: "clt_inv s \<Longrightarrow> clt_inv (upkeep_pending now s)"
  by (auto simp: upkeep_pending_def drop_expired_filter clt_inv_def files_ok_def)

section \<open>Composed messages\<close>

lemma xfer_inv_rng: "xfer_inv K x \<Longrightarrow> prng_random x = (r, x') \<Longrightarrow> xfer_inv K x'"
  by (auto simp: prng_random_def xfer_inv_def split: prod.splits)

lemma compose_new: "mbuf_compose now None t s d x = Inr (composed t now s d x)"
  by (rule mbuf_compose_eq) simp

lemma clt_request_ok:
  assumes r: "clt_request ts type dst as s = Inr (m, s')"
  obtains rnd x where "s' = set_xfer x s" and "prng_random (fr_xfer s) = (rnd, x)"
    and "add_all as (composed type ts 0 dst rnd) = Inr m" and "mbuf_framed m" and "HDR_GET_TYPE m = type"
    and "HDR_GET_DSTID m = dst" and "HDR_GET_TRFID m = rnd" and "HDR_GET_TS m = ts"
proof -
  obtain rnd x where x: "prng_random (fr_xfer s) = (rnd, x)" by fastforce
  have a: "add_all as (composed type ts 0 dst rnd) = Inr m" "s' = set_xfer x s"
    using r x by (auto simp: clt_request_def clt_random_def compose_new set_xfer_def)
  from add_all_framed [OF composed_wf(2) _ a(1)] a x show ?thesis by (intro that) auto
qed

lemma clt_request_inv:
  assumes "clt_inv s" and "clt_request ts type dst as s = Inr (m, s')"
  shows "clt_inv s'" and "mbuf_framed m"
proof -
  obtain rnd x where x: "s' = set_xfer x s" "prng_random (fr_xfer s) = (rnd, x)" "mbuf_framed m"
    using clt_request_ok [OF assms(2)] .
  then show "clt_inv s'" "mbuf_framed m" using clt_inv_xfer [OF assms(1)] xfer_inv_rng [OF _ x(2)] by simp_all
qed

lemma clt_reply_framed: "clt_reply ts type dst trfid as = Inr m \<Longrightarrow> mbuf_framed m"
  using add_all_framed [OF composed_wf(2)] by (auto simp: clt_reply_def compose_new)

section \<open>Connecting and disconnecting\<close>

lemma connect_addrs_fds:
  "connect_addrs as fs = (fd, fs') \<Longrightarrow>
     fs_names fs' = fs_names fs \<and> fs_inodes fs' = fs_inodes fs \<and>
     (fd < 0 \<and> fd_kind fs' = fd_kind fs \<or>
      0 \<le> fd \<and> fd_kind fs fd = None \<and> fd_kind fs' = (fd_kind fs)(fd := Some True))"
proof (induction as fs rule: connect_addrs.induct)
  case (2 a as fs)
  show ?case
  proof (cases "a = At_No_Socket")
    case True
    then show ?thesis using 2(1) 2(4) by auto
  next
    case False
    show ?thesis
    proof (cases rule: fd_alloc_cases [of Reserved fs])
      case 1
      then show ?thesis using 2(2) [OF False 1 [symmetric]] 2(4) False by simp
    next
      case (2 f)
      let ?fs = "fd_put f (Some Reserved) fs"
      have k: "fd_kind fs f = None" "fd_kind ?fs = (fd_kind fs)(f := Some True)"
        using 2(3,4) by (simp_all add: fd_kind_def fun_eq_iff)
      show ?thesis
      proof (cases "a = At_Connected")
        case True
        then show ?thesis using \<open>connect_addrs (a # as) fs = (fd, fs')\<close> False 2(1,2) k by auto
      next
        case nc: False
        have "connect_addrs as (sys_close f ?fs) = (fd, fs')"
          using \<open>connect_addrs (a # as) fs = (fd, fs')\<close> False 2(1,2) nc by simp
        moreover have "fd_kind (sys_close f ?fs) = fd_kind fs" using k by (auto simp: fd_kind_close)
        ultimately show ?thesis
          using "2.IH"(3) [OF False 2(2) [symmetric]] nc 2(1) by simp
      qed
    qed
  qed
qed simp

lemma fd_kind_names [simp]: "fd_kind (fs\<lparr>fs_names := n\<rparr>) = fd_kind fs"
  by (rule ext) (simp add: fd_kind_def)

lemma xfer_inv_kind:
  assumes "xfer_inv K x" and "transfers x' = transfers x" and "fd_kind (x_fs x') = fd_kind (x_fs x)"
  shows "xfer_inv K x'"
  using assms by (simp add: xfer_inv_def owned_def)

lemma disconnect_inv:
  assumes "clt_inv s"
  shows "clt_inv ((snd (disconnect_srv s))\<lparr>fr_st := ST_INVALID\<rparr>)" and "fr_srvfd (snd (disconnect_srv s)) < 0"
    and "files_ok (snd (disconnect_srv s))"
proof -
  obtain K where K: "xfer_inv K (fr_xfer s)" "0 \<le> fr_srvfd s \<longrightarrow> K (fr_srvfd s) = Some True"
    using assms by (auto simp: clt_inv_def files_ok_def)
  have "xfer_inv (K(fr_srvfd s := None)) ((fr_xfer s)\<lparr>x_fs := sys_close (fr_srvfd s) (x_fs (fr_xfer s))\<rparr>)"
    if "0 \<le> fr_srvfd s"
    using K that by (auto simp: xfer_inv_def owned_def fd_kind_close fun_eq_iff)
  then show f: "files_ok (snd (disconnect_srv s))"
    using K by (auto simp: files_ok_def disconnect_srv_def)
  show "fr_srvfd (snd (disconnect_srv s)) < 0" by (simp add: disconnect_srv_def)
  with f show "clt_inv ((snd (disconnect_srv s))\<lparr>fr_st := ST_INVALID\<rparr>)"
    using assms by (auto simp: clt_inv_def files_ok_def disconnect_srv_def)
qed

lemma connect_inv:
  assumes inv: "clt_inv s" and c: "connect_srv res host service s = (r, s')"
  shows "clt_inv (s'\<lparr>fr_st := (if fr_srvfd s' < 0 then ST_INVALID else ST_PRE_LOGIN)\<rparr>)"
proof -
  let ?s = "snd (disconnect_srv s)"
  have d: "files_ok ?s" "fr_srvfd ?s < 0" using disconnect_inv [OF inv] by simp_all
  have same: "fr_queue ?s = fr_queue s" "fr_requests ?s = fr_requests s" "fr_rbuf ?s = fr_rbuf s"
    by (simp_all add: disconnect_srv_def)
  have key: "files_ok s' \<and> fr_queue s' = fr_queue ?s \<and> fr_requests s' = fr_requests ?s \<and> fr_rbuf s' = fr_rbuf ?s"
  proof (cases res)
    case (Inl e)
    then have "s' = say PFX_CERR (host_colon host service @ str '': '' @ e) ?s"
      using c by (simp add: connect_srv_def Let_def)
    then show ?thesis using d by (simp add: files_ok_def)
  next
    case (Inr ae)
    obtain as e where ae: "ae = (as, e)" by (cases ae)
    obtain fd fs where a: "connect_addrs as (x_fs (fr_xfer ?s)) = (fd, fs)" by fastforce
    obtain K where K: "xfer_inv K (fr_xfer ?s)" using d(1) by (auto simp: files_ok_def)
    let ?x = "(fr_xfer ?s)\<lparr>x_fs := fs\<rparr>"
    show ?thesis
    proof (cases "fd < 0")
      case True
      then have "xfer_inv K ?x" using connect_addrs_fds [OF a] by (intro xfer_inv_kind [OF K]) auto
      moreover have "s' = say PFX_CERR (host_colon host service @ str '': '' @ e) (?s\<lparr>fr_xfer := ?x\<rparr>)"
        using c Inr ae a True by (simp add: connect_srv_def Let_def)
      ultimately show ?thesis using d(2) by (auto simp: files_ok_def)
    next
      case False
      then have k: "fd_kind (x_fs (fr_xfer ?s)) fd = None" "fd_kind fs = (fd_kind (x_fs (fr_xfer ?s)))(fd := Some True)"
        using connect_addrs_fds [OF a] by auto
      have "xfer_inv (K(fd := Some True)) ?x"
        using K k by (auto simp: xfer_inv_def owned_def fun_eq_iff split: if_splits)
      moreover have "s' = (say PFX_CONN (str ''Connected to '' @ host_colon host service) (?s\<lparr>fr_xfer := ?x\<rparr>))
          \<lparr>fr_srvfd := fd\<rparr>"
        using c Inr ae a False by (simp add: connect_srv_def Let_def)
      ultimately show ?thesis by (auto simp: files_ok_def intro!: exI [of _ "K(fd := Some True)"])
    qed
  qed
  then show ?thesis using inv same by (auto simp: clt_inv_def files_ok_def)
qed

end
