(* ===== verification/Client_Cmd.thy ===== *)
theory Client_Cmd
  imports Client
begin

text \<open>
  src/cltmain.c, \<^verbatim>\<open>process_stdin\<close>: reading a command line, splitting it into arguments, finding
  the command, and the commands themselves. What the system contributes to one command (the
  octets of standard input, the time, name resolution and connections, the working directory, the
  output of an external command) is the record \<open>cmd_env\<close>.
\<close>

section \<open>Reading a line\<close>

datatype in_res = In_Error | In_Eof | In_Byte byte

text \<open>
  The octets up to the first newline, at most \<open>n\<close>; or the code \<^verbatim>\<open>process_stdin\<close> returns when a
  read fails or standard input has ended. \<open>rd k\<close> is the answer to read number \<open>k\<close>.
\<close>

fun read_line :: "(nat \<Rightarrow> in_res) \<Rightarrow> nat \<Rightarrow> nat \<Rightarrow> int + byte list" where
  "read_line rd 0 k = Inr []"
| "read_line rd (Suc n) k =
     (case rd k of
        In_Error \<Rightarrow> Inl (- 1)
      | In_Eof \<Rightarrow> Inl (- 2)
      | In_Byte c \<Rightarrow>
          if c = 10 then Inr [c]
          else (case read_line rd n (Suc k) of Inl e \<Rightarrow> Inl e | Inr l \<Rightarrow> Inr (c # l)))"

definition MAX_ARG :: nat where "MAX_ARG = 10"
definition MAX_CMDLINE :: nat where "MAX_CMDLINE = 4000"

section \<open>Arguments\<close>

text \<open>
  The code cuts the line up in place by null bytes behind the arguments. Here an argument is the
  offset its pointer has in the line and its text. A quoted argument ends at the next quote that
  no backslash precedes; the backslash stays.
\<close>

fun quoted_len :: "cstring \<Rightarrow> nat" where
  "quoted_len [] = 0"
| "quoted_len [c] = (if c = 34 then 0 else 1)"
| "quoted_len (c # d # s) =
     (if c = 34 then 0
      else if c = 92 \<and> d = 34 then 2 + quoted_len s
      else 1 + quoted_len (d # s))"

fun tokens :: "nat \<Rightarrow> nat \<Rightarrow> cstring \<Rightarrow> (nat \<times> cstring) list" where
  "tokens 0 off s = []"
| "tokens (Suc n) off s =
     (if s = [] then []
      else if hd s = 34 then
        (let q = quoted_len (tl s); rest = dropWhile isspace (tl (drop q (tl s)))
         in (off + 1, take q (tl s)) # tokens n (off + (length s - length rest)) rest)
      else
        (let w = takeWhile (\<lambda>c. \<not> isspace c) s; rest = dropWhile isspace (drop (length w) s)
         in (off, w) # tokens n (off + (length s - length rest)) rest))"

definition tokenize :: "cstring \<Rightarrow> (nat \<times> cstring) list" where
  "tokenize line =
     (let s = dropWhile isspace line in tokens MAX_ARG (length line - length s) s)"

text \<open>
  \<open>aline\<close> is the copy of the line, cut off where the last argument ends; the code takes the
  distance of the last argument from the first as an offset into the copy. \<open>arg_rest\<close> is the
  text from argument \<open>k\<close> on in this copy.
\<close>

definition aline :: "cstring \<Rightarrow> (nat \<times> cstring) list \<Rightarrow> cstring" where
  "aline line toks =
     take (fst (last toks) - fst (hd toks) + length (snd (last toks))) line"

definition arg_rest :: "cstring \<Rightarrow> (nat \<times> cstring) list \<Rightarrow> nat \<Rightarrow> cstring" where
  "arg_rest line toks k = drop (fst (toks ! k) - fst (hd toks)) (aline line toks)"

definition arg :: "(nat \<times> cstring) list \<Rightarrow> nat \<Rightarrow> cstring" where
  "arg toks k = snd (toks ! k)"

section \<open>Command names\<close>

datatype cmd_enum =
    CMD_NONE | CMD_ACCEPT | CMD_CD | CMD_CMD | CMD_CONNECT | CMD_DISCONNECT | CMD_DROP | CMD_EXIT
  | CMD_HELP | CMD_LIST | CMD_LOGIN | CMD_LOGOUT | CMD_OFFER | CMD_PEERLIST | CMD_PING | CMD_PWD
  | CMD_REGISTER | CMD_REMOVE | CMD_SH

definition quoted :: "string \<Rightarrow> cstring" where
  "quoted s = [39] @ str s @ [39]"

definition tabs :: "nat \<Rightarrow> string \<Rightarrow> cstring" where
  "tabs n s = replicate n 9 @ str s"

definition same_as :: "nat \<Rightarrow> string \<Rightarrow> cstring" where
  "same_as n s = tabs n ''same as '' @ quoted s"

definition cmd_list :: "(cstring \<times> cmd_enum \<times> cstring) list" where
  "cmd_list =
    [(str ''?'', CMD_HELP, same_as 3 ''help''),
     (str ''!'', CMD_SH, same_as 3 ''sh''),
     (str ''^'', CMD_CMD, tabs 3 ''same as '' @ [39] @ str ''cmd''),
     (str ''accept'', CMD_ACCEPT, str '' offer_id'' @ tabs 2 ''accept an offer''),
     (str ''bye'', CMD_EXIT, same_as 3 ''exit''),
     (str ''cd'', CMD_CD, str '' [path]'' @ tabs 2 ''change current working directory''),
     (str ''close'', CMD_DISCONNECT, tabs 3 ''close connection to server''),
     (str ''cmd'', CMD_CMD, str ''prog [args]'' @ tabs 2 ''execute external program''),
     (str ''connect'', CMD_CONNECT, str '' [host [port]]'' @ tabs 1 ''connect to specified server''),
     (str ''delete'', CMD_REMOVE,
        str '' D|O,peer,offer'' @ tabs 1 ''cancel a pending offer; *,*,* cancels all''),
     (str ''disconnect'', CMD_DISCONNECT, same_as 2 ''close''),
     (str ''drop'', CMD_DROP, tabs 3 ''drop account registration''),
     (str ''exit'', CMD_EXIT, tabs 3 ''terminate frelay''),
     (str ''help'', CMD_HELP, tabs 3 ''display this command list''),
     (str ''lcd'', CMD_CD, same_as 3 ''cd''),
     (str ''list'', CMD_LIST, tabs 3 ''list active transfers / open offers''),
     (str ''login'', CMD_LOGIN, str '' [user [passwd]]'' @ tabs 1 ''log on to connected server''),
     (str ''logout'', CMD_LOGOUT, tabs 3 ''log off from connected server''),
     (str ''offer'', CMD_OFFER, str '' peer_id filename'' @ tabs 1 ''place an offer''),
     (str ''open'', CMD_CONNECT, same_as 3 ''connect''),
     (str ''peerlist'', CMD_PEERLIST, tabs 2 ''get list of peers active on server''),
     (str ''ping'', CMD_PING, str '' [peer_id [text]]'' @ tabs 1 ''ping server or peer''),
     (str ''pwd'', CMD_PWD, tabs 3 ''print current working directory''),
     (str ''quit'', CMD_EXIT, same_as 3 ''exit''),
     (str ''register'', CMD_REGISTER, str '' password'' @ tabs 1 ''create or change an account''),
     (str ''remove'', CMD_REMOVE, same_as 3 ''delete''),
     (str ''sh'', CMD_SH, tabs 3 ''open an interactive sub-shell''),
     (str ''who'', CMD_PEERLIST, same_as 3 ''peerlist'')]"

text \<open>The command whose name the argument abbreviates, \<open>CMD_NONE\<close> without one, \<open>None\<close> when a
  second name matches.\<close>

fun find_cmd :: "cstring \<Rightarrow> (cstring \<times> cmd_enum \<times> cstring) list \<Rightarrow> cmd_enum \<Rightarrow> cmd_enum option" where
  "find_cmd a0 [] cmd = Some cmd"
| "find_cmd a0 ((name, c, help) # cs) cmd =
     (if strnicmp name a0 (length a0) \<noteq> 0 then find_cmd a0 cs cmd
      else if cmd \<noteq> CMD_NONE then None
      else find_cmd a0 cs c)"

section \<open>The system\<close>

text \<open>
  \<open>ce_chdir\<close> answers with an error text, or with the files that names denote in the new
  directory; \<open>ce_fork\<close> is the result of \<^verbatim>\<open>fork\<close> in the parent; \<open>ce_junk\<close> is what an
  uninitialised variable holds.
\<close>

record cmd_env =
  ce_read :: "nat \<Rightarrow> in_res"
  ce_now :: int
  ce_ts :: u64
  ce_iso8601 :: "int \<Rightarrow> cstring"
  ce_connect :: "cstring \<Rightarrow> cstring \<Rightarrow> conn_res"
  ce_chdir :: "cstring \<Rightarrow> cstring + (cstring \<Rightarrow> nat option)"
  ce_getcwd :: cstring
  ce_cmd :: "cstring \<Rightarrow> byte list option"
  ce_fork :: int
  ce_strerror :: cstring
  ce_junk :: u64

section \<open>Commands\<close>

text \<open>
  A command returns \<^verbatim>\<open>r\<close> (-1: error, 0: remote, 1: local, -2: exit), the message it has composed,
  and the state.
\<close>

type_synonym cmd_res = "(int \<times> mbuf option \<times> frelay) res"

definition cmd_fail :: "cstring \<Rightarrow> frelay \<Rightarrow> cmd_res" where
  "cmd_fail txt s = Inr (- 1, None, say PFX_CERR txt s)"

definition cmd_local :: "frelay \<Rightarrow> cmd_res" where
  "cmd_local s = Inr (1, None, s)"

definition cmd_remote ::
    "cmd_env \<Rightarrow> u16 \<Rightarrow> u64 \<Rightarrow> (u16 \<times> nat \<times> va_value) list \<Rightarrow> frelay \<Rightarrow> cmd_res" where
  "cmd_remote env type dst as s =
     bindr (clt_request (ce_ts env) type dst as s) (\<lambda>(m, s). Inr (0, Some m, s))"

definition fmt_id :: cstring where
  "fmt_id = str ''%i '' @ quoted ''%n''"

text \<open>Formats a transfer into a buffer of \<open>sz\<close> octets and prints it with more text.\<close>

definition say_transfer ::
    "(int \<Rightarrow> cstring) \<Rightarrow> int \<Rightarrow> nat \<Rightarrow> cstring \<Rightarrow> cstring \<Rightarrow> cstring \<Rightarrow> nat \<Rightarrow> frelay \<Rightarrow> frelay res" where
  "say_transfer iso8601 now sz pfx fmt txt i s =
     bindr (transfer_itostr iso8601 sz (Some fmt) now (entry s i)) (\<lambda>t. Inr (say pfx (t @ txt) s))"

definition cmd_help :: "frelay \<Rightarrow> cmd_res" where
  "cmd_help s =
     cmd_local (fold (\<lambda>(name, c, help). say PFX_IMSG (name @ help)) cmd_list
       (say PFX_IMSG (str ''Commands may be abbreviated.  Commands are:'') s))"

definition cmd_ping :: "cmd_env \<Rightarrow> cstring \<Rightarrow> (nat \<times> cstring) list \<Rightarrow> frelay \<Rightarrow> cmd_res" where
  "cmd_ping env line toks s =
     cmd_remote env MSG_TYPE_PING_REQ
       (if 1 < length toks then fst (strtoull16 (arg toks 1)) else 0)
       (if 2 < length toks then [str_attr MSG_ATTR_NOTICE (arg_rest line toks 2)] else []) s"

definition posix_basename :: "cstring \<Rightarrow> cstring" where
  "posix_basename s =
     (if s = [] then [46]
      else let t = dropWhile (\<lambda>c. c = 47) (rev s)
        in if t = [] then [47] else rev (takeWhile (\<lambda>c. c \<noteq> 47) t))"

definition cmd_offer :: "cmd_env \<Rightarrow> (nat \<times> cstring) list \<Rightarrow> frelay \<Rightarrow> cmd_res" where
  "cmd_offer env toks s =
     (if 3 > length toks then cmd_fail (str ''Usage: offer destination file'') s
      else if fr_st s \<noteq> ST_AUTH_OK then cmd_fail (str ''Not logged in'') s
      else case offer_new (fst (strtoull16 (arg toks 1))) (arg toks 2) (ce_now env) (fr_xfer s) of
        (None, x) \<Rightarrow>
          cmd_fail (str ''No such file: '' @ [39] @ arg toks 2 @ [39]) (set_xfer x s)
      | (Some i, x) \<Rightarrow>
          (let o1 = transfers x ! i; bname = posix_basename (arg toks 2)
           in cmd_remote env MSG_TYPE_OFFER_REQ (tr_rid o1)
                [u64_attr MSG_ATTR_OFFERID (tr_oid o1), str_attr MSG_ATTR_FILENAME bname,
                 u64_attr MSG_ATTR_SIZE (tr_size o1)] (set_xfer x s)))"

definition chunk_size :: "u64 \<Rightarrow> u64" where
  "chunk_size sz = (if sz < MAX_DATA_SIZE then sz else MAX_DATA_SIZE)"

definition cmd_accept_start :: "cmd_env \<Rightarrow> nat \<Rightarrow> frelay \<Rightarrow> (bool \<times> frelay) res" where
  "cmd_accept_start env i s =
     bindr (download_resume i (fr_xfer s)) (\<lambda>(r, x).
     let s = set_xfer x s; say_tr = say_transfer (ce_iso8601 env) (ce_now env) MAX_CMDLINE in
     if r = 0 then
       bindr (if 0 < tr_offset (entry s i)
              then say_tr PFX_DSTA (fmt_id @ str '' %O/%S'') (str '' download resumed'') i s
              else say_tr PFX_DSTA (fmt_id @ str '' %S'') (str '' download started'') i s)
         (\<lambda>s. Inr (True, s))
     else
       bindr (download_write i [] (fr_xfer s)) (\<lambda>(r, x).
       let s = set_xfer x s in
       if r = 0 then
         bindr (say_tr PFX_DFIN (fmt_id @ str '' %S'') (str '' download started'') i s)
           (\<lambda>s. Inr (True, s))
       else
         bindr (say_tr PFX_DERR fmt_id (str '' download failed: '' @ ce_strerror env) i s)
           (\<lambda>s. Inr (False, s))))"

definition cmd_accept :: "cmd_env \<Rightarrow> (nat \<times> cstring) list \<Rightarrow> frelay \<Rightarrow> cmd_res" where
  "cmd_accept env toks s =
     (if 2 > length toks then cmd_fail (str ''Usage: accept offer_id'') s
      else case transfer_strtoi False (arg toks 1) of (n, _, ro) \<Rightarrow>
        (let (rid, oid) = (case ro of Some p \<Rightarrow> p | None \<Rightarrow> (ce_junk env, ce_junk env));
             invalid = cmd_fail (str ''Invalid offer ID '' @ print_hex oid)
         in if n < 2 then invalid s
            else case transfer_match TTYPE_DOWNLOAD rid oid (ce_now env) (fr_xfer s) of
              (None, x) \<Rightarrow> invalid (set_xfer x s)
            | (Some i, x) \<Rightarrow>
                bindr (cmd_accept_start env i (set_xfer x s)) (\<lambda>(ok, s).
                if \<not> ok then Inr (- 1, None, s)
                else let d = entry s i in
                  cmd_remote env MSG_TYPE_GETFILE_REQ (tr_rid d)
                    [u64_attr MSG_ATTR_OFFERID oid, u64_attr MSG_ATTR_OFFSET (tr_offset d),
                     u64_attr MSG_ATTR_SIZE (chunk_size (tr_size d))] s)))"

definition cmd_connect :: "cmd_env \<Rightarrow> (nat \<times> cstring) list \<Rightarrow> frelay \<Rightarrow> cmd_res" where
  "cmd_connect env toks s =
     (case (if 2 > length toks then cf_host (fr_cfg s) else Some (arg toks 1)) of
        None \<Rightarrow> cmd_fail (str ''Usage: connect [host [port]]'') s
      | Some host \<Rightarrow>
          bindr (if 3 > length toks then need_str (cf_port (fr_cfg s)) else Inr (arg toks 2))
            (\<lambda>service. case connect_srv (ce_connect env host service) host service s of (_, s) \<Rightarrow>
               if fr_srvfd s < 0 then Inr (- 1, None, s\<lparr>fr_st := ST_INVALID\<rparr>)
               else Inr (1, None, s\<lparr>fr_st := ST_PRE_LOGIN\<rparr>)))"

definition cmd_disconnect :: "frelay \<Rightarrow> cmd_res" where
  "cmd_disconnect s =
     (let s = (if 0 \<le> fr_srvfd s then
                 say PFX_DISC (str ''Connection closed'')
                   (snd (disconnect_srv (set_xfer (transfer_closeall (fr_xfer s)) s)))
               else s)
      in cmd_local (s\<lparr>fr_st := ST_INVALID\<rparr>))"

definition cmd_register :: "cmd_env \<Rightarrow> (nat \<times> cstring) list \<Rightarrow> frelay \<Rightarrow> cmd_res" where
  "cmd_register env toks s =
     (if 2 > length toks then cmd_fail (str ''Usage: register password'') s
      else cmd_remote env MSG_TYPE_REGISTER_REQ 0 [blob_attr MSG_ATTR_PUBKEY (arg toks 1 @ [0])] s)"

definition cmd_login :: "cmd_env \<Rightarrow> (nat \<times> cstring) list \<Rightarrow> frelay \<Rightarrow> cmd_res" where
  "cmd_login env toks s =
     (case (if 2 > length toks then cf_username (fr_cfg s) else Some (arg toks 1)) of
        None \<Rightarrow> cmd_fail (str ''Usage: login [user [password]]'') s
      | Some user \<Rightarrow>
          (let s = (if 2 < length toks then s\<lparr>fr_cfg := (fr_cfg s)\<lparr>cf_pubkey := Some (arg toks 2)\<rparr>\<rparr>
                    else s)
           in cmd_remote env MSG_TYPE_LOGIN_REQ 0 [str_attr MSG_ATTR_USERNAME user] s))"

definition tlist_cb :: "cmd_env \<Rightarrow> frelay \<Rightarrow> transfer_t \<Rightarrow> (int \<times> frelay) res" where
  "tlist_cb env s t =
     bindr (transfer_itostr (ce_iso8601 env) 4096 (Some (fmt_id @ str '' %O/%S %T %D %A'')) (ce_now env) t)
       (\<lambda>b. let s' = say PFX_TLST b s in Inr (int (length (fr_out s')) - int (length (fr_out s)), s'))"

definition cmd_list_transfers :: "cmd_env \<Rightarrow> frelay \<Rightarrow> cmd_res" where
  "cmd_list_transfers env s =
     bindr (transfer_list (tlist_cb env) (fr_xfer s) (printcon PFX_TLST None s)) (\<lambda>(_, s). cmd_local s)"

definition cmd_remove :: "(nat \<times> cstring) list \<Rightarrow> frelay \<Rightarrow> cmd_res" where
  "cmd_remove toks s =
     (if 2 > length toks then cmd_fail (str ''Usage: remove type|remote_id|offer_id'') s
      else case transfer_remove (arg toks 1) (fr_xfer s) of (n, x) \<Rightarrow>
        if 0 < n then
          cmd_local (say PFX_IMSG (str ''Removed '' @ print_int n @ str '' transfer'' @
                                   (if 1 \<noteq> n then str ''s'' else [])) (set_xfer x s))
        else cmd_fail (str ''Invalid remove mask: '' @ [39] @ arg toks 1 @ [39]) (set_xfer x s))"

definition cmd_exit :: "frelay \<Rightarrow> cmd_res" where
  "cmd_exit s = Inr (- 2, None, (snd (disconnect_srv s))\<lparr>fr_st := ST_INVALID\<rparr>)"

definition cmd_pwd :: "cmd_env \<Rightarrow> frelay \<Rightarrow> cmd_res" where
  "cmd_pwd env s =
     cmd_local (say PFX_WDIR ((if cf_stdout_tty (fr_cfg s) then str ''Local directory now '' else []) @
                              ce_getcwd env) s)"

definition cmd_cd :: "cmd_env \<Rightarrow> cstring \<Rightarrow> (nat \<times> cstring) list \<Rightarrow> frelay \<Rightarrow> cmd_res" where
  "cmd_cd env line toks s =
     cmd_pwd env
       (if 1 < length toks then
          (case ce_chdir env (arg_rest line toks 1) of
             Inl err \<Rightarrow> say PFX_CERR err s
           | Inr names \<Rightarrow>
               set_xfer ((fr_xfer s)\<lparr>x_fs := (x_fs (fr_xfer s))\<lparr>fs_names := names\<rparr>\<rparr>) s)
        else s)"

definition cmd_cmd :: "cmd_env \<Rightarrow> cstring \<Rightarrow> (nat \<times> cstring) list \<Rightarrow> frelay \<Rightarrow> cmd_res" where
  "cmd_cmd env line toks s =
     (if 2 > length toks then cmd_fail (str ''Usage: cmd '' @ [34] @ str ''command'' @ [34]) s
      else cmd_local (case ce_cmd env (arg_rest line toks 1) of
             None \<Rightarrow> s
           | Some out \<Rightarrow> fold (\<lambda>t. printcon PFX_COUT (Some t)) (pcmd_pieces out) s))"

text \<open>The child of \<^verbatim>\<open>fork\<close> becomes a shell or exits; the parent waits for it.\<close>

definition cmd_sh :: "cmd_env \<Rightarrow> frelay \<Rightarrow> cmd_res" where
  "cmd_sh env s =
     (if cf_stdin_tty (fr_cfg s) \<and> cf_stdout_tty (fr_cfg s) then
        (if 0 < ce_fork env then Inr (1, None, s) else Inr (- 1, None, s))
      else Inr (0, None,
             say PFX_CERR (str ''Spawning a subshell is only supported in TTY mode.'') s))"

definition cmd_invalid :: "frelay \<Rightarrow> cmd_res" where
  "cmd_invalid s =
     cmd_fail (str ''Invalid command. Enter '' @ quoted ''help'' @
               str '' to get a list of valid commands.'') s"

definition run_cmd ::
    "cmd_env \<Rightarrow> cmd_enum \<Rightarrow> cstring \<Rightarrow> (nat \<times> cstring) list \<Rightarrow> frelay \<Rightarrow> cmd_res" where
  "run_cmd env cmd line toks s =
     (case cmd of
        CMD_HELP \<Rightarrow> cmd_help s
      | CMD_PING \<Rightarrow> cmd_ping env line toks s
      | CMD_PEERLIST \<Rightarrow> cmd_remote env MSG_TYPE_PEERLIST_REQ 0 [] s
      | CMD_OFFER \<Rightarrow> cmd_offer env toks s
      | CMD_ACCEPT \<Rightarrow> cmd_accept env toks s
      | CMD_CONNECT \<Rightarrow> cmd_connect env toks s
      | CMD_DISCONNECT \<Rightarrow> cmd_disconnect s
      | CMD_REGISTER \<Rightarrow> cmd_register env toks s
      | CMD_DROP \<Rightarrow> cmd_remote env MSG_TYPE_DROP_REQ 0 [] s
      | CMD_LOGIN \<Rightarrow> cmd_login env toks s
      | CMD_LOGOUT \<Rightarrow> cmd_remote env MSG_TYPE_LOGOUT_REQ 0 [] s
      | CMD_LIST \<Rightarrow> cmd_list_transfers env s
      | CMD_REMOVE \<Rightarrow> cmd_remove toks s
      | CMD_EXIT \<Rightarrow> cmd_exit s
      | CMD_CD \<Rightarrow> cmd_cd env line toks s
      | CMD_PWD \<Rightarrow> cmd_pwd env s
      | CMD_CMD \<Rightarrow> cmd_cmd env line toks s
      | CMD_SH \<Rightarrow> cmd_sh env s
      | CMD_NONE \<Rightarrow> cmd_invalid s)"

section \<open>The handler\<close>

text \<open>A remote command sends its message, or fails when there is no connection.\<close>

definition cmd_finish :: "int \<times> mbuf option \<times> frelay \<Rightarrow> int \<times> frelay" where
  "cmd_finish res =
     (case res of (r, mp, s) \<Rightarrow>
      (r, if r = 0 then
            (if fr_srvfd s < 0 then say PFX_CERR (str ''Not connected'') s
             else case mp of None \<Rightarrow> s | Some m \<Rightarrow> clt_enqueue m s)
          else s))"

definition process_line :: "cmd_env \<Rightarrow> cstring \<Rightarrow> frelay \<Rightarrow> (int \<times> frelay) res" where
  "process_line env line s =
     (let toks = tokenize line in
      if toks = [] \<or> snd (hd toks) = [] then Inr (- 1, s)
      else case find_cmd (snd (hd toks)) cmd_list CMD_NONE of
        None \<Rightarrow> Inr (- 1, say PFX_CERR (str ''Ambiguous command'') s)
      | Some cmd \<Rightarrow> bindr (run_cmd env cmd line toks s) (\<lambda>res. Inr (cmd_finish res)))"

definition process_stdin :: "cmd_env \<Rightarrow> frelay \<Rightarrow> (int \<times> frelay) res" where
  "process_stdin env s =
     (case read_line (ce_read env) (MAX_CMDLINE - 1) 0 of
        Inl r \<Rightarrow> Inr (r, s)
      | Inr line \<Rightarrow> process_line env (takeWhile (\<lambda>c. c \<noteq> 0) line) s)"

section \<open>The invariant\<close>

text \<open>Every command keeps the invariant, and the message it composes is well framed.\<close>

definition cmd_good :: "int \<times> mbuf option \<times> frelay \<Rightarrow> bool" where
  "cmd_good res \<longleftrightarrow> (case res of (r, mp, s) \<Rightarrow> clt_inv s \<and> (\<forall>m. mp = Some m \<longrightarrow> mbuf_framed m))"

lemma cmd_good_simps [simp]:
  "cmd_good (r, None, s) = clt_inv s" "cmd_good (r, Some m, s) = (clt_inv s \<and> mbuf_framed m)"
  by (simp_all add: cmd_good_def)

lemma cmd_fail_good: "clt_inv s \<Longrightarrow> cmd_fail txt s = Inr res \<Longrightarrow> cmd_good res"
  by (auto simp: cmd_fail_def)

lemma cmd_remote_good: "clt_inv s \<Longrightarrow> cmd_remote env type dst as s = Inr res \<Longrightarrow> cmd_good res"
  by (auto simp: cmd_remote_def clt_request_inv)

lemma say_transfer_ok:
  assumes "say_transfer iso8601 now sz pfx fmt txt i s = Inr s'"
  obtains t where "s' = say pfx t s"
  using assms by (auto simp: say_transfer_def)

lemma say_transfer_inv:
  "clt_inv s \<Longrightarrow> say_transfer iso8601 now sz pfx fmt txt i s = Inr s' \<Longrightarrow>
     clt_inv s' \<and> fr_xfer s' = fr_xfer s \<and> fr_st s' = fr_st s"
  by (auto elim: say_transfer_ok)

lemma fold_print_inv: "(\<And>x s. clt_inv (f x s) = clt_inv s) \<Longrightarrow> clt_inv (fold f xs s) = clt_inv s"
  by (induction xs arbitrary: s) simp_all

lemma cmd_help_good: "clt_inv s \<Longrightarrow> cmd_help s = Inr res \<Longrightarrow> cmd_good res"
  by (auto simp: cmd_help_def cmd_local_def fold_print_inv split: prod.splits)

lemma offer_new_at: "offer_new dest name now x = (Some i, x') \<Longrightarrow> i = 0 \<and> 0 < length (transfers x')"
  by (auto simp: offer_new_def Let_def transfer_new_def prng_random_def split: if_splits prod.splits)

lemma cmd_offer_good:
  assumes inv: "clt_inv s" and r: "cmd_offer env toks s = Inr res"
  shows "cmd_good res"
proof -
  obtain i x where o: "offer_new (fst (strtoull16 (arg toks 1))) (arg toks 2) (ce_now env) (fr_xfer s) = (i, x)"
    by fastforce
  have "clt_inv (set_xfer x s)" by (rule clt_inv_xfer [OF inv offer_new_inv [OF _ o]])
  note inv1 = this
  consider "3 > length toks" | "\<not> 3 > length toks" "fr_st s \<noteq> ST_AUTH_OK"
    | (new) "\<not> 3 > length toks" "fr_st s = ST_AUTH_OK" by blast
  then show ?thesis
  proof cases
    case new
    show ?thesis
    proof (cases i)
      case None
      then have "cmd_fail (str ''No such file: '' @ [39] @ arg toks 2 @ [39]) (set_xfer x s) = Inr res"
        using r new unfolding cmd_offer_def o by simp
      then show ?thesis by (rule cmd_fail_good [OF inv1])
    next
      case (Some n)
      let ?o = "transfers x ! n"
      have "cmd_remote env MSG_TYPE_OFFER_REQ (tr_rid ?o) [u64_attr MSG_ATTR_OFFERID (tr_oid ?o),
          str_attr MSG_ATTR_FILENAME (posix_basename (arg toks 2)), u64_attr MSG_ATTR_SIZE (tr_size ?o)]
          (set_xfer x s) = Inr res"
        using r new Some unfolding cmd_offer_def o by (simp add: Let_def)
      then show ?thesis by (rule cmd_remote_good [OF inv1])
    qed
  qed (use r cmd_fail_good [OF inv] in \<open>auto simp: cmd_offer_def\<close>)
qed

lemma cmd_accept_start_inv:
  assumes inv: "clt_inv s" and i: "i < length (transfers (fr_xfer s))"
    and r: "cmd_accept_start env i s = Inr (ok, s')"
  shows "clt_inv s'"
proof -
  obtain k x where d: "download_resume i (fr_xfer s) = Inr (k, x)"
    using r by (auto simp: cmd_accept_start_def)
  have inv1: "clt_inv (set_xfer x s)" by (rule clt_inv_xfer [OF inv download_resume_inv [OF _ i d]])
  have i1: "i < length (transfers x)"
    using d i by (auto simp: download_resume_def Let_def split: if_splits option.splits prod.splits)
  show ?thesis
  proof (cases "k = 0")
    case True
    then show ?thesis using r d inv1
      by (auto simp: cmd_accept_start_def Let_def elim!: say_transfer_ok split: if_splits)
  next
    case False
    then obtain k2 x2 where w: "download_write i [] x = Inr (k2, x2)"
      using r d by (auto simp: cmd_accept_start_def Let_def)
    have "clt_inv (set_xfer x2 (set_xfer x s))"
      by (rule clt_inv_xfer [OF inv1 download_write_inv [OF _ _ w]]) (use i1 in simp_all)
    then show ?thesis using r d w False
      by (auto simp: cmd_accept_start_def Let_def elim!: say_transfer_ok split: if_splits)
  qed
qed

lemma cmd_accept_good:
  assumes inv: "clt_inv s" and r: "cmd_accept env toks s = Inr res"
  shows "cmd_good res"
proof -
  obtain n ty ro where st: "transfer_strtoi False (arg toks 1) = (n, ty, ro)" by (metis surj_pair)
  obtain rid oid where ids: "(case ro of Some p \<Rightarrow> p | None \<Rightarrow> (ce_junk env, ce_junk env)) = (rid, oid)"
    by fastforce
  obtain m x where m: "transfer_match TTYPE_DOWNLOAD rid oid (ce_now env) (fr_xfer s) = (m, x)" by fastforce
  have inv1: "clt_inv (set_xfer x s)" by (rule clt_inv_xfer [OF inv transfer_match_inv [OF _ m]])
  show ?thesis
  proof (cases "2 > length toks \<or> n < 2 \<or> m = None")
    case True
    then show ?thesis using r st ids m inv inv1
      by (auto simp: cmd_accept_def Let_def dest: cmd_fail_good split: if_splits)
  next
    case False
    then obtain i where i: "m = Some i" by auto
    obtain ok s2 where a: "cmd_accept_start env i (set_xfer x s) = Inr (ok, s2)"
      using r st ids m i False by (auto simp: cmd_accept_def Let_def)
    have "i < length (transfers x)"
      using transfer_match_Some(1,6) [OF m [unfolded i]] by simp
    then have "clt_inv s2" using cmd_accept_start_inv [OF inv1 _ a] by simp
    then show ?thesis using r st ids m i a False
      by (auto simp: cmd_accept_def Let_def dest: cmd_remote_good split: if_splits)
  qed
qed

lemma cmd_connect_good:
  assumes inv: "clt_inv s" and r: "cmd_connect env toks s = Inr res"
  shows "cmd_good res"
proof (cases "if 2 > length toks then cf_host (fr_cfg s) else Some (arg toks 1)")
  case None
  then show ?thesis using r inv cmd_fail_good unfolding cmd_connect_def None by (auto split: if_splits)
next
  case (Some host)
  obtain service where sv: "(if 3 > length toks then need_str (cf_port (fr_cfg s)) else Inr (arg toks 2)) = Inr service"
    using r unfolding cmd_connect_def Some by (auto simp del: not_less split: if_splits)
  obtain k s1 where c: "connect_srv (ce_connect env host service) host service s = (k, s1)" by fastforce
  have "res = (if fr_srvfd s1 < 0 then (- 1, None, s1\<lparr>fr_st := ST_INVALID\<rparr>) else (1, None, s1\<lparr>fr_st := ST_PRE_LOGIN\<rparr>))"
    using r unfolding cmd_connect_def Some sv by (simp add: c split: if_splits)
  then show ?thesis using connect_inv [OF inv c] by (simp split: if_splits)
qed

lemma cmd_disconnect_good: "clt_inv s \<Longrightarrow> cmd_disconnect s = Inr res \<Longrightarrow> cmd_good res"
proof -
  assume inv: "clt_inv s" and r: "cmd_disconnect s = Inr res"
  let ?s = "set_xfer (transfer_closeall (fr_xfer s)) s"
  have "clt_inv ?s" by (rule clt_inv_xfer [OF inv transfer_closeall_inv(1)])
  from disconnect_inv(1) [OF this]
  have "clt_inv ((snd (disconnect_srv ?s))\<lparr>fr_st := ST_INVALID\<rparr>)" .
  moreover have "clt_inv (s\<lparr>fr_st := ST_INVALID\<rparr>)" if "fr_srvfd s < 0"
    using inv that by (simp add: clt_inv_def files_ok_def)
  ultimately show ?thesis using r by (auto simp: cmd_disconnect_def cmd_local_def Let_def not_le)
qed

lemma list_entries_keeps:
  assumes "\<And>out p r out'. P out \<Longrightarrow> cb out p = Inr (r, out') \<Longrightarrow> P out'"
  shows "P out \<Longrightarrow> list_entries cb n ps out = Inr (k, out') \<Longrightarrow> P out'"
  by (induction ps arbitrary: n out) (auto split: if_splits dest: assms)

lemma cmd_list_good: "clt_inv s \<Longrightarrow> cmd_list_transfers env s = Inr res \<Longrightarrow> cmd_good res"
proof -
  assume inv: "clt_inv s" and r: "cmd_list_transfers env s = Inr res"
  obtain k s1 where "transfer_list (tlist_cb env) (fr_xfer s) (printcon PFX_TLST None s) = Inr (k, s1)"
    and s1: "res = (1, None, s1)"
    using r by (auto simp: cmd_list_transfers_def cmd_local_def)
  then have "list_entries (tlist_cb env) 0 (transfers (fr_xfer s)) (printcon PFX_TLST None s) = Inr (k, s1)"
    by (simp add: transfer_list_def)
  then have "clt_inv s1"
    by (rule list_entries_keeps [rotated 2]) (use inv in \<open>auto simp: tlist_cb_def Let_def\<close>)
  then show ?thesis using s1 by simp
qed

lemma cmd_remove_good: "clt_inv s \<Longrightarrow> cmd_remove toks s = Inr res \<Longrightarrow> cmd_good res"
proof -
  assume inv: "clt_inv s" and r: "cmd_remove toks s = Inr res"
  obtain n x where t: "transfer_remove (arg toks 1) (fr_xfer s) = (n, x)" by fastforce
  have "clt_inv (set_xfer x s)" by (rule clt_inv_xfer [OF inv transfer_remove_inv [OF _ t]])
  then show ?thesis using r t inv
    by (auto simp: cmd_remove_def cmd_local_def dest: cmd_fail_good split: if_splits)
qed

lemma cmd_cd_good: "clt_inv s \<Longrightarrow> cmd_cd env line toks s = Inr res \<Longrightarrow> cmd_good res"
proof -
  assume inv: "clt_inv s" and r: "cmd_cd env line toks s = Inr res"
  have "clt_inv (set_xfer ((fr_xfer s)\<lparr>x_fs := (x_fs (fr_xfer s))\<lparr>fs_names := n\<rparr>\<rparr>) s)" for n
    by (rule clt_inv_xfer [OF inv xfer_inv_kind]) simp_all
  then show ?thesis using r inv
    by (auto simp: cmd_cd_def cmd_pwd_def cmd_local_def split: if_splits sum.splits)
qed

lemma cmd_cmd_good: "clt_inv s \<Longrightarrow> cmd_cmd env line toks s = Inr res \<Longrightarrow> cmd_good res"
  by (auto simp: cmd_cmd_def cmd_local_def fold_print_inv dest: cmd_fail_good split: if_splits option.splits)

lemma cmd_login_good: "clt_inv s \<Longrightarrow> cmd_login env toks s = Inr res \<Longrightarrow> cmd_good res"
  unfolding cmd_login_def
  by (auto simp: Let_def dest: cmd_fail_good intro: cmd_remote_good [rotated] split: option.splits if_splits)

lemma run_cmd_good:
  assumes inv: "clt_inv s" and r: "run_cmd env cmd line toks s = Inr res"
  shows "cmd_good res"
proof (cases cmd)
  case CMD_SH
  then show ?thesis using r inv by (auto simp: run_cmd_def cmd_sh_def split: if_splits)
next
  case CMD_EXIT
  then show ?thesis using r disconnect_inv(1) [OF inv] by (auto simp: run_cmd_def cmd_exit_def)
next
  case CMD_PWD
  then show ?thesis using r inv by (auto simp: run_cmd_def cmd_pwd_def cmd_local_def)
next
  case CMD_PING
  then show ?thesis using r cmd_remote_good [OF inv] by (auto simp: run_cmd_def cmd_ping_def)
next
  case CMD_REGISTER
  then show ?thesis using r cmd_remote_good [OF inv] cmd_fail_good [OF inv]
    by (auto simp: run_cmd_def cmd_register_def split: if_splits)
qed (use r inv in \<open>simp_all add: run_cmd_def cmd_help_good cmd_remote_good cmd_offer_good cmd_accept_good
      cmd_connect_good cmd_disconnect_good cmd_list_good cmd_remove_good cmd_cd_good cmd_cmd_good
      cmd_login_good cmd_invalid_def cmd_fail_good\<close>)

lemma cmd_finish_inv: "cmd_good res \<Longrightarrow> clt_inv (snd (cmd_finish res))"
  by (auto simp: cmd_finish_def cmd_good_def clt_inv_enqueue split: prod.splits option.splits)

lemma process_line_inv:
  assumes inv: "clt_inv s" and r: "process_line env line s = Inr (r, s')"
  shows "clt_inv s'"
proof (cases "tokenize line = [] \<or> snd (hd (tokenize line)) = []")
  case True
  then show ?thesis using inv r by (auto simp: process_line_def)
next
  case False
  show ?thesis
  proof (cases "find_cmd (snd (hd (tokenize line))) cmd_list CMD_NONE")
    case None
    then show ?thesis using inv r False by (auto simp: process_line_def)
  next
    case (Some cmd)
    then obtain res where res: "run_cmd env cmd line (tokenize line) s = Inr res" "(r, s') = cmd_finish res"
      using r False by (auto simp: process_line_def)
    show ?thesis using cmd_finish_inv [OF run_cmd_good [OF inv res(1)]] by (simp flip: res(2))
  qed
qed

lemma process_stdin_inv: "clt_inv s \<Longrightarrow> process_stdin env s = Inr (r, s') \<Longrightarrow> clt_inv s'"
  by (auto simp: process_stdin_def process_line_inv split: sum.splits)

end
