(* ===== verification/Client_Msg.thy ===== *)
theory Client_Msg
  imports Client_Cmd
begin

text \<open>
  src/cltmain.c, \<^verbatim>\<open>process_srvmsg\<close>: what the client does with a message it has received, one
  definition per case of the switch. A case returns the status (an error response is sent when it
  is not \<open>SC_OK\<close>), the message it has composed if any, and the state.
\<close>

section \<open>The system and the attributes\<close>

text \<open>
  \<open>me_now\<close> and \<open>me_ts\<close> are the time in seconds and in nanoseconds, \<open>me_mem\<close> the most octets
  \<^verbatim>\<open>malloc\<close> can provide, \<open>me_strerror\<close> the text of the last error.
\<close>

record msg_env =
  me_now :: int
  me_ts :: u64
  me_iso8601 :: "int \<Rightarrow> cstring"
  me_mem :: nat
  me_strerror :: cstring

type_synonym msg_res = "(SC_ENUM \<times> mbuf option \<times> frelay) res"

definition PATH_MAX :: nat where "PATH_MAX = 4096"

text \<open>
  \<^verbatim>\<open>0 == mbuf_getnextattrib( .. ) && attr == at\<close>: the length and place of the next attribute's
  value if it has the type wanted; the cursor moves in any case.
\<close>

definition want_attr :: "u16 \<Rightarrow> mbuf \<Rightarrow> (nat \<times> nat) option \<times> mbuf" where
  "want_attr attr p =
     (case mbuf_getnextattrib p of
        (None, p) \<Rightarrow> (None, p)
      | (Some (at, al, av), p) \<Rightarrow> (if at = attr then Some (al, av) else None, p))"

definition u64_or :: "u64 \<Rightarrow> u16 \<Rightarrow> mbuf \<Rightarrow> (u64 \<times> mbuf) res" where
  "u64_or v attr p =
     (case want_attr attr p of
        (None, p) \<Rightarrow> Inr (v, p)
      | (Some (al, av), p) \<Rightarrow> bindr (av_u64 p av) (\<lambda>v. Inr (v, p)))"

definition str_if :: "u16 \<Rightarrow> mbuf \<Rightarrow> cstring option res" where
  "str_if attr p =
     (case want_attr attr p of
        (None, p) \<Rightarrow> Inr None
      | (Some (al, av), p) \<Rightarrow> bindr (av_str p av) (\<lambda>t. Inr (Some t)))"

definition msg_done :: "frelay \<Rightarrow> msg_res" where
  "msg_done s = Inr (SC_OK, None, s)"

definition msg_answer ::
    "msg_env \<Rightarrow> u16 \<Rightarrow> u64 \<Rightarrow> u64 \<Rightarrow> (u16 \<times> nat \<times> va_value) list \<Rightarrow> frelay \<Rightarrow> msg_res" where
  "msg_answer env type dst trfid as s =
     bindr (clt_reply (me_ts env) type dst trfid as) (\<lambda>m. Inr (SC_OK, Some m, s))"

definition say_tr :: "msg_env \<Rightarrow> cstring \<Rightarrow> cstring \<Rightarrow> cstring \<Rightarrow> nat \<Rightarrow> frelay \<Rightarrow> frelay res" where
  "say_tr env pfx fmt txt i s = say_transfer (me_iso8601 env) (me_now env) PATH_MAX pfx fmt txt i s"

section \<open>Requests of peers\<close>

definition msg_ping :: "msg_env \<Rightarrow> mbuf \<Rightarrow> frelay \<Rightarrow> msg_res" where
  "msg_ping env p s =
     (if fr_st s \<noteq> ST_AUTH_OK then msg_done s
      else bindr (str_if MSG_ATTR_NOTICE p) (\<lambda>note.
        let s = say PFX_QPNG (str ''Ping from '' @ print_016x (HDR_GET_SRCID p) @
                  (case note of None \<Rightarrow> [] | Some t \<Rightarrow> str '': '' @ [39] @ t @ [39])) s
        in if MCLASS_IS_REQ (HDR_GET_TYPE p) then
             msg_answer env MSG_TYPE_PING_RES (HDR_GET_SRCID p) (HDR_GET_TRFID p)
               [(MSG_ATTR_OK, 0, VA_NULL)] s
           else msg_done s))"

text \<open>The attributes of an offer, stored into the new transfer as they come.\<close>

definition offer_field ::
    "bool \<Rightarrow> mbuf \<Rightarrow> u16 \<Rightarrow> nat \<Rightarrow> transfer_t \<Rightarrow> fsys \<Rightarrow> (transfer_t \<times> fsys) res" where
  "offer_field no_clobber p at av d fs =
     (if at = MSG_ATTR_OFFERID then bindr (av_u64 p av) (\<lambda>v. Inr (d\<lparr>tr_oid := v\<rparr>, fs))
      else if at = MSG_ATTR_FILENAME then
        bindr (av_str p av) (\<lambda>n. Inr (make_filenames d n no_clobber fs))
      else if at = MSG_ATTR_SIZE then bindr (av_u64 p av) (\<lambda>v. Inr (d\<lparr>tr_size := v\<rparr>, fs))
      else Inr (d, fs))"

function offer_fields :: "bool \<Rightarrow> mbuf \<Rightarrow> transfer_t \<times> fsys \<Rightarrow> (transfer_t \<times> fsys) res" where
  "offer_fields no_clobber p dfs =
     (case mbuf_getnextattrib p of
        (None, _) \<Rightarrow> Inr dfs
      | (Some (at, al, av), q) \<Rightarrow>
          bindr (offer_field no_clobber q at av (fst dfs) (snd dfs)) (offer_fields no_clobber q))"
  by pat_completeness auto
termination
  by (relation "measure (\<lambda>(_, p, _). bsize p - boff p)")
    (auto simp: mbuf_getnextattrib_def Let_def split: if_splits)

declare offer_fields.simps [simp del]

definition msg_offer_req :: "msg_env \<Rightarrow> mbuf \<Rightarrow> frelay \<Rightarrow> msg_res" where
  "msg_offer_req env p s =
     (if fr_st s \<noteq> ST_AUTH_OK then msg_done s
      else let x = download_new (me_now env) (fr_xfer s);
               d = (transfers x ! 0)\<lparr>tr_rid := HDR_GET_SRCID p\<rparr>
        in bindr (offer_fields (cf_no_clobber (fr_cfg s)) p (d, x_fs x)) (\<lambda>(d, fs).
           let s = set_xfer (put_transfer 0 d (x\<lparr>x_fs := fs\<rparr>)) s
           in if tr_name d = None \<or> tr_name d = Some [] \<or> tr_size d = 0 then
                Inr (SC_BAD_REQUEST, None, set_xfer (transfer_invalidate 0 (fr_xfer s)) s)
              else
                bindr (say_tr env PFX_OFFR (fmt_id @ str '' %S'') (str '' offer received'') 0 s)
                  (msg_answer env MSG_TYPE_OFFER_RES (HDR_GET_SRCID p) (HDR_GET_TRFID p)
                     [u64_attr MSG_ATTR_OFFERID (tr_oid d), (MSG_ATTR_OK, 0, VA_NULL)])))"

text \<open>A part of an offered file; a request for no octets says that the download is complete.\<close>

definition getfile_data :: "msg_env \<Rightarrow> nat \<Rightarrow> u64 \<Rightarrow> u64 \<Rightarrow> frelay
    \<Rightarrow> ((byte list option \<times> u64) \<times> frelay) res" where
  "getfile_data env i offset sz s =
     (if sz = 0 then
        bindr (say_tr env PFX_UFIN (fmt_id @ str '' %S %D'') (str '' upload finished'') i s) (\<lambda>s.
        Inr ((Some [], 0), set_xfer (transfer_invalidate i (fr_xfer s)) s))
      else bindr (offer_read (me_mem env) i offset sz (fr_xfer s)) (\<lambda>(r, x). Inr (r, set_xfer x s)))"

definition set_entry :: "nat \<Rightarrow> transfer_t \<Rightarrow> frelay \<Rightarrow> frelay" where
  "set_entry i t s = set_xfer (put_transfer i t (fr_xfer s)) s"

definition msg_getfile_req :: "msg_env \<Rightarrow> mbuf \<Rightarrow> frelay \<Rightarrow> msg_res" where
  "msg_getfile_req env p s =
     (case (if fr_st s = ST_AUTH_OK then want_attr MSG_ATTR_OFFERID p else (None, p)) of
        (None, _) \<Rightarrow> msg_done s
      | (Some (al, av), p1) \<Rightarrow>
          bindr (av_u64 p1 av) (\<lambda>oid.
          case transfer_match TTYPE_OFFER (HDR_GET_SRCID p) oid (me_now env) (fr_xfer s) of
            (None, x) \<Rightarrow> Inr (SC_NOT_FOUND, None, set_xfer x s)
          | (Some i, x) \<Rightarrow>
              bindr (u64_or 0 MSG_ATTR_OFFSET p1) (\<lambda>(offset, p2).
              bindr (u64_or 0 MSG_ATTR_SIZE p2) (\<lambda>(sz, _).
              bindr (getfile_data env i offset sz (set_xfer x s)) (\<lambda>((data, sz), s).
              case data of
                None \<Rightarrow> Inr (SC_RANGE_NOT_SATISFIABLE, None, s)
              | Some bs \<Rightarrow>
                  msg_answer env MSG_TYPE_GETFILE_RES (HDR_GET_SRCID p) (HDR_GET_TRFID p)
                    [u64_attr MSG_ATTR_OFFERID oid, (MSG_ATTR_DATA, unat sz, VA_BLOB bs)]
                    (set_entry i ((entry s i)\<lparr>tr_offset := offset + sz\<rparr>) s))))))"

section \<open>Responses of peers\<close>

definition pad3 :: "nat \<Rightarrow> cstring" where
  "pad3 n = [of_nat (48 + n div 100 mod 10), of_nat (48 + n div 10 mod 10), of_nat (48 + n mod 10)]"

text \<open>The subtraction is one of unsigned 64-bit numbers.\<close>

definition msg_ping_res :: "msg_env \<Rightarrow> mbuf \<Rightarrow> mbuf \<Rightarrow> frelay \<Rightarrow> msg_res" where
  "msg_ping_res env q p s =
     (if fr_st s = ST_AUTH_OK \<and> fst (want_attr MSG_ATTR_OK p) \<noteq> None then
        (let rtt = unat (me_ts env - HDR_GET_TS q) div 1000
         in msg_done (say PFX_RPNG (str ''Ping response from '' @ print_016x (HDR_GET_SRCID p) @
              str '': RTT='' @ dec_digits (rtt div 1000) @ str ''.'' @ pad3 (rtt mod 1000) @ str ''ms'') s))
      else msg_done s)"

definition msg_offer_res :: "msg_env \<Rightarrow> mbuf \<Rightarrow> frelay \<Rightarrow> msg_res" where
  "msg_offer_res env p s =
     (case (if fr_st s = ST_AUTH_OK then want_attr MSG_ATTR_OFFERID p else (None, p)) of
        (None, _) \<Rightarrow> msg_done s
      | (Some (al, av), p1) \<Rightarrow>
          bindr (av_u64 p1 av) (\<lambda>oid.
          msg_done (set_xfer (snd (transfer_match TTYPE_OFFER (HDR_GET_SRCID p) oid (me_now env)
                                     (fr_xfer s))) s)))"

text \<open>The end of a download: the partial file gets its name.\<close>

definition finish_download :: "msg_env \<Rightarrow> nat \<Rightarrow> frelay \<Rightarrow> frelay res" where
  "finish_download env i s =
     bindr (transfer_itostr (me_iso8601 env) PATH_MAX (Some (fmt_id @ str '' %O/%S %D'')) (me_now env)
              (entry s i)) (\<lambda>buf.
     let s = (if tr_offset (entry s i) = tr_size (entry s i)
              then say PFX_DFIN (buf @ str '' download finished'') s
              else say PFX_DERR (buf @ str '' premature EOF from peer'') s);
         s = set_xfer (transfer_invalidate i (fr_xfer s)) s
     in bindr (need_str (tr_partname (entry s i))) (\<lambda>pn.
        bindr (need_str (tr_name (entry s i))) (\<lambda>nm.
        case sys_rename pn nm (x_fs (fr_xfer s)) of (r, fs) \<Rightarrow>
          let s = set_xfer ((fr_xfer s)\<lparr>x_fs := fs\<rparr>) s
          in Inr (if r \<noteq> 0 then
                    say PFX_DERR (buf @ str '' Moving '' @ [39] @ pn @ [39] @ str '' to '' @ [39] @ nm @
                                  [39] @ str '' failed: '' @ me_strerror env) s
                  else s))))"

definition store_data :: "msg_env \<Rightarrow> nat \<Rightarrow> u64 \<Rightarrow> byte list \<Rightarrow> frelay \<Rightarrow> msg_res" where
  "store_data env i oid data s =
     bindr (transfer_itostr (me_iso8601 env) PATH_MAX (Some (fmt_id @ str '' %O/%S %D'')) (me_now env)
              (entry s i)) (\<lambda>buf.
     bindr (download_write i data (fr_xfer s)) (\<lambda>(r, x).
     let s = set_xfer x s in
     if r \<noteq> 0 then
       msg_done (say PFX_DERR (buf @ str '' write failed, aborted'')
                   (set_xfer (transfer_invalidate i (fr_xfer s)) s))
     else
       let off = tr_offset (entry s i) + of_nat (length data);
           s = set_entry i ((entry s i)\<lparr>tr_offset := off\<rparr>) s
       in bindr (clt_request (me_ts env) MSG_TYPE_GETFILE_REQ (tr_rid (entry s i))
                   [u64_attr MSG_ATTR_OFFERID oid, u64_attr MSG_ATTR_OFFSET off,
                    u64_attr MSG_ATTR_SIZE (chunk_size (tr_size (entry s i) - off))] s) (\<lambda>(m, s).
          Inr (SC_OK, Some m, s))))"

definition msg_getfile_res :: "msg_env \<Rightarrow> mbuf \<Rightarrow> frelay \<Rightarrow> msg_res" where
  "msg_getfile_res env p s =
     (case (if fr_st s = ST_AUTH_OK then want_attr MSG_ATTR_OFFERID p else (None, p)) of
        (None, _) \<Rightarrow> msg_done s
      | (Some (al, av), p1) \<Rightarrow>
          bindr (av_u64 p1 av) (\<lambda>oid.
          case transfer_match TTYPE_DOWNLOAD (HDR_GET_SRCID p) oid (me_now env) (fr_xfer s) of
            (r, x) \<Rightarrow>
              let s = set_xfer x s in
              case (fst (want_attr MSG_ATTR_DATA p1), r) of
                (Some (al, av), Some i) \<Rightarrow>
                  if al = 0 then bindr (finish_download env i s) msg_done
                  else store_data env i oid (take al (drop av (bdata p1))) s
              | _ \<Rightarrow> msg_done s))"

section \<open>Responses of the server\<close>

function print_peers :: "mbuf \<Rightarrow> frelay \<Rightarrow> frelay res" where
  "print_peers p s =
     (case want_attr MSG_ATTR_PEERID p of
        (None, _) \<Rightarrow> Inr s
      | (Some (al, av), p1) \<Rightarrow>
          (case want_attr MSG_ATTR_PEERNAME p1 of
             (None, _) \<Rightarrow> Inr s
           | (Some (al2, av2), p2) \<Rightarrow>
               bindr (av_u64 p2 av) (\<lambda>id.
               bindr (av_str p2 av2) (\<lambda>name.
               print_peers p2
                 (say PFX_PLST (print_016x id @ (if HDR_GET_DSTID p = id then str ''*'' else str '' '') @
                                str '' '' @ name) s)))))"
  by pat_completeness auto
termination
  by (relation "measure (\<lambda>(p, _). bsize p - boff p)")
    (auto simp: want_attr_def mbuf_getnextattrib_def Let_def split: if_splits option.splits prod.splits)

declare print_peers.simps [simp del]

definition msg_peerlist_res :: "mbuf \<Rightarrow> frelay \<Rightarrow> msg_res" where
  "msg_peerlist_res p s =
     (if fr_st s = ST_AUTH_OK \<and> HDR_GET_SRCID p = 0
      then bindr (print_peers p (printcon PFX_PLST None s)) msg_done else msg_done s)"

definition say_notice :: "mbuf \<Rightarrow> frelay \<Rightarrow> frelay res" where
  "say_notice p s =
     bindr (str_if MSG_ATTR_NOTICE p) (\<lambda>note.
     Inr (case note of None \<Rightarrow> s | Some t \<Rightarrow> say PFX_SMSG t s))"

text \<open>The cases of \<^verbatim>\<open>REGISTER\<close>, \<^verbatim>\<open>DROP\<close>, \<^verbatim>\<open>AUTH\<close> and \<^verbatim>\<open>LOGOUT\<close> responses: in one of the states
  \<open>sts\<close>, a positive answer of the server itself.\<close>

definition on_server_ok ::
    "CLIENT_STATE list \<Rightarrow> cstring \<Rightarrow> cstring \<Rightarrow> (frelay \<Rightarrow> frelay) \<Rightarrow> mbuf \<Rightarrow> frelay \<Rightarrow> msg_res" where
  "on_server_ok sts pfx txt upd p s =
     (if fr_st s \<in> set sts \<and> HDR_GET_SRCID p = 0 then
        (case want_attr MSG_ATTR_OK p of
           (None, _) \<Rightarrow> msg_done s
         | (Some _, p) \<Rightarrow> bindr (say_notice p (say pfx txt s)) (\<lambda>s. msg_done (upd s)))
      else msg_done s)"

definition msg_register_res :: "mbuf \<Rightarrow> frelay \<Rightarrow> msg_res" where
  "msg_register_res p s = on_server_ok [ST_AUTH_OK] PFX_IMSG (str ''Registered'') (\<lambda>s. s) p s"

definition msg_drop_res :: "mbuf \<Rightarrow> frelay \<Rightarrow> msg_res" where
  "msg_drop_res p s = on_server_ok [ST_AUTH_OK] PFX_IMSG (str ''Dropped.'') (\<lambda>s. s) p s"

definition msg_auth_res :: "mbuf \<Rightarrow> frelay \<Rightarrow> msg_res" where
  "msg_auth_res p s =
     on_server_ok [ST_LOGIN_OK] PFX_AUTH (str ''Authenticated'') (fr_st_update (\<lambda>_. ST_AUTH_OK)) p s"

definition msg_logout_res :: "mbuf \<Rightarrow> frelay \<Rightarrow> msg_res" where
  "msg_logout_res p s =
     on_server_ok [ST_LOGIN_OK, ST_AUTH_OK] PFX_NAUT (str ''Logged out'')
       (fr_st_update (\<lambda>_. ST_PRE_LOGIN)) p s"

text \<open>\<^verbatim>\<open>0 == strncmp( av, k, strlen( k ) )\<close>\<close>

fun has_prefix :: "byte list \<Rightarrow> cstring \<Rightarrow> bool res" where
  "has_prefix bs [] = Inr True"
| "has_prefix [] (c # k) = Inl OutOfBounds"
| "has_prefix (b # bs) (c # k) = (if b = c then has_prefix bs k else Inr False)"

definition answer_challenge :: "msg_env \<Rightarrow> mbuf \<Rightarrow> nat \<Rightarrow> frelay \<Rightarrow> msg_res" where
  "answer_challenge env p av s =
     bindr (has_prefix (drop av (bdata p)) AUTH_KEY_PLAINTEXT) (\<lambda>known.
     if known then
       (let s = say PFX_IMSG (str ''Authenticating'') s;
            key = AUTH_KEY_PLAINTEXT @ (case cf_pubkey (fr_cfg s) of None \<Rightarrow> [] | Some k \<Rightarrow> k)
        in msg_answer env MSG_TYPE_AUTH_REQ 0 (HDR_GET_TRFID p)
             [blob_attr MSG_ATTR_DIGEST (key @ [0])] (s\<lparr>fr_st := ST_LOGIN_OK\<rparr>))
     else msg_done (say PFX_SERR (str ''Authentication method not supported'') s))"

definition msg_login_res :: "msg_env \<Rightarrow> mbuf \<Rightarrow> frelay \<Rightarrow> msg_res" where
  "msg_login_res env p s =
     (if fr_st s = ST_PRE_LOGIN \<and> HDR_GET_SRCID p = 0 then
        (case mbuf_getnextattrib p of
           (None, _) \<Rightarrow> msg_done s
         | (Some (at, al, av), p) \<Rightarrow>
             if at \<noteq> MSG_ATTR_OK \<and> at \<noteq> MSG_ATTR_CHALLENGE then msg_done s
             else bindr (say_notice p (say PFX_IMSG (str ''Login Ok'') s)) (\<lambda>s.
               if at = MSG_ATTR_OK then
                 msg_done (say PFX_AUTH (str ''No authentication required'') (s\<lparr>fr_st := ST_AUTH_OK\<rparr>))
               else answer_challenge env p av s))
      else msg_done s)"

section \<open>Errors and everything else\<close>

definition msg_other :: "mbuf \<Rightarrow> frelay \<Rightarrow> msg_res" where
  "msg_other p s =
     (let mtype = HDR_GET_TYPE p in
      case (if MCLASS_IS_ERR mtype then want_attr MSG_ATTR_ERROR p else (None, p)) of
        (None, _) \<Rightarrow>
          msg_done (say PFX_LERR (str ''Unhandled message 0x'' @ hex_digits 4 (unat mtype) @ str '' ('' @
                      str (mtype2str mtype) @ str ''_'' @ str (mclass2str mtype) @ str '')!'') s)
      | (Some (al, av), p) \<Rightarrow>
          bindr (av_u64 p av) (\<lambda>ec.
          bindr (str_if MSG_ATTR_NOTICE p) (\<lambda>note.
          msg_done (say PFX_SERR (str (mtype2str mtype) @ str '' Error '' @ print_u64 ec @
                      (case note of None \<Rightarrow> [] | Some t \<Rightarrow> str '' '' @ t) @ str ''.'') s))))"

definition msg_auth_err :: "mbuf \<Rightarrow> frelay \<Rightarrow> msg_res" where
  "msg_auth_err p s =
     msg_other p (if fr_st s = ST_LOGIN_OK then s\<lparr>fr_st := ST_PRE_LOGIN\<rparr> else s)"

section \<open>The handler\<close>

text \<open>\<open>q\<close>: the pending request the message answers, if it is a response.\<close>

definition msg_switch :: "msg_env \<Rightarrow> mbuf option \<Rightarrow> mbuf \<Rightarrow> frelay \<Rightarrow> msg_res" where
  "msg_switch env q p s =
     (let mtype = HDR_GET_TYPE p in
      if mtype = MSG_TYPE_PING_REQ \<or> mtype = MSG_TYPE_PING_IND then msg_ping env p s
      else if mtype = MSG_TYPE_OFFER_REQ then msg_offer_req env p s
      else if mtype = MSG_TYPE_GETFILE_REQ then msg_getfile_req env p s
      else if mtype = MSG_TYPE_PING_RES then
        (case q of None \<Rightarrow> Inl NullDeref | Some q \<Rightarrow> msg_ping_res env q p s)
      else if mtype = MSG_TYPE_OFFER_RES then msg_offer_res env p s
      else if mtype = MSG_TYPE_GETFILE_RES then msg_getfile_res env p s
      else if mtype = MSG_TYPE_PEERLIST_RES then msg_peerlist_res p s
      else if mtype = MSG_TYPE_REGISTER_RES then msg_register_res p s
      else if mtype = MSG_TYPE_DROP_RES then msg_drop_res p s
      else if mtype = MSG_TYPE_LOGIN_RES then msg_login_res env p s
      else if mtype = MSG_TYPE_AUTH_RES then msg_auth_res p s
      else if mtype = MSG_TYPE_LOGOUT_RES then msg_logout_res p s
      else if mtype = MSG_TYPE_AUTH_ERR then msg_auth_err p s
      else msg_other p s)"

text \<open>The message is answered with an error, or freed after the answer has been queued.\<close>

definition msg_finish :: "msg_env \<Rightarrow> mbuf \<Rightarrow> SC_ENUM \<times> mbuf option \<times> frelay \<Rightarrow> frelay res" where
  "msg_finish env p res =
     (case res of (status, mp, s) \<Rightarrow>
        let s = s\<lparr>fr_rbuf := None\<rparr> in
        if status \<noteq> SC_OK then
          bindr (mbuf_to_error_response (me_ts env) status p) (\<lambda>p. Inr (clt_enqueue p s))
        else Inr (case mp of None \<Rightarrow> s | Some m \<Rightarrow> clt_enqueue m s))"

definition process_srvmsg :: "msg_env \<Rightarrow> mbuf \<Rightarrow> frelay \<Rightarrow> frelay res" where
  "process_srvmsg env p s =
     (let resp = MCLASS_IS_RES (HDR_GET_TYPE p);
          (q, s) = (if resp then match_pending_req p s else (None, s))
      in if resp \<and> q = None then msg_finish env p (SC_OK, None, s)
         else bindr (msg_switch env q (mbuf_resetgetattrib p) s) (msg_finish env p))"

section \<open>The invariant\<close>

definition msg_good :: "SC_ENUM \<times> mbuf option \<times> frelay \<Rightarrow> bool" where
  "msg_good res \<longleftrightarrow> (case res of (st, mp, s) \<Rightarrow> clt_inv s \<and> (\<forall>m. mp = Some m \<longrightarrow> mbuf_framed m))"

lemma msg_good_simps [simp]:
  "msg_good (st, None, s) = clt_inv s" "msg_good (st, Some m, s) = (clt_inv s \<and> mbuf_framed m)"
  by (simp_all add: msg_good_def)

lemma msg_done_good: "clt_inv s \<Longrightarrow> msg_done s = Inr res \<Longrightarrow> msg_good res"
  by (auto simp: msg_done_def)

lemma msg_answer_good: "msg_answer env type dst trfid as s = Inr res \<Longrightarrow> msg_good res \<longleftrightarrow> clt_inv s"
  by (auto simp: msg_answer_def clt_reply_framed)

lemma say_tr_ok:
  assumes "say_tr env pfx fmt txt i s = Inr s'"
  obtains t where "s' = say pfx t s"
  using assms by (auto simp: say_tr_def elim: say_transfer_ok)

lemma msg_ping_good: "clt_inv s \<Longrightarrow> msg_ping env p s = Inr res \<Longrightarrow> msg_good res"
  by (auto simp: msg_ping_def Let_def msg_done_def dest!: msg_answer_good split: if_splits)

lemma offer_field_owned:
  assumes "offer_field nc p at av d fs = Inr (d', fs')" and "owned K (d # ts) fs"
  obtains K' where "owned K' (d' # ts) fs'" and "\<And>fd. K fd \<noteq> None \<Longrightarrow> K' fd = K fd"
proof (cases "at = MSG_ATTR_FILENAME")
  case True
  then obtain n where n: "make_filenames d n nc fs = (d', fs')"
    using assms(1) by (auto simp: offer_field_def MSG_ATTR_OFFERID_def MSG_ATTR_FILENAME_def)
  have "K (tr_fd d) = None" if "0 \<le> tr_fd d" using owned_fd_free [OF assms(2), of 0] that by simp
  moreover define K' where "K' = (if nc \<and> 0 \<le> tr_fd d then K(tr_fd d := Some False) else K)"
  moreover have "owned K' (d' # ts) fs'"
    using make_filenames_leak [of "d # ts" 0 n nc fs d' fs' K] n assms(2) by (simp add: K'_def cong: if_cong)
  ultimately show ?thesis by (intro that [of K']) auto
next
  case False
  then have "fs' = fs" "tr_fd d' = tr_fd d" using assms(1) by (auto simp: offer_field_def split: if_splits)
  then have "owned K (d' # ts) fs'" using assms(2) by (simp add: owned_def fds_Cons)
  then show ?thesis by (rule that) simp
qed

lemma offer_fields_owned:
  "offer_fields nc p (d, fs) = Inr (d', fs') \<Longrightarrow> owned K (d # ts) fs \<Longrightarrow>
     \<exists>K'. owned K' (d' # ts) fs' \<and> (\<forall>fd. K fd \<noteq> None \<longrightarrow> K' fd = K fd)"
proof (induction nc p "(d, fs)" arbitrary: d fs K rule: offer_fields.induct)
  case (1 nc p d fs)
  show ?case
  proof (cases "mbuf_getnextattrib p")
    case (Pair r q)
    show ?thesis
    proof (cases r)
      case None
      then show ?thesis using 1(2,3) Pair by (subst (asm) offer_fields.simps) auto
    next
      case (Some a)
      obtain at al av where a: "a = (at, al, av)" by (cases a)
      obtain d1 fs1 where f: "offer_field nc q at av d fs = Inr (d1, fs1)" "offer_fields nc q (d1, fs1) = Inr (d', fs')"
        using 1(2) Pair Some a by (subst (asm) offer_fields.simps) auto
      obtain K1 where K1: "owned K1 (d1 # ts) fs1" "\<And>fd. K fd \<noteq> None \<Longrightarrow> K1 fd = K fd"
        by (rule offer_field_owned [OF f(1) 1(3)]) blast
      obtain K2 where "owned K2 (d' # ts) fs'" "\<And>fd. K1 fd \<noteq> None \<Longrightarrow> K2 fd = K1 fd"
        using 1(1) [OF Pair [symmetric] Some a [symmetric] refl f(2) K1(1)] by auto
      moreover have "K2 fd = K fd" if "K fd \<noteq> None" for fd using K1(2) [OF that] calculation(2) [of fd] that by simp
      ultimately show ?thesis by blast
    qed
  qed
qed

lemma msg_offer_req_good:
  assumes inv: "clt_inv s" and r: "msg_offer_req env p s = Inr res"
  shows "msg_good res"
proof (cases "fr_st s = ST_AUTH_OK")
  case False
  then show ?thesis using r msg_done_good [OF inv] by (simp add: msg_offer_req_def)
next
  case True
  define x where "x = download_new (me_now env) (fr_xfer s)"
  define d where "d = (transfers x ! 0)\<lparr>tr_rid := HDR_GET_SRCID p\<rparr>"
  obtain d' fs where f: "offer_fields (cf_no_clobber (fr_cfg s)) p (d, x_fs x) = Inr (d', fs)"
    using r True unfolding msg_offer_req_def Let_def x_def [symmetric] d_def [symmetric] by auto
  obtain e where xs: "transfers x = e # transfers (fr_xfer s)" "x_fs x = x_fs (fr_xfer s)" "tr_fd e = - 1"
    by (simp add: x_def download_new_def transfer_new_def)
  let ?x = "put_transfer 0 d' (x\<lparr>x_fs := fs\<rparr>)" and ?s = "set_xfer (put_transfer 0 d' (x\<lparr>x_fs := fs\<rparr>)) s"
  obtain K where K: "owned K (transfers (fr_xfer s)) (x_fs x)" "0 \<le> fr_srvfd s \<longrightarrow> K (fr_srvfd s) = Some True"
    using inv xs(2) by (auto simp: clt_inv_def files_ok_def xfer_inv_def)
  then have "owned K (d # transfers (fr_xfer s)) (x_fs x)"
    using xs by (simp add: d_def owned_Cons_closed)
  from offer_fields_owned [OF f this] obtain K'
    where "owned K' (d' # transfers (fr_xfer s)) fs \<and> (\<forall>fd. K fd \<noteq> None \<longrightarrow> K' fd = K fd)" ..
  note K' = conjunct1 [OF this] conjunct2 [OF this, rule_format]
  have sock: "0 \<le> fr_srvfd s \<longrightarrow> K' (fr_srvfd s) = Some True" using K(2) K'(2) by fastforce
  have tr: "transfers ?x = d' # transfers (fr_xfer s)" by (subst put_transfer_simps(1)) (simp add: xs(1))
  then have "xfer_inv K' ?x" using K'(1) by (simp add: xfer_inv_def)
  then have "files_ok ?s" using sock unfolding files_ok_def by auto
  then have inv1: "clt_inv ?s" using inv by (simp add: clt_inv_def)
  have inv2: "clt_inv (set_xfer (transfer_invalidate 0 ?x) ?s)"
    by (rule clt_inv_xfer [OF inv1]) (use tr in \<open>simp add: transfer_invalidate_inv\<close>)
  have eq: "msg_offer_req env p s = (if tr_name d' = None \<or> tr_name d' = Some [] \<or> tr_size d' = 0
      then Inr (SC_BAD_REQUEST, None, set_xfer (transfer_invalidate 0 ?x) ?s)
      else bindr (say_tr env PFX_OFFR (fmt_id @ str '' %S'') (str '' offer received'') 0 ?s)
             (msg_answer env MSG_TYPE_OFFER_RES (HDR_GET_SRCID p) (HDR_GET_TRFID p)
                [u64_attr MSG_ATTR_OFFERID (tr_oid d'), (MSG_ATTR_OK, 0, VA_NULL)]))"
    unfolding msg_offer_req_def Let_def x_def [symmetric] d_def [symmetric] using True f by simp
  show ?thesis
    using r inv1 inv2 unfolding eq
    by (auto split: if_splits elim!: say_tr_ok dest!: msg_answer_good)
qed

lemma set_entry_inv:
  assumes "clt_inv s" and "i < length (transfers (fr_xfer s))" and "tr_fd t = tr_fd (entry s i)"
  shows "clt_inv (set_entry i t s)"
  unfolding set_entry_def
  by (rule clt_inv_xfer [OF assms(1)])
    (use assms(2,3) in \<open>simp add: xfer_inv_def owned_same entry_def\<close>)

lemma length_transfers_ops:
  "length (transfers (transfer_invalidate i x)) = length (transfers x)"
  "offer_read mem i off sz x = Inr (r, x') \<Longrightarrow> length (transfers x') = length (transfers x)"
  "download_write i data x = Inr (n, x') \<Longrightarrow> length (transfers x') = length (transfers x)"
  "transfer_match type rid oid now x = (m, x') \<Longrightarrow> length (transfers x') = length (transfers x)"
  by (auto simp: transfer_invalidate_def invalidate_entry_def offer_read_def download_write_def
      transfer_match_def split: prod.splits option.splits)

lemma getfile_data_inv:
  assumes inv: "clt_inv s" and i: "i < length (transfers (fr_xfer s))"
    and r: "getfile_data env i offset sz s = Inr (d, s')"
  shows "clt_inv s'" and "i < length (transfers (fr_xfer s'))"
proof -
  have "clt_inv s' \<and> i < length (transfers (fr_xfer s'))"
  proof (cases "sz = 0")
    case True
    then obtain s1 where s1: "say_tr env PFX_UFIN (fmt_id @ str '' %S %D'') (str '' upload finished'') i s = Inr s1"
      and s': "s' = set_xfer (transfer_invalidate i (fr_xfer s1)) s1"
      using r by (auto simp: getfile_data_def)
    obtain t where t: "s1 = say PFX_UFIN t s" using s1 by (rule say_tr_ok)
    have "clt_inv s'" unfolding s'
      by (rule clt_inv_xfer) (use t inv i in \<open>simp_all add: transfer_invalidate_inv\<close>)
    then show ?thesis using i s' t by (simp add: length_transfers_ops)
  next
    case False
    then obtain x where x: "offer_read (me_mem env) i offset sz (fr_xfer s) = Inr (d, x)" "s' = set_xfer x s"
      using r by (auto simp: getfile_data_def)
    have "clt_inv s'" unfolding x(2) by (rule clt_inv_xfer [OF inv offer_read_inv [OF _ i x(1)]])
    then show ?thesis using i x length_transfers_ops(2) [OF x(1)] by simp
  qed
  then show "clt_inv s'" "i < length (transfers (fr_xfer s'))" by simp_all
qed

lemma msg_getfile_req_good:
  assumes inv: "clt_inv s" and r: "msg_getfile_req env p s = Inr res"
  shows "msg_good res"
proof (cases "if fr_st s = ST_AUTH_OK then want_attr MSG_ATTR_OFFERID p else (None, p)")
  case (Pair a p1)
  show ?thesis
  proof (cases a)
    case None
    then show ?thesis using r msg_done_good [OF inv] unfolding msg_getfile_req_def Pair by simp
  next
    case (Some b)
    obtain al av where b: "b = (al, av)" by (cases b)
    obtain oid where oid: "av_u64 p1 av = Inr oid"
      using r unfolding msg_getfile_req_def Pair Some b by auto
    obtain m x where m: "transfer_match TTYPE_OFFER (HDR_GET_SRCID p) oid (me_now env) (fr_xfer s) = (m, x)"
      by fastforce
    have inv1: "clt_inv (set_xfer x s)" by (rule clt_inv_xfer [OF inv transfer_match_inv [OF _ m]])
    show ?thesis
    proof (cases m)
      case None
      then show ?thesis using r inv1 unfolding msg_getfile_req_def Pair Some b by (auto simp: oid m)
    next
      case S: (Some i)
      obtain offset p2 sz p3 d sz' s1 where g: "getfile_data env i offset sz (set_xfer x s) = Inr ((d, sz'), s1)"
        and res: "(case d of None \<Rightarrow> Inr (SC_RANGE_NOT_SATISFIABLE, None, s1)
           | Some bs \<Rightarrow> msg_answer env MSG_TYPE_GETFILE_RES (HDR_GET_SRCID p) (HDR_GET_TRFID p)
               [u64_attr MSG_ATTR_OFFERID oid, (MSG_ATTR_DATA, unat sz', VA_BLOB bs)]
               (set_entry i ((entry s1 i)\<lparr>tr_offset := offset + sz'\<rparr>) s1)) = Inr res"
        using r unfolding msg_getfile_req_def Pair Some b by (auto simp: oid m S)
      have "i < length (transfers (fr_xfer (set_xfer x s)))"
        using transfer_match_Some(1) [OF m [unfolded S]] length_transfers_ops(4) [OF m] by simp
      note g1 = getfile_data_inv [OF inv1 this g]
      have "clt_inv (set_entry i ((entry s1 i)\<lparr>tr_offset := offset + sz'\<rparr>) s1)"
        by (rule set_entry_inv [OF g1]) simp
      then show ?thesis using res g1(1) by (auto dest!: msg_answer_good split: option.splits)
    qed
  qed
qed

lemma fd_kind_rename: "sys_rename old new fs = (r, fs') \<Longrightarrow> fd_kind fs' = fd_kind fs"
  by (auto simp: sys_rename_def split: if_splits option.splits)

lemma finish_download_inv:
  assumes inv: "clt_inv s" and i: "i < length (transfers (fr_xfer s))" and r: "finish_download env i s = Inr s'"
  shows "clt_inv s'"
proof -
  obtain buf where buf: "transfer_itostr (me_iso8601 env) PATH_MAX (Some (fmt_id @ str '' %O/%S %D'')) (me_now env)
      (entry s i) = Inr buf"
    using r by (auto simp: finish_download_def)
  define s1 where "s1 = (if tr_offset (entry s i) = tr_size (entry s i)
              then say PFX_DFIN (buf @ str '' download finished'') s
              else say PFX_DERR (buf @ str '' premature EOF from peer'') s)"
  define s2 where "s2 = set_xfer (transfer_invalidate i (fr_xfer s1)) s1"
  have s1: "clt_inv s1" "fr_xfer s1 = fr_xfer s" using inv by (simp_all add: s1_def)
  have inv2: "clt_inv s2"
    unfolding s2_def by (rule clt_inv_xfer [OF s1(1)]) (use i s1(2) in \<open>simp add: transfer_invalidate_inv\<close>)
  have r2: "bindr (need_str (tr_partname (entry s2 i))) (\<lambda>pn. bindr (need_str (tr_name (entry s2 i))) (\<lambda>nm.
      case sys_rename pn nm (x_fs (fr_xfer s2)) of (r, fs) \<Rightarrow>
        let t = set_xfer ((fr_xfer s2)\<lparr>x_fs := fs\<rparr>) s2
        in Inr (if r \<noteq> 0 then
                  say PFX_DERR (buf @ str '' Moving '' @ [39] @ pn @ [39] @ str '' to '' @ [39] @ nm @
                                [39] @ str '' failed: '' @ me_strerror env) t
                else t))) = Inr s'"
    using r unfolding finish_download_def buf bindr.simps Let_def s1_def [symmetric] s2_def [symmetric] .
  then obtain pn nm where pn: "need_str (tr_partname (entry s2 i)) = Inr pn" "need_str (tr_name (entry s2 i)) = Inr nm"
    by blast
  obtain q fs where rn: "sys_rename pn nm (x_fs (fr_xfer s2)) = (q, fs)" by fastforce
  have s': "s' = (let t = set_xfer ((fr_xfer s2)\<lparr>x_fs := fs\<rparr>) s2 in
       if q \<noteq> 0 then say PFX_DERR (buf @ str '' Moving '' @ [39] @ pn @ [39] @ str '' to '' @ [39] @ nm @
                                  [39] @ str '' failed: '' @ me_strerror env) t else t)"
    using r2 by (simp add: pn rn Let_def)
  have "clt_inv (set_xfer ((fr_xfer s2)\<lparr>x_fs := fs\<rparr>) s2)"
    by (rule clt_inv_xfer [OF inv2 xfer_inv_kind]) (simp_all add: fd_kind_rename [OF rn])
  then show ?thesis unfolding s' by (simp add: Let_def)
qed

lemma store_data_good:
  assumes inv: "clt_inv s" and i: "i < length (transfers (fr_xfer s))" and r: "store_data env i oid data s = Inr res"
  shows "msg_good res"
proof -
  obtain buf n x where buf: "transfer_itostr (me_iso8601 env) PATH_MAX (Some (fmt_id @ str '' %O/%S %D'')) (me_now env)
      (entry s i) = Inr buf" and w: "download_write i data (fr_xfer s) = Inr (n, x)"
    using r by (auto simp: store_data_def)
  have inv1: "clt_inv (set_xfer x s)" by (rule clt_inv_xfer [OF inv download_write_inv [OF _ i w]])
  have i1: "i < length (transfers x)" using i length_transfers_ops(3) [OF w] by simp
  show ?thesis
  proof (cases "n = 0")
    case True
    let ?s = "set_xfer x s"
    define s2 where "s2 = set_entry i ((entry ?s i)\<lparr>tr_offset := tr_offset (entry ?s i) + of_nat (length data)\<rparr>) ?s"
    have inv2: "clt_inv s2" unfolding s2_def by (rule set_entry_inv [OF inv1]) (use i1 in simp_all)
    obtain m s3 dst as where m: "clt_request (me_ts env) MSG_TYPE_GETFILE_REQ dst as s2 = Inr (m, s3)"
      "res = (SC_OK, Some m, s3)"
      using r True unfolding store_data_def buf bindr.simps w by (auto simp: Let_def s2_def)
    with clt_request_inv [OF inv2 m(1)] show ?thesis by simp
  next
    case False
    have "clt_inv (set_xfer (transfer_invalidate i x) (set_xfer x s))"
      by (rule clt_inv_xfer [OF inv1]) (use i1 in \<open>simp add: transfer_invalidate_inv\<close>)
    then show ?thesis using r False unfolding store_data_def buf bindr.simps w
      by (auto simp: Let_def msg_done_def)
  qed
qed

lemma msg_getfile_res_good:
  assumes inv: "clt_inv s" and r: "msg_getfile_res env p s = Inr res"
  shows "msg_good res"
proof (cases "if fr_st s = ST_AUTH_OK then want_attr MSG_ATTR_OFFERID p else (None, p)")
  case (Pair a p1)
  show ?thesis
  proof (cases a)
    case None
    then show ?thesis using r msg_done_good [OF inv] unfolding msg_getfile_res_def Pair by simp
  next
    case (Some b)
    obtain al av where b: "b = (al, av)" by (cases b)
    obtain oid where oid: "av_u64 p1 av = Inr oid"
      using r unfolding msg_getfile_res_def Pair Some b by auto
    obtain m x where m: "transfer_match TTYPE_DOWNLOAD (HDR_GET_SRCID p) oid (me_now env) (fr_xfer s) = (m, x)"
      by fastforce
    have inv1: "clt_inv (set_xfer x s)" by (rule clt_inv_xfer [OF inv transfer_match_inv [OF _ m]])
    have res: "(case (fst (want_attr MSG_ATTR_DATA p1), m) of
        (Some (al, av), Some i) \<Rightarrow>
          if al = 0 then bindr (finish_download env i (set_xfer x s)) msg_done
          else store_data env i oid (take al (drop av (bdata p1))) (set_xfer x s)
      | _ \<Rightarrow> msg_done (set_xfer x s)) = Inr res"
      using r unfolding msg_getfile_res_def Pair Some b by (simp add: oid m Let_def)
    show ?thesis
    proof (cases "fst (want_attr MSG_ATTR_DATA p1) = None \<or> m = None")
      case True
      then have "msg_done (set_xfer x s) = Inr res" using res by (auto split: option.splits)
      then show ?thesis by (rule msg_done_good [OF inv1])
    next
      case False
      then obtain al' av' i where D: "fst (want_attr MSG_ATTR_DATA p1) = Some (al', av')" "m = Some i" by auto
      have i: "i < length (transfers (fr_xfer (set_xfer x s)))"
        using transfer_match_Some(1) [OF m [unfolded D(2)]] length_transfers_ops(4) [OF m] by simp
      show ?thesis
      proof (cases "al' = 0")
        case True
        then have "bindr (finish_download env i (set_xfer x s)) msg_done = Inr res" using res D by simp
        then obtain s2 where "finish_download env i (set_xfer x s) = Inr s2" "msg_done s2 = Inr res" by blast
        then show ?thesis using finish_download_inv [OF inv1 i] msg_done_good by blast
      next
        case False
        then have "store_data env i oid (take al' (drop av' (bdata p1))) (set_xfer x s) = Inr res" using res D by simp
        then show ?thesis by (rule store_data_good [OF inv1 i])
      qed
    qed
  qed
qed

lemma print_peers_inv: "print_peers p s = Inr s' \<Longrightarrow> clt_inv s' = clt_inv s"
proof (induction p s rule: print_peers.induct)
  case (1 p s)
  show ?case
    using 1(2) 1(1)
    by (subst (asm) print_peers.simps) (auto split: prod.splits option.splits)
qed

lemma say_notice_inv: "say_notice p s = Inr s' \<Longrightarrow> clt_inv s' = clt_inv s \<and> fr_st s' = fr_st s \<and> fr_cfg s' = fr_cfg s"
  by (auto simp: say_notice_def split: option.splits)

lemma on_server_ok_good:
  assumes inv: "clt_inv s" and r: "on_server_ok sts pfx txt upd p s = Inr res"
    and upd: "\<And>t. clt_inv t \<Longrightarrow> fr_st t \<in> set sts \<Longrightarrow> clt_inv (upd t)"
  shows "msg_good res"
proof (cases "fr_st s \<in> set sts \<and> HDR_GET_SRCID p = 0 \<and> fst (want_attr MSG_ATTR_OK p) \<noteq> None")
  case True
  then obtain a q t where "say_notice q (say pfx txt s) = Inr t" and res: "msg_done (upd t) = Inr res"
    using r by (auto simp: on_server_ok_def split: prod.splits)
  from say_notice_inv [OF this(1)] have "clt_inv t" "fr_st t = fr_st s" using inv by simp_all
  then show ?thesis using msg_done_good [OF upd res] True by simp
next
  case False
  then have "msg_done s = Inr res" using r by (auto simp: on_server_ok_def split: if_splits prod.splits option.splits)
  then show ?thesis by (rule msg_done_good [OF inv])
qed

lemma msg_login_res_good:
  assumes inv: "clt_inv s" and r: "msg_login_res env p s = Inr res"
  shows "msg_good res"
proof (cases "fr_st s = ST_PRE_LOGIN \<and> HDR_GET_SRCID p = 0")
  case False
  then have "msg_done s = Inr res" using r by (auto simp: msg_login_res_def)
  then show ?thesis by (rule msg_done_good [OF inv])
next
  case True
  obtain a q where q: "mbuf_getnextattrib p = (a, q)" by fastforce
  show ?thesis
  proof (cases "\<exists>at al av. a = Some (at, al, av) \<and> (at = MSG_ATTR_OK \<or> at = MSG_ATTR_CHALLENGE)")
    case False
    then have "msg_done s = Inr res" using r True q
      by (cases a) (auto simp: msg_login_res_def split: if_splits)
    then show ?thesis by (rule msg_done_good [OF inv])
  next
    case ok: True
    then obtain at al av where a: "a = Some (at, al, av)" "at = MSG_ATTR_OK \<or> at = MSG_ATTR_CHALLENGE"
      by blast
    have nn: "\<not> (at \<noteq> MSG_ATTR_OK \<and> at \<noteq> MSG_ATTR_CHALLENGE)" using a(2) by blast
    obtain t where n: "say_notice q (say PFX_IMSG (str ''Login Ok'') s) = Inr t"
      and res: "(if at = MSG_ATTR_OK
         then msg_done (say PFX_AUTH (str ''No authentication required'') (t\<lparr>fr_st := ST_AUTH_OK\<rparr>))
         else answer_challenge env q av t) = Inr res"
      using r unfolding msg_login_res_def if_P [OF True] q a(1) prod.case option.case if_not_P [OF nn] by blast
    have t: "clt_inv t" "fr_st t \<noteq> ST_INVALID" using say_notice_inv [OF n] inv True by simp_all
    have st: "clt_inv (t\<lparr>fr_st := st\<rparr>)" if "st \<noteq> ST_INVALID" for st
      by (rule clt_inv_state [OF t(1) that t(2)])
    show ?thesis
      using res st [of ST_AUTH_OK] st [of ST_LOGIN_OK] t(1)
      by (auto simp: answer_challenge_def Let_def msg_done_def dest!: msg_answer_good split: if_splits)
  qed
qed

lemma msg_other_good: "clt_inv s \<Longrightarrow> msg_other p s = Inr res \<Longrightarrow> msg_good res"
  by (auto simp: msg_other_def Let_def msg_done_def split: prod.splits option.splits if_splits)

lemma msg_auth_err_good: "clt_inv s \<Longrightarrow> msg_auth_err p s = Inr res \<Longrightarrow> msg_good res"
proof -
  assume inv: "clt_inv s" and r: "msg_auth_err p s = Inr res"
  have "clt_inv (if fr_st s = ST_LOGIN_OK then s\<lparr>fr_st := ST_PRE_LOGIN\<rparr> else s)"
    using inv by (simp add: clt_inv_state)
  from msg_other_good [OF this] r show "msg_good res" by (simp add: msg_auth_err_def)
qed

lemma msg_offer_res_good: "clt_inv s \<Longrightarrow> msg_offer_res env p s = Inr res \<Longrightarrow> msg_good res"
proof -
  assume inv: "clt_inv s" and r: "msg_offer_res env p s = Inr res"
  have "clt_inv (set_xfer (snd (transfer_match TTYPE_OFFER a b c (fr_xfer s))) s)" for a b c
    by (rule clt_inv_xfer [OF inv]) (metis transfer_match_inv surjective_pairing)
  with inv r show "msg_good res"
    by (auto simp: msg_offer_res_def msg_done_def split: if_splits prod.splits option.splits)
qed

lemma msg_switch_good:
  assumes inv: "clt_inv s" and r: "msg_switch env q p s = Inr res"
  shows "msg_good res"
proof -
  have srv: "msg_good res" if "msg_register_res p s = Inr res \<or> msg_drop_res p s = Inr res \<or>
      msg_auth_res p s = Inr res \<or> msg_logout_res p s = Inr res"
    using that unfolding msg_register_res_def msg_drop_res_def msg_auth_res_def msg_logout_res_def
    by (elim disjE) (erule on_server_ok_good [OF inv]; auto simp: clt_inv_state)+
  have ping: "msg_good res" if "msg_ping_res env q' p s = Inr res" for q'
    using that inv by (auto simp: msg_ping_res_def msg_done_def Let_def split: if_splits)
  have peers: "msg_good res" if "msg_peerlist_res p s = Inr res"
    using that inv by (auto simp: msg_peerlist_res_def msg_done_def print_peers_inv split: if_splits)
  show ?thesis
    using r srv ping peers msg_ping_good [OF inv] msg_offer_req_good [OF inv] msg_getfile_req_good [OF inv]
      msg_offer_res_good [OF inv] msg_getfile_res_good [OF inv] msg_login_res_good [OF inv]
      msg_auth_err_good [OF inv] msg_other_good [OF inv]
    unfolding msg_switch_def Let_def by (auto split: if_splits option.splits)
qed

lemma msg_finish_inv:
  assumes p: "mbuf_framed p" and good: "msg_good res" and r: "msg_finish env p res = Inr s'"
  shows "clt_inv s'" and "fr_rbuf s' = None"
proof -
  obtain st mp s where res: "res = (st, mp, s)" by (cases res)
  let ?s = "s\<lparr>fr_rbuf := None\<rparr>"
  have inv: "clt_inv ?s" using good res by (intro clt_inv_rbuf) (simp_all add: msg_good_def)
  obtain q where q: "mbuf_to_error_response (me_ts env) st p = Inr q"
    and "tlv_msg (error_header (me_ts env) p) (error_attrs st) q"
    using mbuf_to_error_response_ok [OF mbuf_framed_hdr_ok [OF p]] .
  then have "mbuf_framed q" by (simp add: tlv_msg_def)
  note enq = clt_inv_enqueue [OF inv]
  have rb: "fr_rbuf (clt_enqueue m ?s) = None" for m by (simp add: clt_enqueue_def)
  have "clt_inv s' \<and> fr_rbuf s' = None"
  proof (cases "st = SC_OK")
    case True
    then show ?thesis using r res inv good rb enq by (cases mp) (auto simp: msg_finish_def Let_def)
  next
    case False
    then show ?thesis using r res q rb enq [OF \<open>mbuf_framed q\<close>] by (auto simp: msg_finish_def Let_def)
  qed
  then show "clt_inv s'" "fr_rbuf s' = None" by simp_all
qed

lemma process_srvmsg_inv:
  assumes inv: "clt_inv s" and p: "mbuf_framed p" and r: "process_srvmsg env p s = Inr s'"
  shows "clt_inv s' \<and> fr_rbuf s' = None"
proof -
  obtain q t where m: "(if MCLASS_IS_RES (HDR_GET_TYPE p) then match_pending_req p s else (None, s)) = (q, t)"
    by fastforce
  have t: "clt_inv t" using m inv clt_inv_match by (auto split: if_splits)
  show ?thesis
  proof (cases "MCLASS_IS_RES (HDR_GET_TYPE p) \<and> q = None")
    case True
    then have "msg_finish env p (SC_OK, None, t) = Inr s'" using r m by (simp add: process_srvmsg_def Let_def)
    then show ?thesis using msg_finish_inv [OF p, of "(SC_OK, None, t)"] t by simp
  next
    case False
    then obtain res where "msg_switch env q (mbuf_resetgetattrib p) t = Inr res" "msg_finish env p res = Inr s'"
      using r m by (auto simp: process_srvmsg_def Let_def split: if_splits)
    then show ?thesis using msg_finish_inv [OF p msg_switch_good [OF t]] by blast
  qed
qed

section \<open>What a message leaves alone\<close>

text \<open>Handling a message touches neither the queue nor the pending requests nor the connection,
  before the answer is queued.\<close>

definition lists_of :: "frelay \<Rightarrow> mbuf list \<times> mbuf list \<times> int \<times> clt_cfg" where
  "lists_of s = (fr_queue s, fr_requests s, fr_srvfd s, fr_cfg s)"

definition res_lists :: "SC_ENUM \<times> mbuf option \<times> frelay \<Rightarrow> mbuf list \<times> mbuf list \<times> int \<times> clt_cfg" where
  "res_lists res = lists_of (snd (snd res))"

lemma lists_of_simps [simp]:
  "lists_of (say p t u) = lists_of u" "lists_of (printcon p v u) = lists_of u"
  "lists_of (set_xfer x u) = lists_of u" "lists_of (set_entry i e u) = lists_of u"
  "lists_of (u\<lparr>fr_st := st\<rparr>) = lists_of u" "res_lists (st', mp, t') = lists_of t'"
  by (simp_all add: lists_of_def set_entry_def res_lists_def)

lemma msg_done_lists: "msg_done t = Inr res \<Longrightarrow> res_lists res = lists_of t"
  by (auto simp: msg_done_def)

lemma msg_answer_lists: "msg_answer env type dst trfid as t = Inr res \<Longrightarrow> res_lists res = lists_of t"
  by (auto simp: msg_answer_def)

lemma clt_request_lists: "clt_request ts type dst as t = Inr (m, t') \<Longrightarrow> lists_of t' = lists_of t"
  by (erule clt_request_ok) simp

lemma say_tr_lists: "say_tr env pfx fmt txt i t = Inr t' \<Longrightarrow> lists_of t' = lists_of t"
  by (erule say_tr_ok) simp

lemma say_notice_lists: "say_notice p t = Inr t' \<Longrightarrow> lists_of t' = lists_of t"
  by (auto simp: say_notice_def split: option.splits)

lemma print_peers_lists: "print_peers p t = Inr t' \<Longrightarrow> lists_of t' = lists_of t"
proof (induction p t rule: print_peers.induct)
  case (1 p t)
  show ?case
    using 1(2) 1(1) by (subst (asm) print_peers.simps) (auto split: prod.splits option.splits)
qed

lemmas lists_rules = msg_done_lists msg_answer_lists clt_request_lists say_tr_lists say_notice_lists
  print_peers_lists

lemma getfile_data_lists: "getfile_data env i offset sz t = Inr (d, t') \<Longrightarrow> lists_of t' = lists_of t"
  by (auto simp: getfile_data_def dest!: lists_rules split: if_splits)

lemma finish_download_lists: "finish_download env i t = Inr t' \<Longrightarrow> lists_of t' = lists_of t"
  by (auto simp: finish_download_def Let_def split: prod.splits if_splits)

lemma store_data_lists: "store_data env i oid data t = Inr res \<Longrightarrow> res_lists res = lists_of t"
  by (auto simp: store_data_def Let_def dest!: lists_rules split: if_splits)

lemma msg_getfile_lists:
  "msg_getfile_req env p t = Inr res \<Longrightarrow> res_lists res = lists_of t"
  "msg_getfile_res env p t = Inr res \<Longrightarrow> res_lists res = lists_of t"
  by (auto simp: msg_getfile_req_def msg_getfile_res_def Let_def
      dest!: lists_rules getfile_data_lists finish_download_lists store_data_lists
      split: prod.splits option.splits if_splits)

lemma msg_offer_lists:
  "msg_offer_req env p t = Inr res \<Longrightarrow> res_lists res = lists_of t"
  "msg_offer_res env p t = Inr res \<Longrightarrow> res_lists res = lists_of t"
  by (auto simp: msg_offer_req_def msg_offer_res_def Let_def dest!: lists_rules
      split: prod.splits option.splits if_splits)

lemma on_server_ok_lists:
  "on_server_ok sts pfx txt upd p t = Inr res \<Longrightarrow> (\<And>u. lists_of (upd u) = lists_of u) \<Longrightarrow>
     res_lists res = lists_of t"
  by (auto simp: on_server_ok_def dest!: lists_rules split: prod.splits option.splits if_splits)

lemma msg_server_lists:
  "msg_peerlist_res p t = Inr res \<Longrightarrow> res_lists res = lists_of t"
  "msg_register_res p t = Inr res \<Longrightarrow> res_lists res = lists_of t"
  "msg_drop_res p t = Inr res \<Longrightarrow> res_lists res = lists_of t"
  "msg_auth_res p t = Inr res \<Longrightarrow> res_lists res = lists_of t"
  "msg_logout_res p t = Inr res \<Longrightarrow> res_lists res = lists_of t"
  "msg_ping_res env q p t = Inr res \<Longrightarrow> res_lists res = lists_of t"
  "msg_ping env p t = Inr res \<Longrightarrow> res_lists res = lists_of t"
  by (auto simp: msg_peerlist_res_def msg_register_res_def msg_drop_res_def msg_auth_res_def
      msg_logout_res_def msg_ping_res_def msg_ping_def Let_def
      dest!: lists_rules elim!: on_server_ok_lists split: if_splits)

lemma msg_login_res_lists: "msg_login_res env p t = Inr res \<Longrightarrow> res_lists res = lists_of t"
  by (auto simp: msg_login_res_def answer_challenge_def Let_def dest!: lists_rules
      split: prod.splits option.splits if_splits)

lemma msg_other_lists:
  "msg_other p t = Inr res \<Longrightarrow> res_lists res = lists_of t"
  "msg_auth_err p t = Inr res \<Longrightarrow> res_lists res = lists_of t"
  by (auto simp: msg_other_def msg_auth_err_def Let_def dest!: lists_rules
      split: prod.splits option.splits if_splits)

lemma msg_switch_lists: "msg_switch env q p t = Inr res \<Longrightarrow> res_lists res = lists_of t"
  unfolding msg_switch_def Let_def
  by (auto split: if_splits option.splits dest: msg_getfile_lists msg_offer_lists msg_server_lists
      msg_login_res_lists msg_other_lists)

text \<open>A response without a request is dropped; any other response takes its request off the list.\<close>

lemma process_srvmsg_unsolicited:
  assumes "MCLASS_IS_RES (HDR_GET_TYPE p)" and "\<forall>q \<in> set (fr_requests s). \<not> answers p q"
  shows "process_srvmsg env p s = Inr (s\<lparr>fr_rbuf := None\<rparr>)"
proof -
  obtain qs where t: "take_pending p (fr_requests s) = (None, qs)"
    using take_pending_None_iff [of p "fr_requests s"] assms(2) by (metis prod.collapse)
  then have "qs = fr_requests s" by (rule take_pending_None)
  then have "match_pending_req p s = (None, s)" using t by (simp add: match_pending_req_def)
  then show ?thesis using assms(1) by (simp add: process_srvmsg_def msg_finish_def)
qed

lemma process_srvmsg_lists:
  assumes "process_srvmsg env p s = Inr s'"
  shows "fr_requests s' = (if MCLASS_IS_RES (HDR_GET_TYPE p) then snd (take_pending p (fr_requests s))
      else fr_requests s)"
    and "fr_queue s' = fr_queue s \<or> (\<exists>m. fr_queue s' = fr_queue s @ [m])"
    and "fr_srvfd s' = fr_srvfd s"
proof -
  let ?P = "\<lambda>t. fr_requests s' = fr_requests t \<and> (fr_queue s' = fr_queue t \<or> (\<exists>m. fr_queue s' = fr_queue t @ [m])) \<and>
      fr_srvfd s' = fr_srvfd t"
  have fin: "?P t" if "msg_finish env p res = Inr s'" "res_lists res = lists_of t" for res t
  proof -
    obtain st mp u where res: "res = (st, mp, u)" by (cases res)
    have u: "fr_queue u = fr_queue t" "fr_requests u = fr_requests t" "fr_srvfd u = fr_srvfd t"
      using that(2) res by (simp_all add: lists_of_def)
    show ?thesis using that(1) res
      by (auto simp: msg_finish_def Let_def clt_enqueue_def list_enq_def u split: if_splits option.splits)
  qed
  obtain q t where m: "(if MCLASS_IS_RES (HDR_GET_TYPE p) then match_pending_req p s else (None, s)) = (q, t)"
    by fastforce
  have t: "fr_requests t = (if MCLASS_IS_RES (HDR_GET_TYPE p) then snd (take_pending p (fr_requests s))
      else fr_requests s)" "fr_queue t = fr_queue s" "fr_srvfd t = fr_srvfd s"
    using m by (auto simp: match_pending_req_def split: if_splits prod.splits)
  have "?P t"
  proof (cases "MCLASS_IS_RES (HDR_GET_TYPE p) \<and> q = None")
    case True
    then have "msg_finish env p (SC_OK, None, t) = Inr s'" using assms m by (simp add: process_srvmsg_def Let_def)
    then show ?thesis by (rule fin) simp
  next
    case False
    then obtain res where "msg_switch env q (mbuf_resetgetattrib p) t = Inr res" "msg_finish env p res = Inr s'"
      using assms m by (auto simp: process_srvmsg_def Let_def split: if_splits)
    then show ?thesis using fin msg_switch_lists by blast
  qed
  then show "fr_requests s' = (if MCLASS_IS_RES (HDR_GET_TYPE p) then snd (take_pending p (fr_requests s))
      else fr_requests s)" "fr_queue s' = fr_queue s \<or> (\<exists>m. fr_queue s' = fr_queue s @ [m])"
    "fr_srvfd s' = fr_srvfd s"
    using t by auto
qed

end
