(* ===== verification/Client_IO.thy ===== *)
theory Client_IO
  imports Client_Msg
begin

text \<open>
  src/cltmain.c, \<^verbatim>\<open>handle_srvio\<close> and the loop of \<^verbatim>\<open>main\<close>. An event of the loop holds what
  the system calls of one iteration return: the clock, which of the descriptors asked about
  \<^verbatim>\<open>select()\<close> finds ready, what is read from and written to the server, and what a command
  (\<open>cmd_env\<close>) and a message (\<open>msg_env\<close>) obtain from the system.
\<close>

section \<open>The connection\<close>

record clt_event =
  ve_rd :: bool
  ve_wr :: bool
  ve_stdin :: bool
  ve_read :: read_res
  ve_write :: write_res
  ve_junk :: "nat \<Rightarrow> byte"
  ve_msg :: msg_env
  ve_cmd :: cmd_env

text \<open>The label \<^verbatim>\<open>DISC\<close>: the receive buffer and the queues stay as they are.\<close>

definition lose_server :: "frelay \<Rightarrow> frelay" where
  "lose_server s =
     (let s = snd (disconnect_srv (set_xfer (transfer_closeall (fr_xfer s)) s))
      in say PFX_DISC (str ''Connection to remote host failed'') (s\<lparr>fr_st := ST_INVALID\<rparr>))"

text \<open>The part for reading; the flag is false after \<^verbatim>\<open>goto DISC\<close>. A complete message is handed
  over to \<^verbatim>\<open>process_srvmsg\<close>, which leaves no receive buffer.\<close>

definition srv_readable :: "clt_event \<Rightarrow> frelay \<Rightarrow> (bool \<times> frelay) res" where
  "srv_readable ev s =
     (let p = (case fr_rbuf s of None \<Rightarrow> mbuf_new (ve_junk ev) | Some p \<Rightarrow> p);
          s = s\<lparr>fr_rbuf := Some p\<rparr>
      in bindr (read_client (ve_read ev) p) (\<lambda>r.
         case r of
           Rd_Closed \<Rightarrow> Inr (False, lose_server s)
         | Rd_Skip \<Rightarrow> Inr (True, s)
         | Rd_Got p \<Rightarrow>
             bindr (rx_advance (ve_junk ev) p) (\<lambda>r.
             case r of
               Rx_Partial p \<Rightarrow> Inr (True, s\<lparr>fr_rbuf := Some p\<rparr>)
             | Rx_Done p \<Rightarrow>
                 bindr (process_srvmsg (ve_msg ev) p (s\<lparr>fr_rbuf := None\<rparr>)) (\<lambda>s. Inr (True, s)))))"

definition srv_writable :: "clt_event \<Rightarrow> frelay \<Rightarrow> frelay res" where
  "srv_writable ev s =
     (case fr_queue s of
        [] \<Rightarrow> Inl NullDeref
      | m # ms \<Rightarrow>
          if boff m < bsize m then
            (case ve_write ev of
               Wr_Error transient \<Rightarrow> Inr (if transient then s else lose_server s)
             | Wr_Count n \<Rightarrow>
                 let w = min n (bsize m - boff m) in
                 if w = 0 then Inr (lose_server s)
                 else let m = m\<lparr>boff := boff m + w\<rparr>; s = s\<lparr>fr_queue := m # ms\<rparr>
                   in if boff m = bsize m then clt_dequeue s else Inr s)
          else if boff m = bsize m then clt_dequeue s else Inr s)"

definition handle_srvio :: "clt_event \<Rightarrow> int \<times> frelay \<Rightarrow> (int \<times> frelay) res" where
  "handle_srvio ev ns =
     (case ns of (nset, s) \<Rightarrow>
      if fr_srvfd s < 0 then Inr (nset, s)
      else
        bindr (if ve_rd ev then bindr (srv_readable ev s) (\<lambda>(go, s). Inr (go, nset - 1, s))
               else Inr (True, nset, s)) (\<lambda>(go, nset, s).
        if go \<and> 0 < nset \<and> ve_wr ev then bindr (srv_writable ev s) (\<lambda>s. Inr (nset - 1, s))
        else Inr (nset, s)))"

section \<open>The main loop\<close>

datatype clt_select = CS_Error bool | CS_Ready clt_event

record clt_loop =
  vl_now :: int
  vl_ts :: u64
  vl_upkeep_now :: int
  vl_select :: clt_select

text \<open>Upkeep: a ping for the server, then the requests and the transfers that have timed out.\<close>

definition clt_upkeep :: "clt_loop \<Rightarrow> int \<times> frelay \<Rightarrow> (int \<times> frelay) res" where
  "clt_upkeep le ls =
     (case ls of (last_upkeep, s) \<Rightarrow>
      if cf_select_timeout (fr_cfg s) < vl_now le - last_upkeep then
        bindr (if fr_st s = ST_AUTH_OK
               then bindr (clt_request (vl_ts le) MSG_TYPE_PING_IND 0 [] s) (\<lambda>(m, s). Inr (clt_enqueue m s))
               else Inr s) (\<lambda>s.
        let s = upkeep_pending (vl_upkeep_now le) s;
            x = transfer_upkeep (cf_offer_timeout (fr_cfg s)) (vl_upkeep_now le) (fr_xfer s)
        in Inr (vl_now le, set_xfer x s))
      else Inr (last_upkeep, s))"

text \<open>What \<^verbatim>\<open>select()\<close> may report: the socket only when connected, and for writing only when
  something is queued.\<close>

definition clt_select_fds :: "clt_event \<Rightarrow> frelay \<Rightarrow> clt_event" where
  "clt_select_fds ev s =
     ev\<lparr>ve_rd := ve_rd ev \<and> 0 \<le> fr_srvfd s,
        ve_wr := ve_wr ev \<and> 0 \<le> fr_srvfd s \<and> fr_queue s \<noteq> []\<rparr>"

text \<open>One iteration; the flag is false when the loop is left.\<close>

definition clt_loop_body :: "clt_loop \<Rightarrow> int \<times> frelay \<Rightarrow> (bool \<times> int \<times> frelay) res" where
  "clt_loop_body le ls =
     bindr (clt_upkeep le ls) (\<lambda>(last_upkeep, s).
     case vl_select le of
       CS_Error interrupted \<Rightarrow> (if interrupted then Inr (True, last_upkeep, s) else Inl Die)
     | CS_Ready ev \<Rightarrow>
         let ev = clt_select_fds ev s;
             nset = of_bool (ve_rd ev) + of_bool (ve_wr ev) + of_bool (ve_stdin ev) :: int
         in if 0 < nset then
              bindr (handle_srvio ev (nset, s)) (\<lambda>(nset, s).
              if 0 < nset \<and> ve_stdin ev then
                bindr (process_stdin (ve_cmd ev) s) (\<lambda>(r, s). Inr (r \<noteq> - 2, last_upkeep, s))
              else Inr (True, last_upkeep, s))
            else Inr (True, last_upkeep, s))"

text \<open>The loop over the events; after it the files and the connection are closed.\<close>

fun clt_main_loop :: "clt_loop list \<Rightarrow> int \<times> frelay \<Rightarrow> (bool \<times> int \<times> frelay) res" where
  "clt_main_loop [] ls = Inr (True, ls)"
| "clt_main_loop (le # les) ls =
     bindr (clt_loop_body le ls) (\<lambda>(go, ls).
     if go then clt_main_loop les ls
     else Inr (False, fst ls,
            snd (disconnect_srv (set_xfer (transfer_closeall (fr_xfer (snd ls))) (snd ls)))))"

definition clt_start :: "clt_cfg \<Rightarrow> fsys \<Rightarrow> u64 \<Rightarrow> frelay" where
  "clt_start conf fs seed =
     \<lparr>fr_cfg = conf, fr_st = ST_INVALID, fr_srvfd = - 1, fr_rbuf = None, fr_queue = [],
      fr_requests = [], fr_xfer = \<lparr>transfers = [], x_fs = fs, x_rng = prng_srandom_r seed\<rparr>,
      fr_out = []\<rparr>"

definition clt_autoconnect :: "conn_res \<Rightarrow> frelay \<Rightarrow> frelay res" where
  "clt_autoconnect res s =
     (case cf_host (fr_cfg s) of
        None \<Rightarrow> Inr s
      | Some host \<Rightarrow>
          if cf_autoconnect (fr_cfg s) \<and> host \<noteq> [] then
            bindr (need_str (cf_port (fr_cfg s))) (\<lambda>port.
            let s = snd (connect_srv res host port s)
            in Inr (if 0 \<le> fr_srvfd s then s\<lparr>fr_st := ST_PRE_LOGIN\<rparr> else s))
          else Inr s)"

definition clt_main ::
    "clt_cfg \<Rightarrow> fsys \<Rightarrow> u64 \<Rightarrow> conn_res \<Rightarrow> clt_loop list \<Rightarrow> (bool \<times> int \<times> frelay) res" where
  "clt_main conf fs seed res les =
     bindr (clt_autoconnect res (clt_start conf fs seed)) (\<lambda>s. clt_main_loop les (0, s))"

section \<open>The invariant\<close>

lemma lose_server_inv: "clt_inv s \<Longrightarrow> clt_inv (lose_server s)"
proof -
  assume inv: "clt_inv s"
  have "clt_inv (set_xfer (transfer_closeall (fr_xfer s)) s)"
    by (rule clt_inv_xfer [OF inv transfer_closeall_inv(1)])
  from disconnect_inv(1) [OF this] show "clt_inv (lose_server s)" by (simp add: lose_server_def Let_def)
qed

lemma srv_readable_inv:
  assumes inv: "clt_inv s" and r: "srv_readable ev s = Inr (go, s')"
  shows "clt_inv s'"
proof -
  define p where "p = (case fr_rbuf s of None \<Rightarrow> mbuf_new (ve_junk ev) | Some p \<Rightarrow> p)"
  have p: "rx_inv p" using inv rx_inv_new(1) by (auto simp: p_def clt_inv_def split: option.splits)
  have inv1: "clt_inv (s\<lparr>fr_rbuf := Some p\<rparr>)" by (rule clt_inv_rbuf [OF inv]) (use p in simp)
  have r1: "bindr (read_client (ve_read ev) p) (\<lambda>r.
         case r of
           Rd_Closed \<Rightarrow> Inr (False, lose_server (s\<lparr>fr_rbuf := Some p\<rparr>))
         | Rd_Skip \<Rightarrow> Inr (True, s\<lparr>fr_rbuf := Some p\<rparr>)
         | Rd_Got p \<Rightarrow>
             bindr (rx_advance (ve_junk ev) p) (\<lambda>r.
             case r of
               Rx_Partial p \<Rightarrow> Inr (True, s\<lparr>fr_rbuf := Some p\<rparr>)
             | Rx_Done p \<Rightarrow>
                 bindr (process_srvmsg (ve_msg ev) p (s\<lparr>fr_rbuf := None\<rparr>)) (\<lambda>s. Inr (True, s)))) = Inr (go, s')"
    using r unfolding srv_readable_def p_def [symmetric] Let_def by simp
  from p show ?thesis
  proof (cases rule: read_client_cases [of p "ve_read ev"])
    case closed
    then show ?thesis using r1 lose_server_inv [OF inv1] by auto
  next
    case skip
    then show ?thesis using r1 inv1 by auto
  next
    case (got d q)
    have recv: "rx_recv (ve_junk ev) d p = rx_advance (ve_junk ev) q" using got(2) by (simp add: rx_recv_def)
    from rx_recv_cases [OF p got(3), of "ve_junk ev"] show ?thesis
    proof (elim disjE exE conjE)
      fix q' assume "rx_recv (ve_junk ev) d p = Inr (Rx_Partial q')" "rx_inv q'"
      then show ?thesis using r1 got(1) recv clt_inv_rbuf [OF inv, of "Some q'"] by auto
    next
      fix q' assume q': "rx_recv (ve_junk ev) d p = Inr (Rx_Done q')" "mbuf_framed q'"
      then have ps: "process_srvmsg (ve_msg ev) q' (s\<lparr>fr_rbuf := None\<rparr>) = Inr s'"
        using r1 got(1) recv by auto
      have "clt_inv (s\<lparr>fr_rbuf := None\<rparr>)" by (rule clt_inv_rbuf [OF inv]) simp
      then show ?thesis using process_srvmsg_inv [OF _ q'(2) ps] by blast
    next
      assume "rx_recv (ve_junk ev) d p = Inl Die"
      then show ?thesis using r1 got(1) recv by simp
    qed
  qed
qed

lemma srv_writable_inv:
  assumes inv: "clt_inv s" and r: "srv_writable ev s = Inr s'"
  shows "clt_inv s'"
proof -
  obtain m ms where q: "fr_queue s = m # ms" using r by (auto simp: srv_writable_def split: list.splits)
  have tx: "tx_inv (m # ms)" using inv q by (simp add: clt_inv_def)
  then have room: "boff m < bsize m" by (simp add: tx_inv_def)
  show ?thesis
  proof (cases "ve_write ev")
    case (Wr_Error t)
    then show ?thesis using r q room inv lose_server_inv [OF inv] by (auto simp: srv_writable_def split: if_splits)
  next
    case (Wr_Count n)
    let ?w = "min n (bsize m - boff m)" and ?s = "s\<lparr>fr_queue := m\<lparr>boff := boff m + min n (bsize m - boff m)\<rparr> # ms\<rparr>"
    have req: "\<forall>q \<in> set (fr_requests s). mbuf_framed q \<and> MCLASS_IS_REQ (HDR_GET_TYPE q)"
      using inv by (simp add: clt_inv_def)
    have m: "mbuf_framed m \<and> tx_inv ms" using tx_inv_tail [OF tx] by blast
    show ?thesis
    proof (cases "?w = 0 \<or> boff m + ?w = bsize m")
      case False
      have "tx_inv (m\<lparr>boff := boff m + ?w\<rparr> # ms)" using tx False room by (auto simp: tx_inv_def)
      then have "clt_inv (s\<lparr>fr_queue := m\<lparr>boff := boff m + ?w\<rparr> # ms, fr_requests := fr_requests s\<rparr>)"
        by (rule clt_inv_lists [OF inv _ req])
      moreover have "s' = ?s" using r False room
        by (auto simp: srv_writable_def q Wr_Count Let_def split: if_splits)
      ultimately show ?thesis by simp
    next
      case True
      have "clt_inv (s\<lparr>fr_queue := ms, fr_requests := (if MCLASS_IS_REQ (HDR_GET_TYPE m)
          then m\<lparr>boff := boff m + ?w\<rparr> # fr_requests s else fr_requests s)\<rparr>)"
        using m req by (intro clt_inv_lists [OF inv]) auto
      then show ?thesis using r q room Wr_Count True lose_server_inv [OF inv]
        by (auto simp: srv_writable_def Let_def clt_dequeue_def split: if_splits)
    qed
  qed
qed

lemma handle_srvio_inv: "clt_inv s \<Longrightarrow> handle_srvio ev (n, s) = Inr (n', s') \<Longrightarrow> clt_inv s'"
proof -
  assume inv: "clt_inv s" and r: "handle_srvio ev (n, s) = Inr (n', s')"
  show "clt_inv s'"
  proof (cases "fr_srvfd s < 0")
    case True
    then show ?thesis using inv r by (simp add: handle_srvio_def)
  next
    case False
    obtain go k t where t: "(if ve_rd ev then bindr (srv_readable ev s) (\<lambda>(go, s). Inr (go, n - 1, s))
        else Inr (True, n, s)) = Inr (go, k, t)"
      and s': "(if go \<and> 0 < k \<and> ve_wr ev then bindr (srv_writable ev t) (\<lambda>s. Inr (k - 1, s)) else Inr (k, t)) = Inr (n', s')"
      using r False by (auto simp: handle_srvio_def)
    have "clt_inv t"
    proof (cases "ve_rd ev")
      case True
      then have "srv_readable ev s = Inr (go, t)" using t by auto
      then show ?thesis by (rule srv_readable_inv [OF inv])
    qed (use t inv in simp)
    then show ?thesis using s' srv_writable_inv by (auto split: if_splits)
  qed
qed

lemma clt_upkeep_inv:
  assumes inv: "clt_inv s" and r: "clt_upkeep le (l, s) = Inr (l', s')"
  shows "clt_inv s'"
proof (cases "cf_select_timeout (fr_cfg s) < vl_now le - l")
  case True
  then obtain t where t: "(if fr_st s = ST_AUTH_OK
      then bindr (clt_request (vl_ts le) MSG_TYPE_PING_IND 0 [] s) (\<lambda>(m, s). Inr (clt_enqueue m s))
      else Inr s) = Inr t"
    and s': "s' = (let u = upkeep_pending (vl_upkeep_now le) t
      in set_xfer (transfer_upkeep (cf_offer_timeout (fr_cfg u)) (vl_upkeep_now le) (fr_xfer u)) u)"
    using r by (auto simp: clt_upkeep_def Let_def)
  have "clt_inv t" using t inv by (auto dest: clt_request_inv intro: clt_inv_enqueue split: if_splits)
  then have "clt_inv (upkeep_pending (vl_upkeep_now le) t)" by (rule clt_inv_upkeep_pending)
  then show ?thesis unfolding s' Let_def by (rule clt_inv_xfer) (rule transfer_upkeep_inv(1))
qed (use assms in \<open>simp add: clt_upkeep_def\<close>)

lemma clt_loop_body_inv:
  assumes inv: "clt_inv s" and r: "clt_loop_body le (l, s) = Inr (go, l', s')"
  shows "clt_inv s'"
proof -
  obtain l1 s1 where u: "clt_upkeep le (l, s) = Inr (l1, s1)" using r by (auto simp: clt_loop_body_def)
  have inv1: "clt_inv s1" by (rule clt_upkeep_inv [OF inv u])
  show ?thesis
  proof (cases "vl_select le")
    case (CS_Error b)
    then show ?thesis using r u inv1 by (auto simp: clt_loop_body_def split: if_splits)
  next
    case (CS_Ready e)
    define ev where "ev = clt_select_fds e s1"
    define n where "n = (of_bool (ve_rd ev) + of_bool (ve_wr ev) + of_bool (ve_stdin ev) :: int)"
    have r1: "(if 0 < n then bindr (handle_srvio ev (n, s1)) (\<lambda>(n, s).
              if 0 < n \<and> ve_stdin ev then
                bindr (process_stdin (ve_cmd ev) s) (\<lambda>(r, s). Inr (r \<noteq> - 2, l1, s))
              else Inr (True, l1, s))
            else Inr (True, l1, s1)) = Inr (go, l', s')"
      using r unfolding clt_loop_body_def u bindr.simps prod.case CS_Ready clt_select.case Let_def
        ev_def [symmetric] n_def [symmetric] .
    show ?thesis
    proof (cases "0 < n")
      case True
      then obtain k s2 where h: "handle_srvio ev (n, s1) = Inr (k, s2)" using r1 by auto
      have "clt_inv s2" by (rule handle_srvio_inv [OF inv1 h])
      then show ?thesis using r1 True h process_stdin_inv [of s2] by (auto split: if_splits)
    qed (use r1 inv1 in simp)
  qed
qed

lemma clt_main_loop_inv:
  "clt_inv s \<Longrightarrow> clt_main_loop les (l, s) = Inr (True, l', s') \<Longrightarrow> clt_inv s'"
proof (induction les arbitrary: l s)
  case (Cons le les)
  obtain go l1 s1 where b: "clt_loop_body le (l, s) = Inr (go, l1, s1)" using Cons.prems(2) by auto
  with Cons.prems(2) have "go" "clt_main_loop les (l1, s1) = Inr (True, l', s')" by (auto split: if_splits)
  with Cons.IH [OF clt_loop_body_inv [OF Cons.prems(1) b]] show ?case by blast
qed simp

lemma clt_start_inv: "(\<And>fd. fd_kind fs fd \<noteq> Some False) \<Longrightarrow> clt_inv (clt_start conf fs seed)"
  by (auto simp: clt_inv_def clt_start_def files_ok_def xfer_inv_def owned_def tx_inv_def
      intro!: exI [of _ "fd_kind fs"])

lemma clt_autoconnect_inv:
  assumes inv: "clt_inv s" and st: "fr_st s = ST_INVALID" and r: "clt_autoconnect res s = Inr s'"
  shows "clt_inv s'"
proof (cases "\<exists>host. cf_host (fr_cfg s) = Some host \<and> cf_autoconnect (fr_cfg s) \<and> host \<noteq> []")
  case True
  then obtain host where host: "cf_host (fr_cfg s) = Some host" "cf_autoconnect (fr_cfg s)" "host \<noteq> []" by blast
  then obtain port where port: "need_str (cf_port (fr_cfg s)) = Inr port"
    using r by (auto simp: clt_autoconnect_def)
  obtain k t where c: "connect_srv res host port s = (k, t)" by fastforce
  have s': "s' = (if 0 \<le> fr_srvfd t then t\<lparr>fr_st := ST_PRE_LOGIN\<rparr> else t)"
    using r host port c by (simp add: clt_autoconnect_def)
  have ci: "clt_inv (t\<lparr>fr_st := (if fr_srvfd t < 0 then ST_INVALID else ST_PRE_LOGIN)\<rparr>)" by (rule connect_inv [OF inv c])
  have "fr_st t = fr_st s"
    using c by (auto simp: connect_srv_def disconnect_srv_def Let_def split: sum.splits prod.splits if_splits)
  then have "t\<lparr>fr_st := ST_INVALID\<rparr> = t" using st by simp
  then show ?thesis using ci s' by (auto split: if_splits)
next
  case False
  then have "s' = s" using r by (auto simp: clt_autoconnect_def split: option.splits if_splits)
  then show ?thesis using inv by simp
qed

end
