(* ===== verification/Client_Transfer.thy ===== *)
theory Client_Transfer
  imports Client_IO
begin

text \<open>
  The download of a file by one client from another, through the server: the messages the two
  clients exchange, what each handles and leaves behind, and the rounds of request and data until
  the file is complete. What lies between the clients is an interface, the locale \<open>carrier\<close>: it passes
  a message on unchanged but for the source, which becomes the identifier of the sender. The server
  provides it (\<open>Server_Relay\<close>).
\<close>

section \<open>Messages with attributes\<close>

text \<open>\<open>carries t src dst x as p\<close>: \<open>p\<close> has type, source, destination, exchange and attributes.\<close>

definition carries :: "u16 \<Rightarrow> u64 \<Rightarrow> u64 \<Rightarrow> u64 \<Rightarrow> attrib list \<Rightarrow> mbuf \<Rightarrow> bool" where
  "carries t src dst x as p \<longleftrightarrow> mbuf_framed p \<and> HDR_GET_TYPE p = t \<and> HDR_GET_SRCID p = src \<and>
     HDR_GET_DSTID p = dst \<and> HDR_GET_TRFID p = x \<and> attrs p = as"

definition relay :: "u64 \<Rightarrow> mbuf \<Rightarrow> mbuf" where
  "relay self p = (HDR_SET_SRCID self p)\<lparr>boff := 0\<rparr>"

lemma relay_carries: "carries t src dst x as p \<Longrightarrow> carries t self dst x as (relay self p)"
proof -
  assume c: "carries t src dst x as p"
  then have p: "mbuf_framed p" by (simp add: carries_def)
  note h = mbuf_framed_hdr_ok [OF p]
  have "mbuf_framed (HDR_SET_SRCID self p)" using p h by (simp add: mbuf_framed_def)
  moreover have "attrs (HDR_SET_SRCID self p) = attrs p"
    using hdr_set_payload(5) [OF h] by (simp add: attrs_def)
  ultimately show ?thesis using c h by (simp add: carries_def relay_def)
qed

lemma carries_tlv_msg:
  "tlv_msg (composed t ts src dst x) as p \<Longrightarrow> carries t src dst x as p \<and> boff p = 0"
  by (simp add: tlv_msg_attrs carries_def) (simp add: tlv_msg_def)

text \<open>A value of eight octets is the attribute of a number.\<close>

abbreviation u64_av :: "u16 \<Rightarrow> u64 \<Rightarrow> attrib" where
  "u64_av a v \<equiv> (a, be_bytes 8 v)"

lemma clt_reply_carries:
  assumes "list_all2 (\<lambda>(at, n, v) a. fst a = at \<and> attr_call at n v = Some (snd a)) cs as"
    and "40 + length (concat (map tlv_encode as)) \<le> MSG_MAX_SIZE"
  obtains m where "clt_reply ts t dst x cs = Inr m" and "carries t 0 dst x as m" and "boff m = 0"
proof -
  obtain m where "add_all cs (composed t ts 0 dst x) = Inr m" "tlv_msg (composed t ts 0 dst x) as m"
    using add_all_ok [OF tlv_msg_composed assms(1), of t ts 0 dst x] assms(2) by auto
  then show ?thesis
    using that [of m] carries_tlv_msg mbuf_compose_eq [of None ts t 0 dst x] by (simp add: clt_reply_def)
qed

lemma clt_request_carries:
  assumes "list_all2 (\<lambda>(at, n, v) a. fst a = at \<and> attr_call at n v = Some (snd a)) cs as"
    and "40 + length (concat (map tlv_encode as)) \<le> MSG_MAX_SIZE"
  obtains m x where "clt_request ts t dst cs s = Inr (m, snd (clt_random s))"
    and "carries t 0 dst x as m" and "boff m = 0"
proof -
  obtain x u where r: "clt_random s = (x, u)" by fastforce
  obtain m where "add_all cs (composed t ts 0 dst x) = Inr m" "tlv_msg (composed t ts 0 dst x) as m"
    using add_all_ok [OF tlv_msg_composed assms(1), of t ts 0 dst x] assms(2) by auto
  then show ?thesis
    using that [of m x] carries_tlv_msg r mbuf_compose_eq [of None ts t 0 dst x] by (simp add: clt_request_def)
qed

lemma next_attr:
  assumes scan: "attr_scan p" and pend: "pending_attrs p = (a, v) # as"
  obtains q av where "mbuf_getnextattrib p = (Some (a, length v, av), q)" and "attr_scan q"
    and "pending_attrs q = as" and "bdata q = bdata p" and "take (length v) (drop av (bdata p)) = v"
proof -
  obtain r q where g: "mbuf_getnextattrib p = (r, q)" by fastforce
  obtain at al av where r: "r = Some (at, al, av)"
    using mbuf_getnextattrib_None [OF scan] g pend by (cases r) auto
  note g = g [unfolded r]
  note n = mbuf_getnextattrib_Some [OF scan g]
  have v: "at = a" "v = take al (drop av (bdata p))" "pending_attrs q = as" using n(4) pend by auto
  have al: "length v = al" using v(2) n(3) by simp
  have b: "bdata q = bdata p" by (subst n(1)) simp
  show ?thesis
    using that [of av q] g v al b mbuf_getnextattrib_scan [OF scan g] by simp
qed

lemma no_next_attr:
  assumes "attr_scan p" and "pending_attrs p = []"
  shows "fst (mbuf_getnextattrib p) = None"
proof (cases "fst (mbuf_getnextattrib p)")
  case (Some a)
  then obtain at al av q where "mbuf_getnextattrib p = (Some (at, al, av), q)" by (cases "mbuf_getnextattrib p"; cases a) auto
  from mbuf_getnextattrib_Some(4) [OF assms(1) this] assms(2) show ?thesis by simp
qed

lemma want_attr_hit:
  assumes "attr_scan p" and "pending_attrs p = (a, v) # as"
  obtains q av where "want_attr a p = (Some (length v, av), q)" and "attr_scan q"
    and "pending_attrs q = as" and "bdata q = bdata p" and "take (length v) (drop av (bdata p)) = v"
  by (rule next_attr [OF assms]) (simp add: want_attr_def)

lemma av_u64_value: "take 8 (drop av (bdata p)) = be_bytes 8 v \<Longrightarrow> av_u64 p av = Inr v"
proof -
  assume v: "take 8 (drop av (bdata p)) = be_bytes 8 v"
  then have "length (take 8 (drop av (bdata p))) = 8" by simp
  then have "av + 8 \<le> length (bdata p)" by simp
  then show ?thesis using v by (simp add: av_u64_def ADDOFF_def NTOH64_load be_word_be_bytes)
qed

lemma u64_or_hit:
  assumes "attr_scan p" and "pending_attrs p = u64_av a v # as"
  obtains q where "u64_or d a p = Inr (v, q)" and "attr_scan q" and "pending_attrs q = as"
    and "bdata q = bdata p"
proof -
  obtain q av where "want_attr a p = (Some (8, av), q)" "attr_scan q" "pending_attrs q = as"
    "bdata q = bdata p" "take 8 (drop av (bdata p)) = be_bytes 8 v"
    by (rule want_attr_hit [OF assms]) simp
  then show ?thesis using that [of q] av_u64_value [of av q v] by (simp add: u64_or_def)
qed

lemma u64_attr_read:
  assumes "attr_scan p" and "pending_attrs p = u64_av a v # as"
  obtains q av where "want_attr a p = (Some (8, av), q)" and "av_u64 q av = Inr v"
    and "attr_scan q" and "pending_attrs q = as" and "bdata q = bdata p"
proof -
  obtain q av where "want_attr a p = (Some (8, av), q)" "attr_scan q" "pending_attrs q = as"
    "bdata q = bdata p" "take 8 (drop av (bdata p)) = be_bytes 8 v"
    by (rule want_attr_hit [OF assms]) simp
  then show ?thesis using that [of av q] av_u64_value [of av q v] by simp
qed

lemma carries_scan:
  assumes "carries t src dst x as p"
  shows "attr_scan (mbuf_resetgetattrib p)" and "pending_attrs (mbuf_resetgetattrib p) = as"
    and "HDR_GET_TYPE (mbuf_resetgetattrib p) = t" and "HDR_GET_SRCID (mbuf_resetgetattrib p) = src"
    and "HDR_GET_TRFID (mbuf_resetgetattrib p) = x" and "HDR_GET_DSTID (mbuf_resetgetattrib p) = dst"
  using assms
  by (simp_all add: carries_def attr_scan_def mbuf_resetgetattrib_def pending_attrs_reset
      [unfolded mbuf_resetgetattrib_def] mbuf_framed_def)

section \<open>Formatting a transfer\<close>

text \<open>The text of a transfer fits into the buffer unless its name is very long.\<close>

lemma length_dec_digits: "n < 10 ^ k \<Longrightarrow> 0 < k \<Longrightarrow> length (dec_digits n) \<le> k"
proof (induction k arbitrary: n)
  case (Suc k)
  show ?case
  proof (cases "n < 10")
    case True
    then show ?thesis by (subst dec_digits.simps) simp
  next
    case False
    then have "0 < k" using Suc.prems by (cases k) auto
    moreover have "n div 10 < 10 ^ k" using Suc.prems(1) by (simp add: less_mult_imp_div_less)
    ultimately have "length (dec_digits (n div 10)) \<le> k" by (intro Suc.IH)
    then show ?thesis using False by (subst dec_digits.simps) simp
  qed
qed simp

lemma length_print_int: "\<bar>v\<bar> < 10 ^ k \<Longrightarrow> 0 < k \<Longrightarrow> length (print_int v) \<le> Suc k"
  using length_dec_digits [of "nat (- v)" k] length_dec_digits [of "nat v" k]
  by (auto simp: print_int_def nat_less_iff)

lemma smod_abs: "0 < b \<Longrightarrow> \<bar>a smod b\<bar> < (b :: int)"
  by (simp add: signed_modulo_int_def abs_mult abs_sgn_eq)

lemma length_if: "length (if c then xs else []) \<le> length xs"
  by simp

lemma length_human_timespan: "length (human_timespan t) \<le> 30"
proof -
  define s where "s = t smod 60"
  define m where "m = t sdiv 60 smod 60"
  define h where "h = t sdiv 60 sdiv 60 smod 24"
  define d where "d = (t sdiv 60 sdiv 60 sdiv 24 + 2 ^ 31) mod 2 ^ 32 - 2 ^ 31"
  have "length (print_int s) \<le> Suc 2" "length (print_int m) \<le> Suc 2" "length (print_int h) \<le> Suc 2"
    using smod_abs [of 60 t] smod_abs [of 60 "t sdiv 60"] smod_abs [of 24 "t sdiv 60 sdiv 60"]
    by (intro length_print_int; simp add: s_def m_def h_def)+
  moreover have "length (print_int d) \<le> Suc 10"
    by (intro length_print_int) (auto simp: d_def)
  moreover have "length (human_timespan t) \<le> length (print_int d @ str ''d'') + (length (print_int h @ str ''h'') +
      (length (print_int m @ str ''m'') + length (print_int s @ str ''s'')))"
  proof -
    have h: "human_timespan t = (if d \<noteq> 0 then print_int d @ str ''d'' else []) @
         (if h \<noteq> 0 then print_int h @ str ''h'' else []) @ (if m \<noteq> 0 then print_int m @ str ''m'' else []) @
         (if s \<noteq> 0 \<or> m + h + d = 0 then print_int s @ str ''s'' else [])"
      by (simp only: human_timespan_def Let_def s_def m_def h_def d_def)
    show ?thesis unfolding h length_append [where xs = "if b then c else e" for b c e]
      by (intro add_mono length_if)
  qed
  ultimately show ?thesis by simp
qed

lemma human_size_short:
  obtains s where "human_size sz = Inr s" and "length s \<le> 29"
proof -
  obtain s where "human_size sz = Inr s" using human_size_ok .
  then show ?thesis using that [of s] by (auto simp: human_size_def Let_def split: if_splits)
qed

text \<open>The formats with the name and at most two sizes and a time span.\<close>

lemma itostr_ok:
  assumes "tr_name t = Some n" and "length n \<le> 3000"
    and "fmt \<in> {fmt_id @ str '' %S'', fmt_id @ str '' %S %D'', fmt_id @ str '' %O/%S'', fmt_id @ str '' %O/%S %D''}"
    and "3200 \<le> sz"
  obtains buf where "transfer_itostr iso8601 sz (Some fmt) now t = Inr buf"
proof -
  obtain so ss where so: "human_size (tr_offset t) = Inr so" "length so \<le> 29"
    and ss: "human_size (tr_size t) = Inr ss" "length ss \<le> 29"
    using human_size_short by metis
  note d = length_human_timespan [of "now - tr_tstart t"]
  have "\<exists>s. itostr_text iso8601 now t fmt = Inr s \<and> length s \<le> sz"
    using assms so ss d
    by (auto simp: fmt_id_def quoted_def str_def itostr_conv_def need_str_def print_016x_def
        split: transfer_type.splits)
  then show ?thesis
    using itostr_loop_text [of iso8601 now t fmt _ "[]" sz] that by (auto simp: transfer_itostr_def)
qed

section \<open>The side that offers the file\<close>

text \<open>
  \<open>offers peer oid f s\<close>: the client is logged in, has nothing to send, and offers the file with
  the octets \<open>f\<close> to \<open>peer\<close> under the identifier \<open>oid\<close>.
\<close>

definition offers :: "u64 \<Rightarrow> u64 \<Rightarrow> byte list \<Rightarrow> frelay \<Rightarrow> bool" where
  "offers peer oid f s \<longleftrightarrow> fr_st s = ST_AUTH_OK \<and> fr_queue s = [] \<and>
     (\<exists>i ino n. match_list TTYPE_OFFER peer oid (transfers (fr_xfer s)) = Some i \<and>
        reads (entry s i) (x_fs (fr_xfer s)) ino \<and> fs_inodes (x_fs (fr_xfer s)) ! ino = f \<and>
        tr_name (entry s i) = Some n \<and> length n \<le> 3000)"

text \<open>A request for a part, and the response with it.\<close>

definition part_request :: "u64 \<Rightarrow> nat \<Rightarrow> nat \<Rightarrow> attrib list" where
  "part_request oid k n =
     [u64_av MSG_ATTR_OFFERID oid, u64_av MSG_ATTR_OFFSET (of_nat k), u64_av MSG_ATTR_SIZE (of_nat n)]"

definition part_response :: "u64 \<Rightarrow> byte list \<Rightarrow> attrib list" where
  "part_response oid d = [u64_av MSG_ATTR_OFFERID oid, (MSG_ATTR_DATA, d)]"

definition env_ok :: "msg_env \<Rightarrow> bool" where
  "env_ok env \<longleftrightarrow> 0 < me_now env \<and> 65376 \<le> me_mem env"

lemma match_list_update:
  "match_list ty rid oid ts = Some i \<Longrightarrow> tr_type t = ty \<Longrightarrow> tr_rid t = rid \<Longrightarrow> tr_oid t = oid \<Longrightarrow>
     0 < tr_tact t \<Longrightarrow> match_list ty rid oid (ts[i := t]) = Some i"
  by (induction ts arbitrary: i) (auto split: if_splits)

lemma carries_boff [simp]: "carries t src dst x as (p\<lparr>boff := n\<rparr>) = carries t src dst x as p"
  by (simp add: carries_def)

lemma process_request:
  "\<not> MCLASS_IS_RES (HDR_GET_TYPE p) \<Longrightarrow>
     process_srvmsg env p s = bindr (msg_switch env None (mbuf_resetgetattrib p) s) (msg_finish env p)"
  by (simp add: process_srvmsg_def)

lemma part_response_msg:
  assumes "length d \<le> 65376"
  obtains m where "clt_reply ts MSG_TYPE_GETFILE_RES dst x
      [u64_attr MSG_ATTR_OFFERID oid, (MSG_ATTR_DATA, length d, VA_BLOB d)] = Inr m"
    and "carries MSG_TYPE_GETFILE_RES 0 dst x (part_response oid d) m" and "boff m = 0"
proof (rule clt_reply_carries)
  show "list_all2 (\<lambda>(at, n, v) a. fst a = at \<and> attr_call at n v = Some (snd a))
      [u64_attr MSG_ATTR_OFFERID oid, (MSG_ATTR_DATA, length d, VA_BLOB d)] (part_response oid d)"
    by (simp add: part_response_def u64_attr_def attr_calls)
  have "ROUNDUP8 (length d) \<le> 65376" using ROUNDUP8_mono [OF assms] by (simp add: ROUNDUP8_def)
  then show "40 + length (concat (map tlv_encode (part_response oid d))) \<le> MSG_MAX_SIZE"
    by (simp add: part_response_def length_tlv_encode ROUNDUP8_def)
qed (rule that)

lemma part_request_msg:
  obtains m x where "clt_request ts MSG_TYPE_GETFILE_REQ dst
      [u64_attr MSG_ATTR_OFFERID oid, u64_attr MSG_ATTR_OFFSET (of_nat k), u64_attr MSG_ATTR_SIZE (of_nat n)] s
        = Inr (m, snd (clt_random s))"
    and "carries MSG_TYPE_GETFILE_REQ 0 dst x (part_request oid k n) m" and "boff m = 0"
proof (rule clt_request_carries)
  show "list_all2 (\<lambda>(at, n, v) a. fst a = at \<and> attr_call at n v = Some (snd a))
      [u64_attr MSG_ATTR_OFFERID oid, u64_attr MSG_ATTR_OFFSET (of_nat k), u64_attr MSG_ATTR_SIZE (of_nat n)]
      (part_request oid k n)"
    by (simp add: part_request_def u64_attr_def attr_calls)
  show "40 + length (concat (map tlv_encode (part_request oid k n))) \<le> MSG_MAX_SIZE"
    by (simp add: part_request_def length_tlv_encode ROUNDUP8_def)
qed (rule that)

text \<open>The three attributes of a request are read one after the other.\<close>

lemma part_request_read:
  assumes "carries t src dst x (part_request oid k n) p"
  obtains av p1 p2 p3 where "want_attr MSG_ATTR_OFFERID (mbuf_resetgetattrib p) = (Some (8, av), p1)"
    and "av_u64 p1 av = Inr oid" and "u64_or 0 MSG_ATTR_OFFSET p1 = Inr (of_nat k, p2)"
    and "u64_or 0 MSG_ATTR_SIZE p2 = Inr (of_nat n, p3)"
proof -
  note c = carries_scan(1,2) [OF assms]
  obtain p1 av where p1: "want_attr MSG_ATTR_OFFERID (mbuf_resetgetattrib p) = (Some (8, av), p1)"
      "av_u64 p1 av = Inr oid" "attr_scan p1"
      "pending_attrs p1 = [u64_av MSG_ATTR_OFFSET (of_nat k), u64_av MSG_ATTR_SIZE (of_nat n)]"
    by (rule u64_attr_read [OF c(1) c(2) [unfolded part_request_def]])
  obtain p2 where p2: "u64_or 0 MSG_ATTR_OFFSET p1 = Inr (of_nat k, p2)" "attr_scan p2"
      "pending_attrs p2 = [u64_av MSG_ATTR_SIZE (of_nat n)]"
    by (rule u64_or_hit [OF p1(3,4)])
  obtain p3 where "u64_or 0 MSG_ATTR_SIZE p2 = Inr (of_nat n, p3)"
    by (rule u64_or_hit [OF p2(2,3)])
  then show ?thesis using that p1(1,2) p2(1) by blast
qed

lemma part_response_read:
  assumes "carries t src dst x (part_response oid d) p"
  obtains av av' p1 p2 where "want_attr MSG_ATTR_OFFERID (mbuf_resetgetattrib p) = (Some (8, av), p1)"
    and "av_u64 p1 av = Inr oid" and "want_attr MSG_ATTR_DATA p1 = (Some (length d, av'), p2)"
    and "take (length d) (drop av' (bdata p1)) = d"
proof -
  note c = carries_scan(1,2) [OF assms]
  obtain p1 av where p1: "want_attr MSG_ATTR_OFFERID (mbuf_resetgetattrib p) = (Some (8, av), p1)"
      "av_u64 p1 av = Inr oid" "attr_scan p1" "pending_attrs p1 = [(MSG_ATTR_DATA, d)]"
    by (rule u64_attr_read [OF c(1) c(2) [unfolded part_response_def]])
  obtain p2 av' where "want_attr MSG_ATTR_DATA p1 = (Some (length d, av'), p2)"
      "take (length d) (drop av' (bdata p1)) = d"
    by (rule want_attr_hit [OF p1(3,4)])
  then show ?thesis using that p1(1,2) by blast
qed

lemma getfile_types [simp]:
  "\<not> MCLASS_IS_RES MSG_TYPE_GETFILE_REQ" "MCLASS_IS_RES MSG_TYPE_GETFILE_RES"
  "MCLASS_IS_REQ MSG_TYPE_GETFILE_REQ" "\<not> MCLASS_IS_REQ MSG_TYPE_GETFILE_RES"
  "MCLASS_TO_RES MSG_TYPE_GETFILE_REQ = MSG_TYPE_GETFILE_RES"
  by (simp_all add: msg_types MCLASS_IS_RES_def MCLASS_IS_REQ_def MCLASS_TO_RES_def MTYPE_GET_CLASS_def MTYPE_CUT_CLASS_def)

lemma unat_of_nat_u64: "n < 2 ^ 64 \<Longrightarrow> unat (of_nat n :: u64) = n"
  by (simp add: unat_of_nat take_bit_nat_eq_self)

lemma switch_getfile:
  "HDR_GET_TYPE p = MSG_TYPE_GETFILE_REQ \<Longrightarrow> msg_switch env q p s = msg_getfile_req env p s"
  "HDR_GET_TYPE p = MSG_TYPE_GETFILE_RES \<Longrightarrow> msg_switch env q p s = msg_getfile_res env p s"
  by (simp_all add: msg_switch_def msg_types)

lemma finish_ok:
  "msg_finish env p (SC_OK, Some m, s) = Inr (clt_enqueue m (s\<lparr>fr_rbuf := None\<rparr>))"
  "msg_finish env p (SC_OK, None, s) = Inr (s\<lparr>fr_rbuf := None\<rparr>)"
  by (simp_all add: msg_finish_def)

lemma offersE:
  assumes "offers peer oid f s"
  obtains i ino n where "fr_st s = ST_AUTH_OK" and "fr_queue s = []"
    and "match_list TTYPE_OFFER peer oid (transfers (fr_xfer s)) = Some i"
    and "i < length (transfers (fr_xfer s))" and "tr_type (entry s i) = TTYPE_OFFER"
    and "tr_rid (entry s i) = peer" and "tr_oid (entry s i) = oid"
    and "reads (entry s i) (x_fs (fr_xfer s)) ino" and "fs_inodes (x_fs (fr_xfer s)) ! ino = f"
    and "tr_name (entry s i) = Some n" and "length n \<le> 3000"
  using assms match_list_Some [of TTYPE_OFFER peer oid "transfers (fr_xfer s)"]
  unfolding offers_def entry_def by metis

lemma offersI:
  assumes "fr_st s = ST_AUTH_OK" "fr_queue s = []"
    and "match_list TTYPE_OFFER peer oid (transfers (fr_xfer s)) = Some i"
    and "entry s i = t" "x_fs (fr_xfer s) = fs" "reads t fs ino" "fs_inodes fs ! ino = f"
    and "tr_name t = Some n" "length n \<le> 3000"
  shows "offers peer oid f s"
  using assms by (auto simp: offers_def)

lemma reads_cong: "tr_fd t = tr_fd t' \<Longrightarrow> tr_name t = tr_name t' \<Longrightarrow> reads t fs ino = reads t' fs ino"
  by (simp add: reads_def)

lemma offers_match:
  assumes off: "offers peer oid f s" and env: "env_ok env"
  obtains i x1 where "transfer_match TTYPE_OFFER peer oid (me_now env) (fr_xfer s) = (Some i, x1)"
    and "offers peer oid f (set_xfer x1 s)" and "match_list TTYPE_OFFER peer oid (transfers x1) = Some i"
proof -
  obtain i ino nm where st: "fr_st s = ST_AUTH_OK" "fr_queue s = []"
    and m: "match_list TTYPE_OFFER peer oid (transfers (fr_xfer s)) = Some i"
    and i: "i < length (transfers (fr_xfer s))" and key: "tr_type (entry s i) = TTYPE_OFFER"
      "tr_rid (entry s i) = peer" "tr_oid (entry s i) = oid"
    and rd: "reads (entry s i) (x_fs (fr_xfer s)) ino" and f: "fs_inodes (x_fs (fr_xfer s)) ! ino = f"
    and nm: "tr_name (entry s i) = Some nm" "length nm \<le> 3000"
    by (rule offersE [OF off])
  let ?t = "(entry s i)\<lparr>tr_tact := me_now env\<rparr>"
  define x1 where "x1 = put_transfer i ?t (fr_xfer s)"
  have x1: "transfers x1 = (transfers (fr_xfer s))[i := ?t]" "x_fs x1 = x_fs (fr_xfer s)" by (simp_all add: x1_def)
  have m1: "match_list TTYPE_OFFER peer oid (transfers x1) = Some i"
    unfolding x1 by (rule match_list_update [OF m]) (use key env in \<open>simp_all add: env_ok_def\<close>)
  have e: "entry (set_xfer x1 s) i = ?t" using x1 i by simp
  have "reads ?t (x_fs x1) ino" using rd reads_cong [of ?t "entry s i"] x1(2) by simp
  then have "offers peer oid f (set_xfer x1 s)"
    using m1 e st f nm x1(2) unfolding offers_def by auto
  moreover have "transfer_match TTYPE_OFFER peer oid (me_now env) (fr_xfer s) = (Some i, x1)"
    using m by (simp add: transfer_match_def x1_def entry_def)
  ultimately show ?thesis using that m1 by blast
qed

lemma offers_read:
  assumes off: "offers peer oid f s" and m: "match_list TTYPE_OFFER peer oid (transfers (fr_xfer s)) = Some i"
    and k: "k < length f" "k < 2 ^ 63" and n: "0 < n" "n < 2 ^ 64" "n \<le> me_mem env"
  obtains x2 where "getfile_data env i (of_nat k) (of_nat n) s =
      Inr ((Some (take n (drop k f)), of_nat (length (take n (drop k f)))), set_xfer x2 s)"
    and "\<And>v. offers peer oid f (set_entry i ((entry (set_xfer x2 s) i)\<lparr>tr_offset := v\<rparr>) (set_xfer x2 s))"
proof -
  obtain ino nm where st: "fr_st s = ST_AUTH_OK" "fr_queue s = []"
    and i: "i < length (transfers (fr_xfer s))" and key: "tr_type (entry s i) = TTYPE_OFFER"
      "tr_rid (entry s i) = peer" "tr_oid (entry s i) = oid"
    and rd: "reads (entry s i) (x_fs (fr_xfer s)) ino" and f: "fs_inodes (x_fs (fr_xfer s)) ! ino = f"
    and nm: "tr_name (entry s i) = Some nm" "length nm \<le> 3000"
    by (rule offersE [OF off]) (use m in simp)
  let ?d = "take n (drop k f)"
  have w: "unat (of_nat k :: u64) = k" "unat (of_nat n :: u64) = n"
    using k(2) n(2) by (auto intro!: unat_of_nat_u64)
  have ne: "?d \<noteq> []" using k n by simp
  have rd1: "reads (transfers (fr_xfer s) ! i) (x_fs (fr_xfer s)) ino" using rd by (simp add: entry_def)
  have k1: "unat (of_nat k :: u64) < 2 ^ 63" using k w by simp
  have m1: "unat (of_nat n :: u64) \<le> me_mem env" using n w by simp
  obtain x2 fd where rdx: "offer_read (me_mem env) i (of_nat k) (of_nat n) (fr_xfer s) =
      Inr (let bs = ?d in if bs = [] then (None, 0) else (Some bs, of_nat (length bs)), x2)"
    and x2: "fs_inodes (x_fs x2) = fs_inodes (x_fs (fr_xfer s))"
      "transfers x2 = (transfers (fr_xfer s))[i := (transfers (fr_xfer s) ! i)\<lparr>tr_fd := fd\<rparr>]"
      "?d \<noteq> [] \<Longrightarrow> 0 \<le> fd \<and> reads ((transfers (fr_xfer s) ! i)\<lparr>tr_fd := fd\<rparr>) (x_fs x2) ino"
    using offer_read_slice [OF i rd1 k1 m1] w f by metis
  have nz: "(of_nat n :: u64) \<noteq> 0"
  proof
    assume "(of_nat n :: u64) = 0"
    then show False using w(2) n(1) by (metis less_irrefl unat_0)
  qed
  show ?thesis
  proof (rule that)
    show "getfile_data env i (of_nat k) (of_nat n) s = Inr ((Some ?d, of_nat (length ?d)), set_xfer x2 s)"
      using nz rdx ne by (simp add: getfile_data_def)
    fix v
    define e where "e = (entry s i)\<lparr>tr_fd := fd, tr_offset := v\<rparr>"
    let ?s = "set_entry i e (set_xfer x2 s)"
    have ts: "transfers (fr_xfer ?s) = (transfers (fr_xfer s))[i := e]" "x_fs (fr_xfer ?s) = x_fs x2"
      using x2(2) by (simp_all add: set_entry_def)
    have en: "entry ?s i = e" using ts(1) i by (simp add: entry_def)
    have "match_list TTYPE_OFFER peer oid (transfers (fr_xfer ?s)) = Some i"
      unfolding ts(1) by (rule match_list_update [OF m])
        (use key match_list_Some [OF m] in \<open>simp_all add: e_def entry_def\<close>)
    moreover have "reads e (x_fs x2) ino"
      using x2(3) ne reads_cong [of e "(transfers (fr_xfer s) ! i)\<lparr>tr_fd := fd\<rparr>"] by (simp add: e_def entry_def)
    moreover have "fr_st ?s = ST_AUTH_OK" "fr_queue ?s = []" "tr_name e = Some nm"
      using st nm by (simp_all add: set_entry_def e_def)
    ultimately have "offers peer oid f ?s"
      using f x2(1) nm(2) en ts(2) by (intro offersI [of ?s peer oid i e "x_fs x2" ino f nm]) simp_all
    moreover have "(entry (set_xfer x2 s) i)\<lparr>tr_offset := v\<rparr> = e" using i x2(2) by (simp add: e_def entry_def)
    ultimately show "offers peer oid f (set_entry i ((entry (set_xfer x2 s) i)\<lparr>tr_offset := v\<rparr>) (set_xfer x2 s))"
      by simp
  qed
qed

text \<open>A request for octets of the file is answered with the octets there are.\<close>

lemma offers_part:
  assumes off: "offers peer oid f s" and env: "env_ok env"
    and p: "carries MSG_TYPE_GETFILE_REQ peer dst x (part_request oid k n) p"
    and k: "k < length f" "k < 2 ^ 63" and n: "0 < n" "n \<le> 65376"
  obtains s' r where "process_srvmsg env p s = Inr (s'\<lparr>fr_queue := [r]\<rparr>)" and "offers peer oid f s'"
    and "carries MSG_TYPE_GETFILE_RES 0 peer x (part_response oid (take n (drop k f))) r"
proof -
  let ?d = "take n (drop k f)"
  obtain i x1 where tm: "transfer_match TTYPE_OFFER peer oid (me_now env) (fr_xfer s) = (Some i, x1)"
    and o1: "offers peer oid f (set_xfer x1 s)"
    and m1: "match_list TTYPE_OFFER peer oid (transfers (fr_xfer (set_xfer x1 s))) = Some i"
    using offers_match [OF off env] by auto
  let ?s1 = "set_xfer x1 s"
  obtain x2 where gd: "getfile_data env i (of_nat k) (of_nat n) ?s1 = Inr ((Some ?d, of_nat (length ?d)), set_xfer x2 ?s1)"
    and o2: "\<And>v. offers peer oid f (set_entry i ((entry (set_xfer x2 ?s1) i)\<lparr>tr_offset := v\<rparr>) (set_xfer x2 ?s1))"
    by (rule offers_read [OF o1 m1 k n(1), of env]) (use n env in \<open>auto simp: env_ok_def\<close>)
  have len: "length ?d \<le> 65376" using n(2) by simp
  have wd: "unat (of_nat (length ?d) :: u64) = length ?d"
    using len by (intro unat_of_nat_u64) simp
  obtain r where rr: "clt_reply (me_ts env) MSG_TYPE_GETFILE_RES peer x
      [u64_attr MSG_ATTR_OFFERID oid, (MSG_ATTR_DATA, length ?d, VA_BLOB ?d)] = Inr r"
    and r: "carries MSG_TYPE_GETFILE_RES 0 peer x (part_response oid ?d) r" "boff r = 0"
    by (rule part_response_msg [OF len])
  obtain av p1 p2 p3 where rp: "want_attr MSG_ATTR_OFFERID (mbuf_resetgetattrib p) = (Some (8, av), p1)"
      "av_u64 p1 av = Inr oid" "u64_or 0 MSG_ATTR_OFFSET p1 = Inr (of_nat k, p2)"
      "u64_or 0 MSG_ATTR_SIZE p2 = Inr (of_nat n, p3)"
    by (rule part_request_read [OF p])
  note c = carries_scan(3-5) [OF p]
  define t where "t = set_entry i ((entry (set_xfer x2 ?s1) i)\<lparr>tr_offset := of_nat k + of_nat (length ?d)\<rparr>) (set_xfer x2 ?s1)"
  have st: "fr_st s = ST_AUTH_OK" using off by (simp add: offers_def)
  have "msg_getfile_req env (mbuf_resetgetattrib p) s = Inr (SC_OK, Some r, t)"
    unfolding msg_getfile_req_def using st rp tm gd rr
    by (simp add: c msg_answer_def wd [unfolded length_take length_drop] t_def)
  then have run: "process_srvmsg env p s = Inr (clt_enqueue r (t\<lparr>fr_rbuf := None\<rparr>))"
    using p by (simp add: process_request switch_getfile c finish_ok carries_def)
  have o3: "offers peer oid f (t\<lparr>fr_rbuf := None\<rparr>)" using o2 by (simp add: t_def offers_def entry_def)
  then have "clt_enqueue r (t\<lparr>fr_rbuf := None\<rparr>) = (t\<lparr>fr_rbuf := None\<rparr>)\<lparr>fr_queue := [r]\<rparr>"
    using r(2) by (simp add: clt_enqueue_def list_enq_def offers_def)
  then show ?thesis using that [OF _ o3 r(1)] run by simp
qed

text \<open>A request for nothing ends the offer.\<close>

lemma offers_end:
  assumes off: "offers peer oid f s" and p: "carries MSG_TYPE_GETFILE_REQ peer dst x (part_request oid k 0) p"
  obtains s' r where "process_srvmsg env p s = Inr (s'\<lparr>fr_queue := [r]\<rparr>)" and "fr_queue s' = []"
    and "carries MSG_TYPE_GETFILE_RES 0 peer x (part_response oid []) r"
proof -
  obtain i ino nm where st: "fr_st s = ST_AUTH_OK" "fr_queue s = []"
    and m: "match_list TTYPE_OFFER peer oid (transfers (fr_xfer s)) = Some i"
    and i: "i < length (transfers (fr_xfer s))" and nm: "tr_name (entry s i) = Some nm" "length nm \<le> 3000"
    by (rule offersE [OF off])
  let ?t = "(entry s i)\<lparr>tr_tact := me_now env\<rparr>"
  define x1 where "x1 = put_transfer i ?t (fr_xfer s)"
  have tm: "transfer_match TTYPE_OFFER peer oid (me_now env) (fr_xfer s) = (Some i, x1)"
    using m by (simp add: transfer_match_def x1_def entry_def)
  have e1: "entry (set_xfer x1 s) i = ?t" using i by (simp add: x1_def entry_def)
  obtain buf where buf: "transfer_itostr (me_iso8601 env) PATH_MAX (Some (fmt_id @ str '' %S %D'')) (me_now env) ?t
      = Inr buf"
    using itostr_ok [of ?t nm "fmt_id @ str '' %S %D''" PATH_MAX "me_iso8601 env" "me_now env"] nm by (auto simp: PATH_MAX_def)
  let ?s1 = "say PFX_UFIN (buf @ str '' upload finished'') (set_xfer x1 s)"
  let ?s2 = "set_xfer (transfer_invalidate i (fr_xfer ?s1)) ?s1"
  have gd: "getfile_data env i (of_nat k) 0 (set_xfer x1 s) = Inr ((Some [], 0), ?s2)"
    using buf e1 by (simp add: getfile_data_def say_tr_def say_transfer_def)
  obtain r where rr: "clt_reply (me_ts env) MSG_TYPE_GETFILE_RES peer x
      [u64_attr MSG_ATTR_OFFERID oid, (MSG_ATTR_DATA, length ([] :: byte list), VA_BLOB [])] = Inr r"
    and r: "carries MSG_TYPE_GETFILE_RES 0 peer x (part_response oid []) r" "boff r = 0"
    by (rule part_response_msg [of "[]"]) simp
  obtain av p1 p2 p3 where rp: "want_attr MSG_ATTR_OFFERID (mbuf_resetgetattrib p) = (Some (8, av), p1)"
      "av_u64 p1 av = Inr oid" "u64_or 0 MSG_ATTR_OFFSET p1 = Inr (of_nat k, p2)"
      "u64_or 0 MSG_ATTR_SIZE p2 = Inr (of_nat 0, p3)"
    by (rule part_request_read [OF p])
  note c = carries_scan(3-5) [OF p]
  define e where "e = (entry ?s2 i)\<lparr>tr_offset := of_nat k\<rparr>"
  have "msg_getfile_req env (mbuf_resetgetattrib p) s = Inr (SC_OK, Some r, set_entry i e ?s2)"
    unfolding msg_getfile_req_def using st(1) rp tm gd rr by (simp add: c msg_answer_def e_def)
  moreover have t: "HDR_GET_TYPE p = MSG_TYPE_GETFILE_REQ" using p by (simp add: carries_def)
  ultimately have run: "process_srvmsg env p s = Inr (clt_enqueue r ((set_entry i e ?s2)\<lparr>fr_rbuf := None\<rparr>))"
    by (simp add: process_request switch_getfile c finish_ok)
  define s' where "s' = (set_entry i e ?s2)\<lparr>fr_rbuf := None\<rparr>"
  have "fr_queue s' = []" using st(2) by (simp add: s'_def set_entry_def)
  moreover from this have "clt_enqueue r s' = s'\<lparr>fr_queue := [r]\<rparr>"
    using r(2) by (simp add: clt_enqueue_def list_enq_def)
  ultimately show ?thesis using that run r(1) by (simp add: s'_def)
qed

section \<open>The side that downloads it\<close>

text \<open>
  \<open>fetches peer oid f k nm pn s\<close>: the client is logged in and downloads the offer \<open>oid\<close> of
  \<open>peer\<close>; the file \<open>pn\<close> is open and holds the first \<open>k\<close> octets of \<open>f\<close>; it is to become \<open>nm\<close>,
  there is room for the rest, and neither name refuses to be renamed.
\<close>

definition fetches :: "u64 \<Rightarrow> u64 \<Rightarrow> byte list \<Rightarrow> nat \<Rightarrow> cstring \<Rightarrow> cstring \<Rightarrow> frelay \<Rightarrow> bool" where
  "fetches peer oid f k nm pn s \<longleftrightarrow> fr_st s = ST_AUTH_OK \<and> k \<le> length f \<and> length f < 2 ^ 63 \<and>
     length nm \<le> 3000 \<and> nm \<noteq> pn \<and>
     (\<exists>i ino. match_list TTYPE_DOWNLOAD peer oid (transfers (fr_xfer s)) = Some i \<and>
        appends (entry s i) (x_fs (fr_xfer s)) ino \<and> fs_inodes (x_fs (fr_xfer s)) ! ino = take k f \<and>
        tr_offset (entry s i) = of_nat k \<and> tr_size (entry s i) = of_nat (length f) \<and>
        tr_name (entry s i) = Some nm \<and> tr_partname (entry s i) = Some pn \<and>
        fs_names (x_fs (fr_xfer s)) pn = Some ino) \<and>
     length f - k \<le> fs_room (x_fs (fr_xfer s)) \<and>
     \<not> fs_deny (x_fs (fr_xfer s)) nm \<and> \<not> fs_deny (x_fs (fr_xfer s)) pn"

text \<open>The next part to ask for when \<open>k\<close> octets have arrived.\<close>

definition next_part :: "byte list \<Rightarrow> nat \<Rightarrow> nat" where
  "next_part f k = min (length f - k) 65376"

lemma fetchesE:
  assumes "fetches peer oid f k nm pn s"
  obtains i ino where "match_list TTYPE_DOWNLOAD peer oid (transfers (fr_xfer s)) = Some i"
    and "i < length (transfers (fr_xfer s))" and "tr_type (entry s i) = TTYPE_DOWNLOAD"
    and "tr_rid (entry s i) = peer" and "tr_oid (entry s i) = oid"
    and "appends (entry s i) (x_fs (fr_xfer s)) ino" and "fs_inodes (x_fs (fr_xfer s)) ! ino = take k f"
    and "tr_offset (entry s i) = of_nat k" and "tr_size (entry s i) = of_nat (length f)"
    and "tr_name (entry s i) = Some nm" and "tr_partname (entry s i) = Some pn"
    and "fs_names (x_fs (fr_xfer s)) pn = Some ino"
  using assms match_list_Some [of TTYPE_DOWNLOAD peer oid "transfers (fr_xfer s)"]
  unfolding fetches_def entry_def by blast

lemma fetches_lists [simp]:
  "fetches peer oid f k nm pn (s\<lparr>fr_queue := q\<rparr>) = fetches peer oid f k nm pn s"
  "fetches peer oid f k nm pn (s\<lparr>fr_requests := q\<rparr>) = fetches peer oid f k nm pn s"
  "fetches peer oid f k nm pn (s\<lparr>fr_rbuf := b\<rparr>) = fetches peer oid f k nm pn s"
  by (simp_all add: fetches_def entry_def)

lemma chunk_size_rest:
  assumes "k \<le> length f" and "length f < 2 ^ 63"
  shows "chunk_size (of_nat (length f) - of_nat k) = of_nat (next_part f k)"
proof -
  have w: "unat (of_nat (length f - k) :: u64) = length f - k"
    using assms by (intro unat_of_nat_u64) simp
  have m: "unat MAX_DATA_SIZE = 65376" by (simp add: MAX_DATA_SIZE_def)
  have "of_nat (length f) - of_nat k = (of_nat (length f - k) :: u64)" using assms(1) by (simp add: of_nat_diff)
  then show ?thesis
    using w m by (auto simp: chunk_size_def next_part_def word_less_nat_alt min_def MAX_DATA_SIZE_def)
qed

lemma sys_write_deny: "sys_write fd bs fs = (r, fs') \<Longrightarrow> fs_deny fs' = fs_deny fs"
  by (auto simp: sys_write_def Let_def split: option.splits open_file.splits bool.splits if_splits)

lemma download_write_deny:
  assumes "download_write i d x = Inr (r, x')" and "0 \<le> tr_fd (transfers x ! i)"
  shows "fs_deny (x_fs x') = fs_deny (x_fs x)"
  using assms sys_write_deny
  by (fastforce simp: download_write_def open_unless_def download_put_def split: prod.splits if_splits)

lemma process_response:
  assumes "MCLASS_IS_RES (HDR_GET_TYPE p)" and "fr_requests s = q # qs" and "answers p q"
  shows "process_srvmsg env p s =
    bindr (msg_switch env (Some q) (mbuf_resetgetattrib p) (s\<lparr>fr_requests := qs\<rparr>)) (msg_finish env p)"
  using assms by (simp add: process_srvmsg_def match_pending_req_def)

lemma getfile_answers:
  assumes "carries MSG_TYPE_GETFILE_REQ src peer x as q" and "carries MSG_TYPE_GETFILE_RES peer dst x bs p"
  shows "answers p q" and "MCLASS_IS_RES (HDR_GET_TYPE p)"
  using assms by (simp_all add: carries_def answers_def)

lemma appends_cong: "tr_fd t = tr_fd t' \<Longrightarrow> appends t fs ino = appends t' fs ino"
  by (simp add: appends_def)

lemma clt_random_state [simp]:
  "fr_st (snd (clt_random s)) = fr_st s" "fr_queue (snd (clt_random s)) = fr_queue s"
  "fr_requests (snd (clt_random s)) = fr_requests s" "entry (snd (clt_random s)) = entry s"
  "transfers (fr_xfer (snd (clt_random s))) = transfers (fr_xfer s)"
  "x_fs (fr_xfer (snd (clt_random s))) = x_fs (fr_xfer s)"
  by (simp_all add: clt_random_def prng_random_def entry_def fun_eq_iff split: prod.splits)

lemma fetchesI:
  assumes "fr_st s = ST_AUTH_OK" "k \<le> length f" "length f < 2 ^ 63" "length nm \<le> 3000" "nm \<noteq> pn"
    and "match_list TTYPE_DOWNLOAD peer oid (transfers (fr_xfer s)) = Some i"
    and "entry s i = t" "x_fs (fr_xfer s) = fs" "appends t fs ino" "fs_inodes fs ! ino = take k f"
    and "tr_offset t = of_nat k" "tr_size t = of_nat (length f)" "tr_name t = Some nm" "tr_partname t = Some pn"
    and "fs_names fs pn = Some ino" "length f - k \<le> fs_room fs" "\<not> fs_deny fs nm" "\<not> fs_deny fs pn"
  shows "fetches peer oid f k nm pn s"
  using assms by (auto simp: fetches_def)

text \<open>Looking the download up touches it; storing octets appends them and asks for the next part.\<close>

lemma fetches_match:
  assumes ft: "fetches peer oid f k nm pn s" and env: "env_ok env"
  obtains i x1 where "transfer_match TTYPE_DOWNLOAD peer oid (me_now env) (fr_xfer s) = (Some i, x1)"
    and "fetches peer oid f k nm pn (set_xfer x1 s)"
    and "match_list TTYPE_DOWNLOAD peer oid (transfers x1) = Some i"
proof -
  obtain i ino where m: "match_list TTYPE_DOWNLOAD peer oid (transfers (fr_xfer s)) = Some i"
    and i: "i < length (transfers (fr_xfer s))" and key: "tr_type (entry s i) = TTYPE_DOWNLOAD"
      "tr_rid (entry s i) = peer" "tr_oid (entry s i) = oid"
    and ap: "appends (entry s i) (x_fs (fr_xfer s)) ino" and g: "fs_inodes (x_fs (fr_xfer s)) ! ino = take k f"
    and tr: "tr_offset (entry s i) = of_nat k" "tr_size (entry s i) = of_nat (length f)"
      "tr_name (entry s i) = Some nm" "tr_partname (entry s i) = Some pn"
    and nm: "fs_names (x_fs (fr_xfer s)) pn = Some ino"
    by (rule fetchesE [OF ft(1)])
  let ?t = "(entry s i)\<lparr>tr_tact := me_now env\<rparr>"
  define x1 where "x1 = put_transfer i ?t (fr_xfer s)"
  have x1: "transfers x1 = (transfers (fr_xfer s))[i := ?t]" "x_fs x1 = x_fs (fr_xfer s)" by (simp_all add: x1_def)
  have m1: "match_list TTYPE_DOWNLOAD peer oid (transfers x1) = Some i"
    unfolding x1 by (rule match_list_update [OF m]) (use key env in \<open>simp_all add: env_ok_def\<close>)
  have "entry (set_xfer x1 s) i = ?t" using x1 i by simp
  moreover have "appends ?t (x_fs x1) ino" using ap x1 by (simp add: appends_def)
  ultimately have "fetches peer oid f k nm pn (set_xfer x1 s)"
    using ft m1 g tr nm x1(2) unfolding fetches_def by auto
  moreover have "transfer_match TTYPE_DOWNLOAD peer oid (me_now env) (fr_xfer s) = (Some i, x1)"
    using m by (simp add: transfer_match_def x1_def entry_def)
  ultimately show ?thesis using that m1 by blast
qed

lemma fetches_write:
  assumes ft: "fetches peer oid f k nm pn s" and m: "match_list TTYPE_DOWNLOAD peer oid (transfers (fr_xfer s)) = Some i"
    and d: "d = take n (drop k f)"
  obtains x2 where "download_write i d (fr_xfer s) = Inr (0, x2)" and "transfers x2 = transfers (fr_xfer s)"
    and "fetches peer oid f (k + length d) nm pn
           (set_entry i ((entry s i)\<lparr>tr_offset := of_nat (k + length d)\<rparr>) (set_xfer x2 s))"
proof -
  obtain ino where i: "i < length (transfers (fr_xfer s))" and key: "tr_type (entry s i) = TTYPE_DOWNLOAD"
      "tr_rid (entry s i) = peer" "tr_oid (entry s i) = oid"
    and ap: "appends (entry s i) (x_fs (fr_xfer s)) ino" and g: "fs_inodes (x_fs (fr_xfer s)) ! ino = take k f"
    and tr: "tr_size (entry s i) = of_nat (length f)" "tr_name (entry s i) = Some nm" "tr_partname (entry s i) = Some pn"
    and nm: "fs_names (x_fs (fr_xfer s)) pn = Some ino"
    by (rule fetchesE [OF ft]) (use m in simp)
  note fd = ft [unfolded fetches_def]
  let ?k = "k + length d"
  have "length d \<le> length f - k" using d by simp
  then have kd: "?k \<le> length f" "length d \<le> length f - k" using fd by auto
  have "take (length d) (drop k f) = d" unfolding d by (cases "n \<le> length (drop k f)") simp_all
  then have tk: "take ?k f = take k f @ d" by (simp add: take_add)
  have ap1: "appends (transfers (fr_xfer s) ! i) (x_fs (fr_xfer s)) ino" using ap by (simp add: entry_def)
  have room: "length d \<le> fs_room (x_fs (fr_xfer s))" using kd fd by simp
  obtain x2 where wr: "download_write i d (fr_xfer s) = Inr (0, x2)" and x2: "transfers x2 = transfers (fr_xfer s)"
      "appends (entry s i) (x_fs x2) ino" "fs_names (x_fs x2) = fs_names (x_fs (fr_xfer s))"
      "fs_inodes (x_fs x2) = (fs_inodes (x_fs (fr_xfer s)))[ino := take k f @ d]"
      "fs_room (x_fs x2) = fs_room (x_fs (fr_xfer s)) - length d"
    using download_write_append [OF i ap1 room] g unfolding entry_def by metis
  have deny: "fs_deny (x_fs x2) = fs_deny (x_fs (fr_xfer s))"
    using download_write_deny [OF wr] ap1 by (simp add: appends_def)
  define e where "e = (entry s i)\<lparr>tr_offset := of_nat ?k\<rparr>"
  let ?s = "set_entry i e (set_xfer x2 s)"
  have ts: "transfers (fr_xfer ?s) = (transfers (fr_xfer s))[i := e]" "x_fs (fr_xfer ?s) = x_fs x2"
    using x2(1) by (simp_all add: set_entry_def)
  have en: "entry ?s i = e" using ts(1) i by (simp add: entry_def)
  have "match_list TTYPE_DOWNLOAD peer oid (transfers (fr_xfer ?s)) = Some i"
    unfolding ts(1) by (rule match_list_update [OF m])
      (use key match_list_Some [OF m] in \<open>simp_all add: e_def entry_def\<close>)
  moreover have "appends e (x_fs x2) ino" using x2(2) appends_cong [of e "entry s i"] by (simp add: e_def)
  moreover have "fs_inodes (x_fs x2) ! ino = take ?k f" using ap tk unfolding x2(4) by (simp add: appends_def)
  moreover have "length f - ?k \<le> fs_room (x_fs x2)" using fd kd unfolding x2(5) by linarith
  moreover have "fr_st ?s = ST_AUTH_OK" using fd by (simp add: set_entry_def)
  moreover have "tr_offset e = of_nat ?k" "tr_size e = of_nat (length f)" "tr_name e = Some nm" "tr_partname e = Some pn"
    using tr by (simp_all add: e_def)
  ultimately have "fetches peer oid f ?k nm pn ?s"
    using fd kd nm deny en ts(2) x2(3) by (intro fetchesI [of ?s ?k f nm pn peer oid i e "x_fs x2" ino]) auto
  then show ?thesis using that [OF wr x2(1)] by (simp add: e_def)
qed

lemma fetches_store:
  assumes ft: "fetches peer oid f k nm pn s" and m: "match_list TTYPE_DOWNLOAD peer oid (transfers (fr_xfer s)) = Some i"
    and d: "d = take n (drop k f)"
  obtains s' m x where "store_data env i oid d s = Inr (SC_OK, Some m, s')"
    and "fetches peer oid f (k + length d) nm pn s'" and "lists_of s' = lists_of s" and "boff m = 0"
    and "carries MSG_TYPE_GETFILE_REQ 0 peer x (part_request oid (k + length d) (next_part f (k + length d))) m"
proof -
  let ?k = "k + length d"
  obtain x2 where wr: "download_write i d (fr_xfer s) = Inr (0, x2)" and x2: "transfers x2 = transfers (fr_xfer s)"
    and ft': "fetches peer oid f ?k nm pn (set_entry i ((entry s i)\<lparr>tr_offset := of_nat ?k\<rparr>) (set_xfer x2 s))"
    by (rule fetches_write [OF ft m d])
  let ?s3 = "set_entry i ((entry s i)\<lparr>tr_offset := of_nat ?k\<rparr>) (set_xfer x2 s)"
  have i: "i < length (transfers x2)" and e: "tr_rid (entry s i) = peer" "tr_name (entry s i) = Some nm"
      "tr_offset (entry s i) = of_nat k" "tr_size (entry s i) = of_nat (length f)"
    using fetchesE [OF ft] m x2 match_list_Some [OF m] unfolding entry_def by (metis option.inject)+
  have e2: "entry (set_xfer x2 s) i = entry s i" "entry ?s3 i = (entry s i)\<lparr>tr_offset := of_nat ?k\<rparr>"
    using x2 i by (simp_all add: entry_def set_entry_def)
  obtain buf where buf: "transfer_itostr (me_iso8601 env) PATH_MAX (Some (fmt_id @ str '' %O/%S %D'')) (me_now env)
      (entry s i) = Inr buf"
    using itostr_ok [of "entry s i" nm "fmt_id @ str '' %O/%S %D''" PATH_MAX "me_iso8601 env" "me_now env"] e ft
    by (auto simp: fetches_def PATH_MAX_def)
  obtain m' x' where rq: "clt_request (me_ts env) MSG_TYPE_GETFILE_REQ peer
      [u64_attr MSG_ATTR_OFFERID oid, u64_attr MSG_ATTR_OFFSET (of_nat ?k), u64_attr MSG_ATTR_SIZE (of_nat (next_part f ?k))]
      ?s3 = Inr (m', snd (clt_random ?s3))"
    and m': "carries MSG_TYPE_GETFILE_REQ 0 peer x' (part_request oid ?k (next_part f ?k)) m'" "boff m' = 0"
    by (rule part_request_msg)
  have ch: "chunk_size (of_nat (length f) - of_nat ?k) = of_nat (next_part f ?k)"
    using ft' by (intro chunk_size_rest) (simp_all add: fetches_def)
  have "tr_offset (entry s i) + of_nat (length d) = of_nat ?k" using e by simp
  then have "store_data env i oid d s = Inr (SC_OK, Some m', snd (clt_random ?s3))"
    unfolding store_data_def using buf wr rq ch e e2 by (simp add: Let_def)
  moreover have "fetches peer oid f ?k nm pn (snd (clt_random ?s3))" using ft' by (simp add: fetches_def)
  ultimately show ?thesis
    using that [of m' "snd (clt_random ?s3)" x'] m' clt_request_lists [OF rq] by (simp add: set_entry_def)
qed

text \<open>Octets that arrive are appended to the file, and the next part is asked for.\<close>

lemma fetches_part:
  assumes ft: "fetches peer oid f k nm pn s" "fr_queue s = []" and env: "env_ok env"
    and q: "fr_requests s = q # qs" "carries MSG_TYPE_GETFILE_REQ src peer x as q"
    and p: "carries MSG_TYPE_GETFILE_RES peer dst x (part_response oid d) p"
    and d: "d = take n (drop k f)" "d \<noteq> []"
  obtains s' m x' where "process_srvmsg env p s = Inr (s'\<lparr>fr_queue := [m]\<rparr>)"
    and "fetches peer oid f (k + length d) nm pn s'" and "fr_requests s' = qs"
    and "carries MSG_TYPE_GETFILE_REQ 0 peer x'
           (part_request oid (k + length d) (next_part f (k + length d))) m"
proof -
  let ?u = "s\<lparr>fr_requests := qs\<rparr>"
  have fu: "fetches peer oid f k nm pn ?u" using ft(1) by simp
  obtain i x1 where tm: "transfer_match TTYPE_DOWNLOAD peer oid (me_now env) (fr_xfer ?u) = (Some i, x1)"
    and f1: "fetches peer oid f k nm pn (set_xfer x1 ?u)"
    and m1: "match_list TTYPE_DOWNLOAD peer oid (transfers (fr_xfer (set_xfer x1 ?u))) = Some i"
    using fetches_match [OF fu env] by auto
  obtain t m y where sd: "store_data env i oid d (set_xfer x1 ?u) = Inr (SC_OK, Some m, t)"
    and t: "fetches peer oid f (k + length d) nm pn t" "lists_of t = lists_of (set_xfer x1 ?u)"
    and m: "boff m = 0" "carries MSG_TYPE_GETFILE_REQ 0 peer y (part_request oid (k + length d) (next_part f (k + length d))) m"
    by (rule fetches_store [OF f1 m1 d(1)])
  obtain av av' p1 p2 where rp: "want_attr MSG_ATTR_OFFERID (mbuf_resetgetattrib p) = (Some (8, av), p1)"
      "av_u64 p1 av = Inr oid" "want_attr MSG_ATTR_DATA p1 = (Some (length d, av'), p2)"
      "take (length d) (drop av' (bdata p1)) = d"
    by (rule part_response_read [OF p])
  note c = carries_scan(3-5) [OF p]
  have st: "fr_st s = ST_AUTH_OK" using ft(1) by (simp add: fetches_def)
  have "msg_getfile_res env (mbuf_resetgetattrib p) ?u = Inr (SC_OK, Some m, t)"
    unfolding msg_getfile_res_def using rp tm sd d(2) st by (simp add: c Let_def)
  then have run: "process_srvmsg env p s = Inr (clt_enqueue m (t\<lparr>fr_rbuf := None\<rparr>))"
    using process_response [OF getfile_answers(2) [OF q(2) p] q(1) getfile_answers(1) [OF q(2) p]]
    by (simp add: switch_getfile c finish_ok)
  have l: "fr_queue t = []" "fr_requests t = qs" using t(2) ft(2) by (simp_all add: lists_of_def)
  then have "clt_enqueue m (t\<lparr>fr_rbuf := None\<rparr>) = (t\<lparr>fr_rbuf := None\<rparr>)\<lparr>fr_queue := [m]\<rparr>"
    using m(1) by (simp add: clt_enqueue_def list_enq_def)
  then show ?thesis using that [OF _ _ _ m(2), of "t\<lparr>fr_rbuf := None\<rparr>"] run t(1) l by simp
qed

text \<open>When nothing more comes the file gets its name.\<close>

lemma fetches_finish:
  assumes ft: "fetches peer oid f (length f) nm pn s"
    and m: "match_list TTYPE_DOWNLOAD peer oid (transfers (fr_xfer s)) = Some i"
  obtains s' where "finish_download env i s = Inr s'" and "lists_of s' = lists_of s"
    and "file_content (x_fs (fr_xfer s')) nm = Some f" and "fs_names (x_fs (fr_xfer s')) pn = None"
    and "fr_st s' = ST_AUTH_OK"
proof -
  obtain ino where i: "i < length (transfers (fr_xfer s))"
    and g: "fs_inodes (x_fs (fr_xfer s)) ! ino = take (length f) f"
    and tr: "tr_offset (entry s i) = of_nat (length f)" "tr_size (entry s i) = of_nat (length f)"
      "tr_name (entry s i) = Some nm" "tr_partname (entry s i) = Some pn"
    and nm: "fs_names (x_fs (fr_xfer s)) pn = Some ino"
    by (rule fetchesE [OF ft]) (use m in simp)
  note fd = ft [unfolded fetches_def]
  obtain buf where buf: "transfer_itostr (me_iso8601 env) PATH_MAX (Some (fmt_id @ str '' %O/%S %D'')) (me_now env)
      (entry s i) = Inr buf"
    using itostr_ok [of "entry s i" nm "fmt_id @ str '' %O/%S %D''" PATH_MAX "me_iso8601 env" "me_now env"] tr fd by (auto simp: PATH_MAX_def)
  let ?s1 = "say PFX_DFIN (buf @ str '' download finished'') s"
  let ?s2 = "set_xfer (transfer_invalidate i (fr_xfer ?s1)) ?s1"
  let ?fs = "sys_close (tr_fd (entry s i)) (x_fs (fr_xfer s))"
  have s2: "x_fs (fr_xfer ?s2) = ?fs" "tr_partname (entry ?s2 i) = Some pn" "tr_name (entry ?s2 i) = Some nm"
    using i tr by (simp_all add: transfer_invalidate_def invalidate_entry_def entry_def)
  let ?fs' = "?fs\<lparr>fs_names := (fs_names ?fs)(pn := None, nm \<mapsto> ino)\<rparr>"
  have ne: "pn \<noteq> nm" using fd by auto
  have rn: "sys_rename pn nm ?fs = (0, ?fs')" using fd nm ne by (simp add: sys_rename_def)
  let ?s3 = "set_xfer ((fr_xfer ?s2)\<lparr>x_fs := ?fs'\<rparr>) ?s2"
  have run: "finish_download env i s = Inr ?s3"
    unfolding finish_download_def using buf tr s2 rn by (simp add: Let_def need_str_def del: set_xfer_simps(8))
  show ?thesis
  proof (rule that [OF run])
    show "fs_names (x_fs (fr_xfer ?s3)) pn = None" using ne by simp
  qed (use fd g in \<open>simp_all add: file_content_def\<close>)
qed

lemma fetches_end:
  assumes ft: "fetches peer oid f (length f) nm pn s" "fr_queue s = []" and env: "env_ok env"
    and q: "fr_requests s = q # qs" "carries MSG_TYPE_GETFILE_REQ src peer x as q"
    and p: "carries MSG_TYPE_GETFILE_RES peer dst x (part_response oid []) p"
  obtains s' where "process_srvmsg env p s = Inr s'" and "fr_queue s' = []" and "fr_requests s' = qs"
    and "file_content (x_fs (fr_xfer s')) nm = Some f" and "fs_names (x_fs (fr_xfer s')) pn = None"
proof -
  let ?u = "s\<lparr>fr_requests := qs\<rparr>"
  have fu: "fetches peer oid f (length f) nm pn ?u" using ft(1) by simp
  obtain i x1 where tm: "transfer_match TTYPE_DOWNLOAD peer oid (me_now env) (fr_xfer ?u) = (Some i, x1)"
    and f1: "fetches peer oid f (length f) nm pn (set_xfer x1 ?u)"
    and m1: "match_list TTYPE_DOWNLOAD peer oid (transfers (fr_xfer (set_xfer x1 ?u))) = Some i"
    using fetches_match [OF fu env] by auto
  obtain t where fin: "finish_download env i (set_xfer x1 ?u) = Inr t" "lists_of t = lists_of (set_xfer x1 ?u)"
    and t: "file_content (x_fs (fr_xfer t)) nm = Some f" "fs_names (x_fs (fr_xfer t)) pn = None"
    by (rule fetches_finish [OF f1 m1])
  obtain av av' p1 p2 where rp: "want_attr MSG_ATTR_OFFERID (mbuf_resetgetattrib p) = (Some (8, av), p1)"
      "av_u64 p1 av = Inr oid" "want_attr MSG_ATTR_DATA p1 = (Some (length ([] :: byte list), av'), p2)"
    by (rule part_response_read [OF p])
  note c = carries_scan(3-5) [OF p]
  have st: "fr_st s = ST_AUTH_OK" using ft(1) by (simp add: fetches_def)
  have "msg_getfile_res env (mbuf_resetgetattrib p) ?u = Inr (SC_OK, None, t)"
    unfolding msg_getfile_res_def using rp tm fin st by (simp add: c Let_def msg_done_def)
  then have run: "process_srvmsg env p s = Inr (t\<lparr>fr_rbuf := None\<rparr>)"
    using process_response [OF getfile_answers(2) [OF q(2) p] q(1) getfile_answers(1) [OF q(2) p]]
    by (simp add: switch_getfile c finish_ok)
  show ?thesis using that [OF run] t fin(2) ft(2) by (simp add: lists_of_def)
qed

section \<open>The exchange\<close>

text \<open>
  The message at the head of the queue of \<open>x\<close> is taken by \<open>tr\<close>, which has the state \<open>s\<close>, and what comes
  out is handled by \<open>y\<close>. \<open>e\<close> stands for the surroundings of \<open>tr\<close>.
\<close>

fun pass_on ::
    "('e \<Rightarrow> mbuf \<Rightarrow> 's \<Rightarrow> (mbuf \<times> 's) res) \<Rightarrow> msg_env \<times> 'e \<Rightarrow> frelay \<times> frelay \<times> 's \<Rightarrow> (frelay \<times> frelay \<times> 's) res" where
  "pass_on tr (env, e) (x, y, s) =
     bindr (clt_dequeue x) (\<lambda>x'.
     bindr (tr e (hd (fr_queue x)) s) (\<lambda>(m, s').
     bindr (process_srvmsg env m y) (\<lambda>y'. Inr (x', y', s'))))"

text \<open>
  One round: the downloading client \<open>b\<close> sends the request at the head of its queue, which goes to
  the offering client \<open>a\<close> by \<open>to_a\<close>; that handles it and sends its answer back by \<open>to_b\<close>.
\<close>

fun fetch_round ::
    "('e \<Rightarrow> mbuf \<Rightarrow> 's \<Rightarrow> (mbuf \<times> 's) res) \<Rightarrow> ('e \<Rightarrow> mbuf \<Rightarrow> 's \<Rightarrow> (mbuf \<times> 's) res) \<Rightarrow>
     (msg_env \<times> 'e) \<times> (msg_env \<times> 'e) \<Rightarrow> frelay \<times> frelay \<times> 's \<Rightarrow> (frelay \<times> frelay \<times> 's) res" where
  "fetch_round to_a to_b (ea, eb) (a, b, s) =
     (if fr_queue b = [] then Inr (a, b, s)
      else bindr (pass_on to_a ea (b, a, s)) (\<lambda>(b, a, s).
           if fr_queue a = [] then Inr (a, b, s) else pass_on to_b eb (a, b, s)))"

fun fetch_rounds ::
    "('e \<Rightarrow> mbuf \<Rightarrow> 's \<Rightarrow> (mbuf \<times> 's) res) \<Rightarrow> ('e \<Rightarrow> mbuf \<Rightarrow> 's \<Rightarrow> (mbuf \<times> 's) res) \<Rightarrow>
     ((msg_env \<times> 'e) \<times> (msg_env \<times> 'e)) list \<Rightarrow> frelay \<times> frelay \<times> 's \<Rightarrow> (frelay \<times> frelay \<times> 's) res" where
  "fetch_rounds to_a to_b [] st = Inr st"
| "fetch_rounds to_a to_b (e # es) st = bindr (fetch_round to_a to_b e st) (fetch_rounds to_a to_b es)"

text \<open>The requests needed when \<open>r\<close> octets are missing: one for each part, and the last for nothing.\<close>

definition rounds_needed :: "nat \<Rightarrow> nat" where
  "rounds_needed r = (r + 65375) div 65376 + 1"

text \<open>
  The state between two rounds: the request at hand is for the next octets, or for nothing when
  there are none. (The first request of a resumed download asks for more than is missing.)
\<close>

definition right_size :: "byte list \<Rightarrow> nat \<Rightarrow> nat \<Rightarrow> bool" where
  "right_size f k n \<longleftrightarrow>
     (if k < length f then 0 < n \<and> n \<le> 65376 \<and> take n (drop k f) = take (next_part f k) (drop k f)
      else n = 0)"

definition exchanging ::
    "u64 \<Rightarrow> u64 \<Rightarrow> u64 \<Rightarrow> byte list \<Rightarrow> nat \<Rightarrow> cstring \<Rightarrow> cstring \<Rightarrow> frelay \<times> frelay \<Rightarrow> bool" where
  "exchanging ida idb oid f k nm pn ab \<longleftrightarrow>
     offers idb oid f (fst ab) \<and> fetches ida oid f k nm pn (snd ab) \<and>
     (\<exists>m x n. fr_queue (snd ab) = [m] \<and> right_size f k n \<and>
        carries MSG_TYPE_GETFILE_REQ 0 ida x (part_request oid k n) m)"

lemma right_size_next: "k \<le> length f \<Longrightarrow> right_size f k (next_part f k)"
  by (auto simp: right_size_def next_part_def)

lemma right_size_first: "0 < length f \<Longrightarrow> k < length f \<Longrightarrow> right_size f k (min (length f) 65376)"
  by (auto simp: right_size_def next_part_def min_def)

lemma dequeue_one:
  "fr_queue s = [m] \<Longrightarrow> clt_dequeue s = Inr (s\<lparr>fr_queue := [],
     fr_requests := (if MCLASS_IS_REQ (HDR_GET_TYPE m) then m # fr_requests s else fr_requests s)\<rparr>)"
  by (simp add: clt_dequeue_def)

lemma offers_queue [simp]: "fr_queue s = [] \<Longrightarrow> s\<lparr>fr_queue := []\<rparr> = s"
  by (cases s) simp

text \<open>
  What carries the messages of the client \<open>src\<close> to the client \<open>dst\<close>: a message between peers
  comes out with its true source, and the carrier is ready for the next one.
\<close>

definition peer_types :: "u16 set" where
  "peer_types = {MSG_TYPE_OFFER_REQ, MSG_TYPE_OFFER_RES, MSG_TYPE_GETFILE_REQ, MSG_TYPE_GETFILE_RES}"

locale carrier =
  fixes tr :: "'e \<Rightarrow> mbuf \<Rightarrow> 's \<Rightarrow> (mbuf \<times> 's) res" and ready :: "'s \<Rightarrow> bool" and src dst :: u64
  assumes carried: "ready s \<Longrightarrow> mbuf_framed m \<Longrightarrow> HDR_GET_DSTID m = dst \<Longrightarrow> HDR_GET_TYPE m \<in> peer_types \<Longrightarrow>
    \<exists>s'. tr e m s = Inr (relay src m, s') \<and> ready s'"
begin

lemma passed_on:
  assumes s: "ready s" and m: "carries t n dst x as m" and t: "t \<in> peer_types"
    and d: "clt_dequeue c = Inr c'" "fr_queue c = [m]"
    and run: "process_srvmsg env (relay src m) y = Inr y'"
  obtains s' where "pass_on tr (env, e) (c, y, s) = Inr (c', y', s')" and "ready s'"
proof -
  obtain s' where "tr e m s = Inr (relay src m, s')" "ready s'"
    using carried [OF s, of m e] m t by (auto simp: carries_def)
  then show ?thesis using that [of s'] d run by simp
qed

end

locale two_way = ab: carrier to_b ready ida idb + ba: carrier to_a ready idb ida
  for to_b :: "'e \<Rightarrow> mbuf \<Rightarrow> 's \<Rightarrow> (mbuf \<times> 's) res" and to_a :: "'e \<Rightarrow> mbuf \<Rightarrow> 's \<Rightarrow> (mbuf \<times> 's) res"
    and ready :: "'s \<Rightarrow> bool" and ida idb :: u64
begin

lemma fetch_round_part:
  assumes ex: "exchanging ida idb oid f k nm pn (a, b)" and k: "k < length f" and s: "ready s"
    and env: "env_ok enva" "env_ok envb"
  obtains a' b' s' where "fetch_round to_a to_b ((enva, ea), (envb, eb)) (a, b, s) = Inr (a', b', s')" and "ready s'"
    and "exchanging ida idb oid f (k + next_part f k) nm pn (a', b')"
    and "fr_requests b' = fr_requests b"
proof -
  obtain m x n where b: "fetches ida oid f k nm pn b" "fr_queue b = [m]"
    and m: "carries MSG_TYPE_GETFILE_REQ 0 ida x (part_request oid k n) m" and rs: "right_size f k n"
    and a: "offers idb oid f a"
    using ex by (auto simp: exchanging_def)
  let ?n = "next_part f k" and ?b1 = "b\<lparr>fr_queue := [], fr_requests := m # fr_requests b\<rparr>"
  have f63: "length f < 2 ^ 63" using b by (simp add: fetches_def)
  have n: "0 < n" "n \<le> 65376" "k < 2 ^ 63" "0 < ?n" and tk: "take n (drop k f) = take ?n (drop k f)"
    using k f63 rs by (auto simp: next_part_def right_size_def)
  have b1: "clt_dequeue b = Inr ?b1" using dequeue_one [OF b(2)] m by (simp add: carries_def)
  obtain a1 r where a1: "process_srvmsg enva (relay idb m) a = Inr (a1\<lparr>fr_queue := [r]\<rparr>)" "offers idb oid f a1"
    and r: "carries MSG_TYPE_GETFILE_RES 0 idb x (part_response oid (take ?n (drop k f))) r"
    using offers_part [OF a env(1) relay_carries [OF m] k n(3) n(1) n(2)] unfolding tk by metis
  have a2: "clt_dequeue (a1\<lparr>fr_queue := [r]\<rparr>) = Inr a1"
    using dequeue_one [of "a1\<lparr>fr_queue := [r]\<rparr>" r] r a1(2) by (simp add: carries_def offers_def)
  have d: "take ?n (drop k f) \<noteq> []" "length (take ?n (drop k f)) = ?n" using n(4) k by (auto simp: next_part_def)
  obtain b2 m' x' where b2: "process_srvmsg envb (relay ida r) ?b1 = Inr (b2\<lparr>fr_queue := [m']\<rparr>)"
      "fetches ida oid f (k + length (take ?n (drop k f))) nm pn b2" "fr_requests b2 = fr_requests b"
    and m': "carries MSG_TYPE_GETFILE_REQ 0 ida x' (part_request oid (k + length (take ?n (drop k f)))
      (next_part f (k + length (take ?n (drop k f))))) m'"
    by (rule fetches_part [where peer = ida and oid = oid and f = f and k = k and nm = nm and pn = pn
          and s = ?b1 and env = envb and q = m and qs = "fr_requests b" and src = 0 and x = x and dst = idb
          and as = "part_request oid k n" and p = "relay ida r" and d = "take ?n (drop k f)" and n = ?n])
      (use b(1) env(2) m relay_carries [OF r] d(1) in simp_all)
  have kn: "k + ?n \<le> length f" using b2(2) unfolding d(2) by (simp add: fetches_def)
  obtain s1 where s1: "pass_on to_a (enva, ea) (b, a, s) = Inr (?b1, a1\<lparr>fr_queue := [r]\<rparr>, s1)" "ready s1"
    by (rule ba.passed_on [OF s m _ b1 b(2) a1(1)]) (simp add: peer_types_def)
  obtain s2 where s2: "pass_on to_b (envb, eb) (a1\<lparr>fr_queue := [r]\<rparr>, ?b1, s1) = Inr (a1, b2\<lparr>fr_queue := [m']\<rparr>, s2)" "ready s2"
    by (rule ab.passed_on [OF s1(2) r _ a2 _ b2(1)]) (simp_all add: peer_types_def)
  show ?thesis
  proof (rule that)
    show "fetch_round to_a to_b ((enva, ea), (envb, eb)) (a, b, s) = Inr (a1, b2\<lparr>fr_queue := [m']\<rparr>, s2)"
      using b(2) s1(1) s2(1) by simp
    show "ready s2" by (rule s2(2))
    show "exchanging ida idb oid f (k + ?n) nm pn (a1, b2\<lparr>fr_queue := [m']\<rparr>)"
      using a1(2) b2(2) m' right_size_next [OF kn] unfolding d(2) exchanging_def by auto
  qed (use b2 in simp)
qed

lemma fetch_round_end:
  assumes ex: "exchanging ida idb oid f (length f) nm pn (a, b)" and s: "ready s"
    and env: "env_ok enva" "env_ok envb"
  obtains a' b' s' where "fetch_round to_a to_b ((enva, ea), (envb, eb)) (a, b, s) = Inr (a', b', s')" and "ready s'"
    and "fr_queue a' = []" and "fr_queue b' = []" and "fr_requests b' = fr_requests b"
    and "file_content (x_fs (fr_xfer b')) nm = Some f" and "fs_names (x_fs (fr_xfer b')) pn = None"
proof -
  obtain m x where b: "fetches ida oid f (length f) nm pn b" "fr_queue b = [m]"
    and m: "carries MSG_TYPE_GETFILE_REQ 0 ida x (part_request oid (length f) 0) m" and a: "offers idb oid f a"
    using ex by (auto simp: exchanging_def right_size_def)
  let ?b1 = "b\<lparr>fr_queue := [], fr_requests := m # fr_requests b\<rparr>"
  have b1: "clt_dequeue b = Inr ?b1" using dequeue_one [OF b(2)] m by (simp add: carries_def)
  obtain a1 r where a1: "process_srvmsg enva (relay idb m) a = Inr (a1\<lparr>fr_queue := [r]\<rparr>)" "fr_queue a1 = []"
    and r: "carries MSG_TYPE_GETFILE_RES 0 idb x (part_response oid []) r"
    by (rule offers_end [OF a relay_carries [OF m]])
  have a2: "clt_dequeue (a1\<lparr>fr_queue := [r]\<rparr>) = Inr a1"
    using dequeue_one [of "a1\<lparr>fr_queue := [r]\<rparr>" r] r a1(2) by (simp add: carries_def)
  obtain b2 where b2: "process_srvmsg envb (relay ida r) ?b1 = Inr b2" "fr_queue b2 = []" "fr_requests b2 = fr_requests b"
      "file_content (x_fs (fr_xfer b2)) nm = Some f" "fs_names (x_fs (fr_xfer b2)) pn = None"
    by (rule fetches_end [where peer = ida and oid = oid and f = f and nm = nm and pn = pn
          and s = ?b1 and env = envb and q = m and qs = "fr_requests b" and src = 0 and x = x and dst = idb
          and as = "part_request oid (length f) 0" and p = "relay ida r"])
      (use b(1) env(2) m relay_carries [OF r] in simp_all)
  obtain s1 where s1: "pass_on to_a (enva, ea) (b, a, s) = Inr (?b1, a1\<lparr>fr_queue := [r]\<rparr>, s1)" "ready s1"
    by (rule ba.passed_on [OF s m _ b1 b(2) a1(1)]) (simp add: peer_types_def)
  obtain s2 where s2: "pass_on to_b (envb, eb) (a1\<lparr>fr_queue := [r]\<rparr>, ?b1, s1) = Inr (a1, b2, s2)" "ready s2"
    by (rule ab.passed_on [OF s1(2) r _ a2 _ b2(1)]) (simp_all add: peer_types_def)
  show ?thesis
  proof (rule that)
    show "fetch_round to_a to_b ((enva, ea), (envb, eb)) (a, b, s) = Inr (a1, b2, s2)"
      using b(2) s1(1) s2(1) by simp
    show "ready s2" by (rule s2(2))
  qed (use a1 b2 in simp_all)
qed

lemma fetch_rounds_complete:
  assumes "exchanging ida idb oid f k nm pn (a, b)" and "ready s" and "\<forall>e \<in> set es. env_ok (fst (fst e)) \<and> env_ok (fst (snd e))"
    and "length es = rounds_needed (length f - k)"
  shows "\<exists>a' b' s'. fetch_rounds to_a to_b es (a, b, s) = Inr (a', b', s') \<and> ready s' \<and> fr_queue a' = [] \<and> fr_queue b' = [] \<and>
    fr_requests b' = fr_requests b \<and> file_content (x_fs (fr_xfer b')) nm = Some f \<and>
    fs_names (x_fs (fr_xfer b')) pn = None"
  using assms
proof (induction es arbitrary: k a b s)
  case Nil
  then show ?case by (simp add: rounds_needed_def)
next
  case (Cons e es)
  obtain enva ea envb eb where e: "e = ((enva, ea), (envb, eb))" by (metis surj_pair)
  have env: "env_ok enva" "env_ok envb" using Cons.prems(3) e by auto
  have le: "k \<le> length f" using Cons.prems(1) by (simp add: exchanging_def fetches_def)
  show ?case
  proof (cases "k < length f")
    case True
    obtain a' b' s' where r: "fetch_round to_a to_b ((enva, ea), (envb, eb)) (a, b, s) = Inr (a', b', s')" "ready s'"
        "exchanging ida idb oid f (k + next_part f k) nm pn (a', b')" "fr_requests b' = fr_requests b"
      by (rule fetch_round_part [OF Cons.prems(1) True Cons.prems(2) env])
    have "rounds_needed (length f - k) = Suc (rounds_needed (length f - (k + next_part f k)))"
      using True by (auto simp: rounds_needed_def next_part_def min_def div_nat_eqI)
    then have "length es = rounds_needed (length f - (k + next_part f k))" using Cons.prems(4) by simp
    then show ?thesis using Cons.IH [OF r(3,2)] Cons.prems(3) r(1,4) e by simp
  next
    case False
    then have k: "k = length f" using le by simp
    then have "es = []" using Cons.prems(4) by (simp add: rounds_needed_def)
    obtain a' b' s' where "fetch_round to_a to_b ((enva, ea), (envb, eb)) (a, b, s) = Inr (a', b', s')" "ready s'" "fr_queue a' = []" "fr_queue b' = []"
        "fr_requests b' = fr_requests b" "file_content (x_fs (fr_xfer b')) nm = Some f"
        "fs_names (x_fs (fr_xfer b')) pn = None"
      by (rule fetch_round_end [OF Cons.prems(1) [unfolded k] Cons.prems(2) env])
    then show ?thesis using e \<open>es = []\<close> by simp
  qed
qed

end

section \<open>Accepting an offer\<close>

text \<open>
  \<open>offered peer oid f k nm pn s\<close>: the client has \<open>peer\<close>'s offer \<open>oid\<close> of a file \<open>f\<close> in its
  list, to be saved as \<open>nm\<close>. Either the partial file is new or does not exist yet (\<open>k = 0\<close>), or it
  holds the first \<open>k\<close> octets from an earlier attempt.
\<close>

definition waiting :: "byte list \<Rightarrow> nat \<Rightarrow> cstring \<Rightarrow> cstring \<Rightarrow> transfer_t \<Rightarrow> fsys \<Rightarrow> bool" where
  "waiting f k nm pn t fs \<longleftrightarrow>
     tr_offset t = 0 \<and> tr_size t = of_nat (length f) \<and> tr_name t = Some nm \<and> tr_partname t = Some pn \<and>
     (if 0 \<le> tr_fd t then
        (\<exists>ino. k = 0 \<and> appends t fs ino \<and> fs_inodes fs ! ino = [] \<and> fs_names fs pn = Some ino)
      else fd_lowest fs < fs_maxfd fs \<and>
        (case fs_names fs pn of
           None \<Rightarrow> k = 0
         | Some ino \<Rightarrow> ino < length (fs_inodes fs) \<and> fs_inodes fs ! ino = take k f)) \<and>
     length f - k \<le> fs_room fs \<and> \<not> fs_deny fs nm \<and> \<not> fs_deny fs pn"

definition offered :: "u64 \<Rightarrow> u64 \<Rightarrow> byte list \<Rightarrow> nat \<Rightarrow> cstring \<Rightarrow> cstring \<Rightarrow> frelay \<Rightarrow> bool" where
  "offered peer oid f k nm pn s \<longleftrightarrow> fr_st s = ST_AUTH_OK \<and> k < length f \<and> length f < 2 ^ 63 \<and>
     length nm \<le> 3000 \<and> nm \<noteq> pn \<and>
     (\<exists>i. match_list TTYPE_DOWNLOAD peer oid (transfers (fr_xfer s)) = Some i \<and>
        waiting f k nm pn (entry s i) (x_fs (fr_xfer s)))"

lemma offeredD:
  "offered peer oid f k nm pn s \<Longrightarrow> match_list TTYPE_DOWNLOAD peer oid (transfers (fr_xfer s)) = Some i \<Longrightarrow>
     fr_st s = ST_AUTH_OK \<and> k < length f \<and> length f < 2 ^ 63 \<and> length nm \<le> 3000 \<and> nm \<noteq> pn \<and>
     waiting f k nm pn (entry s i) (x_fs (fr_xfer s))"
  by (auto simp: offered_def)

lemma waiting_touch: "waiting f k nm pn (t\<lparr>tr_tact := now\<rparr>) fs = waiting f k nm pn t fs"
  unfolding waiting_def appends_cong [of "t\<lparr>tr_tact := now\<rparr>" t, simplified] by simp

lemma sys_open_rest: "sys_open w nm fs = (fd, fs') \<Longrightarrow> fs_names fs' = fs_names fs \<and> fs_room fs' = fs_room fs \<and> fs_deny fs' = fs_deny fs"
  by (rule sys_open_cases [of w nm fs]) auto

lemma sys_seek_end_rest: "sys_seek_end fd fs = (off, fs') \<Longrightarrow> fs_names fs' = fs_names fs \<and> fs_room fs' = fs_room fs \<and> fs_deny fs' = fs_deny fs"
  by (auto simp: sys_seek_end_def split: option.splits open_file.splits)

lemma download_resume_rest:
  assumes "download_resume i x = Inr (0, x')"
  shows "fs_names (x_fs x') = fs_names (x_fs x) \<and> fs_room (x_fs x') = fs_room (x_fs x) \<and> fs_deny (x_fs x') = fs_deny (x_fs x)"
  using assms
  by (auto simp: download_resume_def Let_def dest!: sys_open_rest sys_seek_end_rest split: if_splits option.splits prod.splits)

text \<open>The partial file is opened, created, or already open.\<close>

definition opened_at :: "nat \<Rightarrow> nat \<Rightarrow> transfer_t \<Rightarrow> cstring \<Rightarrow> xfer \<Rightarrow> int \<Rightarrow> nat \<Rightarrow> byte list \<Rightarrow> xfer \<Rightarrow> bool" where
  "opened_at i k t pn x fd ino g x' \<longleftrightarrow>
     transfers x' = (transfers x)[i := t\<lparr>tr_fd := fd, tr_offset := of_nat k\<rparr>] \<and>
     appends (t\<lparr>tr_fd := fd, tr_offset := of_nat k\<rparr>) (x_fs x') ino \<and> fs_inodes (x_fs x') ! ino = g \<and>
     fs_names (x_fs x') pn = Some ino \<and> fs_room (x_fs x') = fs_room (x_fs x) \<and> fs_deny (x_fs x') = fs_deny (x_fs x)"

definition accept_open :: "nat \<Rightarrow> xfer \<Rightarrow> xfer \<Rightarrow> bool" where
  "accept_open i x x' \<longleftrightarrow> download_resume i x = Inr (0, x') \<or>
     (\<exists>x1. download_resume i x = Inr (- 1, x1) \<and> download_write i [] x1 = Inr (0, x'))"

lemma set_xfer_twice [simp]: "set_xfer x (set_xfer y s) = set_xfer x s"
  by (simp add: set_xfer_def)

lemma offered_open_held:
  assumes i: "i < length (transfers x)" and ap: "appends (transfers x ! i) (x_fs x) ino"
    and g: "fs_inodes (x_fs x) ! ino = []" "fs_names (x_fs x) pn = Some ino" and t: "tr_offset (transfers x ! i) = 0"
  obtains x' where "accept_open i x x'" and "opened_at i 0 (transfers x ! i) pn x (tr_fd (transfers x ! i)) ino [] x'"
proof -
  have fd: "0 \<le> tr_fd (transfers x ! i)" using ap by (simp add: appends_def)
  obtain x' where w: "download_write i [] x = Inr (0, x')" "transfers x' = transfers x"
      "appends (transfers x ! i) (x_fs x') ino" "fs_names (x_fs x') = fs_names (x_fs x)"
      "fs_inodes (x_fs x') = (fs_inodes (x_fs x))[ino := fs_inodes (x_fs x) ! ino @ []]"
      "fs_room (x_fs x') = fs_room (x_fs x) - length ([] :: byte list)"
    by (rule download_write_append [OF i ap, of "[]"]) simp_all
  have e: "(transfers x ! i)\<lparr>tr_fd := tr_fd (transfers x ! i), tr_offset := of_nat 0\<rparr> = transfers x ! i"
    using t by simp
  show ?thesis
  proof (rule that)
    show "accept_open i x x'" using fd w(1) by (simp add: accept_open_def download_resume_def)
    show "opened_at i 0 (transfers x ! i) pn x (tr_fd (transfers x ! i)) ino [] x'"
      unfolding opened_at_def e using w g ap download_write_deny [OF w(1) fd] by (simp add: appends_def)
  qed
qed

lemma offered_open_new:
  assumes i: "i < length (transfers x)" and fd: "tr_fd (transfers x ! i) < 0"
    and pt: "tr_partname (transfers x ! i) = Some pn" and new: "fs_names (x_fs x) pn = None" "\<not> fs_deny (x_fs x) pn"
    and lo: "fd_lowest (x_fs x) < fs_maxfd (x_fs x)" and t: "tr_offset (transfers x ! i) = 0"
  obtains x' g where "accept_open i x x'"
    and "opened_at i 0 (transfers x ! i) pn x g (length (fs_inodes (x_fs x))) [] x'"
proof -
  let ?u = "(transfers x ! i)\<lparr>tr_fd := - 1\<rparr>"
  let ?x1 = "put_transfer i ?u x"
  have r1: "download_resume i x = Inr (- 1, ?x1)" by (rule download_resume_missing [OF fd pt new(1)])
  obtain x' g where w: "download_write i [] ?x1 = Inr (0, x')" "0 \<le> g"
      "transfers x' = (transfers ?x1)[i := (transfers ?x1 ! i)\<lparr>tr_fd := g\<rparr>]"
      "appends (transfers x' ! i) (x_fs x') (length (fs_inodes (x_fs ?x1)))"
      "fs_inodes (x_fs x') = fs_inodes (x_fs ?x1) @ [[]]"
      "fs_names (x_fs x') = (fs_names (x_fs ?x1))(pn \<mapsto> length (fs_inodes (x_fs ?x1)))"
      "fs_room (x_fs x') = fs_room (x_fs ?x1)" "fs_deny (x_fs x') = fs_deny (x_fs ?x1)"
    by (rule download_write_create [of i ?x1 pn]) (use i pt new lo in simp_all)
  have e: "transfers x' = (transfers x)[i := (transfers x ! i)\<lparr>tr_fd := g, tr_offset := of_nat 0\<rparr>]"
    using w(3) i t by (cases "transfers x ! i") simp
  show ?thesis
  proof (rule that)
    show "accept_open i x x'" using r1 w(1) by (simp add: accept_open_def)
    show "opened_at i 0 (transfers x ! i) pn x g (length (fs_inodes (x_fs x))) [] x'"
      using e w(4-8) i by (simp add: opened_at_def)
  qed
qed

lemma offered_open_resume:
  assumes i: "i < length (transfers x)" and fd: "tr_fd (transfers x ! i) < 0"
    and pt: "tr_partname (transfers x ! i) = Some pn" and old: "fs_names (x_fs x) pn = Some ino" "\<not> fs_deny (x_fs x) pn"
    and lo: "fd_lowest (x_fs x) < fs_maxfd (x_fs x)" and ino: "ino < length (fs_inodes (x_fs x))"
  obtains x' g where "accept_open i x x'"
    and "opened_at i (length (fs_inodes (x_fs x) ! ino)) (transfers x ! i) pn x g ino (fs_inodes (x_fs x) ! ino) x'"
proof -
  obtain x' g where r1: "download_resume i x = Inr (0, x')"
      "transfers x' = (transfers x)[i := (transfers x ! i)\<lparr>tr_fd := g,
         tr_offset := of_nat (length (fs_inodes (x_fs x) ! ino))\<rparr>]"
      "appends (transfers x' ! i) (x_fs x') ino" "fs_inodes (x_fs x') = fs_inodes (x_fs x)"
    by (rule download_resume_existing [OF i fd pt old lo ino])
  show ?thesis
    by (rule that [of x' g])
      (use r1 old i download_resume_rest [OF r1(1)] in \<open>simp_all add: accept_open_def opened_at_def\<close>)
qed

lemma offered_open:
  assumes o: "offered peer oid f k nm pn s"
    and m: "match_list TTYPE_DOWNLOAD peer oid (transfers (fr_xfer s)) = Some i"
  obtains x' g ino where "accept_open i (fr_xfer s) x'"
    and "opened_at i k (entry s i) pn (fr_xfer s) g ino (take k f) x'"
proof -
  note od = offeredD [OF o m, unfolded waiting_def entry_def]
  let ?x = "fr_xfer s"
  have i: "i < length (transfers ?x)" using match_list_Some [OF m] by simp
  have t: "tr_offset (transfers ?x ! i) = 0" "tr_partname (transfers ?x ! i) = Some pn" using od by auto
  consider (held) ino where "k = 0" "appends (transfers ?x ! i) (x_fs ?x) ino" "fs_inodes (x_fs ?x) ! ino = []"
      "fs_names (x_fs ?x) pn = Some ino"
    | (new) "k = 0" "tr_fd (transfers ?x ! i) < 0" "fd_lowest (x_fs ?x) < fs_maxfd (x_fs ?x)" "fs_names (x_fs ?x) pn = None"
    | (old) ino where "tr_fd (transfers ?x ! i) < 0" "fd_lowest (x_fs ?x) < fs_maxfd (x_fs ?x)"
        "fs_names (x_fs ?x) pn = Some ino" "ino < length (fs_inodes (x_fs ?x))" "fs_inodes (x_fs ?x) ! ino = take k f"
    using od m by (auto split: if_splits option.splits)
  then show ?thesis
  proof cases
    case held
    then show ?thesis using offered_open_held [OF i held(2-4) t(1)] that by (metis entry_def take_0)
  next
    case new
    have d: "\<not> fs_deny (x_fs ?x) pn" using od by simp
    show ?thesis using offered_open_new [OF i new(2) t(2) new(4) d new(3) t(1)] new(1) that by (metis entry_def take_0)
  next
    case old
    have d: "\<not> fs_deny (x_fs ?x) pn" and l: "length (take k f) = k" using od by simp_all
    show ?thesis using offered_open_resume [OF i old(1) t(2) old(3) d old(2) old(4)] l old(5) that by (metis entry_def)
  qed
qed

lemma offered_fetches:
  assumes o: "offered peer oid f k nm pn s"
    and m: "match_list TTYPE_DOWNLOAD peer oid (transfers (fr_xfer s)) = Some i"
    and op: "opened_at i k (entry s i) pn (fr_xfer s) g ino (take k f) x'"
  shows "fetches peer oid f k nm pn (set_xfer x' s)"
    and "match_list TTYPE_DOWNLOAD peer oid (transfers x') = Some i"
proof -
  note od = offeredD [OF o m, unfolded waiting_def] and op = op [unfolded opened_at_def]
  let ?e = "(entry s i)\<lparr>tr_fd := g, tr_offset := of_nat k\<rparr>"
  have i: "i < length (transfers (fr_xfer s))" and key: "tr_type (entry s i) = TTYPE_DOWNLOAD"
      "tr_rid (entry s i) = peer" "tr_oid (entry s i) = oid" "0 < tr_tact (entry s i)"
    using match_list_Some [OF m] by (simp_all add: entry_def)
  have t: "tr_size (entry s i) = of_nat (length f)" "tr_name (entry s i) = Some nm" "tr_partname (entry s i) = Some pn"
    using od m by auto
  have ts: "transfers x' = (transfers (fr_xfer s))[i := ?e]" using op by blast
  show m': "match_list TTYPE_DOWNLOAD peer oid (transfers x') = Some i"
    unfolding ts by (rule match_list_update [OF m]) (use key in simp_all)
  show "fetches peer oid f k nm pn (set_xfer x' s)"
    by (rule fetchesI [of _ _ _ _ _ _ _ i ?e "x_fs x'" ino]) (use od op m' t ts i in simp_all)
qed

lemma offered_start:
  assumes o: "offered peer oid f k nm pn s"
    and m: "match_list TTYPE_DOWNLOAD peer oid (transfers (fr_xfer s)) = Some i"
  obtains s' where "cmd_accept_start env i s = Inr (True, s')" and "fetches peer oid f k nm pn s'"
    and "match_list TTYPE_DOWNLOAD peer oid (transfers (fr_xfer s')) = Some i" and "lists_of s' = lists_of s"
proof -
  obtain x' g ino where a: "accept_open i (fr_xfer s) x'"
    and op: "opened_at i k (entry s i) pn (fr_xfer s) g ino (take k f) x'"
    by (rule offered_open [OF o m])
  note ft = offered_fetches [OF o m op]
  have nm: "tr_name (entry (set_xfer x' s) i) = Some nm" "length nm \<le> 3000"
    using fetchesE [OF ft(1)] ft(2) o by (auto simp: offered_def)
  have "\<exists>b. transfer_itostr (ce_iso8601 env) MAX_CMDLINE (Some fmt) (ce_now env) (entry (set_xfer x' s) i) = Inr b"
    if "fmt \<in> {fmt_id @ str '' %S'', fmt_id @ str '' %O/%S''}" for fmt
    using itostr_ok [OF nm, of fmt MAX_CMDLINE "ce_iso8601 env" "ce_now env"] that by (auto simp: MAX_CMDLINE_def)
  then obtain b1 b2 where "transfer_itostr (ce_iso8601 env) MAX_CMDLINE (Some (fmt_id @ str '' %S'')) (ce_now env)
        (entry (set_xfer x' s) i) = Inr b1"
      "transfer_itostr (ce_iso8601 env) MAX_CMDLINE (Some (fmt_id @ str '' %O/%S'')) (ce_now env)
        (entry (set_xfer x' s) i) = Inr b2" by blast
  then have "\<exists>p u. cmd_accept_start env i s = Inr (True, say p u (set_xfer x' s))"
    using a by (cases "0 < tr_offset (entry (set_xfer x' s) i)")
      (auto simp: accept_open_def cmd_accept_start_def say_transfer_def simp del: set_xfer_simps(8), blast+)
  then obtain p u where r: "cmd_accept_start env i s = Inr (True, say p u (set_xfer x' s))" by blast
  show ?thesis
    by (rule that [OF r]) (use ft in \<open>simp_all add: fetches_def\<close>)
qed

lemma offered_match:
  assumes o: "offered peer oid f k nm pn s" and now: "0 < now"
  obtains i x1 where "transfer_match TTYPE_DOWNLOAD peer oid now (fr_xfer s) = (Some i, x1)"
    and "offered peer oid f k nm pn (set_xfer x1 s)" and "match_list TTYPE_DOWNLOAD peer oid (transfers x1) = Some i"
proof -
  obtain i where m: "match_list TTYPE_DOWNLOAD peer oid (transfers (fr_xfer s)) = Some i"
    using o by (auto simp: offered_def)
  let ?t = "(entry s i)\<lparr>tr_tact := now\<rparr>"
  define x1 where "x1 = put_transfer i ?t (fr_xfer s)"
  have i: "i < length (transfers (fr_xfer s))" and key: "tr_type (entry s i) = TTYPE_DOWNLOAD"
      "tr_rid (entry s i) = peer" "tr_oid (entry s i) = oid"
    using match_list_Some [OF m] by (simp_all add: entry_def)
  have x1: "transfers x1 = (transfers (fr_xfer s))[i := ?t]" "x_fs x1 = x_fs (fr_xfer s)" by (simp_all add: x1_def)
  have m1: "match_list TTYPE_DOWNLOAD peer oid (transfers x1) = Some i"
    unfolding x1 by (rule match_list_update [OF m]) (use key now in simp_all)
  have e: "entry (set_xfer x1 s) i = ?t" using x1 i by simp
  have "offered peer oid f k nm pn (set_xfer x1 s)"
    using o m m1 unfolding offered_def by (auto simp: e x1(2) waiting_touch simp del: set_xfer_simps(8))
  moreover have "transfer_match TTYPE_DOWNLOAD peer oid now (fr_xfer s) = (Some i, x1)"
    using m by (simp add: transfer_match_def x1_def entry_def)
  ultimately show ?thesis using that m1 by blast
qed

text \<open>The identification of a download as the user types it.\<close>

definition download_id :: "u64 \<Rightarrow> u64 \<Rightarrow> cstring" where
  "download_id rid oid = str ''D,'' @ print_016x rid @ [44] @ print_016x oid"

lemma strtoi_download_id: "transfer_strtoi False (download_id rid oid) = (3, None, Some (rid, oid))"
  using transfer_strtoi_id(2) [of "[]" "\<lparr>tr_type = TTYPE_DOWNLOAD, tr_rid = rid, tr_oid = oid, tr_name = None,
    tr_partname = None, tr_size = 0, tr_offset = 0, tr_fd = 0, tr_tstart = 0, tr_tact = 0\<rparr>"]
  by (simp add: transfer_id_def download_id_def type_letter_def str_def)

lemma accept_fetches:
  assumes o: "offered peer oid f k nm pn s" and now: "0 < ce_now env"
    and toks: "2 \<le> length toks" "arg toks 1 = download_id peer oid"
  obtains s' m x where "cmd_accept env toks s = Inr (0, Some m, s')" and "fetches peer oid f k nm pn s'"
    and "lists_of s' = lists_of s" and "boff m = 0"
    and "carries MSG_TYPE_GETFILE_REQ 0 peer x (part_request oid k (min (length f) 65376)) m"
proof -
  obtain i x1 where tm: "transfer_match TTYPE_DOWNLOAD peer oid (ce_now env) (fr_xfer s) = (Some i, x1)"
    and o1: "offered peer oid f k nm pn (set_xfer x1 s)"
    and m1: "match_list TTYPE_DOWNLOAD peer oid (transfers (fr_xfer (set_xfer x1 s))) = Some i"
    using offered_match [OF o now] by auto
  obtain s2 where st: "cmd_accept_start env i (set_xfer x1 s) = Inr (True, s2)"
    and f2: "fetches peer oid f k nm pn s2" and m2: "match_list TTYPE_DOWNLOAD peer oid (transfers (fr_xfer s2)) = Some i"
    and l2: "lists_of s2 = lists_of (set_xfer x1 s)"
    by (rule offered_start [OF o1 m1])
  have e: "tr_rid (entry s2 i) = peer" "tr_offset (entry s2 i) = of_nat k" "tr_size (entry s2 i) = of_nat (length f)"
    using fetchesE [OF f2] m2 match_list_Some [OF m2] unfolding entry_def by (metis option.inject)+
  have f63: "length f < 2 ^ 63" using f2 by (simp add: fetches_def)
  have ch: "chunk_size (of_nat (length f)) = of_nat (min (length f) 65376)"
    using chunk_size_rest [of 0 f] f63 by (simp add: next_part_def)
  obtain m x where rq: "clt_request (ce_ts env) MSG_TYPE_GETFILE_REQ peer
      [u64_attr MSG_ATTR_OFFERID oid, u64_attr MSG_ATTR_OFFSET (of_nat k), u64_attr MSG_ATTR_SIZE (of_nat (min (length f) 65376))]
      s2 = Inr (m, snd (clt_random s2))"
    and m: "carries MSG_TYPE_GETFILE_REQ 0 peer x (part_request oid k (min (length f) 65376)) m" "boff m = 0"
    by (rule part_request_msg)
  have run: "cmd_accept env toks s = Inr (0, Some m, snd (clt_random s2))"
    unfolding cmd_accept_def using toks st tm e ch rq by (simp add: strtoi_download_id cmd_remote_def Let_def)
  have "fetches peer oid f k nm pn (snd (clt_random s2))" using f2 by (simp add: fetches_def)
  moreover have "lists_of (snd (clt_random s2)) = lists_of s" using clt_request_lists [OF rq] l2 by simp
  ultimately show ?thesis using that [OF run] m by blast
qed

end
