(* ===== verification/Client_Line.thy ===== *)
theory Client_Line
  imports Client_Cmd
begin

text \<open>
  The command line of the client: what the tokenizer of \<open>Client_Cmd\<close> makes of a line, and which
  command a word stands for.
\<close>

section \<open>Tokens\<close>

lemma length_dropWhile_isspace: "length (dropWhile isspace s) \<le> length s"
  by (rule length_dropWhile_le)

lemma quoted_len_le: "quoted_len s \<le> length s"
  by (induction s rule: quoted_len.induct) auto

text \<open>Every token is a part of the line, at its offset; tokens follow each other without overlap.\<close>

definition slices :: "cstring \<Rightarrow> (nat \<times> cstring) list \<Rightarrow> bool" where
  "slices line toks \<longleftrightarrow> (\<forall>(off, w) \<in> set toks. off + length w \<le> length line \<and> take (length w) (drop off line) = w)"

lemma dropWhile_drop: "dropWhile P s = drop (length s - length (dropWhile P s)) s"
  by (metis append_eq_conv_conj length_drop add_diff_cancel_right' length_append takeWhile_dropWhile_id)

lemma dropWhile_drop_suffix:
  "dropWhile P (drop m s) = drop (length s - length (dropWhile P (drop m s))) s"
proof -
  have "s = (take m s @ takeWhile P (drop m s)) @ dropWhile P (drop m s)" by simp
  moreover have "u = x @ y \<Longrightarrow> y = drop (length u - length y) u" for u x y :: "'a list" by simp
  ultimately show ?thesis by blast
qed

lemma tokens_slices:
  "drop off line = s \<Longrightarrow> off \<le> length line \<Longrightarrow>
     slices line (tokens n off s) \<and> sorted_wrt (\<lambda>a b. fst a + length (snd a) \<le> fst b) (tokens n off s) \<and>
     (\<forall>a \<in> set (tokens n off s). off \<le> fst a)"
proof (induction n arbitrary: off s)
  case 0
  then show ?case by (simp add: slices_def)
next
  case (Suc n)
  show ?case
  proof (cases "s = []")
    case True
    then show ?thesis by (simp add: slices_def)
  next
    case False
    define skip where "skip = (if hd s = 34 then 1 else 0 :: nat)"
    define len where "len = (if hd s = 34 then quoted_len (tl s) else length (takeWhile (\<lambda>c. \<not> isspace c) s))"
    define rest where "rest = dropWhile isspace (if hd s = 34 then tl (drop len (tl s)) else drop len s)"
    let ?off = "off + (length s - length rest)"
    have len: "skip + len \<le> length s"
      using False quoted_len_le [of "tl s"] length_takeWhile_le [of "\<lambda>c. \<not> isspace c" s]
      by (cases s) (auto simp: skip_def len_def)
    have r: "length rest \<le> length s - (skip + len)"
      using length_dropWhile_isspace [of "tl (drop len (tl s))"] length_dropWhile_isspace [of "drop len s"]
      by (auto simp: rest_def skip_def)
    have tail: "rest = drop (length s - length rest) s"
    proof (cases "hd s = 34")
      case True
      have "tl (drop len (tl s)) = drop (len + 2) s" by (simp add: tl_drop drop_Suc [symmetric])
      then show ?thesis using dropWhile_drop_suffix [of isspace "len + 2" s] True by (simp add: rest_def)
    next
      case False
      then show ?thesis using dropWhile_drop_suffix [of isspace len s] by (simp add: rest_def)
    qed
    have s: "length s = length line - off" using Suc.prems by auto
    have d: "drop ?off line = rest" using Suc.prems(1) tail by (metis drop_drop add.commute)
    have o: "?off \<le> length line" using s Suc.prems(2) by linarith
    have IH: "slices line (tokens n ?off rest)"
        "sorted_wrt (\<lambda>a b. fst a + length (snd a) \<le> fst b) (tokens n ?off rest)"
        "\<forall>a \<in> set (tokens n ?off rest). ?off \<le> fst a"
      using Suc.IH [OF d o] by blast+
    have w: "take len (drop (off + skip) line) = take len (drop skip s)" using Suc.prems(1) by (metis drop_drop add.commute)
    have t: "tokens (Suc n) off s = (off + skip, take len (drop skip s)) # tokens n ?off rest"
      using False by (auto simp: skip_def len_def rest_def Let_def drop_Suc takeWhile_eq_take [symmetric])
    have lw: "length (take len (drop skip s)) = len" using len by simp
    have before: "off + skip + len \<le> ?off" using len r by linarith
    have "slices line ((off + skip, take len (drop skip s)) # tokens n ?off rest)"
      using IH(1) before o w lw by (simp add: slices_def)
    moreover have "\<forall>b \<in> set (tokens n ?off rest). off + skip + len \<le> fst b"
      using IH(3) before le_trans by blast
    moreover have "\<forall>b \<in> set (tokens n ?off rest). off \<le> fst b" using IH(3) by fastforce
    ultimately show ?thesis unfolding t using IH(2) lw by simp
  qed
qed

lemma tokenize_slices:
  "slices line (tokenize line)" "sorted_wrt (\<lambda>a b. fst a + length (snd a) \<le> fst b) (tokenize line)"
  using tokens_slices [of "length line - length (dropWhile isspace line)" line "dropWhile isspace line" MAX_ARG]
    dropWhile_drop [of isspace line] by (simp_all add: tokenize_def Let_def)

lemma length_tokens: "length (tokens n off s) \<le> n"
  by (induction n arbitrary: off s) (auto simp: Let_def)

section \<open>Typed lines\<close>

text \<open>
  A word as it is typed: plain, in quotes, or with an opening quote that nothing closes. In quotes a
  backslash before a quote takes its meaning away; the backslash stays in the word.
\<close>

datatype word_typed = Plain cstring | Quoted cstring | Unclosed cstring

primrec word_text :: "word_typed \<Rightarrow> cstring" where
  "word_text (Plain w) = w"
| "word_text (Quoted w) = w"
| "word_text (Unclosed w) = w"

primrec show_word :: "word_typed \<Rightarrow> cstring" where
  "show_word (Plain w) = w"
| "show_word (Quoted w) = 34 # w @ [34]"
| "show_word (Unclosed w) = 34 # w"

fun quotes_escaped :: "cstring \<Rightarrow> bool" where
  "quotes_escaped [] = True"
| "quotes_escaped [c] = (c \<noteq> 34)"
| "quotes_escaped (c # d # s) = (c \<noteq> 34 \<and> (if c = 92 \<and> d = 34 then quotes_escaped s else quotes_escaped (d # s)))"

primrec word_ok :: "word_typed \<Rightarrow> bool" where
  "word_ok (Plain w) = (w \<noteq> [] \<and> hd w \<noteq> 34 \<and> (\<forall>c \<in> set w. \<not> isspace c))"
| "word_ok (Quoted w) = (quotes_escaped w \<and> (w = [] \<or> last w \<noteq> 92))"
| "word_ok (Unclosed w) = quotes_escaped w"

text \<open>
  A typed line after its leading white space: words, each with the white space behind it. White
  space has to end a plain word before another word; a word that nothing closes takes all the rest.
\<close>

definition typed_line :: "(word_typed \<times> cstring) list \<Rightarrow> cstring" where
  "typed_line ws = concat (map (\<lambda>(w, sep). show_word w @ sep) ws)"

fun line_ok :: "(word_typed \<times> cstring) list \<Rightarrow> bool" where
  "line_ok [] = True"
| "line_ok ((w, sep) # ws) =
     (word_ok w \<and> (\<forall>c \<in> set sep. isspace c) \<and> line_ok ws \<and>
      (case w of Plain _ \<Rightarrow> ws \<noteq> [] \<longrightarrow> sep \<noteq> [] | Quoted _ \<Rightarrow> True | Unclosed _ \<Rightarrow> ws = [] \<and> sep = []))"

lemma typed_line_simps [simp]:
  "typed_line [] = []" "typed_line ((w, sep) # ws) = show_word w @ sep @ typed_line ws"
  by (simp_all add: typed_line_def)

lemma isspace_simps [simp]: "isspace 32" "isspace 10" "\<not> isspace 34"
  by (simp_all add: isspace_def)

lemma quoted_len_unclosed: "quotes_escaped w \<Longrightarrow> quoted_len w = length w"
  by (induction w rule: quotes_escaped.induct) auto

lemma quoted_len_quote [simp]: "quoted_len (34 # r) = 0"
  by (cases r) auto

lemma quoted_len_closed: "quotes_escaped w \<Longrightarrow> w = [] \<or> last w \<noteq> 92 \<Longrightarrow> quoted_len (w @ 34 # r) = length w"
  by (induction w rule: quotes_escaped.induct) (auto split: if_splits)

lemma quotes_escaped_take: "quotes_escaped (take (quoted_len s) s)"
  by (induction s rule: quoted_len.induct) (auto simp: take_Cons' split: if_splits)

lemma quoted_len_end:
  "quoted_len s < length s \<Longrightarrow>
     s ! quoted_len s = 34 \<and> (quoted_len s = 0 \<or> s ! (quoted_len s - 1) \<noteq> 92)"
proof (induction s rule: quoted_len.induct)
  case (3 c d s)
  consider (quote) "c = 34" | (escape) "c = 92" "d = 34" | (other) "c \<noteq> 34" "\<not> (c = 92 \<and> d = 34)" by auto
  then show ?case
  proof cases
    case escape
    then have "quoted_len (c # d # s) = Suc (Suc (quoted_len s))" by simp
    moreover have "s ! quoted_len s = 34 \<and> (quoted_len s = 0 \<or> s ! (quoted_len s - 1) \<noteq> 92)"
      using 3 escape by simp
    ultimately show ?thesis using escape by (cases "quoted_len s") auto
  next
    case other
    then have q: "quoted_len (c # d # s) = Suc (quoted_len (d # s))" by auto
    moreover have IH: "(d # s) ! quoted_len (d # s) = 34 \<and> (quoted_len (d # s) = 0 \<or> (d # s) ! (quoted_len (d # s) - 1) \<noteq> 92)"
      using 3(2,3) other q by simp
    show ?thesis
    proof (cases "quoted_len (d # s)")
      case 0
      then have "d = 34" using IH by simp
      then show ?thesis using other q IH 0 by simp
    qed (use IH q in simp)
  qed simp
qed (auto split: if_splits)

text \<open>Every line is white space and words.\<close>

lemma line_words: "s = [] \<or> \<not> isspace (hd s) \<Longrightarrow> \<exists>ws. line_ok ws \<and> s = typed_line ws"
proof (induction s rule: length_induct)
  case (1 s)
  have IH: "\<exists>ws. line_ok ws \<and> dropWhile isspace r = typed_line ws" if "length r < length s" for r
  proof -
    have "length (dropWhile isspace r) < length s" using that length_dropWhile_isspace [of r] by linarith
    moreover have "dropWhile isspace r = [] \<or> \<not> isspace (hd (dropWhile isspace r))" using hd_dropWhile by blast
    ultimately show ?thesis using 1 by blast
  qed
  show ?case
  proof (cases s)
    case Nil
    then show ?thesis by (intro exI [of _ "[]"]) simp
  next
    case (Cons c t)
    show ?thesis
    proof (cases "c = 34")
      case True
      let ?q = "quoted_len t"
      show ?thesis
      proof (cases "?q < length t")
        case lt: True
        obtain r where t: "t = take ?q t @ 34 # r"
          using id_take_nth_drop [OF lt] quoted_len_end [OF lt] by metis
        have "length t = ?q + length (34 # r)" using arg_cong [OF t, of length] lt by simp
        then obtain ws where ws: "line_ok ws" "dropWhile isspace r = typed_line ws" using IH [of r] Cons by auto
        have "take ?q t = [] \<or> last (take ?q t) \<noteq> 92"
          using quoted_len_end [OF lt] lt by (auto simp: last_conv_nth min_def)
        then have "line_ok ((Quoted (take ?q t), takeWhile isspace r) # ws)"
          using ws(1) quotes_escaped_take [of t] by (auto dest: set_takeWhileD)
        moreover have "s = typed_line ((Quoted (take ?q t), takeWhile isspace r) # ws)"
          using Cons True t ws(2) by (metis append_Cons append_Nil append_assoc show_word.simps(2) takeWhile_dropWhile_id
              typed_line_simps(2))
        ultimately show ?thesis by blast
      next
        case False
        then have "line_ok [(Unclosed t, [])]" using quotes_escaped_take [of t] by simp
        then show ?thesis using Cons True by (intro exI [of _ "[(Unclosed t, [])]"]) simp
      qed
    next
      case False
      let ?w = "takeWhile (\<lambda>c. \<not> isspace c) s" and ?r = "dropWhile (\<lambda>c. \<not> isspace c) s"
      have w: "?w \<noteq> []" "hd ?w = c" using 1(2) Cons by auto
      then have "length ?r < length s"
        using arg_cong [OF takeWhile_dropWhile_id [of "\<lambda>c. \<not> isspace c" s], of length] by (cases ?w) auto
      then obtain ws where ws: "line_ok ws" "dropWhile isspace ?r = typed_line ws" using IH [of ?r] by auto
      have "ws \<noteq> [] \<longrightarrow> takeWhile isspace ?r \<noteq> []"
      proof
        assume "ws \<noteq> []"
        show "takeWhile isspace ?r \<noteq> []"
        proof (cases ?r)
          case Nil
          have "typed_line ws = []" using ws(2) unfolding Nil by simp
          then show ?thesis using \<open>ws \<noteq> []\<close> ws(1)
            by (cases ws; cases "fst (hd ws)") auto
        next
          case (Cons d u)
          then have "isspace d" using hd_dropWhile [of "\<lambda>c. \<not> isspace c" s] by simp
          then show ?thesis using Cons by simp
        qed
      qed
      then have "line_ok ((Plain ?w, takeWhile isspace ?r) # ws)"
        using ws(1) w False by (auto dest: set_takeWhileD)
      moreover have "s = typed_line ((Plain ?w, takeWhile isspace ?r) # ws)"
        using ws(2) by (metis show_word.simps(1) takeWhile_dropWhile_id typed_line_simps(2))
      ultimately show ?thesis by blast
    qed
  qed
qed

lemma dropWhile_typed_line:
  assumes "line_ok ws" and "\<forall>c \<in> set sep. isspace c"
  shows "dropWhile isspace (sep @ typed_line ws) = typed_line ws"
proof -
  have "dropWhile isspace (typed_line ws) = typed_line ws"
  proof (cases ws)
    case (Cons a us)
    then show ?thesis using assms(1) by (cases a; cases "fst a"; cases "word_text (fst a)") auto
  qed simp
  then show ?thesis using assms(2) by (simp add: dropWhile_append2)
qed

text \<open>The tokens of a typed line are its words.\<close>

lemma tokens_typed_line:
  "line_ok ws \<Longrightarrow> map snd (tokens n off (typed_line ws)) = take n (map (\<lambda>a. word_text (fst a)) ws)"
proof (induction ws arbitrary: n off)
  case Nil
  then show ?case by (cases n) auto
next
  case (Cons a ws)
  obtain w sep where a: "a = (w, sep)" by (cases a)
  have ok: "word_ok w" "\<forall>c \<in> set sep. isspace c" "line_ok ws" using Cons.prems a by auto
  have d: "dropWhile isspace (sep @ typed_line ws) = typed_line ws" by (rule dropWhile_typed_line [OF ok(3,2)])
  show ?case
  proof (cases n)
    case (Suc m)
    have "\<exists>off' i. tokens (Suc m) off (typed_line (a # ws)) = (i, word_text w) # tokens m off' (typed_line ws)"
    proof (cases w)
      case (Plain u)
      have "takeWhile (\<lambda>c. \<not> isspace c) (u @ sep @ typed_line ws) = u"
      proof (cases sep)
        case Nil
        then show ?thesis using Cons.prems a Plain by (cases ws) auto
      next
        case (Cons c cs)
        then show ?thesis using ok Plain by (simp add: takeWhile_append2)
      qed
      moreover have "u \<noteq> []" "hd (u @ sep @ typed_line ws) \<noteq> 34" using ok(1) Plain by auto
      ultimately show ?thesis using a Plain d by (auto simp: Let_def)
    next
      case (Quoted u)
      then have l: "quoted_len (u @ 34 # sep @ typed_line ws) = length u"
        using ok(1) by (intro quoted_len_closed) auto
      then show ?thesis using a Quoted d by (auto simp: Let_def)
    next
      case (Unclosed u)
      then have "sep = []" "ws = []" using Cons.prems a by auto
      then show ?thesis using a Unclosed ok(1) by (auto simp: Let_def quoted_len_unclosed)
    qed
    then show ?thesis using Cons.IH [OF ok(3), of m] Suc a by auto
  qed simp
qed

lemma tokenize_typed_line:
  assumes "\<forall>c \<in> set blanks. isspace c" and "line_ok ws"
  shows "map snd (tokenize (blanks @ typed_line ws)) = take 10 (map (\<lambda>a. word_text (fst a)) ws)"
  using tokens_typed_line [OF assms(2)] dropWhile_typed_line [OF assms(2,1)]
  by (simp add: tokenize_def Let_def MAX_ARG_def)

text \<open>Arguments printed in quotes or plain, each with a blank behind it.\<close>

fun show_arg :: "bool \<times> cstring \<Rightarrow> cstring" where
  "show_arg (q, w) = (if q then [34] @ w @ [34] else w)"

fun arg_ok :: "bool \<times> cstring \<Rightarrow> bool" where
  "arg_ok (q, w) \<longleftrightarrow>
     (if q then 34 \<notin> set w \<and> (w = [] \<or> last w \<noteq> 92)
      else w \<noteq> [] \<and> hd w \<noteq> 34 \<and> (\<forall>c \<in> set w. \<not> isspace c))"

definition show_line :: "(bool \<times> cstring) list \<Rightarrow> cstring" where
  "show_line args = concat (map (\<lambda>a. show_arg a @ [32]) args) @ [10]"

lemma show_line_simps [simp]:
  "show_line [] = [10]" "show_line (a # args) = show_arg a @ 32 # show_line args"
  by (simp_all add: show_line_def)

lemma quotes_escaped_none: "34 \<notin> set w \<Longrightarrow> quotes_escaped w"
  by (induction w rule: quotes_escaped.induct) auto

lemma show_line_typed:
  "\<forall>a \<in> set args. arg_ok a \<Longrightarrow> args \<noteq> [] \<Longrightarrow>
     \<exists>ws. line_ok ws \<and> show_line args = typed_line ws \<and> map (\<lambda>a. word_text (fst a)) ws = map snd args"
proof (induction args)
  case (Cons a args)
  obtain q w where a: "a = (q, w)" by (cases a)
  define u where "u = (if q then Quoted w else Plain w)"
  have u: "word_ok u" "show_word u = show_arg a" "word_text u = w" "u = Plain w \<or> u = Quoted w"
    using Cons.prems a by (auto simp: u_def quotes_escaped_none)
  show ?case
  proof (cases "args = []")
    case True
    then show ?thesis using u a by (intro exI [of _ "[(u, [32, 10])]"]) (auto split: word_typed.split)
  next
    case False
    then obtain ws where "line_ok ws" "show_line args = typed_line ws" "map (\<lambda>a. word_text (fst a)) ws = map snd args"
      using Cons by auto
    then show ?thesis using u a by (intro exI [of _ "(u, [32]) # ws"]) (auto split: word_typed.split)
  qed
qed simp

lemma tokenize_line:
  assumes "\<forall>a \<in> set args. arg_ok a" "args \<noteq> []"
  shows "map snd (tokenize (show_line args)) = take 10 (map snd args)"
  using show_line_typed [OF assms] tokenize_typed_line [of "[]"] by fastforce

section \<open>Commands\<close>

definition abbreviates :: "cstring \<Rightarrow> cstring \<Rightarrow> bool" where
  "abbreviates a0 name \<longleftrightarrow> map tolower a0 = take (length a0) (map tolower name)"

lemma strnicmp_abbreviates:
  "is_cstring a0 \<Longrightarrow> is_cstring name \<Longrightarrow> strnicmp name a0 (length a0) = 0 \<longleftrightarrow> abbreviates a0 name"
  using strnicmp_eq_0_iff [of name a0 "length a0"] by (auto simp: abbreviates_def)

lemma find_cmd_filter:
  assumes "is_cstring a0" and "\<forall>(name, c, h) \<in> set cs. is_cstring name \<and> c \<noteq> CMD_NONE"
  shows "find_cmd a0 cs cmd =
    (case filter (\<lambda>e. abbreviates a0 (fst e)) cs of
       [] \<Rightarrow> Some cmd
     | [(name, c, h)] \<Rightarrow> if cmd = CMD_NONE then Some c else None
     | _ \<Rightarrow> None)"
  using assms(2)
proof (induction cs arbitrary: cmd)
  case (Cons e cs)
  obtain name c h where e: "e = (name, c, h)" by (cases e)
  have "strnicmp name a0 (length a0) = 0 \<longleftrightarrow> abbreviates a0 name"
    using strnicmp_abbreviates [OF assms(1)] Cons.prems e by auto
  then show ?case using Cons.IH [of cmd] Cons.IH [of c] Cons.prems e by (auto split: list.splits)
qed simp

lemma cmd_list_ok: "\<forall>(name, c, h) \<in> set cmd_list. is_cstring name \<and> c \<noteq> CMD_NONE"
  by (simp add: cmd_list_def is_cstring_str)

text \<open>The names are in lower case, and none begins another.\<close>

definition cmd_names :: "string list" where
  "cmd_names = [''?'', ''!'', ''^'', ''accept'', ''bye'', ''cd'', ''close'', ''cmd'', ''connect'', ''delete'',
     ''disconnect'', ''drop'', ''exit'', ''help'', ''lcd'', ''list'', ''login'', ''logout'', ''offer'', ''open'',
     ''peerlist'', ''ping'', ''pwd'', ''quit'', ''register'', ''remove'', ''sh'', ''who'']"

lemma cmd_list_names: "map fst cmd_list = map str cmd_names"
  by (simp add: cmd_list_def cmd_names_def)

lemma cmd_names_lower: "\<forall>n \<in> set cmd_names. map tolower (str n) = str n"
  by (simp add: cmd_names_def str_def tolower_def)

lemma cmd_names_prefix_free: "\<forall>n \<in> set cmd_names. filter (\<lambda>m. take (length n) m = n) cmd_names = [n]"
  by code_simp

lemma find_cmd_full_name:
  assumes e: "(name, c, h) \<in> set cmd_list" and a0: "is_cstring a0" "map tolower a0 = name"
  shows "find_cmd a0 cmd_list CMD_NONE = Some c"
proof -
  obtain n where n: "n \<in> set cmd_names" "name = str n"
    using e cmd_list_names by (metis fst_conv image_eqI list.set_map imageE)
  have ab: "abbreviates a0 (str m) \<longleftrightarrow> take (length n) m = n" if "m \<in> set cmd_names" for m
  proof -
    have "length a0 = length n" using a0(2) n(2) by (metis length_map length_str)
    then have "abbreviates a0 (str m) \<longleftrightarrow> str n = take (length n) (map tolower (str m))"
      using a0(2) n(2) by (simp only: abbreviates_def)
    also have "map tolower (str m) = str m" using cmd_names_lower that by blast
    also have "take (length n) (str m) = str (take (length n) m)" by (simp add: str_def take_map)
    also have "str n = str (take (length n) m) \<longleftrightarrow> take (length n) m = n" by (metis str_eq_iff)
    finally show ?thesis .
  qed
  have "map fst (filter (\<lambda>e. abbreviates a0 (fst e)) cmd_list) = filter (abbreviates a0) (map str cmd_names)"
    unfolding cmd_list_names [symmetric] by (simp add: filter_map o_def)
  also have "\<dots> = map str (filter (\<lambda>m. abbreviates a0 (str m)) cmd_names)" by (simp add: filter_map o_def)
  also have "filter (\<lambda>m. abbreviates a0 (str m)) cmd_names = filter (\<lambda>m. take (length n) m = n) cmd_names"
    using ab by (intro filter_cong) auto
  also have "\<dots> = [n]" using cmd_names_prefix_free n(1) by blast
  finally have "map fst (filter (\<lambda>e. abbreviates a0 (fst e)) cmd_list) = [name]" using n(2) by simp
  then obtain e' where f: "filter (\<lambda>e. abbreviates a0 (fst e)) cmd_list = [e']" by (cases "filter (\<lambda>e. abbreviates a0 (fst e)) cmd_list") auto
  have "abbreviates a0 name" using ab [OF n(1)] n(2) by simp
  then have "(name, c, h) \<in> set (filter (\<lambda>e. abbreviates a0 (fst e)) cmd_list)" using e by simp
  then have "filter (\<lambda>e. abbreviates a0 (fst e)) cmd_list = [(name, c, h)]" using f by simp
  then show ?thesis using find_cmd_filter [OF a0(1) cmd_list_ok] by simp
qed

text \<open>A line that begins with a full name runs the command, with the words of the line as arguments.\<close>

lemma process_line_words:
  assumes args: "\<forall>a \<in> set args. arg_ok a" "args \<noteq> []" "length args \<le> 10"
    and cmd: "(name, c, h) \<in> set cmd_list" "is_cstring (snd (hd args))" "map tolower (snd (hd args)) = name"
  obtains toks where "map snd toks = map snd args"
    and "process_line env (show_line args) s = bindr (run_cmd env c (show_line args) toks s) (\<lambda>res. Inr (cmd_finish res))"
proof -
  let ?toks = "tokenize (show_line args)"
  have w: "map snd ?toks = map snd args" using tokenize_line [OF args(1,2)] args(3) by simp
  then have ne: "?toks \<noteq> []" using args(2) by (cases "?toks") auto
  then have "snd (hd ?toks) = snd (hd args)" using w args(2) by (metis hd_map)
  moreover have "snd (hd args) \<noteq> []" using cmd(1,3) by (auto simp: cmd_list_def str_def)
  moreover have "find_cmd (snd (hd args)) cmd_list CMD_NONE = Some c" by (rule find_cmd_full_name [OF cmd])
  ultimately show ?thesis using that [OF w] ne by (simp add: process_line_def Let_def)
qed

text \<open>The line runs the command its first word abbreviates, with the words as arguments.\<close>

lemma process_typed_line:
  assumes "line = blanks @ typed_line ws" and "\<forall>c \<in> set blanks. isspace c" and "line_ok ws" and line: "is_cstring line"
  defines "args \<equiv> map (\<lambda>a. word_text (fst a)) ws"
  shows "map snd (tokenize line) = take 10 args"
    and "process_line env line s =
      (if args = [] \<or> hd args = [] then Inr (- 1, s)
       else case filter (\<lambda>e. abbreviates (hd args) (fst e)) cmd_list of
          [] \<Rightarrow> bindr (cmd_invalid s) (\<lambda>res. Inr (cmd_finish res))
        | [(name, c, h)] \<Rightarrow> bindr (run_cmd env c line (tokenize line) s) (\<lambda>res. Inr (cmd_finish res))
        | _ \<Rightarrow> Inr (- 1, say PFX_CERR (str ''Ambiguous command'') s))"
proof -
  show t: "map snd (tokenize line) = take 10 args"
    using tokenize_typed_line [OF assms(2,3)] by (simp add: assms(1) args_def)
  show "process_line env line s = (if args = [] \<or> hd args = [] then Inr (- 1, s)
       else case filter (\<lambda>e. abbreviates (hd args) (fst e)) cmd_list of
          [] \<Rightarrow> bindr (cmd_invalid s) (\<lambda>res. Inr (cmd_finish res))
        | [(name, c, h)] \<Rightarrow> bindr (run_cmd env c line (tokenize line) s) (\<lambda>res. Inr (cmd_finish res))
        | _ \<Rightarrow> Inr (- 1, say PFX_CERR (str ''Ambiguous command'') s))"
  proof (cases "args = []")
    case True
    then show ?thesis using t by (simp add: process_line_def)
  next
    case False
    then have ne: "tokenize line \<noteq> []" using t by (cases "tokenize line") auto
    have hd: "snd (hd (tokenize line)) = hd args" using t ne False by (metis hd_map hd_take zero_less_numeral)
    have "is_cstring (hd args)"
    proof -
      obtain a us where ws: "ws = a # us" using False by (cases ws) (auto simp: args_def)
      have "set (word_text (fst a)) \<subseteq> set line"
        using assms(1) ws by (cases a; cases "fst a") auto
      then show ?thesis using line ws by (auto simp: args_def is_cstring_def)
    qed
    then show ?thesis
      using ne hd False find_cmd_filter [OF _ cmd_list_ok, of "hd args" CMD_NONE]
      by (auto simp: process_line_def Let_def run_cmd_def split: list.split)
  qed
qed

section \<open>The rest of the line\<close>

text \<open>The text of the line from argument \<open>k\<close> to the end of the last one.\<close>

definition text_from :: "cstring \<Rightarrow> (nat \<times> cstring) list \<Rightarrow> nat \<Rightarrow> cstring" where
  "text_from line toks k = take (fst (last toks) + length (snd (last toks)) - fst (toks ! k)) (drop (fst (toks ! k)) line)"

lemma offsets_sorted:
  assumes "sorted_wrt (\<lambda>a b. fst a + length (snd a) \<le> fst b) toks" and "i \<le> j" and "j < length toks"
  shows "fst (toks ! i) \<le> fst (toks ! j)"
  using sorted_wrt_nth_less [OF assms(1), of i j] assms(2,3) by (cases "i = j") auto

lemma arg_rest_tokenize:
  assumes "k < length (tokenize line)"
  shows "arg_rest line (tokenize line) k =
    take (fst (last (tokenize line)) + length (snd (last (tokenize line))) - fst (tokenize line ! k))
      (drop (fst (tokenize line ! k) - fst (hd (tokenize line))) line)"
proof -
  let ?t = "tokenize line"
  have ne: "?t \<noteq> []" using assms by auto
  have "fst (?t ! 0) \<le> fst (?t ! k)" "fst (?t ! k) \<le> fst (?t ! (length ?t - 1))"
    using offsets_sorted [OF tokenize_slices(2)] assms by auto
  then have "fst (hd ?t) \<le> fst (?t ! k)" "fst (?t ! k) \<le> fst (last ?t)"
    using ne by (simp_all add: hd_conv_nth last_conv_nth)
  then show ?thesis by (simp add: arg_rest_def aline_def drop_take)
qed

lemma hex_digits_no_space: "\<forall>c \<in> set (hex_digits n v). \<not> isspace c"
  using hex_digits_xdigit xdigit_Some by blast

end
