(* ===== verification/Client_Offer.thy ===== *)
theory Client_Offer
  imports Client_Transfer Client_Line
begin

text \<open>
  Placing an offer: the command of the offering client, the message it sends, what the client that
  receives it records, and the answer. Together with \<open>Client_Transfer\<close> this covers a file transfer
  from the command to the file.
\<close>

section \<open>The command\<close>

text \<open>The attributes of an offer.\<close>

definition offer_attrs :: "u64 \<Rightarrow> cstring \<Rightarrow> nat \<Rightarrow> attrib list" where
  "offer_attrs oid bn n =
     [u64_av MSG_ATTR_OFFERID oid, (MSG_ATTR_FILENAME, bn @ [0]), u64_av MSG_ATTR_SIZE (of_nat n)]"

lemma length_posix_basename: "s \<noteq> [] \<Longrightarrow> length (posix_basename s) \<le> length s"
proof -
  assume s: "s \<noteq> []"
  let ?t = "dropWhile (\<lambda>c. c = 47) (rev s)"
  have "length (takeWhile (\<lambda>c. c \<noteq> 47) ?t) \<le> length ?t" by (rule length_takeWhile_le)
  also have "\<dots> \<le> length s" using length_dropWhile_le [of _ "rev s"] by simp
  finally show ?thesis using s by (cases s) (auto simp: posix_basename_def Let_def)
qed

lemma posix_basename_cstring: "is_cstring s \<Longrightarrow> is_cstring (posix_basename s)"
  by (auto simp: posix_basename_def is_cstring_def Let_def dest!: set_takeWhileD set_dropWhileD)

text \<open>\<open>can_offer f fn s\<close>: the client is logged in and connected, and the file is there to be read.\<close>

definition can_offer :: "byte list \<Rightarrow> cstring \<Rightarrow> frelay \<Rightarrow> bool" where
  "can_offer f fn s \<longleftrightarrow> fr_st s = ST_AUTH_OK \<and> 0 \<le> fr_srvfd s \<and> fr_queue s = [] \<and>
     fn \<noteq> [] \<and> length fn \<le> 3000 \<and> is_cstring fn \<and> f \<noteq> [] \<and> length f < 2 ^ 63 \<and>
     file_content (x_fs (fr_xfer s)) fn = Some f \<and> \<not> fs_deny (x_fs (fr_xfer s)) fn \<and>
     fd_lowest (x_fs (fr_xfer s)) < fs_maxfd (x_fs (fr_xfer s))"

lemma cmd_offer_ok:
  assumes c: "can_offer f fn s" and now: "0 < ce_now env"
    and toks: "3 \<le> length toks" "arg toks 1 = print_016x dst" "arg toks 2 = fn"
  obtains s' m x oid where "cmd_offer env toks s = Inr (0, Some m, s')" and "offers dst oid f s'"
    and "lists_of s' = lists_of s" and "boff m = 0" and "oid = tr_oid (entry s' 0)"
    and "carries MSG_TYPE_OFFER_REQ 0 dst x (offer_attrs oid (posix_basename fn) (length f)) m"
proof -
  note cd = c [unfolded can_offer_def]
  obtain ino where ino: "fs_names (x_fs (fr_xfer s)) fn = Some ino" "fs_inodes (x_fs (fr_xfer s)) ! ino = f"
    using cd by (auto simp: file_content_def)
  obtain oid x1 where r: "prng_random (transfer_new TTYPE_OFFER (ce_now env) (fr_xfer s)) = (oid, x1)" by fastforce
  have x1: "transfers x1 = transfers (transfer_new TTYPE_OFFER (ce_now env) (fr_xfer s))" "x_fs x1 = x_fs (fr_xfer s)"
    using r by (auto simp: prng_random_def transfer_new_def split: prod.splits)
  define e where "e = (transfers x1 ! 0)\<lparr>tr_rid := dst, tr_oid := oid, tr_name := Some fn, tr_size := of_nat (length f)\<rparr>"
  have new: "offer_new dst fn (ce_now env) (fr_xfer s) = (Some 0, put_transfer 0 e x1)"
    using ino r by (simp add: offer_new_def fsize_def sys_size_def e_def)
  let ?x = "put_transfer 0 e x1"
  have ts: "transfers ?x = e # transfers (fr_xfer s)" using x1 by (simp add: transfer_new_def)
  have e: "tr_type e = TTYPE_OFFER" "tr_rid e = dst" "tr_oid e = oid" "tr_name e = Some fn" "tr_fd e < 0" "0 < tr_tact e"
      "tr_size e = of_nat (length f)"
    using x1 now by (simp_all add: e_def transfer_new_def)
  let ?s = "set_xfer ?x s" and ?bn = "posix_basename fn"
  have bn: "length ?bn \<le> 3000" using length_posix_basename [of fn] cd by simp
  have fits: "40 + length (concat (map tlv_encode (offer_attrs oid ?bn (length f)))) \<le> MSG_MAX_SIZE"
    using ROUNDUP8_less [of "length ?bn + 1"] bn by (simp add: offer_attrs_def length_tlv_encode ROUNDUP8_def)
  have calls: "list_all2 (\<lambda>(at, n, v) a. fst a = at \<and> attr_call at n v = Some (snd a))
      [u64_attr MSG_ATTR_OFFERID oid, str_attr MSG_ATTR_FILENAME ?bn, u64_attr MSG_ATTR_SIZE (of_nat (length f))]
      (offer_attrs oid ?bn (length f))"
    by (simp add: offer_attrs_def u64_attr_def str_attr_def attr_calls)
  obtain m x where rq: "clt_request (ce_ts env) MSG_TYPE_OFFER_REQ dst
      [u64_attr MSG_ATTR_OFFERID oid, str_attr MSG_ATTR_FILENAME ?bn, u64_attr MSG_ATTR_SIZE (of_nat (length f))] ?s
        = Inr (m, snd (clt_random ?s))"
    and m: "carries MSG_TYPE_OFFER_REQ 0 dst x (offer_attrs oid ?bn (length f)) m" "boff m = 0"
    by (rule clt_request_carries [OF calls fits])
  have dest: "fst (strtoull16 (print_016x dst)) = dst"
    using strtoull16_hex16 [of "[]" dst] by (simp add: print_016x_def)
  have run: "cmd_offer env toks s = Inr (0, Some m, snd (clt_random ?s))"
    unfolding cmd_offer_def using toks cd new ts e rq dest by (simp add: cmd_remote_def Let_def)
  have "reads e (x_fs (fr_xfer s)) ino" using e ino cd by (simp add: reads_def)
  then have "offers dst oid f ?s"
    using cd ino ts e x1(2) by (intro offersI [of ?s dst oid 0 e "x_fs (fr_xfer s)" ino f fn]) simp_all
  then have o: "offers dst oid f (snd (clt_random ?s))" by (simp add: offers_def)
  have "entry (snd (clt_random ?s)) 0 = e" using ts by simp
  then have "oid = tr_oid (entry (snd (clt_random ?s)) 0)" using e by simp
  then show ?thesis using that [OF run o _ m(2) _ m(1)] clt_request_lists [OF rq] by simp
qed

section \<open>The client that receives the offer\<close>

text \<open>
  \<open>can_receive f bn s\<close>: the client is logged in and connected, overwrites files of the same name
  (the default), and there is room for the file; no partial file of an earlier attempt exists.
\<close>

definition can_receive :: "byte list \<Rightarrow> cstring \<Rightarrow> frelay \<Rightarrow> bool" where
  "can_receive f bn s \<longleftrightarrow> fr_st s = ST_AUTH_OK \<and> 0 \<le> fr_srvfd s \<and> fr_queue s = [] \<and> \<not> cf_no_clobber (fr_cfg s) \<and>
     fs_names (x_fs (fr_xfer s)) (part bn) = None \<and> length f \<le> fs_room (x_fs (fr_xfer s)) \<and>
     \<not> fs_deny (x_fs (fr_xfer s)) bn \<and> \<not> fs_deny (x_fs (fr_xfer s)) (part bn) \<and>
     fd_lowest (x_fs (fr_xfer s)) < fs_maxfd (x_fs (fr_xfer s))"

lemma offer_fields_next:
  assumes "mbuf_getnextattrib p = (Some (a, al, av), q)"
  shows "offer_fields nc p dfs = bindr (offer_field nc q a av (fst dfs) (snd dfs)) (offer_fields nc q)"
  using assms by (subst offer_fields.simps) simp

lemma offer_fields_read:
  assumes c: "carries t src dst x (offer_attrs oid bn n) p" and bn: "is_cstring bn"
  shows "offer_fields False (mbuf_resetgetattrib p) (d, fs) =
    Inr (d\<lparr>tr_oid := oid, tr_name := Some bn, tr_partname := Some (part bn), tr_size := of_nat n\<rparr>, fs)"
proof -
  let ?p = "mbuf_resetgetattrib p"
  note c = carries_scan(1,2) [OF c]
  obtain p1 av where p1: "mbuf_getnextattrib ?p = (Some (MSG_ATTR_OFFERID, 8, av), p1)" "attr_scan p1"
      "pending_attrs p1 = [(MSG_ATTR_FILENAME, bn @ [0]), u64_av MSG_ATTR_SIZE (of_nat n)]"
      "bdata p1 = bdata ?p" "take 8 (drop av (bdata ?p)) = be_bytes 8 oid"
    by (rule next_attr [OF c(1) c(2) [unfolded offer_attrs_def]]) simp
  obtain p2 av2 where p2: "mbuf_getnextattrib p1 = (Some (MSG_ATTR_FILENAME, length (bn @ [0]), av2), p2)" "attr_scan p2"
      "pending_attrs p2 = [u64_av MSG_ATTR_SIZE (of_nat n)]"
      "bdata p2 = bdata p1" "take (length (bn @ [0])) (drop av2 (bdata p1)) = bn @ [0]"
    by (rule next_attr [OF p1(2,3)])
  obtain p3 av3 where p3: "mbuf_getnextattrib p2 = (Some (MSG_ATTR_SIZE, 8, av3), p3)" "attr_scan p3"
      "pending_attrs p3 = []" "bdata p3 = bdata p2" "take 8 (drop av3 (bdata p2)) = be_bytes 8 (of_nat n :: u64)"
    by (rule next_attr [OF p2(2,3)]) simp
  have v: "av_u64 p1 av = Inr oid" "av_u64 p3 av3 = Inr (of_nat n)"
    using p1 p3 by (simp_all add: av_u64_value)
  have s: "av_str p2 av2 = Inr bn"
    using av_str_value [of "bn @ [0]" av2 p2] p2(4,5) takeWhile_nonzero [OF bn, of "[]"] by simp
  have "offer_fields False p3 dfs = Inr dfs" for dfs
    using no_next_attr [OF p3(2,3)] by (subst offer_fields.simps) (auto split: prod.splits)
  then show ?thesis
    using p1(1) p2(1) p3(1) v s
    by (simp add: offer_fields_next offer_field_def make_filenames_def msg_attrs)
qed

lemma offer_types [simp]:
  "\<not> MCLASS_IS_RES MSG_TYPE_OFFER_REQ" "MCLASS_IS_RES MSG_TYPE_OFFER_RES"
  "MCLASS_IS_REQ MSG_TYPE_OFFER_REQ" "\<not> MCLASS_IS_REQ MSG_TYPE_OFFER_RES"
  "MCLASS_TO_RES MSG_TYPE_OFFER_REQ = MSG_TYPE_OFFER_RES"
  by (simp_all add: msg_types MCLASS_IS_RES_def MCLASS_IS_REQ_def MCLASS_TO_RES_def MTYPE_GET_CLASS_def MTYPE_CUT_CLASS_def)

lemma switch_offer:
  "HDR_GET_TYPE p = MSG_TYPE_OFFER_REQ \<Longrightarrow> msg_switch env q p s = msg_offer_req env p s"
  "HDR_GET_TYPE p = MSG_TYPE_OFFER_RES \<Longrightarrow> msg_switch env q p s = msg_offer_res env p s"
  by (simp_all add: msg_switch_def msg_types)

lemma posix_basename_not_Nil: "posix_basename s \<noteq> []"
proof -
  let ?t = "dropWhile (\<lambda>c. c = 47) (rev s)"
  have "?t \<noteq> [] \<Longrightarrow> takeWhile (\<lambda>c. c \<noteq> 47) ?t \<noteq> []" using hd_dropWhile [of "\<lambda>c. c = 47" "rev s"] by (cases ?t) auto
  then show ?thesis by (auto simp: posix_basename_def Let_def)
qed

lemma offer_received:
  assumes r: "can_receive f bn s" and f: "f \<noteq> []" "length f < 2 ^ 63" and bn: "bn \<noteq> []" "length bn \<le> 3000" "is_cstring bn"
    and env: "env_ok env" and p: "carries MSG_TYPE_OFFER_REQ src dst x (offer_attrs oid bn (length f)) p"
  obtains s' m where "process_srvmsg env p s = Inr (s'\<lparr>fr_queue := [m]\<rparr>)" and "offered src oid f 0 bn (part bn) s'"
    and "fr_queue s' = []" and "fr_srvfd s' = fr_srvfd s" and "fr_requests s' = fr_requests s"
    and "carries MSG_TYPE_OFFER_RES 0 src x [u64_av MSG_ATTR_OFFERID oid, (MSG_ATTR_OK, [])] m"
proof -
  note rd = r [unfolded can_receive_def]
  let ?x = "download_new (me_now env) (fr_xfer s)"
  define d where "d = (transfers ?x ! 0)\<lparr>tr_rid := src, tr_oid := oid, tr_name := Some bn, tr_partname := Some (part bn),
      tr_size := of_nat (length f)\<rparr>"
  have lt: "length f < 2 ^ 64" using f(2) by simp
  have nz: "(of_nat (length f) :: u64) \<noteq> 0"
  proof
    assume "(of_nat (length f) :: u64) = 0"
    then have "length f = 0" using unat_of_nat_u64 [OF lt] by simp
    then show False using f(1) by simp
  qed
  have d: "tr_type d = TTYPE_DOWNLOAD" "tr_rid d = src" "tr_oid d = oid" "tr_name d = Some bn" "tr_partname d = Some (part bn)"
      "tr_size d = of_nat (length f)" "tr_offset d = 0" "tr_fd d = - 1" "tr_tact d = me_now env"
    by (simp_all add: d_def download_new_def transfer_new_def)
  let ?s1 = "set_xfer (put_transfer 0 d ?x) s"
  have e1: "entry ?s1 0 = d" "transfers (fr_xfer ?s1) = d # transfers (fr_xfer s)" "x_fs (fr_xfer ?s1) = x_fs (fr_xfer s)"
    by (simp_all add: entry_def download_new_def transfer_new_def)
  obtain buf where buf: "transfer_itostr (me_iso8601 env) PATH_MAX (Some (fmt_id @ str '' %S'')) (me_now env) d = Inr buf"
    using itostr_ok [OF d(4) bn(2), of "fmt_id @ str '' %S''" PATH_MAX] by (auto simp: PATH_MAX_def)
  let ?s2 = "say PFX_OFFR (buf @ str '' offer received'') ?s1"
  obtain m where rr: "clt_reply (me_ts env) MSG_TYPE_OFFER_RES src x
      [u64_attr MSG_ATTR_OFFERID oid, (MSG_ATTR_OK, 0, VA_NULL)] = Inr m"
    and m: "carries MSG_TYPE_OFFER_RES 0 src x [u64_av MSG_ATTR_OFFERID oid, (MSG_ATTR_OK, [])] m" "boff m = 0"
    by (rule clt_reply_carries [where cs = "[u64_attr MSG_ATTR_OFFERID oid, (MSG_ATTR_OK, 0, VA_NULL)]"
          and as = "[u64_av MSG_ATTR_OFFERID oid, (MSG_ATTR_OK, [])]" and t = MSG_TYPE_OFFER_RES and dst = src and x = x
          and ts = "me_ts env"])
      (simp_all add: u64_attr_def attr_calls length_tlv_encode ROUNDUP8_def)
  note c = carries_scan(3-5) [OF p]
  have "msg_offer_req env (mbuf_resetgetattrib p) s = Inr (SC_OK, Some m, ?s2)"
    unfolding msg_offer_req_def using rd offer_fields_read [OF p bn(3)] nz bn(1) buf rr e1(1) d
    by (simp add: c Let_def d_def say_tr_def say_transfer_def msg_answer_def)
  then have run: "process_srvmsg env p s = Inr (clt_enqueue m (?s2\<lparr>fr_rbuf := None\<rparr>))"
    using p by (simp add: process_request switch_offer c finish_ok carries_def)
  let ?s3 = "?s2\<lparr>fr_rbuf := None\<rparr>"
  have "offered src oid f 0 bn (part bn) ?s3"
    using rd f bn d e1 env
    by (auto simp: offered_def waiting_def env_ok_def entry_def part_def str_def intro!: exI [of _ 0])
  moreover have "clt_enqueue m ?s3 = ?s3\<lparr>fr_queue := [m]\<rparr>"
    using rd m(2) by (simp add: clt_enqueue_def list_enq_def)
  ultimately show ?thesis using that [OF _ _ _ _ _ m(1), of ?s3] run rd by simp
qed
section \<open>The answer to the offer\<close>

lemma transfer_match_oid:
  assumes "transfer_match ty rid oid now x = (r, x')"
  shows "tr_oid (transfers x' ! j) = tr_oid (transfers x ! j)"
proof (cases "match_list ty rid oid (transfers x)")
  case (Some i)
  have "tr_oid (ts[i := (ts ! i)\<lparr>tr_tact := now\<rparr>] ! j) = tr_oid (ts ! j)" for ts
    by (cases "i = j"; cases "j < length ts") (simp_all add: list_update_beyond)
  then show ?thesis using assms Some by (auto simp: transfer_match_def)
qed (use assms in \<open>simp add: transfer_match_def\<close>)

lemma offer_confirmed:
  assumes off: "offers peer oid f s" and env: "env_ok env"
    and q: "fr_requests s = q # qs" "carries MSG_TYPE_OFFER_REQ src peer x as q"
    and p: "carries MSG_TYPE_OFFER_RES peer dst x [u64_av MSG_ATTR_OFFERID oid, (MSG_ATTR_OK, [])] p"
  obtains s' where "process_srvmsg env p s = Inr s'" and "offers peer oid f s'" and "fr_requests s' = qs"
    and "tr_oid (entry s' 0) = tr_oid (entry s 0)"
proof -
  let ?u = "s\<lparr>fr_requests := qs\<rparr>"
  have "offers peer oid f ?u" using off by (simp add: offers_def entry_def)
  then obtain i x1 where tm: "transfer_match TTYPE_OFFER peer oid (me_now env) (fr_xfer ?u) = (Some i, x1)"
    and o: "offers peer oid f (set_xfer x1 ?u)"
    using offers_match [OF _ env] by metis
  have a: "answers p q" "MCLASS_IS_RES (HDR_GET_TYPE p)" using p q(2) by (simp_all add: carries_def answers_def)
  have st: "fr_st s = ST_AUTH_OK" using off by (simp add: offers_def)
  note c = carries_scan [OF p]
  obtain av p1 where at: "want_attr MSG_ATTR_OFFERID (mbuf_resetgetattrib p) = (Some (8, av), p1)" "av_u64 p1 av = Inr oid"
    by (rule u64_attr_read [OF c(1,2)])
  have "msg_offer_res env (mbuf_resetgetattrib p) ?u = Inr (SC_OK, None, set_xfer x1 ?u)"
    unfolding msg_offer_res_def using at st tm by (simp add: c(4) msg_done_def)
  then have "process_srvmsg env p s = Inr (set_xfer x1 ?u\<lparr>fr_rbuf := None\<rparr>)"
    using process_response [OF a(2) q(1) a(1)] by (simp add: switch_offer c(3) finish_ok)
  moreover have "offers peer oid f (set_xfer x1 ?u\<lparr>fr_rbuf := None\<rparr>)" using o by (simp add: offers_def entry_def)
  ultimately show ?thesis using that transfer_match_oid [OF tm, of 0] by (simp add: entry_def)
qed

section \<open>From the command line\<close>

text \<open>The lines the users type.\<close>

definition offer_line :: "u64 \<Rightarrow> bool \<times> cstring \<Rightarrow> cstring" where
  "offer_line peer path = show_line [(False, str ''offer''), (False, print_016x peer), path]"

definition accept_line :: "u64 \<Rightarrow> u64 \<Rightarrow> cstring" where
  "accept_line peer oid = show_line [(False, str ''accept''), (False, download_id peer oid)]"

lemma hex_arg_ok: "arg_ok (False, print_016x v)"
proof -
  have "print_016x v \<noteq> []" by (auto simp: print_016x_def dest: arg_cong [of _ _ length])
  moreover have "c \<noteq> 34 \<and> \<not> isspace c" if "c \<in> set (print_016x v)" for c
  proof -
    have "xdigit c \<noteq> None" and "\<not> isspace c"
      using that hex_digits_xdigit [of c 16 "unat v"] hex_digits_no_space [of 16 "unat v"]
      by (auto simp: print_016x_def)
    moreover have "xdigit 34 = None" by (simp add: xdigit_def)
    ultimately show ?thesis by metis
  qed
  ultimately show ?thesis by auto
qed

lemma download_id_arg_ok: "arg_ok (False, download_id rid oid)"
  using hex_digits_no_space by (auto simp: download_id_def str_def print_016x_def isspace_def)

lemma finish_enqueue:
  assumes "0 \<le> fr_srvfd s" and "fr_queue s = []" and "boff m = 0"
  shows "cmd_finish (0, Some m, s) = (0, s\<lparr>fr_queue := [m]\<rparr>)"
  using assms by (simp add: cmd_finish_def clt_enqueue_def list_enq_def)

lemma offer_typed:
  assumes c: "can_offer f fn s" and now: "0 < ce_now env" and path: "arg_ok (q, fn)"
  obtains s' m x where "process_line env (offer_line dst (q, fn)) s = Inr (0, s'\<lparr>fr_queue := [m]\<rparr>)"
    and "offers dst (tr_oid (entry s' 0)) f s'" and "lists_of s' = lists_of s"
    and "carries MSG_TYPE_OFFER_REQ 0 dst x (offer_attrs (tr_oid (entry s' 0)) (posix_basename fn) (length f)) m"
proof -
  let ?args = "[(False, str ''offer''), (False, print_016x dst), (q, fn)]"
  have ok: "\<forall>a \<in> set ?args. arg_ok a" using hex_arg_ok path by (simp add: str_def isspace_def)
  have e: "(str ''offer'', CMD_OFFER, str '' peer_id filename'' @ tabs 1 ''place an offer'') \<in> set cmd_list"
    by (simp add: cmd_list_def)
  obtain toks where w: "map snd toks = map snd ?args"
    and run: "process_line env (show_line ?args) s =
      bindr (run_cmd env CMD_OFFER (show_line ?args) toks s) (\<lambda>res. Inr (cmd_finish res))"
    by (rule process_line_words [OF ok _ _ e, where env = env and s = s])
      (simp_all add: is_cstring_def str_def tolower_def)
  have len: "length toks = 3" using arg_cong [OF w, of length] by simp
  have a: "arg toks 1 = print_016x dst" "arg toks 2 = fn"
    using len arg_cong [OF w, of "\<lambda>l. l ! 1"] arg_cong [OF w, of "\<lambda>l. l ! 2"] by (simp_all add: arg_def)
  obtain s' m x oid where o: "cmd_offer env toks s = Inr (0, Some m, s')" "offers dst oid f s'"
      "lists_of s' = lists_of s" "boff m = 0" "oid = tr_oid (entry s' 0)"
      "carries MSG_TYPE_OFFER_REQ 0 dst x (offer_attrs oid (posix_basename fn) (length f)) m"
    by (rule cmd_offer_ok [OF c now _ a]) (use len in simp_all)
  have "process_line env (offer_line dst (q, fn)) s = Inr (cmd_finish (0, Some m, s'))"
    unfolding offer_line_def run by (simp add: run_cmd_def o(1))
  moreover have "cmd_finish (0, Some m, s') = (0, s'\<lparr>fr_queue := [m]\<rparr>)"
    using c o(3,4) by (intro finish_enqueue) (simp_all add: can_offer_def lists_of_def)
  ultimately show ?thesis using that [of m s' x] o by simp
qed

lemma accept_typed:
  assumes o: "offered peer oid f k nm pn s" and now: "0 < ce_now env" and con: "fr_queue s = []" "0 \<le> fr_srvfd s"
  obtains s' m x where "process_line env (accept_line peer oid) s = Inr (0, s'\<lparr>fr_queue := [m]\<rparr>)"
    and "fetches peer oid f k nm pn s'" and "lists_of s' = lists_of s"
    and "carries MSG_TYPE_GETFILE_REQ 0 peer x (part_request oid k (min (length f) 65376)) m"
proof -
  let ?args = "[(False, str ''accept''), (False, download_id peer oid)]"
  have ok: "\<forall>a \<in> set ?args. arg_ok a" using download_id_arg_ok by (simp add: str_def isspace_def)
  have e: "(str ''accept'', CMD_ACCEPT, str '' offer_id'' @ tabs 2 ''accept an offer'') \<in> set cmd_list"
    by (simp add: cmd_list_def)
  obtain toks where w: "map snd toks = map snd ?args"
    and run: "process_line env (show_line ?args) s =
      bindr (run_cmd env CMD_ACCEPT (show_line ?args) toks s) (\<lambda>res. Inr (cmd_finish res))"
    by (rule process_line_words [OF ok _ _ e, where env = env and s = s])
      (simp_all add: is_cstring_def str_def tolower_def)
  have len: "length toks = 2" using arg_cong [OF w, of length] by simp
  have a: "arg toks 1 = download_id peer oid" using len arg_cong [OF w, of "\<lambda>l. l ! 1"] by (simp add: arg_def)
  obtain s' m x where r: "cmd_accept env toks s = Inr (0, Some m, s')" "fetches peer oid f k nm pn s'"
      "lists_of s' = lists_of s" "boff m = 0"
      "carries MSG_TYPE_GETFILE_REQ 0 peer x (part_request oid k (min (length f) 65376)) m"
    by (rule accept_fetches [OF o now _ a]) (use len in simp_all)
  have "process_line env (accept_line peer oid) s = Inr (cmd_finish (0, Some m, s'))"
    unfolding accept_line_def run by (simp add: run_cmd_def r(1))
  moreover have "cmd_finish (0, Some m, s') = (0, s'\<lparr>fr_queue := [m]\<rparr>)"
    using con r(3,4) by (intro finish_enqueue) (simp_all add: lists_of_def)
  ultimately show ?thesis using that [of m s' x] r by simp
qed

section \<open>The dialogue\<close>

text \<open>
  The whole transfer: \<open>a\<close> types the offer, the offer reaches \<open>b\<close> and its answer \<open>a\<close>; \<open>b\<close> types
  \<^verbatim>\<open>accept\<close> with the identification of the offer, and the exchange follows.
\<close>

fun send_file ::
    "('e \<Rightarrow> mbuf \<Rightarrow> 's \<Rightarrow> (mbuf \<times> 's) res) \<Rightarrow> ('e \<Rightarrow> mbuf \<Rightarrow> 's \<Rightarrow> (mbuf \<times> 's) res) \<Rightarrow> u64 \<Rightarrow> u64 \<Rightarrow>
     bool \<times> cstring \<Rightarrow> cmd_env \<times> cmd_env \<Rightarrow> (msg_env \<times> 'e) \<times> (msg_env \<times> 'e) \<Rightarrow>
     ((msg_env \<times> 'e) \<times> (msg_env \<times> 'e)) list \<Rightarrow> frelay \<times> frelay \<times> 's \<Rightarrow> (frelay \<times> frelay \<times> 's) res" where
  "send_file to_a to_b ida idb path (cea, ceb) (ea, eb) es (a, b, s) =
     bindr (process_line cea (offer_line idb path) a) (\<lambda>(_, a).
     bindr (pass_on to_b eb (a, b, s)) (\<lambda>(a, b, s).
     bindr (pass_on to_a ea (b, a, s)) (\<lambda>(b, a, s).
     bindr (process_line ceb (accept_line ida (tr_oid (entry a 0))) b) (\<lambda>(_, b).
     fetch_rounds to_a to_b es (a, b, s)))))"

lemma offered_lists [simp]:
  "offered peer oid f k nm pn (s\<lparr>fr_queue := q\<rparr>) = offered peer oid f k nm pn s"
  by (simp add: offered_def entry_def)

lemma lists_of_iff: "lists_of s' = lists_of s \<longleftrightarrow> fr_queue s' = fr_queue s \<and> fr_requests s' = fr_requests s \<and>
    fr_srvfd s' = fr_srvfd s \<and> fr_cfg s' = fr_cfg s"
  by (simp add: lists_of_def)

lemma set_own_queue: "fr_queue s = q \<Longrightarrow> s\<lparr>fr_queue := q\<rparr> = s"
  by (cases s) simp

context two_way begin

lemma offer_agreed:
  assumes a: "can_offer f fn a" "arg_ok (q, fn)" and b: "can_receive f (posix_basename fn) b"
    and s: "ready s" and cenvs: "0 < ce_now cea" "0 < ce_now ceb" and envs: "env_ok enva" "env_ok envb"
  obtains oid a' b' s' where "send_file to_a to_b ida idb (q, fn) (cea, ceb) ((enva, ea), (envb, eb)) es (a, b, s) =
      fetch_rounds to_a to_b es (a', b', s')" and "ready s'"
    and "exchanging ida idb oid f 0 (posix_basename fn) (part (posix_basename fn)) (a', b')"
    and "fr_requests b' = fr_requests b"
proof -
  let ?bn = "posix_basename fn"
  note ad = a(1) [unfolded can_offer_def] and bd = b [unfolded can_receive_def]
  have bn: "?bn \<noteq> []" "length ?bn \<le> 3000" "is_cstring ?bn"
    using ad length_posix_basename [of fn] posix_basename_not_Nil posix_basename_cstring by auto
  obtain a1 m1 x1 where a1: "process_line cea (offer_line idb (q, fn)) a = Inr (0, a1\<lparr>fr_queue := [m1]\<rparr>)"
      "offers idb (tr_oid (entry a1 0)) f a1" "lists_of a1 = lists_of a"
    and m1: "carries MSG_TYPE_OFFER_REQ 0 idb x1 (offer_attrs (tr_oid (entry a1 0)) ?bn (length f)) m1"
    by (rule offer_typed [OF a(1) cenvs(1) a(2)])
  let ?oid = "tr_oid (entry a1 0)"
  have qa: "fr_queue a1 = []" using a1(2) by (simp add: offers_def)
  let ?a2 = "a1\<lparr>fr_requests := m1 # fr_requests a1\<rparr>"
  have d1: "clt_dequeue (a1\<lparr>fr_queue := [m1]\<rparr>) = Inr ?a2"
    using m1 set_own_queue [OF qa] by (simp add: dequeue_one carries_def)
  obtain b1 m2 where b1: "process_srvmsg envb (relay ida m1) b = Inr (b1\<lparr>fr_queue := [m2]\<rparr>)"
      "offered ida ?oid f 0 ?bn (part ?bn) b1" "fr_queue b1 = []" "fr_srvfd b1 = fr_srvfd b" "fr_requests b1 = fr_requests b"
    and m2: "carries MSG_TYPE_OFFER_RES 0 ida x1 [u64_av MSG_ATTR_OFFERID ?oid, (MSG_ATTR_OK, [])] m2"
    by (rule offer_received [OF b _ _ bn envs(2) relay_carries [OF m1]]) (use ad in simp_all)
  have d2: "clt_dequeue (b1\<lparr>fr_queue := [m2]\<rparr>) = Inr b1"
    using m2 set_own_queue [OF b1(3)] by (simp add: dequeue_one carries_def)
  have o2: "offers idb ?oid f ?a2" using a1(2) by (simp add: offers_def entry_def)
  obtain a3 where a3: "process_srvmsg enva (relay idb m2) ?a2 = Inr a3" "offers idb ?oid f a3"
      "tr_oid (entry a3 0) = tr_oid (entry ?a2 0)"
    by (rule offer_confirmed [OF o2 envs(1) _ m1 relay_carries [OF m2]]) simp_all
  have oid: "tr_oid (entry a3 0) = ?oid"
    using a3(3) by (simp add: entry_def)
  obtain b2 m3 x3 where b2: "process_line ceb (accept_line ida ?oid) b1 = Inr (0, b2\<lparr>fr_queue := [m3]\<rparr>)"
      "fetches ida ?oid f 0 ?bn (part ?bn) b2" "lists_of b2 = lists_of b1"
    and m3: "carries MSG_TYPE_GETFILE_REQ 0 ida x3 (part_request ?oid 0 (min (length f) 65376)) m3"
    by (rule accept_typed [OF b1(2) cenvs(2) b1(3)]) (use b1(4) bd in simp)
  obtain s1 where s1: "pass_on to_b (envb, eb) (a1\<lparr>fr_queue := [m1]\<rparr>, b, s) = Inr (?a2, b1\<lparr>fr_queue := [m2]\<rparr>, s1)" "ready s1"
    by (rule ab.passed_on [OF s m1 _ d1 _ b1(1)]) (simp_all add: peer_types_def)
  obtain s2 where s2: "pass_on to_a (enva, ea) (b1\<lparr>fr_queue := [m2]\<rparr>, ?a2, s1) = Inr (b1, a3, s2)" "ready s2"
    by (rule ba.passed_on [OF s1(2) m2 _ d2 _ a3(1)]) (simp_all add: peer_types_def)
  have "0 < length f" using ad by simp
  then have "exchanging ida idb ?oid f 0 ?bn (part ?bn) (a3, b2\<lparr>fr_queue := [m3]\<rparr>)"
    using a3(2) b2(2) m3 right_size_first [of f 0] unfolding exchanging_def by auto
  moreover have "send_file to_a to_b ida idb (q, fn) (cea, ceb) ((enva, ea), (envb, eb)) es (a, b, s) =
      fetch_rounds to_a to_b es (a3, b2\<lparr>fr_queue := [m3]\<rparr>, s2)"
    using s1(1) s2(1) by (simp add: a1(1) oid b2(1) del: pass_on.simps)
  ultimately show ?thesis using that s2(2) b2(3) b1(5) by (simp add: lists_of_iff)
qed

lemma file_arrives:
  assumes a: "can_offer f fn a" "arg_ok (q, fn)" and b: "can_receive f (posix_basename fn) b"
    and s: "ready s" and cenvs: "0 < ce_now cea" "0 < ce_now ceb" and envs: "env_ok enva" "env_ok envb"
    and es: "\<forall>e \<in> set es. env_ok (fst (fst e)) \<and> env_ok (fst (snd e))" "length es = rounds_needed (length f)"
  shows "\<exists>a' b' s'. send_file to_a to_b ida idb (q, fn) (cea, ceb) ((enva, ea), (envb, eb)) es (a, b, s) =
      Inr (a', b', s') \<and> ready s' \<and>
    file_content (x_fs (fr_xfer b')) (posix_basename fn) = Some f \<and>
    fs_names (x_fs (fr_xfer b')) (part (posix_basename fn)) = None \<and>
    fr_queue a' = [] \<and> fr_queue b' = [] \<and> fr_requests b' = fr_requests b"
proof -
  obtain oid a' b' s' where s: "send_file to_a to_b ida idb (q, fn) (cea, ceb) ((enva, ea), (envb, eb)) es (a, b, s) =
      fetch_rounds to_a to_b es (a', b', s')" "ready s'"
    and ex: "exchanging ida idb oid f 0 (posix_basename fn) (part (posix_basename fn)) (a', b')"
    and r: "fr_requests b' = fr_requests b"
    by (rule offer_agreed [OF a b s cenvs envs])
  show ?thesis unfolding s(1) r [symmetric] using fetch_rounds_complete [OF ex s(2) es(1)] es(2) by auto
qed

end

end
