(* ===== verification/Client_Faults.thy ===== *)
theory Client_Faults
  imports Client_Offer
begin

text \<open>
  Messages of a peer that end the client (src/cltmain.c): the requests that the handlers do not
  check.
\<close>

section \<open>A part that does not fit into a message\<close>

lemma add_all_Die:
  assumes "tlv_msg h [] p" and "attr_call a1 n1 v1 = Some w1" and "attr_call a2 n2 v2 = Some w2"
    and "56 + ROUNDUP8 (length w1) \<le> MSG_MAX_SIZE"
    and "MSG_MAX_SIZE < 56 + ROUNDUP8 (length w1) + ROUNDUP8 (length w2)"
  shows "add_all [(a1, n1, v1), (a2, n2, v2)] p = Inl Die"
proof -
  obtain q where q: "mbuf_addattrib a1 n1 v1 p = Inr q" "tlv_msg h [(a1, w1)] q"
    using add_all_ok [OF assms(1), of "[(a1, n1, v1)]" "[(a1, w1)]"] assms(2,4)
    by (auto simp: length_tlv_encode bindr_Inr_iff)
  have "mbuf_addattrib a2 n2 v2 q = Inl Die"
    by (rule tlv_msg_Die [OF q(2) assms(3)]) (use assms(5) in \<open>simp add: length_tlv_encode\<close>)
  then show ?thesis using q(1) by simp
qed

lemma large_part_Die:
  assumes off: "offers peer oid f s" and env: "env_ok env" "n \<le> me_mem env"
    and p: "carries MSG_TYPE_GETFILE_REQ peer dst x (part_request oid k n) p"
    and n: "65376 < n" "k + n \<le> length f" "length f < 2 ^ 63"
  shows "process_srvmsg env p s = Inl Die"
proof -
  let ?d = "take n (drop k f)"
  have len: "length ?d = n" using n by simp
  obtain i x1 where tm: "transfer_match TTYPE_OFFER peer oid (me_now env) (fr_xfer s) = (Some i, x1)"
    and o1: "offers peer oid f (set_xfer x1 s)"
    and m1: "match_list TTYPE_OFFER peer oid (transfers (fr_xfer (set_xfer x1 s))) = Some i"
    using offers_match [OF off env(1)] by auto
  let ?s1 = "set_xfer x1 s"
  obtain x2 where gd: "getfile_data env i (of_nat k) (of_nat n) ?s1 = Inr ((Some ?d, of_nat (length ?d)), set_xfer x2 ?s1)"
    by (rule offers_read [OF o1 m1, of k n env]) (use n env in auto)
  have w: "unat (of_nat n :: u64) = n" using n by (intro unat_of_nat_u64) simp
  have "add_all [u64_attr MSG_ATTR_OFFERID oid, (MSG_ATTR_DATA, n, VA_BLOB ?d)]
      (composed MSG_TYPE_GETFILE_RES (me_ts env) 0 peer x) = Inl Die"
    unfolding u64_attr_def
    by (rule add_all_Die [OF tlv_msg_composed, where ?w1.0 = "be_bytes 8 oid" and ?w2.0 = ?d])
      (use n len ROUNDUP8_mono [of 65377 n] in \<open>simp_all add: attr_calls ROUNDUP8_def\<close>)
  then have "clt_reply (me_ts env) MSG_TYPE_GETFILE_RES peer x
      [u64_attr MSG_ATTR_OFFERID oid, (MSG_ATTR_DATA, n, VA_BLOB ?d)] = Inl Die"
    using mbuf_compose_eq [of None "me_ts env" MSG_TYPE_GETFILE_RES 0 peer x] by (simp add: clt_reply_def)
  moreover obtain av p1 p2 p3 where rp: "want_attr MSG_ATTR_OFFERID (mbuf_resetgetattrib p) = (Some (8, av), p1)"
      "av_u64 p1 av = Inr oid" "u64_or 0 MSG_ATTR_OFFSET p1 = Inr (of_nat k, p2)"
      "u64_or 0 MSG_ATTR_SIZE p2 = Inr (of_nat n, p3)"
    by (rule part_request_read [OF p])
  moreover note c = carries_scan(3-5) [OF p]
  moreover have st: "fr_st s = ST_AUTH_OK" using off by (simp add: offers_def)
  ultimately have "msg_getfile_req env (mbuf_resetgetattrib p) s = Inl Die"
    unfolding msg_getfile_req_def using tm gd w len by (simp add: msg_answer_def)
  then show ?thesis using p by (simp add: process_request switch_getfile c carries_def)
qed

section \<open>A name that does not fit into the console buffer\<close>

lemma itostr_overflow:
  assumes "tr_name t = Some n" and "sz < length n + 37" and "37 \<le> sz"
  shows "transfer_itostr iso8601 sz (Some (fmt_id @ str '' %S'')) now t = Inl OutOfBounds"
  using assms by (simp add: transfer_itostr_def fmt_id_def quoted_def str_def emit_def itostr_conv_def
      need_str_def print_016x_def split: transfer_type.split)

lemma long_name_overflows:
  assumes st: "fr_st s = ST_AUTH_OK" "\<not> cf_no_clobber (fr_cfg s)"
    and p: "carries MSG_TYPE_OFFER_REQ src dst x (offer_attrs oid bn n) p"
    and bn: "4059 < length bn" "is_cstring bn" and n: "(of_nat n :: u64) \<noteq> 0"
  shows "process_srvmsg env p s = Inl OutOfBounds"
proof -
  let ?x = "download_new (me_now env) (fr_xfer s)"
  define d where "d = (transfers ?x ! 0)\<lparr>tr_rid := src, tr_oid := oid, tr_name := Some bn, tr_partname := Some (part bn),
      tr_size := of_nat n\<rparr>"
  have e: "entry (set_xfer (put_transfer 0 d ?x) s) 0 = d"
    by (simp add: entry_def download_new_def transfer_new_def)
  have "tr_name d = Some bn" by (simp add: d_def)
  then have o: "transfer_itostr (me_iso8601 env) PATH_MAX (Some (fmt_id @ str '' %S'')) (me_now env) d = Inl OutOfBounds"
    using bn(1) by (intro itostr_overflow) (simp_all add: PATH_MAX_def)
  note c = carries_scan(3-5) [OF p]
  have "msg_offer_req env (mbuf_resetgetattrib p) s = Inl OutOfBounds"
    unfolding msg_offer_req_def using st offer_fields_read [OF p bn(2)] n bn(1) o e
    by (auto simp: c Let_def d_def say_tr_def say_transfer_def)
  then show ?thesis using p by (simp add: process_request switch_offer c carries_def)
qed

end
