(* ===== verification/Client_Properties.thy ===== *)
theory Client_Properties
  imports Client_Faults
begin

text \<open>
  Properties of the client (src/cltmain.c): the invariant of its runs, what it does with responses,
  the command line, and the failures a peer can cause.
\<close>

section \<open>Runs\<close>

text \<open>C5: Whatever the user types, the server sends and the clock says, as long as the client runs
  it keeps its invariant: it is connected exactly when its state says so, everything it queues is a
  well-framed message of which only the first may be partly sent, only requests wait for responses,
  the receive buffer is a message being received, every transfer owns its descriptor, and the socket
  is none of them.\<close>

theorem client_run_invariant:
  assumes files: "\<And>fd. fd_kind fs fd \<noteq> Some False"
    and run: "clt_main conf fs seed res les = Inr (True, lu, s)"
  shows "clt_inv s"
proof -
  obtain s0 where s0: "clt_autoconnect res (clt_start conf fs seed) = Inr s0"
    and loop: "clt_main_loop les (0, s0) = Inr (True, lu, s)"
    using run unfolding clt_main_def by blast
  have "clt_inv (clt_start conf fs seed)" using files by (rule clt_start_inv)
  moreover have "fr_st (clt_start conf fs seed) = ST_INVALID" by (simp add: clt_start_def)
  ultimately have "clt_inv s0" using s0 by (rule clt_autoconnect_inv)
  then show ?thesis using loop by (rule clt_main_loop_inv)
qed

definition demo_cfg :: clt_cfg where
  "demo_cfg =
     \<lparr>cf_host = Some (str ''h''), cf_port = Some (str ''1''), cf_select_timeout = 10, cf_msg_timeout = 5,
      cf_resp_timeout = 30, cf_offer_timeout = 300, cf_username = None, cf_pubkey = None,
      cf_privkey = None, cf_no_clobber = True, cf_autoconnect = True, cf_stdin_tty = False,
      cf_stdout_tty = False\<rparr>"

definition demo_fs :: fsys where
  "demo_fs =
     \<lparr>fs_names = (\<lambda>_. None), fs_inodes = [], fs_fds = [Some Reserved, Some Reserved, Some Reserved],
      fs_maxfd = 20, fs_room = 1000, fs_deny = (\<lambda>_. False)\<rparr>"

definition demo_msg_env :: msg_env where
  "demo_msg_env = \<lparr>me_now = 100, me_ts = 7, me_iso8601 = (\<lambda>_. []), me_mem = 100000, me_strerror = []\<rparr>"

definition demo_cmd_env :: "cstring \<Rightarrow> cmd_env" where
  "demo_cmd_env line =
     \<lparr>ce_read = (\<lambda>n. if n < length line then In_Byte (line ! n) else In_Eof), ce_now = 100, ce_ts = 7,
      ce_iso8601 = (\<lambda>_. []), ce_connect = (\<lambda>_ _. Inl []), ce_chdir = (\<lambda>_. Inl []), ce_getcwd = str ''/'',
      ce_cmd = (\<lambda>_. None), ce_fork = - 1, ce_strerror = [], ce_junk = 0\<rparr>"

text \<open>The server closes the connection.\<close>

definition demo_event :: clt_event where
  "demo_event =
     \<lparr>ve_rd = True, ve_wr = False, ve_stdin = False, ve_read = Rd_Data [], ve_write = Wr_Error True,
      ve_junk = (\<lambda>_. 0), ve_msg = demo_msg_env, ve_cmd = demo_cmd_env []\<rparr>"

definition demo_loops :: "clt_loop list" where
  "demo_loops = [\<lparr>vl_now = 5, vl_ts = 7, vl_upkeep_now = 5, vl_select = CS_Ready demo_event\<rparr>]"

theorem client_run_invariant_witness:
  "\<exists>lu s. clt_main demo_cfg demo_fs 1 (Inr ([At_Connected], [])) demo_loops = Inr (True, lu, s) \<and>
     clt_inv s \<and> fr_srvfd s = - 1 \<and> fr_rbuf s \<noteq> None"
proof -
  have "\<exists>lu s. clt_main demo_cfg demo_fs 1 (Inr ([At_Connected], [])) demo_loops = Inr (True, lu, s) \<and>
     fr_srvfd s = - 1 \<and> fr_rbuf s \<noteq> None"
    by (simp add: clt_main_def clt_autoconnect_def clt_start_def demo_cfg_def need_str_def connect_srv_def
        disconnect_srv_def demo_fs_def fd_alloc_def fd_lowest_def fd_put_def demo_loops_def clt_loop_body_def
        clt_upkeep_def clt_select_fds_def demo_event_def handle_srvio_def srv_readable_def read_client_def
        mbuf_new_def lose_server_def str_def)
  moreover have "fd_kind demo_fs fd \<noteq> Some False" for fd
    by (auto simp: fd_kind_def fd_get_def demo_fs_def nth_Cons split: nat.splits)
  ultimately show ?thesis using client_run_invariant by blast
qed
section \<open>Responses\<close>

text \<open>C31: A response is handled only if a request waits for it, that is, one to its sender, with its
  transfer identifier and its type; then exactly the latest such request is taken off the list. A
  response nobody waits for changes nothing. In either case at most one message is queued, and the
  connection stays as it is.\<close>

theorem response_takes_its_request:
  assumes run: "process_srvmsg env p s = Inr s'" and res: "MCLASS_IS_RES (HDR_GET_TYPE p)"
  shows "let waits = (\<lambda>q. HDR_GET_DSTID q = HDR_GET_SRCID p \<and> HDR_GET_TRFID q = HDR_GET_TRFID p \<and>
        MCLASS_TO_RES (HDR_GET_TYPE q) = HDR_GET_TYPE p) in
    (if \<exists>q \<in> set (fr_requests s). waits q then
      \<exists>xs q ys. fr_requests s = xs @ q # ys \<and> fr_requests s' = xs @ ys \<and> waits q \<and>
        (\<forall>x \<in> set xs. \<not> waits x)
    else s' = s\<lparr>fr_rbuf := None\<rparr>) \<and>
    (fr_queue s' = fr_queue s \<or> (\<exists>m. fr_queue s' = fr_queue s @ [m])) \<and> fr_srvfd s' = fr_srvfd s"
  unfolding Let_def answers_def [symmetric]
proof -
  note lists = process_srvmsg_lists [OF run]
  obtain r qs where t: "take_pending p (fr_requests s) = (r, qs)" by fastforce
  have req: "fr_requests s' = qs" using lists(1) res t by simp
  show "(if \<exists>q \<in> set (fr_requests s). answers p q then
      \<exists>xs q ys. fr_requests s = xs @ q # ys \<and> fr_requests s' = xs @ ys \<and> answers p q \<and>
        (\<forall>x \<in> set xs. \<not> answers p x)
    else s' = s\<lparr>fr_rbuf := None\<rparr>) \<and>
    (fr_queue s' = fr_queue s \<or> (\<exists>m. fr_queue s' = fr_queue s @ [m])) \<and> fr_srvfd s' = fr_srvfd s"
  proof (cases r)
    case None
    then have none: "\<forall>q \<in> set (fr_requests s). \<not> answers p q" using t take_pending_None_iff [of p "fr_requests s"] by simp
    then have "s' = s\<lparr>fr_rbuf := None\<rparr>" using process_srvmsg_unsolicited [OF res none] run by simp
    then show ?thesis using none lists by auto
  next
    case (Some q)
    obtain xs ys where "fr_requests s = xs @ q # ys" "qs = xs @ ys" "answers p q" "\<forall>x \<in> set xs. \<not> answers p x"
      using take_pending_Some [OF t [unfolded Some]] .
    then have "\<exists>xs q ys. fr_requests s = xs @ q # ys \<and> fr_requests s' = xs @ ys \<and> answers p q \<and>
        (\<forall>x \<in> set xs. \<not> answers p x)" using req by blast
    moreover have "\<exists>q \<in> set (fr_requests s). answers p q"
      using \<open>fr_requests s = xs @ q # ys\<close> \<open>answers p q\<close> by simp
    ultimately show ?thesis using lists(2,3) by simp
  qed
qed

definition demo_client :: "CLIENT_STATE \<Rightarrow> mbuf list \<Rightarrow> mbuf list \<Rightarrow> transfer_t list \<Rightarrow> fsys \<Rightarrow> frelay" where
  "demo_client st queue requests ts fs =
     \<lparr>fr_cfg = demo_cfg, fr_st = st, fr_srvfd = 4, fr_rbuf = None, fr_queue = queue, fr_requests = requests,
      fr_xfer = \<lparr>transfers = ts, x_fs = fs, x_rng = prng_srandom_r 1\<rparr>, fr_out = []\<rparr>"

definition demo_entry :: "transfer_type \<Rightarrow> u64 \<Rightarrow> u64 \<Rightarrow> u64 \<Rightarrow> int \<Rightarrow> transfer_t" where
  "demo_entry type rid sz off fd =
     \<lparr>tr_type = type, tr_rid = rid, tr_oid = 9, tr_name = Some (str ''f''), tr_partname = Some (str ''f.part''),
      tr_size = sz, tr_offset = off, tr_fd = fd, tr_tstart = 1, tr_tact = 1\<rparr>"

definition demo_peer :: "(cstring \<rightharpoonup> nat) \<Rightarrow> byte list list \<Rightarrow> frelay" where
  "demo_peer names inodes = (demo_client ST_AUTH_OK [] [] [] (demo_fs\<lparr>fs_names := names, fs_inodes := inodes\<rparr>))
     \<lparr>fr_cfg := demo_cfg\<lparr>cf_no_clobber := False\<rparr>\<rparr>"

text \<open>Two logout requests wait, the answer to the first of them arrives.\<close>

theorem response_takes_its_request_witness:
  "let p = composed MSG_TYPE_LOGOUT_RES 7 0 2 5; q = composed MSG_TYPE_LOGOUT_REQ 6 0 0 5;
       s = demo_client ST_PRE_LOGIN [] [composed MSG_TYPE_LOGOUT_REQ 6 0 0 8, q] [] demo_fs
   in \<exists>s'. process_srvmsg demo_msg_env p s = Inr s' \<and>
     fr_requests s' = [composed MSG_TYPE_LOGOUT_REQ 6 0 0 8]"
proof -
  let ?p = "composed MSG_TYPE_LOGOUT_RES 7 0 2 5" and ?q = "composed MSG_TYPE_LOGOUT_REQ 6 0 0 5"
    and ?r = "composed MSG_TYPE_LOGOUT_REQ 6 0 0 8"
  let ?s = "demo_client ST_PRE_LOGIN [] [?r, ?q] [] demo_fs"
  have types: "MCLASS_IS_RES MSG_TYPE_LOGOUT_RES" "MCLASS_TO_RES MSG_TYPE_LOGOUT_REQ = MSG_TYPE_LOGOUT_RES"
    by (simp_all add: msg_types MCLASS_IS_RES_def MCLASS_TO_RES_def MTYPE_GET_CLASS_def MTYPE_CUT_CLASS_def)
  have a: "answers ?p ?q" "\<not> answers ?p ?r" using types by (simp_all add: answers_def)
  obtain s' where run: "process_srvmsg demo_msg_env ?p ?s = Inr s'"
    using a types by (simp add: process_srvmsg_def match_pending_req_def demo_client_def msg_switch_def msg_types
        msg_logout_res_def on_server_ok_def msg_done_def msg_finish_def mbuf_resetgetattrib_def)
  have "xs @ q # ys = [?r, ?q] \<Longrightarrow> answers ?p q \<Longrightarrow> xs @ ys = [?r]" for xs q ys
    using a by (cases xs; cases "tl xs") auto
  moreover have ex: "\<exists>q \<in> set (fr_requests ?s). answers ?p q" using a by (simp add: demo_client_def)
  have "MCLASS_IS_RES (HDR_GET_TYPE ?p)" using types by simp
  from response_takes_its_request [OF run this, unfolded Let_def answers_def [symmetric]] obtain xs q ys
    where "fr_requests ?s = xs @ q # ys" "fr_requests s' = xs @ ys" "answers ?p q"
    unfolding if_P [OF ex] by blast
  moreover have "fr_requests ?s = [?r, ?q]" by (simp add: demo_client_def)
  ultimately have "fr_requests s' = [?r]" by metis
  then show ?thesis unfolding Let_def using run by blast
qed

section \<open>The command line\<close>

text \<open>C16: Every line is white space and words: plain words, words in quotes, in which a backslash
  before a quote stays in the word and keeps the quote from closing it, and at most one word, the
  last, whose quote nothing closes. The command gets the texts of the first ten words, any further
  ones are dropped, and the first word selects the command whose name it abbreviates, whatever its
  case: one that abbreviates several names is refused as ambiguous and one that abbreviates none is
  refused as unknown, with nothing sent. A line without words, or whose first word is an empty pair
  of quotes, does nothing.\<close>

theorem typed_command_runs:
  assumes line: "is_cstring line"
  shows "(\<exists>blanks ws. line = blanks @ typed_line ws \<and> (\<forall>c \<in> set blanks. isspace c) \<and> line_ok ws) \<and>
    (\<forall>blanks ws. line = blanks @ typed_line ws \<longrightarrow> (\<forall>c \<in> set blanks. isspace c) \<longrightarrow> line_ok ws \<longrightarrow>
      (let args = map (\<lambda>a. word_text (fst a)) ws in
        map snd (tokenize line) = take 10 args \<and>
        process_line env line s =
          (if args = [] \<or> hd args = [] then Inr (- 1, s)
           else case filter (\<lambda>e. abbreviates (hd args) (fst e)) cmd_list of
              [] \<Rightarrow> bindr (cmd_invalid s) (\<lambda>res. Inr (cmd_finish res))
            | [(name, c, h)] \<Rightarrow> bindr (run_cmd env c line (tokenize line) s) (\<lambda>res. Inr (cmd_finish res))
            | _ \<Rightarrow> Inr (- 1, say PFX_CERR (str ''Ambiguous command'') s))))"
    (is "?split \<and> (\<forall>blanks ws. ?P blanks ws)")
proof
  have "dropWhile isspace line = [] \<or> \<not> isspace (hd (dropWhile isspace line))" using hd_dropWhile by blast
  then obtain ws where "line_ok ws" "dropWhile isspace line = typed_line ws" using line_words by blast
  then have "line = takeWhile isspace line @ typed_line ws" "\<forall>c \<in> set (takeWhile isspace line). isspace c"
    by (metis takeWhile_dropWhile_id) (auto dest: set_takeWhileD)
  then show ?split using \<open>line_ok ws\<close> by blast
  show "\<forall>blanks ws. ?P blanks ws"
    using process_typed_line [OF _ _ _ line] by (auto simp: Let_def)
qed

theorem typed_command_runs_witness:
  "process_line (demo_cmd_env []) (str ''QUI'' @ [10]) (demo_client ST_AUTH_OK [] [] [] demo_fs) =
     Inr (- 2, (snd (disconnect_srv (demo_client ST_AUTH_OK [] [] [] demo_fs)))\<lparr>fr_st := ST_INVALID\<rparr>) \<and>
   map snd (tokenize ([32] @ str ''LO'' @ [9, 34, 97, 92, 34, 98, 34, 99, 10])) = [str ''LO'', [97, 92, 34, 98], [99]] \<and>
   process_line (demo_cmd_env []) ([32] @ str ''LO'' @ [9, 34, 97, 92, 34, 98, 34, 99, 10])
       (demo_client ST_AUTH_OK [] [] [] demo_fs) =
     Inr (- 1, say PFX_CERR (str ''Ambiguous command'') (demo_client ST_AUTH_OK [] [] [] demo_fs))"
proof -
  let ?s = "demo_client ST_AUTH_OK [] [] [] demo_fs"
  let ?quit = "[(Plain (str ''QUI''), [10])]"
    and ?lo = "[(Plain (str ''LO''), [9]), (Quoted [97, 92, 34, 98], []), (Plain [99], [10])]"
  have f: "filter (\<lambda>e. abbreviates (str ''QUI'') (fst e)) cmd_list = [(str ''quit'', CMD_EXIT, same_as 3 ''exit'')]"
      "filter (\<lambda>e. abbreviates (str ''LO'') (fst e)) cmd_list =
      [(str ''login'', CMD_LOGIN, str '' [user [passwd]]'' @ tabs 1 ''log on to connected server''),
       (str ''logout'', CMD_LOGOUT, tabs 3 ''log off from connected server'')]"
    by (simp_all add: cmd_list_def abbreviates_def str_def tolower_def)
  have ne: "str ''QUI'' \<noteq> []" "str ''LO'' \<noteq> []" by (simp_all add: str_def)
  have c: "is_cstring (str ''QUI'' @ [10])" "is_cstring ([32] @ str ''LO'' @ [9, 34, 97, 92, 34, 98, 34, 99, 10])"
    by (simp_all add: str_def is_cstring_def)
  have "str ''QUI'' @ [10] = [] @ typed_line ?quit" "\<forall>c \<in> set []. isspace c" "line_ok ?quit"
    by (simp_all add: str_def isspace_def)
  from typed_command_runs [OF c(1), of "demo_cmd_env []" ?s, THEN conjunct2, rule_format, OF this(1) _ this(3)]
  have quit: "process_line (demo_cmd_env []) (str ''QUI'' @ [10]) ?s =
      Inr (- 2, (snd (disconnect_srv ?s))\<lparr>fr_st := ST_INVALID\<rparr>)"
    by (simp add: Let_def f(1) ne run_cmd_def cmd_exit_def cmd_finish_def)
  have "[32] @ str ''LO'' @ [9, 34, 97, 92, 34, 98, 34, 99, 10] = [32] @ typed_line ?lo" "\<forall>c \<in> set [32]. isspace c" "line_ok ?lo"
    by (simp_all add: str_def isspace_def)
  from typed_command_runs [OF c(2), of "demo_cmd_env []" ?s, THEN conjunct2, rule_format, OF this(1) _ this(3)]
  have "map snd (tokenize ([32] @ str ''LO'' @ [9, 34, 97, 92, 34, 98, 34, 99, 10])) = [str ''LO'', [97, 92, 34, 98], [99]]"
    "process_line (demo_cmd_env []) ([32] @ str ''LO'' @ [9, 34, 97, 92, 34, 98, 34, 99, 10]) ?s =
      Inr (- 1, say PFX_CERR (str ''Ambiguous command'') ?s)"
    by (simp_all add: Let_def f(2) ne)
  with quit show ?thesis by blast
qed

text \<open>C38: The text that \<^verbatim>\<open>ping\<close>, \<^verbatim>\<open>cd\<close> and \<^verbatim>\<open>cmd\<close> take from the rest of the line starts too early
  by the offset of the command's first word: the copy it is taken from begins at the start of the line,
  the offset is counted from the first word. It is the text from the argument on exactly when the
  line starts with its first word.\<close>

theorem rest_of_line_shifted:
  assumes "k < length (tokenize line)"
  shows "arg_rest line (tokenize line) k =
      take (fst (last (tokenize line)) + length (snd (last (tokenize line))) - fst (tokenize line ! k))
        (drop (fst (tokenize line ! k) - fst (hd (tokenize line))) line) \<and>
    (fst (hd (tokenize line)) = 0 \<longrightarrow> arg_rest line (tokenize line) k = text_from line (tokenize line) k)"
  using arg_rest_tokenize [OF assms] by (simp add: text_from_def)

theorem rest_of_line_shifted_witness:
  "let line = str ''  ping 0 hi'' @ [10]; toks = tokenize line
   in arg_rest line toks 2 = str ''0 '' \<and> text_from line toks 2 = str ''hi''"
proof -
  let ?line = "str ''  ping 0 hi'' @ [10]"
  have t: "tokenize ?line = [(2, str ''ping''), (7, str ''0''), (9, str ''hi'')]"
    by code_simp
  then show ?thesis
    using rest_of_line_shifted [of 2 ?line] unfolding Let_def t by (simp add: text_from_def str_def)
qed

section \<open>What a peer can do\<close>

text \<open>C17: The size a peer asks for in a request for a part of an offered file is not limited: if it
  is more than 65376 octets and the file has that many, the answer does not fit into a message and
  the client exits.\<close>

theorem large_part_request_kills:
  assumes "offers peer oid f s" and "env_ok env" and "n \<le> me_mem env"
    and "carries MSG_TYPE_GETFILE_REQ peer dst x (part_request oid k n) p"
    and "65376 < n" and "k + n \<le> length f" and "length f < 2 ^ 63"
  shows "process_srvmsg env p s = Inl Die"
  by (rule large_part_Die [OF assms])

theorem large_part_request_kills_witness:
  "\<exists>p. carries MSG_TYPE_GETFILE_REQ 2 1 5 (part_request 9 0 65377) p \<and>
     process_srvmsg demo_msg_env p (demo_client ST_AUTH_OK [] [] [demo_entry TTYPE_OFFER 2 3 0 (- 1)]
       (demo_fs\<lparr>fs_names := [str ''f'' \<mapsto> 0], fs_inodes := [replicate 65377 1]\<rparr>)) = Inl Die"
proof -
  let ?fs = "demo_fs\<lparr>fs_names := [str ''f'' \<mapsto> 0], fs_inodes := [replicate 65377 1]\<rparr>"
  obtain m where "carries MSG_TYPE_GETFILE_REQ 0 1 5 (part_request 9 0 65377) m"
    by (rule clt_reply_carries [where cs = "[u64_attr MSG_ATTR_OFFERID 9, u64_attr MSG_ATTR_OFFSET 0, u64_attr MSG_ATTR_SIZE 65377]"
          and as = "part_request 9 0 65377" and t = MSG_TYPE_GETFILE_REQ and dst = 1 and x = 5 and ts = 7])
      (simp_all add: part_request_def u64_attr_def attr_calls length_tlv_encode ROUNDUP8_def)
  then have p: "carries MSG_TYPE_GETFILE_REQ 2 1 5 (part_request 9 0 65377) (relay 2 m)" by (rule relay_carries)
  have "offers 2 9 (replicate 65377 1) (demo_client ST_AUTH_OK [] [] [demo_entry TTYPE_OFFER 2 3 0 (- 1)] ?fs)"
    by (rule offersI [where i = 0 and ino = 0 and n = "str ''f''", OF _ _ _ refl refl])
      (simp_all add: demo_client_def demo_entry_def entry_def reads_def demo_fs_def fd_lowest_def)
  then show ?thesis
    using p large_part_request_kills [OF _ _ _ p, of "replicate 65377 1" _ demo_msg_env]
    by (auto simp: env_ok_def demo_msg_env_def)
qed

text \<open>C18: The name in an offer of a peer is printed through a buffer of 4096 octets without a check of
  its length: an offer with a name of more than 4059 octets makes the client write beyond the buffer.\<close>

theorem long_offered_name_overflows:
  assumes "fr_st s = ST_AUTH_OK" and "\<not> cf_no_clobber (fr_cfg s)"
    and "carries MSG_TYPE_OFFER_REQ src dst x (offer_attrs oid bn n) p"
    and "4059 < length bn" and "is_cstring bn" and "(of_nat n :: u64) \<noteq> 0"
  shows "process_srvmsg env p s = Inl OutOfBounds"
  by (rule long_name_overflows [OF assms])

theorem long_offered_name_overflows_witness:
  "\<exists>p. carries MSG_TYPE_OFFER_REQ 0 1 5 (offer_attrs 9 (replicate 4060 97) 3) p \<and>
     process_srvmsg demo_msg_env p (demo_peer (\<lambda>_. None) []) = Inl OutOfBounds"
proof -
  let ?n = "replicate 4060 (97 :: byte)"
  obtain p where "carries MSG_TYPE_OFFER_REQ 0 1 5 (offer_attrs 9 ?n 3) p"
    by (rule clt_reply_carries [where cs = "[u64_attr MSG_ATTR_OFFERID 9, str_attr MSG_ATTR_FILENAME ?n, u64_attr MSG_ATTR_SIZE 3]"
          and as = "offer_attrs 9 ?n 3" and t = MSG_TYPE_OFFER_REQ and dst = 1 and x = 5 and ts = 7])
      (simp_all add: offer_attrs_def u64_attr_def str_attr_def attr_calls length_tlv_encode ROUNDUP8_def)
  then show ?thesis
    using long_offered_name_overflows [of "demo_peer (\<lambda>_. None) []" 0 1 5 9 ?n 3 p demo_msg_env]
    by (auto simp: demo_peer_def demo_client_def demo_cfg_def is_cstring_def)
qed

end
