(* ===== verification/Client_Login.thy ===== *)
theory Client_Login
  imports Client_Transfer Client_Line Server_Login Server_Forward
begin

text \<open>
  Logging in, from the command line of the client (src/cltmain.c) through the handlers of the server
  (src/srvmain.c) and back: the login request, the challenge, the digest and the decision.
\<close>

section \<open>The server's turns\<close>

lemma carries_answer:
  assumes "carries t src dst x as p"
  shows "ok_answer ts bs p q \<Longrightarrow> carries (MCLASS_TO_RES t) dst src x bs q"
    and "error_answer ts ec p q \<Longrightarrow> carries (MCLASS_TO_ERR t) dst src x (error_attrs ec) q"
  using assms by (auto simp: ok_answer_def error_answer_def response_of_def error_header_def carries_def
      dest!: carries_tlv_msg)

lemma carries_stamped:
  assumes "carries t src dst x as p"
  shows "carries t (HDR_GET_SRCID (stamped c p)) dst x as (stamped c p)"
  using assms stamped_framed [of p c] stamped_fields [OF mbuf_framed_hdr_ok, of p c] by (simp add: carries_def)

text \<open>The answer leaves the queue.\<close>

lemma served:
  assumes s: "has_session lfd i ss s" and m: "mbuf_framed m"
    and run: "process_msg ts i (set_rbuf i (Some m) s) = Inr (0, s')"
    and q: "cl_queue (clients s' ! i) = [q]" and ses: "pr_sess (proto_of s') i = Some ss'"
  obtains s'' where "serve i i ts m s = Inr (q, s'')" and "has_session lfd i ss' s''" and "proto_of s'' = proto_of s'"
proof -
  note r = has_session_received [OF s m]
  have ok: "msg_ok lfd s'" by (rule process_msg_good(1) [OF r(1,2) run])
  note at = session_at [OF ses]
  obtain s'' where d: "dequeue i s' = Inr s''" "msg_ok lfd s''" "proto_of s'' = proto_of s'" "max_clients s'' = max_clients s'"
      "\<And>k. clients s'' ! k = (if k = i then (clients s' ! i)\<lparr>cl_queue := []\<rparr> else clients s' ! k)"
    by (rule sent [OF ok at(1,2) q]) blast
  have "has_session lfd i ss' s''" using d(2,4,5) at by (simp add: has_session_def in_use_def session_of_def)
  moreover have "serve i i ts m s = Inr (q, s'')" using run d(1) q by (simp add: serve_def)
  ultimately show ?thesis using that d(3) by blast
qed

lemma serve_login:
  assumes s: "has_session lfd i ss s" and st: "ss_st ss = CLT_PRE_LOGIN"
    and m: "carries MSG_TYPE_LOGIN_REQ 0 0 x [(MSG_ATTR_USERNAME, n @ [0])] m" and n: "is_cstring n"
    and u: "udb_map (srv_udb s) n = Some u" "take (length AUTH_KEY_PLAINTEXT) (u_key u) = AUTH_KEY_PLAINTEXT"
  defines "ss' \<equiv> \<lparr>ss_st = CLT_LOGIN_OK, ss_id = u_id u, ss_name = Some n, ss_key = Some (u_key u)\<rparr>"
  obtains q s' where "serve i i ts m s = Inr (q, s')" and "has_session lfd i ss' s'"
    and "proto_of s' = set_sess i (Some ss') (proto_of s)"
    and "carries MSG_TYPE_LOGIN_RES 0 0 x [(MSG_ATTR_CHALLENGE, AUTH_KEY_PLAINTEXT @ [0])] q"
proof -
  have fr: "mbuf_framed m" "HDR_GET_DSTID m = 0" "HDR_GET_TYPE m = MSG_TYPE_LOGIN_REQ"
      "attrs m = (MSG_ATTR_USERNAME, n @ 0 # []) # []"
    using m by (simp_all add: carries_def)
  note r = has_session_received [OF s fr(1)]
  let ?s = "set_rbuf i (Some m) s"
  have pre: "cl_st (clients ?s ! i) = CLT_PRE_LOGIN" using r(3) st by (auto simp: session_of_def)
  have acc: "udb_map (srv_udb ?s) n = Some u" using u(1) by simp
  obtain q s' where run: "process_msg ts i ?s = Inr (0, s')" "cl_queue (clients s' ! i) = [q\<lparr>boff := 0\<rparr>]"
      "ok_answer ts [(MSG_ATTR_CHALLENGE, AUTH_KEY_PLAINTEXT @ [0])] m q"
      "proto_of s' = set_sess i (Some ss') (proto_of s)"
    using login_begins [OF r(1,2) fr(2,3) pre fr(4) n acc, of ts] u(2) r(4) by (auto simp: ss'_def)
  have "pr_sess (proto_of s') i = Some ss'" using run(4) by (simp add: set_sess_def)
  from served [OF s fr(1) run(1,2) this] obtain s'' where
    "serve i i ts m s = Inr (q\<lparr>boff := 0\<rparr>, s'')" "has_session lfd i ss' s''" "proto_of s'' = proto_of s'" .
  moreover have "carries MSG_TYPE_LOGIN_RES 0 0 x [(MSG_ATTR_CHALLENGE, AUTH_KEY_PLAINTEXT @ [0])] q"
    using carries_answer(1) [OF m run(3)] by (simp add: msg_types MCLASS_TO_RES_def MTYPE_CUT_CLASS_def)
  ultimately show ?thesis using that run(4) by simp
qed

lemma serve_digest:
  assumes s: "has_session lfd i ss s" and st: "ss_st ss = CLT_LOGIN_OK" "ss_key ss = Some k" "is_cstring k"
    and m: "carries MSG_TYPE_AUTH_REQ 0 0 x [(MSG_ATTR_DIGEST, n @ [0])] m" and n: "is_cstring n"
  defines "ss' \<equiv> ss\<lparr>ss_st := (if n = k then CLT_AUTH_OK else CLT_PRE_LOGIN)\<rparr>"
  obtains q s' d mt where "serve i i ts m s = Inr (q, s')" and "has_session lfd i ss' s'"
    and "proto_of s' = set_sess i (Some ss') (if n = k then drop_same_id i (ss_id ss) (proto_of s) else proto_of s)"
    and "if n = k then carries MSG_TYPE_AUTH_RES 0 d x (ok_attrs mt) q
         else carries MSG_TYPE_AUTH_ERR 0 d x (error_attrs SC_UNAUTHORIZED) q"
proof -
  have fr: "mbuf_framed m" "HDR_GET_DSTID m = 0" "HDR_GET_TYPE m = MSG_TYPE_AUTH_REQ"
      "attrs m = (MSG_ATTR_DIGEST, n @ 0 # []) # []"
    using m by (simp_all add: carries_def)
  note r = has_session_received [OF s fr(1)]
  let ?s = "set_rbuf i (Some m) s" and ?c = "clients (set_rbuf i (Some m) s) ! i"
  have c: "cl_st ?c = CLT_LOGIN_OK" "cl_key ?c = Some k" "cl_id ?c = ss_id ss"
    using r(3) st by (auto simp: session_of_def)
  note dc = digest_checked [OF r(1,2) fr(2,3) c(1,2) st(3) fr(4) n, of ts]
  note cs = carries_stamped [OF m, of ?c]
  show ?thesis
  proof (cases "n = k")
    case True
    obtain s' mt q where run: "process_msg ts i ?s = Inr (0, s')" "motd_text ?s = Inr mt"
        "ok_answer ts (ok_attrs mt) (stamped ?c m) q" "cl_queue (clients s' ! i) = cl_queue ?c @ [q\<lparr>boff := 0\<rparr>]"
        "proto_of s' = set_sess i (Some (session_of ?c\<lparr>ss_st := CLT_AUTH_OK\<rparr>)) (drop_same_id i (cl_id ?c) (proto_of ?s))"
      using dc [unfolded if_P [OF True]] by blast
    have p: "proto_of s' = set_sess i (Some ss') (drop_same_id i (ss_id ss) (proto_of s))"
      using run(5) unfolding r(3) c(3) by (simp add: ss'_def True)
    then have "pr_sess (proto_of s') i = Some ss'" by (simp add: set_sess_def)
    moreover have "cl_queue (clients s' ! i) = [q\<lparr>boff := 0\<rparr>]" using run(4) unfolding r(4) by simp
    ultimately obtain s'' where "serve i i ts m s = Inr (q\<lparr>boff := 0\<rparr>, s'')" "has_session lfd i ss' s''" "proto_of s'' = proto_of s'"
      using served [OF s fr(1) run(1)] by metis
    moreover have "carries MSG_TYPE_AUTH_RES 0 (HDR_GET_SRCID (stamped ?c m)) x (ok_attrs mt) q"
      using carries_answer(1) [OF cs run(3)] by (simp add: msg_types MCLASS_TO_RES_def MTYPE_CUT_CLASS_def)
    ultimately show ?thesis using that [of "q\<lparr>boff := 0\<rparr>" s''] p True by simp
  next
    case False
    obtain q where run: "process_msg ts i ?s = Inr (0, answered i q (upd_client i (cl_st_update (\<lambda>_. CLT_PRE_LOGIN)) ?s))"
        "error_answer ts SC_UNAUTHORIZED (stamped ?c m) q"
      using dc [unfolded if_not_P [OF False]] by blast
    let ?t = "upd_client i (cl_st_update (\<lambda>_. CLT_PRE_LOGIN)) ?s"
    have i: "i < max_clients ?s" "in_use ?c" "i < length (clients ?s)" using receivedD [OF r(2)] by simp_all
    have ss': "session_of (cl_st_update (\<lambda>_. CLT_PRE_LOGIN) ?c) = ss'"
      using r(3) by (auto simp: ss'_def False session_of_def)
    have p: "proto_of (answered i q ?t) = set_sess i (Some ss') (proto_of s)"
      using ss' proto_of_upd [OF i(1,2), of "cl_st_update (\<lambda>_. CLT_PRE_LOGIN)"] by simp
    then have "pr_sess (proto_of (answered i q ?t)) i = Some ss'" by (simp add: set_sess_def)
    moreover have "cl_queue (clients (answered i q ?t) ! i) = [q\<lparr>boff := 0\<rparr>]"
      using answered_fields(1) [of i ?t q] i r(4) by (simp add: max_clients_def)
    ultimately obtain s'' where "serve i i ts m s = Inr (q\<lparr>boff := 0\<rparr>, s'')" "has_session lfd i ss' s''"
        "proto_of s'' = proto_of (answered i q ?t)"
      using served [OF s fr(1) run(1)] by metis
    moreover have "carries MSG_TYPE_AUTH_ERR 0 (HDR_GET_SRCID (stamped ?c m)) x (error_attrs SC_UNAUTHORIZED) q"
      using carries_answer(2) [OF cs run(2)] by (simp add: msg_types MCLASS_TO_ERR_def MTYPE_CUT_CLASS_def)
    ultimately show ?thesis using that [of "q\<lparr>boff := 0\<rparr>" s''] p False by simp
  qed
qed

section \<open>The client's turns\<close>

lemma av_str_read:
  assumes "take (length v) (drop av (bdata p)) = v" and "0 \<in> set v"
  shows "\<exists>t. av_str p av = Inr t"
  using av_str_value [OF assms] by blast

lemma say_notice_hit:
  assumes "attr_scan p" and "pending_attrs p = (MSG_ATTR_NOTICE, v) # as" and "0 \<in> set v"
  obtains s' where "say_notice p s = Inr s'" and "lists_of s' = lists_of s" and "fr_st s' = fr_st s"
    and "fr_cfg s' = fr_cfg s"
proof -
  obtain q av where w: "want_attr MSG_ATTR_NOTICE p = (Some (length v, av), q)" "bdata q = bdata p"
      "take (length v) (drop av (bdata p)) = v"
    using want_attr_hit [OF assms(1,2)] by metis
  obtain t where "av_str q av = Inr t" using av_str_read [of v av q] w assms(3) by auto
  then show ?thesis using that w(1) by (simp add: say_notice_def str_if_def lists_of_def)
qed

lemma say_notice_none:
  assumes "attr_scan p" and "pending_attrs p = []"
  shows "say_notice p s = Inr s"
  using no_next_attr [OF assms] by (auto simp: say_notice_def str_if_def want_attr_def split: prod.splits option.splits)

lemma has_prefix_self: "take (length k) bs = k \<Longrightarrow> has_prefix bs k = Inr True"
proof (induction k arbitrary: bs)
  case (Cons c k)
  then show ?case by (cases bs) auto
qed simp

lemma login_types [simp]:
  "MCLASS_IS_RES MSG_TYPE_LOGIN_RES" "MCLASS_IS_RES MSG_TYPE_AUTH_RES" "\<not> MCLASS_IS_RES MSG_TYPE_AUTH_ERR"
  "MCLASS_IS_REQ MSG_TYPE_LOGIN_REQ" "MCLASS_IS_REQ MSG_TYPE_AUTH_REQ" "MCLASS_IS_ERR MSG_TYPE_AUTH_ERR"
  "MCLASS_TO_RES MSG_TYPE_LOGIN_REQ = MSG_TYPE_LOGIN_RES" "MCLASS_TO_RES MSG_TYPE_AUTH_REQ = MSG_TYPE_AUTH_RES"
  by (simp_all add: msg_types MCLASS_IS_RES_def MCLASS_IS_REQ_def MCLASS_IS_ERR_def MCLASS_TO_RES_def
      MTYPE_GET_CLASS_def MTYPE_CUT_CLASS_def)

lemma switch_login:
  "HDR_GET_TYPE p = MSG_TYPE_LOGIN_RES \<Longrightarrow> msg_switch env q p s = msg_login_res env p s"
  "HDR_GET_TYPE p = MSG_TYPE_AUTH_RES \<Longrightarrow> msg_switch env q p s = msg_auth_res p s"
  "HDR_GET_TYPE p = MSG_TYPE_AUTH_ERR \<Longrightarrow> msg_switch env q p s = msg_auth_err p s"
  by (simp_all add: msg_switch_def msg_types)

text \<open>The challenge is answered with the stored password.\<close>

lemma challenge_answered:
  assumes s: "fr_st s = ST_PRE_LOGIN" "fr_queue s = []" "fr_requests s = r # rs" "cf_pubkey (fr_cfg s) = Some pw"
    and pw: "length pw \<le> 3000"
    and r: "carries MSG_TYPE_LOGIN_REQ src 0 x as r"
    and p: "carries MSG_TYPE_LOGIN_RES 0 d x [(MSG_ATTR_CHALLENGE, AUTH_KEY_PLAINTEXT @ [0])] p"
  obtains s' m where "process_srvmsg env p s = Inr (s'\<lparr>fr_queue := [m]\<rparr>)" and "fr_st s' = ST_LOGIN_OK"
    and "fr_queue s' = []" and "fr_requests s' = rs"
    and "carries MSG_TYPE_AUTH_REQ 0 0 x [(MSG_ATTR_DIGEST, (AUTH_KEY_PLAINTEXT @ pw) @ [0])] m"
proof -
  let ?u = "s\<lparr>fr_requests := rs\<rparr>" and ?p = "mbuf_resetgetattrib p" and ?ch = "AUTH_KEY_PLAINTEXT @ [0]"
  note c = carries_scan [OF p]
  have a: "answers p r" "MCLASS_IS_RES (HDR_GET_TYPE p)" using p r by (simp_all add: carries_def answers_def)
  obtain q av where g: "mbuf_getnextattrib ?p = (Some (MSG_ATTR_CHALLENGE, length ?ch, av), q)" "attr_scan q"
      "pending_attrs q = []" "bdata q = bdata ?p" "take (length ?ch) (drop av (bdata ?p)) = ?ch"
    by (rule next_attr [OF c(1,2)])
  let ?s1 = "say PFX_IMSG (str ''Login Ok'') ?u"
  have "take (length AUTH_KEY_PLAINTEXT) (drop av (bdata q)) = AUTH_KEY_PLAINTEXT"
    using arg_cong [OF g(5), of "take (length AUTH_KEY_PLAINTEXT)"] g(4) by simp
  then have pre: "has_prefix (drop av (bdata q)) AUTH_KEY_PLAINTEXT = Inr True" by (rule has_prefix_self)
  have len: "length AUTH_KEY_PLAINTEXT = 11" by (simp add: AUTH_KEY_PLAINTEXT_def str_def)
  obtain m where rr: "clt_reply (me_ts env) MSG_TYPE_AUTH_REQ 0 x
      [blob_attr MSG_ATTR_DIGEST ((AUTH_KEY_PLAINTEXT @ pw) @ [0])] = Inr m"
    and m: "carries MSG_TYPE_AUTH_REQ 0 0 x [(MSG_ATTR_DIGEST, (AUTH_KEY_PLAINTEXT @ pw) @ [0])] m" "boff m = 0"
    by (rule clt_reply_carries [where cs = "[blob_attr MSG_ATTR_DIGEST ((AUTH_KEY_PLAINTEXT @ pw) @ [0])]"
          and as = "[(MSG_ATTR_DIGEST, (AUTH_KEY_PLAINTEXT @ pw) @ [0])]" and t = MSG_TYPE_AUTH_REQ and dst = 0 and x = x
          and ts = "me_ts env"])
      (use pw len ROUNDUP8_less [of "12 + length pw"] in \<open>simp_all add: blob_attr_def attr_calls length_tlv_encode\<close>)
  have xq: "HDR_GET_TRFID q = x" using g(4) c(5) by (simp add: HDR_GET_TRFID_def ADDOFF_def)
  let ?s2 = "say PFX_IMSG (str ''Authenticating'') ?s1\<lparr>fr_st := ST_LOGIN_OK\<rparr>"
  have "msg_login_res env ?p ?u = Inr (SC_OK, Some m, ?s2)"
    unfolding msg_login_res_def using s c(4) g(1) pre rr say_notice_none [OF g(2,3)] xq
    by (simp add: answer_challenge_def Let_def msg_answer_def msg_attrs)
  then have "process_srvmsg env p s = Inr (clt_enqueue m (?s2\<lparr>fr_rbuf := None\<rparr>))"
    using process_response [OF a(2) s(3) a(1)] by (simp add: switch_login c(3) finish_ok)
  moreover have "clt_enqueue m (?s2\<lparr>fr_rbuf := None\<rparr>) = ?s2\<lparr>fr_rbuf := None, fr_queue := [m]\<rparr>"
    using s(2) m(2) by (simp add: clt_enqueue_def list_enq_def)
  ultimately show ?thesis using that [of m "?s2\<lparr>fr_rbuf := None\<rparr>"] m(1) s by simp
qed

text \<open>The decision of the server.\<close>

lemma login_accepted:
  assumes s: "fr_st s = ST_LOGIN_OK" "fr_queue s = []" "fr_requests s = r # rs"
    and r: "carries MSG_TYPE_AUTH_REQ src 0 x as r"
    and p: "carries MSG_TYPE_AUTH_RES 0 d x (ok_attrs mt) p"
  obtains s' where "process_srvmsg env p s = Inr s'" and "fr_st s' = ST_AUTH_OK" and "fr_queue s' = []"
    and "fr_requests s' = rs"
proof -
  let ?u = "s\<lparr>fr_requests := rs\<rparr>" and ?p = "mbuf_resetgetattrib p"
  note c = carries_scan [OF p]
  have a: "answers p r" "MCLASS_IS_RES (HDR_GET_TYPE p)" using p r by (simp_all add: carries_def answers_def)
  obtain q av where g: "want_attr MSG_ATTR_OK ?p = (Some (length ([] :: byte list), av), q)" "attr_scan q"
      "pending_attrs q = [(MSG_ATTR_NOTICE, mt @ [0])]"
    by (rule want_attr_hit [OF c(1) c(2) [unfolded ok_attrs_def notice_def]]) simp
  let ?s1 = "say PFX_AUTH (str ''Authenticated'') ?u"
  obtain t where n: "say_notice q ?s1 = Inr t" "lists_of t = lists_of ?s1" "fr_st t = fr_st ?s1"
    by (rule say_notice_hit [OF g(2,3)]) simp
  have "msg_auth_res ?p ?u = Inr (SC_OK, None, t\<lparr>fr_st := ST_AUTH_OK\<rparr>)"
    unfolding msg_auth_res_def on_server_ok_def using s c(4) g(1) n(1) by (simp add: msg_done_def)
  then have "process_srvmsg env p s = Inr (t\<lparr>fr_st := ST_AUTH_OK, fr_rbuf := None\<rparr>)"
    using process_response [OF a(2) s(3) a(1)] by (simp add: switch_login c(3) finish_ok)
  then show ?thesis using that n(2) s by (simp add: lists_of_def)
qed

lemma login_rejected:
  assumes s: "fr_st s = ST_LOGIN_OK" "fr_queue s = []"
    and p: "carries MSG_TYPE_AUTH_ERR 0 d x (error_attrs ec) p"
  obtains s' where "process_srvmsg env p s = Inr s'" and "fr_st s' = ST_PRE_LOGIN" and "fr_queue s' = []"
    and "fr_requests s' = fr_requests s"
proof -
  let ?u = "s\<lparr>fr_st := ST_PRE_LOGIN\<rparr>" and ?p = "mbuf_resetgetattrib p"
  note c = carries_scan [OF p]
  obtain q av where g: "want_attr MSG_ATTR_ERROR ?p = (Some (8, av), q)" "av_u64 q av = Inr ec" "attr_scan q"
      "pending_attrs q = [(MSG_ATTR_NOTICE, sc_msgstr ec @ [0])]" "bdata q = bdata ?p"
    by (rule u64_attr_read [OF c(1) c(2) [unfolded error_attrs_def]])
  obtain q2 av2 where h: "want_attr MSG_ATTR_NOTICE q = (Some (length (sc_msgstr ec @ [0]), av2), q2)"
      "bdata q2 = bdata q" "take (length (sc_msgstr ec @ [0])) (drop av2 (bdata q)) = sc_msgstr ec @ [0]"
    using want_attr_hit [OF g(3,4)] by metis
  obtain t where "av_str q2 av2 = Inr t" using av_str_read [of "sc_msgstr ec @ [0]" av2 q2] h by auto
  then obtain u where o: "msg_other ?p ?u = Inr (SC_OK, None, u)" "lists_of u = lists_of ?u" "fr_st u = fr_st ?u"
    using g(1,2) h(1) c(3) by (simp add: msg_other_def Let_def str_if_def msg_done_def)
  have "process_srvmsg env p s = Inr (u\<lparr>fr_rbuf := None\<rparr>)"
    using o(1) s(1) c(3) p by (simp add: process_request switch_login msg_auth_err_def finish_ok carries_def)
  then show ?thesis using that o(2,3) s by (simp add: lists_of_def)
qed

section \<open>The command\<close>

definition login_line :: "bool \<times> cstring \<Rightarrow> bool \<times> cstring \<Rightarrow> cstring" where
  "login_line user pw = show_line [(False, str ''login''), user, pw]"

lemma login_typed:
  assumes s: "0 \<le> fr_srvfd s" "fr_queue s = []" and args: "arg_ok (qu, n)" "arg_ok (qp, pw)"
    and n: "length n \<le> 3000"
  obtains s' m x where "process_line env (login_line (qu, n) (qp, pw)) s = Inr (0, s'\<lparr>fr_queue := [m]\<rparr>)"
    and "fr_st s' = fr_st s" and "fr_queue s' = []" and "fr_requests s' = fr_requests s"
    and "cf_pubkey (fr_cfg s') = Some pw"
    and "carries MSG_TYPE_LOGIN_REQ 0 0 x [(MSG_ATTR_USERNAME, n @ [0])] m"
proof -
  let ?args = "[(False, str ''login''), (qu, n), (qp, pw)]"
  have ok: "\<forall>a \<in> set ?args. arg_ok a" using args by (simp add: str_def isspace_def)
  have e: "(str ''login'', CMD_LOGIN, str '' [user [passwd]]'' @ tabs 1 ''log on to connected server'') \<in> set cmd_list"
    by (simp add: cmd_list_def)
  obtain toks where w: "map snd toks = map snd ?args"
    and run: "process_line env (show_line ?args) s =
      bindr (run_cmd env CMD_LOGIN (show_line ?args) toks s) (\<lambda>res. Inr (cmd_finish res))"
    by (rule process_line_words [OF ok _ _ e, where env = env and s = s])
      (simp_all add: is_cstring_def str_def tolower_def)
  have len: "length toks = 3" using arg_cong [OF w, of length] by simp
  have a: "arg toks (Suc 0) = n" "arg toks 2 = pw"
    using len arg_cong [OF w, of "\<lambda>l. l ! 1"] arg_cong [OF w, of "\<lambda>l. l ! 2"] by (simp_all add: arg_def)
  let ?s = "s\<lparr>fr_cfg := (fr_cfg s)\<lparr>cf_pubkey := Some pw\<rparr>\<rparr>"
  obtain m x where rq: "clt_request (ce_ts env) MSG_TYPE_LOGIN_REQ 0 [str_attr MSG_ATTR_USERNAME n] ?s
      = Inr (m, snd (clt_random ?s))"
    and m: "carries MSG_TYPE_LOGIN_REQ 0 0 x [(MSG_ATTR_USERNAME, n @ [0])] m" "boff m = 0"
    by (rule clt_request_carries [where cs = "[str_attr MSG_ATTR_USERNAME n]" and as = "[(MSG_ATTR_USERNAME, n @ [0])]"
          and t = MSG_TYPE_LOGIN_REQ and dst = 0 and ts = "ce_ts env" and s = ?s])
      (use n ROUNDUP8_less [of "Suc (length n)"] in \<open>simp_all add: str_attr_def attr_calls length_tlv_encode\<close>)
  have "cmd_login env toks s = Inr (0, Some m, snd (clt_random ?s))"
    unfolding cmd_login_def using len a rq by (simp add: cmd_remote_def)
  then have "process_line env (login_line (qu, n) (qp, pw)) s = Inr (cmd_finish (0, Some m, snd (clt_random ?s)))"
    unfolding login_line_def run by (simp add: run_cmd_def)
  moreover have c: "fr_srvfd (snd (clt_random ?s)) = fr_srvfd s" "fr_cfg (snd (clt_random ?s)) = fr_cfg ?s"
    by (simp_all add: clt_random_def split: prod.splits)
  then have "cmd_finish (0, Some m, snd (clt_random ?s)) = (0, (snd (clt_random ?s))\<lparr>fr_queue := [m]\<rparr>)"
    using s m(2) by (simp add: cmd_finish_def clt_enqueue_def list_enq_def)
  ultimately show ?thesis using that [of m "snd (clt_random ?s)" x] m(1) s c by simp
qed

section \<open>The dialogue\<close>

text \<open>The request at the head of the client's queue reaches the server, its answer the client.\<close>

definition ask_server :: "nat \<Rightarrow> u64 \<Rightarrow> msg_env \<Rightarrow> frelay \<times> server \<Rightarrow> (frelay \<times> server) res" where
  "ask_server i ts env cs =
     (case cs of (c, s) \<Rightarrow>
      bindr (clt_dequeue c) (\<lambda>c'.
      bindr (serve i i ts (hd (fr_queue c)) s) (\<lambda>(q, s').
      bindr (process_srvmsg env q c') (\<lambda>c''. Inr (c'', s')))))"

definition log_in ::
    "nat \<Rightarrow> cmd_env \<Rightarrow> u64 \<times> msg_env \<Rightarrow> u64 \<times> msg_env \<Rightarrow> cstring \<Rightarrow> frelay \<times> server \<Rightarrow> (frelay \<times> server) res" where
  "log_in i cenv e1 e2 line cs =
     bindr (process_line cenv line (fst cs)) (\<lambda>(_, c).
     bindr (ask_server i (fst e1) (snd e1) (c, snd cs)) (ask_server i (fst e2) (snd e2)))"

lemma asked:
  assumes q: "fr_queue c = []" and m: "MCLASS_IS_REQ (HDR_GET_TYPE m)" and srv: "serve i i ts m s = Inr (a, s')"
    and clt: "process_srvmsg env a (c\<lparr>fr_requests := m # fr_requests c\<rparr>) = Inr c'"
  shows "ask_server i ts env (c\<lparr>fr_queue := [m]\<rparr>, s) = Inr (c', s')"
proof -
  have "c\<lparr>fr_queue := [], fr_requests := m # fr_requests c\<rparr> = c\<lparr>fr_requests := m # fr_requests c\<rparr>"
    using q by (cases c) simp
  then show ?thesis using assms by (simp add: ask_server_def dequeue_one)
qed

lemma set_sess_again:
  "set_sess i c (set_sess i c' a) = set_sess i c a"
  "set_sess i c (drop_same_id i d (set_sess i c' a)) = set_sess i c (drop_same_id i d a)"
  by (auto simp: set_sess_def drop_same_id_def fun_eq_iff)

definition challenged :: "udb_t \<Rightarrow> cstring \<Rightarrow> session" where
  "challenged u n = \<lparr>ss_st = CLT_LOGIN_OK, ss_id = u_id u, ss_name = Some n, ss_key = Some (u_key u)\<rparr>"

text \<open>The first exchange brings the challenge and leaves the digest to be sent.\<close>

lemma login_asked:
  assumes c: "fr_st c = ST_PRE_LOGIN" "0 \<le> fr_srvfd c" "fr_queue c = []"
    and s: "has_session lfd i ss s" "ss_st ss = CLT_PRE_LOGIN"
    and args: "arg_ok (qu, n)" "arg_ok (qp, pw)" "length n \<le> 3000" "length pw \<le> 3000" "is_cstring n"
    and acc: "udb_map (srv_udb s) n = Some u" "u_key u = AUTH_KEY_PLAINTEXT @ key"
  obtains c' m s' x where "log_in i cenv e1 e2 (login_line (qu, n) (qp, pw)) (c, s) =
      ask_server i (fst e2) (snd e2) (c'\<lparr>fr_queue := [m]\<rparr>, s')"
    and "fr_st c' = ST_LOGIN_OK" and "fr_queue c' = []" and "has_session lfd i (challenged u n) s'"
    and "proto_of s' = set_sess i (Some (challenged u n)) (proto_of s)"
    and "carries MSG_TYPE_AUTH_REQ 0 0 x [(MSG_ATTR_DIGEST, (AUTH_KEY_PLAINTEXT @ pw) @ [0])] m"
proof -
  obtain c1 m1 x where c1: "process_line cenv (login_line (qu, n) (qp, pw)) c = Inr (0, c1\<lparr>fr_queue := [m1]\<rparr>)"
      "fr_st c1 = fr_st c" "fr_queue c1 = []" "fr_requests c1 = fr_requests c" "cf_pubkey (fr_cfg c1) = Some pw"
    and m1: "carries MSG_TYPE_LOGIN_REQ 0 0 x [(MSG_ATTR_USERNAME, n @ [0])] m1"
    by (rule login_typed [OF c(2,3) args(1-3)])
  have key: "take (length AUTH_KEY_PLAINTEXT) (u_key u) = AUTH_KEY_PLAINTEXT" using acc(2) by simp
  obtain q1 s1 where s1: "serve i i (fst e1) m1 s = Inr (q1, s1)" "has_session lfd i (challenged u n) s1"
      "proto_of s1 = set_sess i (Some (challenged u n)) (proto_of s)"
    and q1: "carries MSG_TYPE_LOGIN_RES 0 0 x [(MSG_ATTR_CHALLENGE, AUTH_KEY_PLAINTEXT @ [0])] q1"
    unfolding challenged_def by (rule serve_login [OF s m1 args(5) acc(1) key])
  let ?c1 = "c1\<lparr>fr_requests := m1 # fr_requests c1\<rparr>"
  obtain c2 m2 where c2: "process_srvmsg (snd e1) q1 ?c1 = Inr (c2\<lparr>fr_queue := [m2]\<rparr>)" "fr_st c2 = ST_LOGIN_OK"
      "fr_queue c2 = []"
    and m2: "carries MSG_TYPE_AUTH_REQ 0 0 x [(MSG_ATTR_DIGEST, (AUTH_KEY_PLAINTEXT @ pw) @ [0])] m2"
    by (rule challenge_answered [of ?c1 m1 "fr_requests c1" pw, OF _ _ _ _ args(4) m1 q1]) (use c1 c in simp_all)
  have "MCLASS_IS_REQ (HDR_GET_TYPE m1)" using m1 by (simp add: carries_def)
  then have "log_in i cenv e1 e2 (login_line (qu, n) (qp, pw)) (c, s) =
      ask_server i (fst e2) (snd e2) (c2\<lparr>fr_queue := [m2]\<rparr>, s1)"
    using asked [OF c1(3) _ s1(1) c2(1)] by (simp add: log_in_def c1(1))
  then show ?thesis using that c2(2,3) s1(2,3) m2 by blast
qed

text \<open>The second exchange decides.\<close>

lemma login_decided:
  assumes c: "fr_st c = ST_LOGIN_OK" "fr_queue c = []"
    and s: "has_session lfd i (challenged u n) s"
    and pw: "is_cstring pw" and acc: "u_key u = AUTH_KEY_PLAINTEXT @ key" "is_cstring key"
    and m: "carries MSG_TYPE_AUTH_REQ 0 0 x [(MSG_ATTR_DIGEST, (AUTH_KEY_PLAINTEXT @ pw) @ [0])] m"
  defines "ss \<equiv> (challenged u n)\<lparr>ss_st := (if pw = key then CLT_AUTH_OK else CLT_PRE_LOGIN)\<rparr>"
  obtains c' s' where "ask_server i ts env (c\<lparr>fr_queue := [m]\<rparr>, s) = Inr (c', s')"
    and "fr_st c' = (if pw = key then ST_AUTH_OK else ST_PRE_LOGIN)" and "fr_queue c' = []"
    and "has_session lfd i ss s'"
    and "proto_of s' = set_sess i (Some ss) (if pw = key then drop_same_id i (u_id u) (proto_of s) else proto_of s)"
proof -
  have k: "is_cstring (u_key u)" "is_cstring (AUTH_KEY_PLAINTEXT @ pw)"
    using acc pw by (auto simp: is_cstring_def AUTH_KEY_PLAINTEXT_def str_def)
  have eq: "AUTH_KEY_PLAINTEXT @ pw = u_key u \<longleftrightarrow> pw = key" using acc(1) by simp
  have st: "ss_st (challenged u n) = CLT_LOGIN_OK" "ss_key (challenged u n) = Some (u_key u)"
    "ss_id (challenged u n) = u_id u" by (simp_all add: challenged_def)
  obtain q s2 d mt where s2: "serve i i ts m s = Inr (q, s2)" "has_session lfd i ss s2"
      "proto_of s2 = set_sess i (Some ss) (if pw = key then drop_same_id i (u_id u) (proto_of s) else proto_of s)"
    and a: "if pw = key then carries MSG_TYPE_AUTH_RES 0 d x (ok_attrs mt) q
         else carries MSG_TYPE_AUTH_ERR 0 d x (error_attrs SC_UNAUTHORIZED) q"
    using serve_digest [OF s st(1,2) k(1) m k(2), of ts, unfolded eq st(3)] unfolding ss_def by metis
  let ?c = "c\<lparr>fr_requests := m # fr_requests c\<rparr>"
  obtain c' where c': "process_srvmsg env q ?c = Inr c'" "fr_queue c' = []"
      "fr_st c' = (if pw = key then ST_AUTH_OK else ST_PRE_LOGIN)"
  proof (cases "pw = key")
    case True
    have b: "carries MSG_TYPE_AUTH_RES 0 d x (ok_attrs mt) q" using a True by simp
    obtain c' where "process_srvmsg env q ?c = Inr c'" "fr_st c' = ST_AUTH_OK" "fr_queue c' = []"
      by (rule login_accepted [of ?c m "fr_requests c", OF _ _ _ m b]) (use c in simp_all)
    then show ?thesis using that True by simp
  next
    case False
    have b: "carries MSG_TYPE_AUTH_ERR 0 d x (error_attrs SC_UNAUTHORIZED) q" using a False by simp
    obtain c' where "process_srvmsg env q ?c = Inr c'" "fr_st c' = ST_PRE_LOGIN" "fr_queue c' = []"
      by (rule login_rejected [of ?c, OF _ _ b]) (use c in simp_all)
    then show ?thesis using that False by simp
  qed
  have "MCLASS_IS_REQ (HDR_GET_TYPE m)" using m by (simp add: carries_def)
  then show ?thesis using that asked [OF c(2) _ s2(1) c'(1)] c'(2,3) s2(2,3) by blast
qed

end
