(* ===== verification/Server_Relay.thy ===== *)
theory Server_Relay
  imports Client_Offer Server_Forward
begin

text \<open>
  The server as what carries the messages of two clients: it provides the interface that the
  exchange of a file between clients relies on, in both directions, and no session changes meanwhile.
\<close>

lemma peer_types_forwardable: "t \<in> peer_types \<Longrightarrow> forwardable t"
  by (auto simp: peer_types_def forwardable_def)

lemma server_carries:
  assumes "peers lfd i j ida idb P s" and "mbuf_framed m" and "HDR_GET_DSTID m = idb" and "HDR_GET_TYPE m \<in> peer_types"
  shows "\<exists>s'. serve i j ts m s = Inr (relay ida m, s') \<and> peers lfd i j ida idb P s'"
  using served_peer [OF assms(1-3) peer_types_forwardable [OF assms(4)], of ts] unfolding relay_def by metis

interpretation one_way: carrier "serve i j" "peers lfd i j ida idb P" ida idb for lfd i j ida idb P
  by unfold_locales (rule server_carries)

interpretation relayed_peers: two_way "serve i j" "serve j i" "peers lfd i j ida idb P" ida idb for lfd i j ida idb P
proof unfold_locales
  fix s m e
  assume "peers lfd i j ida idb P s" "mbuf_framed m" "HDR_GET_DSTID m = ida" "HDR_GET_TYPE m \<in> peer_types"
  then show "\<exists>s'. serve j i e m s = Inr (relay idb m, s') \<and> peers lfd i j ida idb P s'"
    using server_carries [OF peers_sym] peers_sym by metis
qed

end
