(* ===== verification/Config.thy ===== *)
theory Config
  imports Cfgparse Client_IO Server_IO
begin

text \<open>
  How the two programs get their configuration: \<^verbatim>\<open>init_config()\<close> and \<^verbatim>\<open>eval_cmdline()\<close> of
  src/cltmain.c and src/srvmain.c, with the defaults of src/cltcfg.def.h and src/srvcfg.def.h, and
  the socket the server listens on. The configuration variables are the store of \<open>Cfgparse\<close>.
  \<^verbatim>\<open>getopt()\<close> is the one of POSIX, which both files select with \<^verbatim>\<open>_POSIX_C_SOURCE\<close>: it stops at the
  first argument that is not an option.
\<close>

section \<open>Options\<close>

datatype opt_ev = Opt_Char byte "cstring option" | Opt_Stop | Opt_Unknown byte | Opt_Missing byte

text \<open>Whether the string of options has the option, and whether that takes an argument.\<close>

fun opt_kind :: "cstring \<Rightarrow> byte \<Rightarrow> bool option" where
  "opt_kind [] c = None"
| "opt_kind (o1 # os) c =
     (if c = 58 then None else if o1 = c then Some (os \<noteq> [] \<and> hd os = 58) else opt_kind os c)"

text \<open>The option \<open>c\<close> of an argument that goes on with \<open>cl\<close>; \<open>args\<close> are the arguments that follow.\<close>

definition opt_char :: "cstring \<Rightarrow> cstring list \<Rightarrow> byte \<Rightarrow> cstring \<Rightarrow> opt_ev \<times> cstring list \<times> cstring" where
  "opt_char optstr args c cl =
     (case opt_kind optstr c of
        None \<Rightarrow> (Opt_Unknown c, args, cl)
      | Some False \<Rightarrow> (Opt_Char c None, args, cl)
      | Some True \<Rightarrow>
          (if cl \<noteq> [] then (Opt_Char c (Some cl), args, [])
           else case args of
             [] \<Rightarrow> (Opt_Missing c, [], [])
           | a # as \<Rightarrow> (Opt_Char c (Some a), as, [])))"

fun getopt :: "cstring \<Rightarrow> cstring list \<Rightarrow> cstring \<Rightarrow> opt_ev \<times> cstring list \<times> cstring" where
  "getopt optstr args (c # cl) = opt_char optstr args c cl"
| "getopt optstr [] [] = (Opt_Stop, [], [])"
| "getopt optstr (a # as) [] =
     (if a = [45, 45] then (Opt_Stop, as, [])
      else if 2 \<le> length a \<and> hd a = 45 then opt_char optstr as (a ! 1) (drop 2 a)
      else (Opt_Stop, a # as, []))"

text \<open>What is left to scan.\<close>

definition opt_left :: "cstring list \<Rightarrow> cstring \<Rightarrow> nat" where
  "opt_left args cl = length cl + sum_list (map (\<lambda>a. Suc (length a)) args)"

lemma opt_char_less:
  "opt_char optstr args c cl = (e, args', cl') \<Longrightarrow> opt_left args' cl' \<le> opt_left args cl"
  by (auto simp: opt_char_def opt_left_def split: option.splits bool.splits list.splits if_splits)

lemma getopt_less:
  "getopt optstr args cl = (Opt_Char c a, args', cl') \<Longrightarrow> opt_left args' cl' < opt_left args cl"
  "getopt optstr args cl = (Opt_Stop, a' # args', cl') \<Longrightarrow> opt_left args' cl' < opt_left args cl"
proof -
  have "getopt optstr args cl = (e, args', cl') \<Longrightarrow> e \<noteq> Opt_Stop \<Longrightarrow> opt_left args' cl' < opt_left args cl" for e args' cl'
    by (cases "(optstr, args, cl)" rule: getopt.cases)
      (auto simp: opt_left_def dest!: opt_char_less split: if_splits)
  then show "getopt optstr args cl = (Opt_Char c a, args', cl') \<Longrightarrow> opt_left args' cl' < opt_left args cl" by blast
  show "getopt optstr args cl = (Opt_Stop, a' # args', cl') \<Longrightarrow> opt_left args' cl' < opt_left args cl"
    by (cases "(optstr, args, cl)" rule: getopt.cases)
      (auto simp: opt_left_def opt_char_def split: if_splits option.splits bool.splits list.splits)
qed

text \<open>What the programs find: files by name, and the environment. \<open>en_errno\<close> tells whether
  \<^verbatim>\<open>errno\<close> is set after the file has been parsed with an error.\<close>

record conf_env =
  en_creatable :: "cstring \<Rightarrow> bool"
  en_writes :: nat
  en_errno :: "cstring \<Rightarrow> bool"
  en_home :: "cstring option"
  en_user :: "cstring option"
  en_tty :: "nat \<Rightarrow> bool"

datatype 'a run = Exit int | Go 'a

record conf_state =
  co_vars :: cfg_store
  co_files :: "cstring \<Rightarrow> byte list option"
  co_flags :: "cstring \<Rightarrow> bool"

text \<open>\<^verbatim>\<open>free( v ); v = strdup_s( s )\<close>\<close>

definition set_string :: "nat \<Rightarrow> cstring option \<Rightarrow> conf_state \<Rightarrow> conf_state run res" where
  "set_string i oa s =
     bindr (need_str oa) (\<lambda>a. Inr (Go (s\<lparr>co_vars := (co_vars s)[i := CV_STR (Some a)]\<rparr>)))"

text \<open>src/util.c\<close>

definition strdupcat2_s :: "cstring \<Rightarrow> cstring \<Rightarrow> cstring \<Rightarrow> cstring" where
  "strdupcat2_s s1 s2 s3 = s1 @ s2 @ s3"

definition set_flag :: "cstring \<Rightarrow> conf_state \<Rightarrow> conf_state" where
  "set_flag f s = s\<lparr>co_flags := (co_flags s)(f := True)\<rparr>"

definition EXIT_SUCCESS :: int where "EXIT_SUCCESS = 0"
definition EXIT_FAILURE :: int where "EXIT_FAILURE = 1"

section \<open>The client\<close>

definition clt_cfgdef :: "cfg_parse_def_t list" where
  "clt_cfgdef =
    [\<lparr>def_name = str ''host'', def_type = CFG_PARSE_T_STR, def_pvar = 0\<rparr>,
     \<lparr>def_name = str ''port'', def_type = CFG_PARSE_T_STR, def_pvar = 1\<rparr>,
     \<lparr>def_name = str ''select_timeout'', def_type = CFG_PARSE_T_INT, def_pvar = 2\<rparr>,
     \<lparr>def_name = str ''msg_timeout'', def_type = CFG_PARSE_T_INT, def_pvar = 3\<rparr>,
     \<lparr>def_name = str ''res_timeout'', def_type = CFG_PARSE_T_INT, def_pvar = 4\<rparr>,
     \<lparr>def_name = str ''offer_timeout'', def_type = CFG_PARSE_T_INT, def_pvar = 5\<rparr>,
     \<lparr>def_name = str ''username'', def_type = CFG_PARSE_T_STR, def_pvar = 6\<rparr>,
     \<lparr>def_name = str ''pubkey'', def_type = CFG_PARSE_T_STR, def_pvar = 7\<rparr>,
     \<lparr>def_name = str ''privkey'', def_type = CFG_PARSE_T_STR, def_pvar = 8\<rparr>]"

definition clt_defaults :: cfg_store where
  "clt_defaults =
    [CV_STR (Some (str ''localhost'')), CV_STR (Some (str ''64740'')), CV_INT 10, CV_INT 5, CV_INT 30,
     CV_INT 300, CV_STR (Some []), CV_STR (Some []), CV_STR (Some [])]"

definition clt_config_path :: cstring where
  "clt_config_path = str ''.config/frelay/frelayclt.conf''"

definition clt_optstr :: cstring where
  "clt_optstr = str '':c:p:u:w:ahnv''"

definition clt_option :: "conf_env \<Rightarrow> byte \<Rightarrow> cstring option \<Rightarrow> conf_state \<Rightarrow> conf_state run res" where
  "clt_option env c oa s =
     (if c = of_char CHR ''c'' then
        bindr (need_str oa) (\<lambda>fn.
        bindr (cfg_parse_file (co_files s fn) clt_cfgdef (co_vars s)) (\<lambda>(_, vs).
        Inr (Go (s\<lparr>co_vars := vs\<rparr>))))
      else if c = of_char CHR ''w'' then
        bindr (need_str oa) (\<lambda>fn.
        bindr (cfg_write_file (en_creatable env fn) (en_writes env) (co_files s fn) clt_cfgdef (co_vars s))
          (\<lambda>(_, f). Inr (Go (s\<lparr>co_files := (co_files s)(fn := f)\<rparr>))))
      else if c = of_char CHR ''p'' then set_string 7 oa s
      else if c = of_char CHR ''u'' then set_string 6 oa s
      else if c = of_char CHR ''a'' then Inr (Go (set_flag (str ''autoconnect'') s))
      else if c = of_char CHR ''n'' then Inr (Go (set_flag (str ''no_clobber'') s))
      else if c = of_char CHR ''v'' \<or> c = of_char CHR ''h'' then Inr (Exit EXIT_SUCCESS)
      else Inr (Exit EXIT_FAILURE))"

text \<open>The loop; \<open>n\<close> counts the arguments that are not options.\<close>

function clt_eval_cmdline ::
    "conf_env \<Rightarrow> cstring list \<Rightarrow> cstring \<Rightarrow> nat \<Rightarrow> conf_state \<Rightarrow> conf_state run res" where
  "clt_eval_cmdline env args cl n s =
     (case getopt clt_optstr args cl of
        (Opt_Stop, [], _) \<Rightarrow> Inr (Go s)
      | (Opt_Stop, a # as, cl) \<Rightarrow>
          (if n < 2 then
             bindr (set_string n (Some a) s) (\<lambda>r.
             case r of Exit k \<Rightarrow> Inr (Exit k) | Go s \<Rightarrow> clt_eval_cmdline env as cl (Suc n) s)
           else Inr (Exit EXIT_FAILURE))
      | (Opt_Char c oa, args, cl) \<Rightarrow>
          bindr (clt_option env c oa s) (\<lambda>r.
          case r of Exit k \<Rightarrow> Inr (Exit k) | Go s \<Rightarrow> clt_eval_cmdline env args cl n s)
      | (_, _, _) \<Rightarrow> Inr (Exit EXIT_FAILURE))"
  by pat_completeness auto
termination
  by (relation "measure (\<lambda>(_, args, cl, _). opt_left args cl)") (auto dest: getopt_less(1) [OF sym] getopt_less(2) [OF sym])

declare clt_eval_cmdline.simps [simp del]

definition clt_init_config ::
    "conf_env \<Rightarrow> (cstring \<Rightarrow> byte list option) \<Rightarrow> cstring list \<Rightarrow> conf_state run res" where
  "clt_init_config env files args =
     (let fn = strdupcat2_s (case en_home env of None \<Rightarrow> str ''.'' | Some h \<Rightarrow> h) (str ''/'') clt_config_path
      in bindr (cfg_parse_file (files fn) clt_cfgdef clt_defaults) (\<lambda>(_, vs).
         bindr (clt_eval_cmdline env args [] 0 \<lparr>co_vars = vs, co_files = files, co_flags = (\<lambda>_. False)\<rparr>) (\<lambda>r.
         case r of
           Exit k \<Rightarrow> Inr (Exit k)
         | Go s \<Rightarrow>
             (case en_user env of
                Some u \<Rightarrow>
                  (if co_vars s ! 6 = CV_STR None \<or> co_vars s ! 6 = CV_STR (Some [])
                   then set_string 6 (Some u) s else Inr (Go s))
              | None \<Rightarrow> Inr (Go s)))))"

text \<open>The configuration as the rest of the client reads it.\<close>

fun cv_int :: "cfg_val \<Rightarrow> int" where
  "cv_int (CV_INT v) = v"
| "cv_int (CV_STR s) = 0"

fun cv_str :: "cfg_val \<Rightarrow> cstring option" where
  "cv_str (CV_INT v) = None"
| "cv_str (CV_STR s) = s"

definition clt_cfg_of :: "conf_env \<Rightarrow> conf_state \<Rightarrow> clt_cfg" where
  "clt_cfg_of env s =
     (let v = (\<lambda>i. co_vars s ! i) in
      \<lparr>cf_host = cv_str (v 0), cf_port = cv_str (v 1), cf_select_timeout = cv_int (v 2),
       cf_msg_timeout = cv_int (v 3), cf_resp_timeout = cv_int (v 4), cf_offer_timeout = cv_int (v 5),
       cf_username = cv_str (v 6), cf_pubkey = cv_str (v 7), cf_privkey = cv_str (v 8),
       cf_no_clobber = co_flags s (str ''no_clobber''), cf_autoconnect = co_flags s (str ''autoconnect''),
       cf_stdin_tty = en_tty env 0, cf_stdout_tty = en_tty env 1\<rparr>)"

text \<open>\<^verbatim>\<open>main()\<close> of the client, from its arguments on.\<close>

definition clt_program ::
    "conf_env \<Rightarrow> (cstring \<Rightarrow> byte list option) \<Rightarrow> cstring list \<Rightarrow> fsys \<Rightarrow> u64 \<Rightarrow> conn_res \<Rightarrow> clt_loop list
      \<Rightarrow> (bool \<times> int \<times> frelay) run res" where
  "clt_program env files args fs seed res les =
     bindr (clt_init_config env files args) (\<lambda>r.
     case r of
       Exit k \<Rightarrow> Inr (Exit k)
     | Go s \<Rightarrow> bindr (clt_main (clt_cfg_of env s) fs seed res les) (\<lambda>x. Inr (Go x)))"

section \<open>The server\<close>

definition srv_cfgdef :: "cfg_parse_def_t list" where
  "srv_cfgdef =
    [\<lparr>def_name = str ''interface'', def_type = CFG_PARSE_T_STR, def_pvar = 0\<rparr>,
     \<lparr>def_name = str ''listenport'', def_type = CFG_PARSE_T_STR, def_pvar = 1\<rparr>,
     \<lparr>def_name = str ''select_timeout'', def_type = CFG_PARSE_T_INT, def_pvar = 2\<rparr>,
     \<lparr>def_name = str ''msg_timeout'', def_type = CFG_PARSE_T_INT, def_pvar = 3\<rparr>,
     \<lparr>def_name = str ''conn_timeout'', def_type = CFG_PARSE_T_INT, def_pvar = 4\<rparr>,
     \<lparr>def_name = str ''max_clients'', def_type = CFG_PARSE_T_INT, def_pvar = 5\<rparr>,
     \<lparr>def_name = str ''userdb_path'', def_type = CFG_PARSE_T_STR, def_pvar = 6\<rparr>,
     \<lparr>def_name = str ''motd_cmd'', def_type = CFG_PARSE_T_STR, def_pvar = 7\<rparr>]"

definition srv_defaults :: cfg_store where
  "srv_defaults =
    [CV_STR (Some []), CV_STR (Some (str ''64740'')), CV_INT 10, CV_INT 5, CV_INT 240, CV_INT 100,
     CV_STR (Some (str ''/var/lib/frelay/user.db'')),
     CV_STR (Some (str ''echo '' @ [39] @ str ''Welcome!'' @ [39]))]"

definition srv_config_path :: cstring where
  "srv_config_path = str ''/etc/frelay.conf''"

definition srv_optstr :: cstring where
  "srv_optstr = str '':c:i:p:u:hv''"

text \<open>Reads a file, and notes that there is a configuration unless that fails.\<close>

definition srv_read_config :: "conf_env \<Rightarrow> cstring \<Rightarrow> conf_state \<Rightarrow> conf_state res" where
  "srv_read_config env fn s =
     bindr (cfg_parse_file (co_files s fn) srv_cfgdef (co_vars s)) (\<lambda>(r, vs).
     let s = s\<lparr>co_vars := vs\<rparr>
     in Inr (if r \<noteq> 0 \<and> (co_files s fn = None \<or> en_errno env fn) then s
             else set_flag (str ''have_config'') s))"

definition srv_option :: "conf_env \<Rightarrow> byte \<Rightarrow> cstring option \<Rightarrow> conf_state \<Rightarrow> conf_state run res" where
  "srv_option env c oa s =
     (if c = of_char CHR ''c'' then
        bindr (need_str oa) (\<lambda>fn. bindr (srv_read_config env fn s) (\<lambda>s. Inr (Go s)))
      else if c = of_char CHR ''i'' then set_string 0 oa s
      else if c = of_char CHR ''p'' then set_string 1 oa s
      else if c = of_char CHR ''u'' then set_string 6 oa s
      else if c = of_char CHR ''v'' \<or> c = of_char CHR ''h'' then Inr (Exit EXIT_SUCCESS)
      else Inr (Exit EXIT_FAILURE))"

text \<open>Arguments after the options are ignored.\<close>

function srv_eval_cmdline :: "conf_env \<Rightarrow> cstring list \<Rightarrow> cstring \<Rightarrow> conf_state \<Rightarrow> conf_state run res" where
  "srv_eval_cmdline env args cl s =
     (case getopt srv_optstr args cl of
        (Opt_Stop, _, _) \<Rightarrow> Inr (Go s)
      | (Opt_Char c oa, args, cl) \<Rightarrow>
          bindr (srv_option env c oa s) (\<lambda>r.
          case r of Exit k \<Rightarrow> Inr (Exit k) | Go s \<Rightarrow> srv_eval_cmdline env args cl s)
      | (_, _, _) \<Rightarrow> Inr (Exit EXIT_FAILURE))"
  by pat_completeness auto
termination
  by (relation "measure (\<lambda>(_, args, cl, _). opt_left args cl)") (auto dest: getopt_less(1) [OF sym])

declare srv_eval_cmdline.simps [simp del]

text \<open>The default file is read after the command line, and only without a file named there.\<close>

definition srv_init_config ::
    "conf_env \<Rightarrow> (cstring \<Rightarrow> byte list option) \<Rightarrow> cstring list \<Rightarrow> conf_state run res" where
  "srv_init_config env files args =
     bindr (srv_eval_cmdline env args [] \<lparr>co_vars = srv_defaults, co_files = files, co_flags = (\<lambda>_. False)\<rparr>) (\<lambda>r.
     case r of
       Exit k \<Rightarrow> Inr (Exit k)
     | Go s \<Rightarrow>
         if co_flags s (str ''have_config'') then Inr (Go s)
         else bindr (srv_read_config env srv_config_path s) (\<lambda>s. Inr (Go s)))"

definition srv_cfg_of :: "conf_state \<Rightarrow> srv_cfg" where
  "srv_cfg_of s =
     \<lparr>select_timeout = cv_int (co_vars s ! 2), msg_timeout = cv_int (co_vars s ! 3),
      conn_timeout = cv_int (co_vars s ! 4)\<rparr>"

text \<open>
  The socket of the server: for each address what the calls of the loop return. \<open>sl_null\<close> tells
  whether \<^verbatim>\<open>malloc( 0 )\<close> gives a null pointer; a negative number of clients asks for more memory than
  there is.
\<close>

datatype addr_try = No_Socket | No_Reuse int | No_Bind int | Bound int

record srv_listen =
  sl_null :: bool
  sl_addrs :: "addr_try list option"
  sl_listen :: int

fun bind_first :: "addr_try list \<Rightarrow> int option" where
  "bind_first [] = None"
| "bind_first (Bound fd # ts) = Some fd"
| "bind_first (t # ts) = bind_first ts"

definition srv_open :: "srv_listen \<Rightarrow> int \<Rightarrow> (nat \<times> int) res" where
  "srv_open l maxc =
     (let maxc = min maxc FD_SETSIZE in
      if maxc < 0 \<or> maxc = 0 \<and> sl_null l then Inl Die
      else case sl_addrs l of
        None \<Rightarrow> Inl Die
      | Some ts \<Rightarrow>
          (case bind_first ts of
             None \<Rightarrow> Inl Die
           | Some fd \<Rightarrow> if sl_listen l \<noteq> 0 then Inl Die else Inr (nat maxc, fd)))"

text \<open>\<^verbatim>\<open>main()\<close> of the server, from its arguments on; \<open>root\<close>: the process has privileges.\<close>

definition srv_program ::
    "bool \<Rightarrow> conf_env \<Rightarrow> (cstring \<Rightarrow> byte list option) \<Rightarrow> cstring list \<Rightarrow> (cstring \<Rightarrow> db_file) \<Rightarrow> srv_listen
      \<Rightarrow> loop_event list \<Rightarrow> (int \<times> server) run res" where
  "srv_program root env files args db_fs l les =
     (if root then Inl Die
      else bindr (srv_init_config env files args) (\<lambda>r.
        case r of
          Exit k \<Rightarrow> Inr (Exit k)
        | Go s \<Rightarrow>
            bindr (need_str (cv_str (co_vars s ! 6))) (\<lambda>path.
            bindr (udb_init (udb_start db_fs) path) (\<lambda>(_, db).
            bindr (srv_open l (cv_int (co_vars s ! 5))) (\<lambda>(maxc, fd).
            bindr (main_loop fd les (0, init_server (srv_cfg_of s) maxc fd db)) (\<lambda>x. Inr (Go x)))))))"

section \<open>What every configuration has\<close>

text \<open>Every variable has its type, and no string is missing.\<close>

definition typed :: "cfg_store \<Rightarrow> cfg_store \<Rightarrow> bool" where
  "typed defs vs \<longleftrightarrow> same_types defs vs \<and> CV_STR None \<notin> set vs"

lemma cfg_parse_assign_strings:
  "cfg_parse_assign name val def vars = Inr (r, vars') \<Longrightarrow> CV_STR None \<notin> set vars \<Longrightarrow> CV_STR None \<notin> set vars'"
proof (induction "def")
  case (Cons p "def")
  have "set (vars[i := v]) \<subseteq> insert v (set vars)" for i v by (rule set_update_subset_insert)
  then show ?case
    using Cons by (auto split: if_splits CFG_PARSE_TYPE.splits cfg_val.splits dest!: subsetD)
qed simp

lemma cfg_parse_line_strings:
  "cfg_parse_line line def vars = Inr (r, vars') \<Longrightarrow> CV_STR None \<notin> set vars \<Longrightarrow> CV_STR None \<notin> set vars'"
  by (auto simp: cfg_parse_line_def Let_def split: if_splits dest: cfg_parse_assign_strings)

lemma cfg_parse_lines_strings:
  "cfg_parse_lines r bs def vars = Inr (r', vars') \<Longrightarrow> CV_STR None \<notin> set vars \<Longrightarrow> CV_STR None \<notin> set vars'"
proof (induction r bs "def" vars rule: cfg_parse_lines.induct)
  case (1 r bs "def" vars)
  show ?case
  proof (cases "bs = []")
    case True
    then show ?thesis using 1(2,3) by (subst (asm) cfg_parse_lines.simps) simp
  next
    case False
    obtain line rest where f: "fgets (LINE_MAX - 1) bs = (line, rest)" by fastforce
    obtain k vs where l: "cfg_parse_line (takeWhile (\<lambda>c. c \<noteq> 0) line) def vars = Inr (k, vs)"
      "cfg_parse_lines (r + k) rest def vs = Inr (r', vars')"
      using 1(2) False f by (subst (asm) cfg_parse_lines.simps) (auto simp: bindr_Inr_iff)
    then show ?thesis using 1(1) [OF False f [symmetric] l(2)] cfg_parse_line_strings [OF l(1) 1(3)] by blast
  qed
qed

lemma cfg_parse_file_typed:
  assumes "table_fits def defs" and "typed defs vs"
  obtains r vs' where "cfg_parse_file fp def vs = Inr (r, vs')" and "typed defs vs'"
proof -
  have t: "same_types defs vs" "CV_STR None \<notin> set vs" using assms(2) by (auto simp: typed_def)
  have tf: "table_fits def vs" by (rule table_fits_same_types [OF assms(1) t(1)])
  show ?thesis
  proof (cases fp)
    case None
    then show ?thesis using that assms(2) by (simp add: cfg_parse_file_def)
  next
    case (Some bs)
    obtain r vs' where p: "cfg_parse_lines 0 bs def vs = Inr (r, vs')" "same_types vs vs'"
      using cfg_parse_lines_safe [OF tf] by blast
    then have "typed defs vs'"
      using cfg_parse_lines_strings [OF p(1) t(2)] same_types_trans [OF t(1) p(2)] by (simp add: typed_def)
    then show ?thesis using that Some p(1) by (simp add: cfg_parse_file_def cfg_parse_fp_def)
  qed
qed

lemma cfg_write_defs_typed:
  "table_fits def vs \<Longrightarrow> CV_STR None \<notin> set vs \<Longrightarrow> \<exists>r out. cfg_write_defs lim def vs = Inr (r, out)"
proof (induction "def" arbitrary: lim)
  case (Cons p "def")
  have IH: "\<exists>r out. cfg_write_defs l def vs = Inr (r, out)" for l
    using Cons by (auto simp: table_fits_def)
  have p: "def_type p = CFG_PARSE_T_NONE \<or> def_pvar p < length vs \<and> fits p (vs ! def_pvar p)"
    using Cons.prems(1) by (simp add: table_fits_def)
  have mem: "def_pvar p < length vs \<Longrightarrow> vs ! def_pvar p \<noteq> CV_STR None" using Cons.prems(2) nth_mem by metis
  show ?case
  proof (cases "def_type p = CFG_PARSE_T_NONE")
    case True
    then show ?thesis using IH [of lim] by simp
  next
    case False
    then obtain s where "(case (def_type p, vs ! def_pvar p) of
        (CFG_PARSE_T_INT, CV_INT v) \<Rightarrow> Inr (print_int v) | (CFG_PARSE_T_STR, CV_STR (Some s)) \<Rightarrow> Inr s
      | (CFG_PARSE_T_STR, CV_STR None) \<Rightarrow> Inl NullDeref | _ \<Rightarrow> Inl BadVarArg) = (Inr s :: byte list res)"
      using p mem by (auto simp: fits_def split: CFG_PARSE_TYPE.splits cfg_val.splits option.splits)
    then show ?thesis
      using False p IH by (cases lim; cases "def_type p") (fastforce simp: bindr_Inr_iff)+
  qed
qed simp

lemma tables_fit: "table_fits clt_cfgdef clt_defaults" "table_fits srv_cfgdef srv_defaults"
  by (simp_all add: table_fits_def clt_cfgdef_def clt_defaults_def srv_cfgdef_def srv_defaults_def fits_def)

lemma defaults_typed: "typed clt_defaults clt_defaults" "typed srv_defaults srv_defaults"
  by (auto simp: typed_def clt_defaults_def srv_defaults_def)

lemma typed_set_string:
  assumes "typed defs vs" and "i < length vs \<Longrightarrow> \<exists>t. vs ! i = CV_STR t"
  shows "typed defs (vs[i := CV_STR (Some a)])"
proof -
  have "set (vs[i := CV_STR (Some a)]) \<subseteq> insert (CV_STR (Some a)) (set vs)" by (rule set_update_subset_insert)
  moreover have "same_types vs (vs[i := CV_STR (Some a)])"
  proof (cases "i < length vs")
    case True
    then obtain t where "vs ! i = CV_STR t" using assms(2) by blast
    then show ?thesis using True by (auto simp: same_types_def nth_list_update)
  qed (simp add: list_update_beyond)
  ultimately show ?thesis using assms(1) same_types_trans by (auto simp: typed_def)
qed

lemma typed_string: "typed defs vs \<Longrightarrow> i < length defs \<Longrightarrow> \<nexists>k. defs ! i = CV_INT k \<Longrightarrow> \<exists>t. vs ! i = CV_STR t"
  using not_int_is_str by (fastforce simp: typed_def same_types_def)

definition clt_ok :: "conf_state run res \<Rightarrow> bool" where
  "clt_ok r \<longleftrightarrow> (\<exists>k. r = Inr (Exit k)) \<or> (\<exists>s. r = Inr (Go s) \<and> typed clt_defaults (co_vars s))"

definition srv_ok :: "conf_state run res \<Rightarrow> bool" where
  "srv_ok r \<longleftrightarrow> (\<exists>k. r = Inr (Exit k)) \<or> (\<exists>s. r = Inr (Go s) \<and> typed srv_defaults (co_vars s))"

text \<open>The indices of the strings an option sets.\<close>

lemma clt_string_index:
  assumes "typed clt_defaults (co_vars s)" and "i \<in> {0, 1, 6, 7}"
  shows "clt_ok (set_string i (Some a) s)"
proof -
  have "\<exists>t. co_vars s ! i = CV_STR t"
    using assms by (intro typed_string) (auto simp: clt_defaults_def)
  then show ?thesis using typed_set_string [OF assms(1), of i a] by (simp add: set_string_def need_str_def clt_ok_def)
qed

lemma srv_string_index:
  assumes "typed srv_defaults (co_vars s)" and "i \<in> {0, 1, 6}"
  shows "srv_ok (set_string i (Some a) s)"
proof -
  have "\<exists>t. co_vars s ! i = CV_STR t"
    using assms by (intro typed_string) (auto simp: srv_defaults_def)
  then show ?thesis using typed_set_string [OF assms(1), of i a] by (simp add: set_string_def need_str_def srv_ok_def)
qed

text \<open>An option that takes an argument has one.\<close>

lemma getopt_argument:
  assumes "getopt optstr args cl = (Opt_Char c oa, args', cl')"
  shows "opt_kind optstr c = Some (oa \<noteq> None)"
proof -
  have "opt_char optstr as d l = (Opt_Char c oa, args', cl') \<Longrightarrow> opt_kind optstr c = Some (oa \<noteq> None)" for as d l
    by (auto simp: opt_char_def split: option.splits bool.splits list.splits if_splits)
  then show ?thesis using assms by (cases "(optstr, args, cl)" rule: getopt.cases) (auto split: if_splits)
qed

lemma clt_option_ok:
  assumes t: "typed clt_defaults (co_vars s)" and a: "opt_kind clt_optstr c = Some (oa \<noteq> None)"
  shows "clt_ok (clt_option env c oa s)"
proof (cases oa)
  case None
  then have "c \<notin> {of_char CHR ''c'', of_char CHR ''w'', of_char CHR ''p'', of_char CHR ''u''}"
    using a by (auto simp: clt_optstr_def str_def)
  then show ?thesis using t None by (auto simp: clt_option_def clt_ok_def set_flag_def)
next
  case (Some v)
  obtain r vs where p: "cfg_parse_file (co_files s v) clt_cfgdef (co_vars s) = Inr (r, vs)" "typed clt_defaults vs"
    by (rule cfg_parse_file_typed [OF tables_fit(1) t])
  have "table_fits clt_cfgdef (co_vars s)" "CV_STR None \<notin> set (co_vars s)"
    using t table_fits_same_types [OF tables_fit(1)] by (auto simp: typed_def)
  then obtain k out where "cfg_write_defs (en_writes env) clt_cfgdef (co_vars s) = Inr (k, out)"
    using cfg_write_defs_typed by blast
  then have w: "\<exists>k f. cfg_write_file (en_creatable env v) (en_writes env) (co_files s v) clt_cfgdef (co_vars s)
      = Inr (k, f)"
    by (simp add: cfg_write_file_def cfg_write_fp_def)
  show ?thesis
    using Some p w t clt_string_index [OF t, of 7 v] clt_string_index [OF t, of 6 v]
    by (auto simp: clt_option_def need_str_def clt_ok_def set_flag_def)
qed

lemma srv_read_config_ok:
  assumes "typed srv_defaults (co_vars s)"
  obtains s' where "srv_read_config env fn s = Inr s'" and "typed srv_defaults (co_vars s')"
proof -
  obtain r vs where p: "cfg_parse_file (co_files s fn) srv_cfgdef (co_vars s) = Inr (r, vs)" "typed srv_defaults vs"
    by (rule cfg_parse_file_typed [OF tables_fit(2) assms])
  then show ?thesis using that by (auto simp: srv_read_config_def set_flag_def Let_def)
qed

lemma srv_option_ok:
  assumes t: "typed srv_defaults (co_vars s)" and a: "opt_kind srv_optstr c = Some (oa \<noteq> None)"
  shows "srv_ok (srv_option env c oa s)"
proof (cases oa)
  case None
  then have "c \<notin> {of_char CHR ''c'', of_char CHR ''i'', of_char CHR ''p'', of_char CHR ''u''}"
    using a by (auto simp: srv_optstr_def str_def)
  then show ?thesis using t None by (auto simp: srv_option_def srv_ok_def)
next
  case (Some v)
  obtain s' where r: "srv_read_config env v s = Inr s'" "typed srv_defaults (co_vars s')"
    by (rule srv_read_config_ok [OF t])
  show ?thesis
    using Some r t srv_string_index [OF t, of 0 v] srv_string_index [OF t, of 1 v] srv_string_index [OF t, of 6 v]
    by (auto simp: srv_option_def need_str_def srv_ok_def)
qed

lemma clt_eval_ok: "typed clt_defaults (co_vars s) \<Longrightarrow> clt_ok (clt_eval_cmdline env args cl n s)"
proof (induction env args cl n s rule: clt_eval_cmdline.induct)
  case (1 env args cl n s)
  obtain e args' cl' where g: "getopt clt_optstr args cl = (e, args', cl')" by (cases "getopt clt_optstr args cl")
  show ?case
  proof (cases e)
    case (Opt_Char c oa)
    have "opt_kind clt_optstr c = Some (oa \<noteq> None)" using g Opt_Char by (intro getopt_argument) simp
    then have "clt_ok (clt_option env c oa s)" by (rule clt_option_ok [OF 1(3)])
    moreover have "clt_ok (clt_eval_cmdline env args' cl' n u)" if "typed clt_defaults (co_vars u)" for u
      using 1(1) [OF g [symmetric] Opt_Char refl] that by simp
    ultimately show ?thesis
      using g Opt_Char by (subst clt_eval_cmdline.simps) (auto simp: clt_ok_def [of "clt_option env c oa s"], simp_all add: clt_ok_def)
  next
    case Opt_Stop
    show ?thesis
    proof (cases args')
      case Nil
      then show ?thesis using g Opt_Stop 1(3) by (subst clt_eval_cmdline.simps) (simp add: clt_ok_def)
    next
      case (Cons a as)
      have "n < 2 \<Longrightarrow> clt_ok (set_string n (Some a) s)" by (rule clt_string_index [OF 1(3)]) auto
      moreover have "clt_ok (clt_eval_cmdline env as cl' (Suc n) u)" if "n < 2" "typed clt_defaults (co_vars u)" for u
        using 1(2) [OF g [symmetric] Opt_Stop refl Cons] that by simp
      ultimately show ?thesis
        using g Opt_Stop Cons
        by (subst clt_eval_cmdline.simps) (auto simp: clt_ok_def [of "set_string n (Some a) s"], simp_all add: clt_ok_def)
    qed
  qed (use g in \<open>subst clt_eval_cmdline.simps, simp add: clt_ok_def\<close>)+
qed

lemma srv_eval_ok: "typed srv_defaults (co_vars s) \<Longrightarrow> srv_ok (srv_eval_cmdline env args cl s)"
proof (induction env args cl s rule: srv_eval_cmdline.induct)
  case (1 env args cl s)
  obtain e args' cl' where g: "getopt srv_optstr args cl = (e, args', cl')" by (cases "getopt srv_optstr args cl")
  show ?case
  proof (cases e)
    case (Opt_Char c oa)
    have "opt_kind srv_optstr c = Some (oa \<noteq> None)" using g Opt_Char by (intro getopt_argument) simp
    then have "srv_ok (srv_option env c oa s)" by (rule srv_option_ok [OF 1(2)])
    moreover have "srv_ok (srv_eval_cmdline env args' cl' u)" if "typed srv_defaults (co_vars u)" for u
      using 1(1) [OF g [symmetric] Opt_Char refl] that by simp
    ultimately show ?thesis
      using g Opt_Char by (subst srv_eval_cmdline.simps) (auto simp: srv_ok_def [of "srv_option env c oa s"], simp_all add: srv_ok_def)
  qed (use g 1(2) in \<open>subst srv_eval_cmdline.simps, simp add: srv_ok_def\<close>)+
qed

lemma clt_init_ok: "clt_ok (clt_init_config env files args)"
proof -
  let ?fn = "strdupcat2_s (case en_home env of None \<Rightarrow> str ''.'' | Some h \<Rightarrow> h) (str ''/'') clt_config_path"
  obtain r vs where p: "cfg_parse_file (files ?fn) clt_cfgdef clt_defaults = Inr (r, vs)" "typed clt_defaults vs"
    by (rule cfg_parse_file_typed [OF tables_fit(1) defaults_typed(1)])
  let ?s = "\<lparr>co_vars = vs, co_files = files, co_flags = (\<lambda>_. False)\<rparr>"
  have ev: "clt_ok (clt_eval_cmdline env args [] 0 ?s)" by (rule clt_eval_ok) (simp add: p(2))
  moreover have "typed clt_defaults (co_vars s) \<Longrightarrow> clt_ok (set_string 6 (Some u) s)" for s u
    by (rule clt_string_index) auto
  ultimately show ?thesis
    using p(1) by (auto simp: clt_init_config_def Let_def clt_ok_def [of "clt_eval_cmdline env args [] 0 ?s"]
        split: option.split) (auto simp: clt_ok_def)
qed

lemma srv_init_ok: "srv_ok (srv_init_config env files args)"
proof -
  let ?s = "\<lparr>co_vars = srv_defaults, co_files = files, co_flags = (\<lambda>_. False)\<rparr>"
  have "srv_ok (srv_eval_cmdline env args [] ?s)" by (rule srv_eval_ok) (simp add: defaults_typed)
  moreover have "typed srv_defaults (co_vars s) \<Longrightarrow> \<exists>u. srv_read_config env srv_config_path s = Inr u \<and>
      typed srv_defaults (co_vars u)" for s
    using srv_read_config_ok [of s env srv_config_path] by blast
  ultimately show ?thesis by (fastforce simp: srv_init_config_def srv_ok_def)
qed

section \<open>Which value wins\<close>

lemma length_typed: "typed defs vs \<Longrightarrow> length vs = length defs"
  by (simp add: typed_def same_types_def)

text \<open>A client reads the default file first.\<close>

lemma clt_user_option:
  assumes "u \<noteq> []"
  obtains s where "clt_init_config env files [str ''-u'', u] = Inr (Go s)" and "co_vars s ! 6 = CV_STR (Some u)"
proof -
  let ?fn = "strdupcat2_s (case en_home env of None \<Rightarrow> str ''.'' | Some h \<Rightarrow> h) (str ''/'') clt_config_path"
  obtain r vs where p: "cfg_parse_file (files ?fn) clt_cfgdef clt_defaults = Inr (r, vs)" "typed clt_defaults vs"
    by (rule cfg_parse_file_typed [OF tables_fit(1) defaults_typed(1)])
  have len: "length vs = 9" using length_typed [OF p(2)] by (simp add: clt_defaults_def)
  have g: "getopt clt_optstr [str ''-u'', u] [] = (Opt_Char (of_char CHR ''u'') (Some u), [], [])"
    by (simp add: opt_char_def clt_optstr_def str_def)
  have "clt_eval_cmdline env [str ''-u'', u] [] 0 \<lparr>co_vars = vs, co_files = files, co_flags = (\<lambda>_. False)\<rparr>
      = Inr (Go \<lparr>co_vars = vs[6 := CV_STR (Some u)], co_files = files, co_flags = (\<lambda>_. False)\<rparr>)"
    unfolding clt_eval_cmdline.simps [of env "[str ''-u'', u]"] g
    by (simp add: clt_option_def set_string_def need_str_def clt_eval_cmdline.simps [of env "[]"])
  then have "clt_init_config env files [str ''-u'', u] =
      Inr (Go \<lparr>co_vars = vs[6 := CV_STR (Some u)], co_files = files, co_flags = (\<lambda>_. False)\<rparr>)"
    using p(1) len assms by (cases "en_user env") (simp_all add: clt_init_config_def Let_def)
  then show ?thesis using that len by simp
qed

text \<open>A server reads the default file last.\<close>

lemma srv_port_option:
  assumes f: "files srv_config_path = Some (str ''listenport='' @ q @ [10])" and q: "good_value q" "length q \<le> 3000"
  obtains s where "srv_init_config env files [str ''-p'', p] = Inr (Go s)" and "co_vars s ! 1 = CV_STR (Some q)"
proof -
  let ?e = "\<lparr>def_name = str ''listenport'', def_type = CFG_PARSE_T_STR, def_pvar = 1\<rparr>"
  let ?vs = "srv_defaults[1 := CV_STR (Some p)]"
  have g: "getopt srv_optstr [str ''-p'', p] [] = (Opt_Char (of_char CHR ''p'') (Some p), [], [])"
    by (simp add: opt_char_def srv_optstr_def str_def)
  have ev: "srv_eval_cmdline env [str ''-p'', p] [] \<lparr>co_vars = srv_defaults, co_files = files, co_flags = (\<lambda>_. False)\<rparr>
      = Inr (Go \<lparr>co_vars = ?vs, co_files = files, co_flags = (\<lambda>_. False)\<rparr>)"
    unfolding srv_eval_cmdline.simps [of env "[str ''-p'', p]"] g
    by (simp add: srv_option_def set_string_def need_str_def srv_eval_cmdline.simps [of env "[]"])
  have d: "distinct (map def_name srv_cfgdef)" "?e \<in> set srv_cfgdef" by (simp_all add: srv_cfgdef_def str_def)
  have st: "cfg_storable ?e ([CV_INT 0, CV_STR (Some q)] ! def_pvar ?e)"
    using q by (simp add: cfg_storable_def good_name_def str_def isspace_def LINE_MAX_def fits_def)
  have "cfg_line [CV_INT 0, CV_STR (Some q)] ?e = str ''listenport='' @ q @ [10]"
    by (simp add: cfg_line_def str_def)
  then have "cfg_parse_lines 0 (str ''listenport='' @ q @ [10]) srv_cfgdef ?vs = Inr (0, ?vs[1 := CV_STR (Some q)])"
    using cfg_line_parsed [OF d st, of ?vs 0 "[]"]
    by (simp add: srv_defaults_def fits_def cfg_parse_lines.simps [of 0 "[]"])
  then have "srv_read_config env srv_config_path \<lparr>co_vars = ?vs, co_files = files, co_flags = (\<lambda>_. False)\<rparr>
      = Inr (set_flag (str ''have_config'') \<lparr>co_vars = ?vs[1 := CV_STR (Some q)], co_files = files, co_flags = (\<lambda>_. False)\<rparr>)"
    using f by (simp add: srv_read_config_def cfg_parse_file_def cfg_parse_fp_def Let_def)
  then show ?thesis using that ev by (simp add: srv_init_config_def set_flag_def srv_defaults_def)
qed

end
