(* ===== verification/Logprintf.thy ===== *)
theory Logprintf
  imports Clib Ntime
begin

text \<open>
  src/lib/logprintf.c: messages with a priority, written to a file with time, source and process,
  or to the system log. In a file, \<^verbatim>\<open>%m\<close> is replaced by the library itself, which cuts the format
  at each occurrence and formats the pieces one after the other.
  \<^verbatim>\<open>printf()\<close> is modelled for the conversions the program uses; anything else is a fault.
\<close>

unbundle bit_operations_syntax

section \<open>Formatted text\<close>

datatype log_arg = LA_INT int | LA_STR "cstring option"

text \<open>Flags, width, precision and length modifiers of a conversion.\<close>

definition spec_char :: "byte \<Rightarrow> bool" where
  "spec_char c \<longleftrightarrow> c \<in> set (str ''0123456789-.hljzt'')"

definition is_dec :: "byte \<Rightarrow> bool" where
  "is_dec c \<longleftrightarrow> digit 10 c \<noteq> None"

definition spec_flags :: "cstring \<Rightarrow> cstring" where
  "spec_flags sp = takeWhile (\<lambda>c. c = 45 \<or> c = 48) sp"

definition spec_width :: "cstring \<Rightarrow> nat" where
  "spec_width sp = digits_val 10 (takeWhile is_dec (drop (length (spec_flags sp)) sp))"

definition spec_precision :: "cstring \<Rightarrow> nat option" where
  "spec_precision sp =
     (case dropWhile (\<lambda>c. c \<noteq> 46) sp of [] \<Rightarrow> None | _ # ds \<Rightarrow> Some (digits_val 10 (takeWhile is_dec ds)))"

definition pad_text :: "cstring \<Rightarrow> cstring \<Rightarrow> cstring" where
  "pad_text sp s =
     (let n = spec_width sp - length s
      in if 45 \<in> set (spec_flags sp) then s @ replicate n 32 else replicate n 32 @ s)"

definition pad_number :: "cstring \<Rightarrow> bool \<Rightarrow> cstring \<Rightarrow> cstring" where
  "pad_number sp neg ds =
     (let sign = (if neg then [45] else [])
      in if 48 \<in> set (spec_flags sp) \<and> 45 \<notin> set (spec_flags sp)
         then sign @ replicate (spec_width sp - length ds - length sign) 48 @ ds
         else pad_text sp (sign @ ds))"

definition hex_number :: "nat \<Rightarrow> cstring" where
  "hex_number v = (let ds = dropWhile (\<lambda>c. c = 48) (hex_digits 16 v) in if ds = [] then [48] else ds)"

definition print_arg :: "cstring \<Rightarrow> byte \<Rightarrow> log_arg \<Rightarrow> cstring res" where
  "print_arg sp c a =
     (case a of
        LA_STR None \<Rightarrow> if c = of_char CHR ''s'' then Inl NullDeref else Inl BadVarArg
      | LA_STR (Some s) \<Rightarrow>
          if c = of_char CHR ''s''
          then Inr (pad_text sp (case spec_precision sp of None \<Rightarrow> s | Some n \<Rightarrow> take n s))
          else Inl BadVarArg
      | LA_INT v \<Rightarrow>
          if spec_precision sp \<noteq> None then Inl BadVarArg
          else if c = of_char CHR ''d'' then Inr (pad_number sp (v < 0) (dec_digits (nat \<bar>v\<bar>)))
          else if v < 0 then Inl BadVarArg
          else if c = of_char CHR ''u'' then Inr (pad_number sp False (dec_digits (nat v)))
          else if c = of_char CHR ''x'' then Inr (pad_number sp False (hex_number (nat v)))
          else if c = of_char CHR ''X'' then Inr (pad_number sp False (map (\<lambda>d. if 97 \<le> d then d - 32 else d) (hex_number (nat v))))
          else if c = of_char CHR ''c'' then Inr (pad_text sp [of_int v])
          else Inl BadVarArg)"

text \<open>One conversion takes one argument, but \<^verbatim>\<open>%%\<close> none; \<open>em\<close> is the text of \<^verbatim>\<open>%m\<close> where that is known.\<close>

definition convert :: "cstring option \<Rightarrow> cstring \<Rightarrow> byte \<Rightarrow> log_arg list \<Rightarrow> (cstring \<times> log_arg list) res" where
  "convert em sp c as =
     (if c = 37 then (if sp = [] then Inr ([37], as) else Inl BadVarArg)
      else if c = 109 then
        (case em of Some e \<Rightarrow> if sp = [] then Inr (e, as) else Inl BadVarArg | None \<Rightarrow> Inl BadVarArg)
      else case as of
        [] \<Rightarrow> Inl BadVarArg
      | a # as \<Rightarrow> bindr (print_arg sp c a) (\<lambda>s. Inr (s, as)))"

definition directive :: "cstring \<Rightarrow> (cstring \<times> byte \<times> cstring) option" where
  "directive f =
     (case dropWhile spec_char f of [] \<Rightarrow> None | c # r \<Rightarrow> Some (takeWhile spec_char f, c, r))"

lemma directive_Some:
  "directive f = Some (sp, c, r) \<longleftrightarrow> f = sp @ c # r \<and> (\<forall>x \<in> set sp. spec_char x) \<and> \<not> spec_char c"
proof
  assume "directive f = Some (sp, c, r)"
  then have "dropWhile spec_char f = c # r" "sp = takeWhile spec_char f"
    by (auto simp: directive_def split: list.splits)
  then show "f = sp @ c # r \<and> (\<forall>x \<in> set sp. spec_char x) \<and> \<not> spec_char c"
    using takeWhile_dropWhile_id [of spec_char f] hd_dropWhile [of spec_char f] by (auto dest: set_takeWhileD)
next
  assume "f = sp @ c # r \<and> (\<forall>x \<in> set sp. spec_char x) \<and> \<not> spec_char c"
  then show "directive f = Some (sp, c, r)"
    by (simp add: directive_def takeWhile_append2 dropWhile_append2)
qed

lemma directive_less [termination_simp]: "directive f = Some (sp, c, r) \<Longrightarrow> length r < Suc (length f)"
  by (simp add: directive_Some)

fun vprintf :: "cstring option \<Rightarrow> cstring \<Rightarrow> log_arg list \<Rightarrow> (cstring \<times> log_arg list) res" where
  "vprintf em [] as = Inr ([], as)"
| "vprintf em (c # f) as =
     (if c \<noteq> 37 then bindr (vprintf em f as) (\<lambda>(t, as). Inr (c # t, as))
      else case directive f of
        None \<Rightarrow> Inl BadVarArg
      | Some (sp, d, r) \<Rightarrow>
          bindr (convert em sp d as) (\<lambda>(s, as).
          bindr (vprintf em r as) (\<lambda>(t, as). Inr (s @ t, as))))"

section \<open>The logger\<close>

definition LOG_TO_FILE :: u32 where "LOG_TO_FILE = 1"
definition LOG_TO_SYSLOG :: u32 where "LOG_TO_SYSLOG = 2"

definition LOG_EMERG :: int where "LOG_EMERG = 0"
definition LOG_ALERT :: int where "LOG_ALERT = 1"
definition LOG_CRIT :: int where "LOG_CRIT = 2"
definition LOG_ERR :: int where "LOG_ERR = 3"
definition LOG_WARNING :: int where "LOG_WARNING = 4"
definition LOG_NOTICE :: int where "LOG_NOTICE = 5"
definition LOG_INFO :: int where "LOG_INFO = 6"
definition LOG_DEBUG :: int where "LOG_DEBUG = 7"

definition NULLSTR :: cstring where "NULLSTR = str ''(null)''"

text \<open>
  The static configuration, and what has been written: to files, by their number, and to the
  system log, with the name given to \<^verbatim>\<open>openlog()\<close>.
\<close>

record logger =
  lg_init :: bool
  lg_level :: int
  lg_mode :: u32
  lg_ident :: cstring
  lg_file :: nat
  lg_sysname :: "cstring option"
  lg_out :: "(nat \<times> cstring) list"
  lg_sys :: "(int \<times> cstring) list"

text \<open>
  The surroundings: whether the library is built with the system log; the clock; what \<^verbatim>\<open>strftime()\<close> makes of
  a time for the formats \<^verbatim>\<open>%FT%T\<close> and \<^verbatim>\<open>%z\<close>; the process; \<^verbatim>\<open>errno\<close> and its text, \<open>None\<close> where
  \<^verbatim>\<open>strerror_r()\<close> fails; the text the system log has for it. \<open>le_shared\<close> tells whether a function that
  takes arguments from a \<^verbatim>\<open>va_list\<close> takes them from its caller's as well: so where the type is an array
  (x86-64), not where it is a pointer. \<open>le_junk\<close> is the buffer \<^verbatim>\<open>tbuf\<close> before it is used.
\<close>

record log_env =
  le_syslog :: bool
  le_clock :: "timespec option"
  le_time :: "int \<Rightarrow> cstring"
  le_zone :: "int \<Rightarrow> cstring"
  le_pid :: nat
  le_errno :: int
  le_strerror :: "int \<Rightarrow> cstring option"
  le_sysm :: "int \<Rightarrow> cstring"
  le_shared :: bool
  le_junk :: "byte list"

definition stderr_file :: nat where "stderr_file = 2"

definition logprintf_init0 :: "bool \<Rightarrow> int \<Rightarrow> cstring option \<Rightarrow> u32 \<Rightarrow> nat option \<Rightarrow> logger \<Rightarrow> logger" where
  "logprintf_init0 with_syslog lvl ident mode fp s =
     (let i = (case ident of Some i \<Rightarrow> i | None \<Rightarrow> NULLSTR)
      in s\<lparr>lg_level := lvl, lg_ident := i, lg_mode := mode,
           lg_file := (case fp of Some f \<Rightarrow> f | None \<Rightarrow> stderr_file),
           lg_sysname := (if with_syslog \<and> mode AND LOG_TO_SYSLOG \<noteq> 0 then Some i else lg_sysname s),
           lg_init := True\<rparr>)"

definition logprintf_init :: "bool \<Rightarrow> int \<Rightarrow> cstring option \<Rightarrow> u32 \<Rightarrow> nat option \<Rightarrow> logger \<Rightarrow> logger" where
  "logprintf_init with_syslog lvl ident mode fp s = logprintf_init0 with_syslog lvl ident mode fp s"

text \<open>Time, source, process and priority. The second \<^verbatim>\<open>strftime()\<close> writes over the first text in \<^verbatim>\<open>tbuf\<close>.\<close>

definition log_head :: "log_env \<Rightarrow> cstring \<Rightarrow> int \<Rightarrow> cstring res" where
  "log_head env ident pri =
     (let tv = ntime_to_timeval (ntime_get (le_clock env));
          t = le_time env (tv_sec tv); z = le_zone env (tv_sec tv);
          tbuf = overwrite (overwrite (le_junk env) 0 (t @ [0])) 0 (z @ [0])
      in bindr (print_arg (str ''06'') (of_char CHR ''d'') (LA_INT (tv_usec tv))) (\<lambda>us.
         if 0 \<notin> set (drop 3 tbuf) then Inl OutOfBounds
         else Inr (t @ [46] @ us @ take 3 z @ [58] @ takeWhile (\<lambda>c. c \<noteq> 0) (drop 3 tbuf) @ [32] @ ident @
           [91] @ dec_digits (le_pid env) @ str '']:'' @ print_int pri @ str '': '')))"

text \<open>\<^verbatim>\<open>strstr( f, "%m" )\<close>: what precedes the first occurrence, and what follows.\<close>

fun find_m :: "cstring \<Rightarrow> (cstring \<times> cstring) option" where
  "find_m [] = None"
| "find_m (c # f) =
     (if c = 37 \<and> f \<noteq> [] \<and> hd f = 109 then Some ([], tl f)
      else map_option (\<lambda>(p, q). (c # p, q)) (find_m f))"

lemma find_m_less [termination_simp]: "find_m f = Some (p, q) \<Longrightarrow> length q < length f"
  by (induction f arbitrary: p) (auto split: if_splits)

definition err_text :: "log_env \<Rightarrow> cstring" where
  "err_text env =
     (case le_strerror env (le_errno env) of
        Some t \<Rightarrow> t | None \<Rightarrow> str ''Error '' @ print_int (le_errno env) @ str '' occurred'')"

text \<open>The pieces of the format.\<close>

function log_body :: "bool \<Rightarrow> cstring \<Rightarrow> cstring \<Rightarrow> log_arg list \<Rightarrow> cstring res" where
  "log_body shared estr f as =
     (case find_m f of
        None \<Rightarrow> bindr (vprintf None f as) (\<lambda>(t, _). Inr t)
      | Some (p, q) \<Rightarrow>
          bindr (vprintf None (p @ estr) as) (\<lambda>(t, rest).
          bindr (log_body shared estr q (if shared then rest else as)) (\<lambda>u. Inr (t @ u))))"
  by pat_completeness auto
termination
  by (relation "measure (\<lambda>(_, _, f, _). length f)") (auto dest: find_m_less)

declare log_body.simps [simp del]

definition vlogprintf :: "log_env \<Rightarrow> int \<Rightarrow> cstring \<Rightarrow> log_arg list \<Rightarrow> logger \<Rightarrow> logger res" where
  "vlogprintf env pri fmt as s =
     (let s = (if lg_init s then s
               else logprintf_init0 (le_syslog env) LOG_DEBUG None LOG_TO_FILE (Some stderr_file) s)
      in if pri \<le> lg_level s then
           bindr (if le_syslog env \<and> lg_mode s AND LOG_TO_SYSLOG \<noteq> 0
                  then bindr (vprintf (Some (le_sysm env (le_errno env))) fmt as) (\<lambda>(t, _).
                       Inr (s\<lparr>lg_sys := lg_sys s @ [(pri, t)]\<rparr>))
                  else Inr s) (\<lambda>s.
           if lg_mode s AND LOG_TO_FILE \<noteq> 0
           then bindr (log_head env (lg_ident s) pri) (\<lambda>h.
                bindr (log_body (le_shared env) (err_text env) fmt as) (\<lambda>t.
                Inr (s\<lparr>lg_out := lg_out s @ [(lg_file s, h @ t)]\<rparr>)))
           else Inr s)
         else Inr s)"

definition logprintf :: "log_env \<Rightarrow> int \<Rightarrow> cstring \<Rightarrow> log_arg list \<Rightarrow> logger \<Rightarrow> logger res" where
  "logprintf env pri fmt as s = vlogprintf env pri fmt as s"

text \<open>The place in the source becomes part of the format.\<close>

definition log_place :: "cstring \<Rightarrow> cstring \<Rightarrow> int \<Rightarrow> cstring" where
  "log_place file func line = [40] @ file @ [58] @ func @ [58] @ print_int line @ str '') ''"

definition xlogprintf ::
    "log_env \<Rightarrow> cstring \<Rightarrow> cstring \<Rightarrow> int \<Rightarrow> int \<Rightarrow> cstring \<Rightarrow> log_arg list \<Rightarrow> logger \<Rightarrow> logger res" where
  "xlogprintf env file func line pri fmt as s = vlogprintf env pri (log_place file func line @ fmt) as s"

section \<open>Formats the pieces of which are formats\<close>

text \<open>
  Every \<^verbatim>\<open>%m\<close> in the format is a conversion of its own: none is found within \<^verbatim>\<open>%%m\<close>, and
  none has a width.
\<close>

fun m_safe :: "cstring \<Rightarrow> bool" where
  "m_safe [] = True"
| "m_safe (c # f) =
     (if c \<noteq> 37 then m_safe f
      else case directive f of
        None \<Rightarrow> False
      | Some (sp, d, r) \<Rightarrow> (d = 37 \<or> d = 109 \<longrightarrow> sp = []) \<and> (d = 37 \<longrightarrow> r = [] \<or> hd r \<noteq> 109) \<and> m_safe r)"

lemma spec_char_not: "spec_char c \<Longrightarrow> c \<noteq> 37 \<and> c \<noteq> 109"
  by (auto simp: spec_char_def str_def)

lemma spec_char_pct [simp]: "\<not> spec_char 37" "\<not> spec_char 109"
  using spec_char_not by blast+

lemma find_m_plain: "37 \<notin> set s \<Longrightarrow> find_m (s @ f) = map_option (\<lambda>(p, q). (s @ p, q)) (find_m f)"
  by (induction s; cases "find_m f") auto

lemma vprintf_plain:
  "37 \<notin> set s \<Longrightarrow> vprintf em (s @ f) as = bindr (vprintf em f as) (\<lambda>(t, as). Inr (s @ t, as))"
  by (induction s) (auto, (cases "vprintf em f as"; auto)+)

lemma vprintf_only_plain: "37 \<notin> set s \<Longrightarrow> vprintf em s as = Inr (s, as)"
  using vprintf_plain [of s em "[]"] by simp

text \<open>A prefix of the format that holds no \<^verbatim>\<open>%m\<close> comes first in either way of printing.\<close>

lemma log_body_prefix:
  assumes "\<And>f. find_m (x @ f) = map_option (\<lambda>(p, q). (x @ p, q)) (find_m f) \<or> \<not> ok f" and "ok f"
    and "\<And>f. vprintf None (x @ f) as = bindr r (\<lambda>(s, as). bindr (vprintf None f as) (\<lambda>(t, as). Inr (s @ t, as)))"
  shows "log_body True et (x @ f) as = bindr r (\<lambda>(s, as). bindr (log_body True et f as) (\<lambda>t. Inr (s @ t)))"
proof -
  have m: "find_m (x @ f) = map_option (\<lambda>(p, q). (x @ p, q)) (find_m f)" using assms(1,2) by blast
  show ?thesis
  proof (cases "find_m f")
    case None
    then show ?thesis
      using m by (cases r; simp add: log_body.simps [of _ _ "x @ f"] log_body.simps [of _ _ f] assms(3) split_beta)
        (cases "vprintf None f (snd (projr r))"; simp add: split_beta)
  next
    case (Some pq)
    then show ?thesis
      using m assms(3) [of "fst pq @ et"]
      by (cases r; simp add: log_body.simps [of _ _ "x @ f"] log_body.simps [of _ _ f] split_beta)
        (cases "vprintf None (fst pq @ et) (snd (projr r))"; simp add: split_beta;
          cases "log_body True et (snd pq) (snd (projr (vprintf None (fst pq @ et) (snd (projr r)))))"; simp)
  qed
qed

lemma log_body_plain:
  assumes "37 \<notin> set x"
  shows "log_body True et (x @ f) as = bindr (log_body True et f as) (\<lambda>t. Inr (x @ t))"
  by (subst log_body_prefix [where x = x and r = "Inr (x, as)" and ok = "\<lambda>_. True"])
    (simp_all add: find_m_plain vprintf_plain assms)

lemma log_body_directive:
  assumes f: "f = sp @ d # r" and sp: "\<forall>c \<in> set sp. spec_char c" "\<not> spec_char d"
    and d: "d \<noteq> 109" "d = 37 \<longrightarrow> sp = [] \<and> (r = [] \<or> hd r \<noteq> 109)"
  shows "log_body True et (37 # f) as =
    bindr (convert None sp d as) (\<lambda>(s, as). bindr (log_body True et r as) (\<lambda>t. Inr (s @ t)))"
proof -
  have sp37: "37 \<notin> set sp" using sp spec_char_not by blast
  have hd: "hd (sp @ d # u) \<noteq> 109" for u using sp d(1) by (cases sp) (auto dest: spec_char_not)
  have m: "find_m (37 # sp @ d # u) = map_option (\<lambda>(p, q). (37 # sp @ d # p, q)) (find_m u)"
    if "d = 37 \<longrightarrow> u = [] \<or> hd u \<noteq> 109" for u
    using hd [of u] that sp37 d by (cases "find_m u") (auto simp: find_m_plain)
  have dir: "directive (sp @ d # u) = Some (sp, d, u)" for u
    using sp by (simp add: directive_Some)
  have v: "vprintf None (37 # sp @ d # u) as =
      bindr (convert None sp d as) (\<lambda>(s, as). bindr (vprintf None u as) (\<lambda>(t, as). Inr (s @ t, as)))" for u
    by (simp add: dir)
  show ?thesis
    using log_body_prefix [where x = "37 # sp @ [d]" and f = r and ok = "\<lambda>u. d = 37 \<longrightarrow> u = [] \<or> hd u \<noteq> 109" and as = as
        and r = "convert None sp d as" and et = et] m v d(2) f by auto
qed

text \<open>Cutting the format and formatting the pieces is formatting it with \<^verbatim>\<open>%m\<close> as a conversion.\<close>

lemma log_body_once:
  assumes "m_safe f" and "37 \<notin> set et"
  shows "log_body True et f as = bindr (vprintf (Some et) f as) (\<lambda>(t, _). Inr t)"
  using assms(1)
proof (induction f arbitrary: as rule: m_safe.induct)
  case 1
  then show ?case by (simp add: log_body.simps [of True et "[]"])
next
  case (2 c f)
  show ?case
  proof (cases "c = 37")
    case False
    then have "log_body True et (c # f) as = bindr (log_body True et f as) (\<lambda>t. Inr (c # t))"
      using log_body_plain [of "[c]" et f as] by simp
    then show ?thesis
      using 2(1) [OF False] 2(3) False by (cases "vprintf (Some et) f as") auto
  next
    case True
    then obtain sp d r where dir: "directive f = Some (sp, d, r)" and s: "m_safe r"
      "d = 37 \<or> d = 109 \<longrightarrow> sp = []" "d = 37 \<longrightarrow> r = [] \<or> hd r \<noteq> 109"
      using 2(3) by (auto split: option.splits)
    note f = dir [unfolded directive_Some]
    have IH: "log_body True et r as = bindr (vprintf (Some et) r as) (\<lambda>(t, _). Inr t)" for as
      by (rule 2(2)) (use True dir s(1) in auto)
    show ?thesis
    proof (cases "d = 109")
      case d: True
      then have "find_m (37 # f) = Some ([], r)" using f s(2) by simp
      then have "log_body True et (37 # f) as = bindr (log_body True et r as) (\<lambda>u. Inr (et @ u))"
        by (simp add: log_body.simps [of _ _ "37 # f"] vprintf_only_plain assms(2))
      then show ?thesis
        using True dir d s(2) IH [of as] by (cases "vprintf (Some et) r as") (auto simp: convert_def)
    next
      case d: False
      have "log_body True et (37 # f) as =
          bindr (convert None sp d as) (\<lambda>(s, as). bindr (log_body True et r as) (\<lambda>t. Inr (s @ t)))"
        by (rule log_body_directive) (use f d s in auto)
      moreover have "convert (Some et) sp d as = convert None sp d as" using d by (simp add: convert_def)
      ultimately show ?thesis
        using True dir IH by (cases "convert None sp d as")
          (auto split: prod.splits, (rename_tac x y; case_tac "vprintf (Some et) r y"; auto)+)
    qed
  qed
qed

lemma not_shared_repeats:
  "find_m f = Some (p, q) \<Longrightarrow> log_body False et f as =
    bindr (vprintf None (p @ et) as) (\<lambda>(t, _). bindr (log_body False et q as) (\<lambda>u. Inr (t @ u)))"
  by (simp add: log_body.simps [of False et f] split_beta)

lemma directive_append: "directive f = Some (sp, d, r) \<Longrightarrow> directive (f @ g) = Some (sp, d, r @ g)"
  by (simp add: directive_Some)

lemma vprintf_append:
  "vprintf em f as = Inr (t, as') \<Longrightarrow>
     vprintf em (f @ g) as = bindr (vprintf em g as') (\<lambda>(u, as). Inr (t @ u, as))"
proof (induction em f as arbitrary: t rule: vprintf.induct)
  case (1 em as)
  then show ?case by (cases "vprintf em g as'") auto
next
  case (2 em c f as)
  show ?case
  proof (cases "c = 37")
    case False
    then obtain u where u: "vprintf em f as = Inr (u, as')" "t = c # u"
      using 2(3) by (auto simp: bindr_Inr_iff)
    show ?thesis
      using 2(1) [OF False u(1)] u(2) False by (cases "vprintf em g as'") auto
  next
    case True
    then obtain sp d r where dir: "directive f = Some (sp, d, r)" using 2(3) by (auto split: option.splits)
    then obtain s as1 u where u: "convert em sp d as = Inr (s, as1)" "vprintf em r as1 = Inr (u, as')" "t = s @ u"
      using 2(3) True by (auto simp: bindr_Inr_iff)
    have "vprintf em (r @ g) as1 = bindr (vprintf em g as') (\<lambda>(v, as). Inr (u @ v, as))"
      by (rule 2(2)) (use True dir u in simp_all)
    then show ?thesis
      using True u directive_append [OF dir, of g] by (cases "vprintf em g as'") auto
  qed
qed

section \<open>The line\<close>

lemma log_head_text:
  fixes env
  defines "tv \<equiv> ntime_to_timeval (ntime_get (le_clock env))"
  assumes t: "length (le_time env (tv_sec tv)) < 32" "5 < length (le_time env (tv_sec tv))"
    and z: "length (le_zone env (tv_sec tv)) = 5" "0 \<notin> set (le_zone env (tv_sec tv))" and j: "length (le_junk env) = 32"
  shows "log_head env ident pri = Inr (le_time env (tv_sec tv) @ [46] @
    pad_number (str ''06'') (tv_usec tv < 0) (dec_digits (nat \<bar>tv_usec tv\<bar>)) @
    take 3 (le_zone env (tv_sec tv)) @ [58] @ drop 3 (le_zone env (tv_sec tv)) @ [32] @ ident @
    [91] @ dec_digits (le_pid env) @ str '']:'' @ print_int pri @ str '': '')"
proof -
  let ?T = "le_time env (tv_sec tv)" and ?Z = "le_zone env (tv_sec tv)"
  let ?buf = "overwrite (overwrite (le_junk env) 0 (?T @ [0])) 0 (?Z @ [0])"
  have "drop 3 ?buf = drop 3 ?Z @ 0 # drop 6 (overwrite (le_junk env) 0 (?T @ [0]))"
    using z by (simp add: overwrite_def [of "overwrite _ _ _"])
  moreover have "0 \<notin> set (drop 3 ?Z)" using z(2) by (meson in_set_dropD)
  moreover have "takeWhile (\<lambda>c. c \<noteq> 0) (drop 3 ?Z @ 0 # u) = drop 3 ?Z" for u
    using calculation(2) by (subst takeWhile_append2) auto
  moreover have "spec_precision (str ''06'') = None" by (simp add: spec_precision_def str_def)
  ultimately show ?thesis
    by (simp add: log_head_def Let_def tv_def [symmetric] print_arg_def)
qed

lemma log_place_plain:
  "37 \<notin> set file \<Longrightarrow> 37 \<notin> set func \<Longrightarrow> 37 \<notin> set (log_place file func line)"
proof -
  have d: "37 \<notin> set (dec_digits v)" for v
  proof
    assume "37 \<in> set (dec_digits v)"
    then obtain k where "k < 10" "(37 :: byte) = of_nat (48 + k)" using dec_digits_digits by blast
    moreover have "unat (of_nat (48 + k) :: byte) = 48 + k" using \<open>k < 10\<close> by (simp add: unat_of_nat del: of_nat_add)
    ultimately have "unat (37 :: byte) = 48 + k" by metis
    then show False by simp
  qed
  assume "37 \<notin> set file" "37 \<notin> set func"
  then show ?thesis using d by (simp add: log_place_def print_int_def str_def)
qed

lemma xlogprintf_file:
  assumes "lg_init s" and "lg_mode s AND LOG_TO_FILE \<noteq> 0" and "\<not> le_syslog env" and "log_head env (lg_ident s) pri = Inr h"
  shows "xlogprintf env file func line pri fmt as s =
    (if pri \<le> lg_level s
     then bindr (log_body (le_shared env) (err_text env) (log_place file func line @ fmt) as) (\<lambda>t.
       Inr (s\<lparr>lg_out := lg_out s @ [(lg_file s, h @ t)]\<rparr>))
     else Inr s)"
  using assms by (simp add: xlogprintf_def vlogprintf_def Let_def)

section \<open>The pieces between the errors\<close>

fun m_pieces :: "cstring \<Rightarrow> cstring list" where
  "m_pieces f = (case find_m f of None \<Rightarrow> [f] | Some (p, q) \<Rightarrow> p # m_pieces q)"

declare m_pieces.simps [simp del]

fun joined_by :: "cstring \<Rightarrow> cstring list \<Rightarrow> cstring" where
  "joined_by et [] = []"
| "joined_by et [t] = t"
| "joined_by et (t # u # ts) = t @ et @ joined_by et (u # ts)"

abbreviation formatted :: "log_arg list \<Rightarrow> cstring \<Rightarrow> cstring \<Rightarrow> bool" where
  "formatted as p t \<equiv> \<exists>rest. vprintf None p as = Inr (t, rest)"

lemma m_pieces_ne: "m_pieces f \<noteq> []"
  by (subst m_pieces.simps) (simp split: option.split)

lemma m_pieces_plain:
  assumes "37 \<notin> set s"
  shows "m_pieces (s @ f) = (s @ hd (m_pieces f)) # tl (m_pieces f)"
  using find_m_plain [OF assms, of f] by (auto simp: m_pieces.simps [of f] m_pieces.simps [of "s @ f"] split: option.split)

text \<open>Where the arguments are not shared every piece is formatted with them from the first one on.\<close>

lemma log_body_apart:
  assumes "37 \<notin> set et"
  shows "list_all2 (formatted as) (m_pieces f) ts \<Longrightarrow> log_body False et f as = Inr (joined_by et ts)"
proof (induction f arbitrary: ts rule: m_pieces.induct)
  case (1 f)
  show ?case
  proof (cases "find_m f")
    case None
    then obtain t where "ts = [t]" "formatted as f t"
      using 1(2) by (auto simp: m_pieces.simps [of f] list_all2_Cons1)
    then show ?thesis using None by (auto simp: log_body.simps [of False et f])
  next
    case (Some pq)
    obtain p q where m: "find_m f = Some (p, q)" using Some by (cases pq) simp
    then obtain t us where ts: "ts = t # us" "formatted as p t" "list_all2 (formatted as) (m_pieces q) us"
      using 1(2) by (auto simp: m_pieces.simps [of f] list_all2_Cons1)
    have "us \<noteq> []" using ts(3) m_pieces_ne [of q] by auto
    moreover have "\<exists>rest. vprintf None (p @ et) as = Inr (t @ et, rest)"
      using ts(2) vprintf_append [where g = et] vprintf_only_plain [OF assms] by fastforce
    moreover have "log_body False et q as = Inr (joined_by et us)" using 1(1) [OF m refl ts(3)] .
    ultimately show ?thesis using not_shared_repeats [OF m, of et as] ts(1) by (cases us) auto
  qed
qed

lemma log_body_apart_plain:
  assumes "37 \<notin> set et" and "37 \<notin> set s" and ts: "list_all2 (formatted as) (m_pieces f) ts"
  shows "log_body False et (s @ f) as = Inr (s @ joined_by et ts)"
proof -
  obtain p ps where p: "m_pieces f = p # ps" using m_pieces_ne by (cases "m_pieces f") auto
  then obtain t us where t: "ts = t # us" "formatted as p t" "list_all2 (formatted as) ps us"
    using ts by (auto simp: list_all2_Cons1)
  have "formatted as (s @ p) (s @ t)" using t(2) vprintf_plain [OF assms(2), of None p as] by auto
  then have "list_all2 (formatted as) (m_pieces (s @ f)) ((s @ t) # us)"
    using t(3) m_pieces_plain [OF assms(2), of f] p by simp
  from log_body_apart [OF assms(1) this] show ?thesis using t(1) by (cases us) auto
qed

end
