(* ===== verification/System_Properties.thy ===== *)
theory System_Properties
  imports Client_Properties Client_Login Server_Properties Server_Relay Config Logprintf
begin

text \<open>
  Properties that span the client and the server (src/cltmain.c, src/srvmain.c): a login from the
  command line to the session, the transfer of a file from one client to another through the server, and
  the configuration of both.
\<close>

section \<open>A login\<close>

text \<open>C4: A user who types \<^verbatim>\<open>login\<close> with the name of an account whose key is a plain password is logged
  in exactly if the password is that one: then both sides hold the client for authorised, under the
  identity of the account, and every other session of that identity is gone. Otherwise the state of both
  sides is the one before the login again, and no other session changes; but only the state is reset:
  the session at the server keeps the identifier, the name and the key of the account. Neither
  side has anything left to send. (The connection is up and not logged in, nothing waits to be sent, and name and
  password are words of at most 3000 octets.)\<close>

theorem login_completes:
  assumes c: "fr_st c = ST_PRE_LOGIN" "0 \<le> fr_srvfd c" "fr_queue c = []"
    and s: "has_session lfd i ss s" "ss_st ss = CLT_PRE_LOGIN"
    and args: "arg_ok (qu, n)" "arg_ok (qp, pw)" "length n \<le> 3000" "length pw \<le> 3000" "is_cstring n" "is_cstring pw"
    and acc: "udb_map (srv_udb s) n = Some u" "u_key u = AUTH_KEY_PLAINTEXT @ key" "is_cstring key"
  shows "\<exists>c' s' ss'. log_in i cenv e1 e2 (login_line (qu, n) (qp, pw)) (c, s) = Inr (c', s') \<and>
    ss' = \<lparr>ss_st = (if pw = key then CLT_AUTH_OK else CLT_PRE_LOGIN), ss_id = u_id u, ss_name = Some n,
      ss_key = Some (u_key u)\<rparr> \<and>
    fr_st c' = (if pw = key then ST_AUTH_OK else ST_PRE_LOGIN) \<and> fr_queue c' = [] \<and> has_session lfd i ss' s' \<and>
    proto_of s' = set_sess i (Some ss') (if pw = key then drop_same_id i (u_id u) (proto_of s) else proto_of s)"
proof -
  obtain c1 m s1 x where asked: "log_in i cenv e1 e2 (login_line (qu, n) (qp, pw)) (c, s) =
      ask_server i (fst e2) (snd e2) (c1\<lparr>fr_queue := [m]\<rparr>, s1)"
    and c1: "fr_st c1 = ST_LOGIN_OK" "fr_queue c1 = []"
    and s1: "has_session lfd i (challenged u n) s1" "proto_of s1 = set_sess i (Some (challenged u n)) (proto_of s)"
    and m: "carries MSG_TYPE_AUTH_REQ 0 0 x [(MSG_ATTR_DIGEST, (AUTH_KEY_PLAINTEXT @ pw) @ [0])] m"
    by (rule login_asked [OF c s args(1-5) acc(1,2)])
  show ?thesis unfolding asked
    by (rule login_decided [OF c1 s1(1) args(6) acc(2,3) m, of "fst e2" "snd e2"])
      (auto simp: s1(2) set_sess_again challenged_def)
qed

text \<open>The account of \<^verbatim>\<open>bob\<close>, and a connection that has not logged in; the right password and a wrong one.\<close>

definition login_server :: server where
  "login_server = demo_server [Server_Properties.demo_client 4 0 CLT_PRE_LOGIN None None]
     (demo_udb\<lparr>userdb := [\<lparr>u_id = 1, u_name = [98, 111, 98], u_key = AUTH_KEY_PLAINTEXT @ [120]\<rparr>]\<rparr>)"

theorem login_completes_witness:
  "(\<exists>c' s'. log_in 0 (demo_cmd_env []) (7, demo_msg_env) (8, demo_msg_env)
      (login_line (False, [98, 111, 98]) (False, [120]))
      (Client_Properties.demo_client ST_PRE_LOGIN [] [] [] demo_fs, login_server) = Inr (c', s') \<and>
    fr_st c' = ST_AUTH_OK \<and> session_of (clients s' ! 0) = \<lparr>ss_st = CLT_AUTH_OK, ss_id = 1,
      ss_name = Some [98, 111, 98], ss_key = Some (AUTH_KEY_PLAINTEXT @ [120])\<rparr>) \<and>
   (\<exists>c' s'. log_in 0 (demo_cmd_env []) (7, demo_msg_env) (8, demo_msg_env)
      (login_line (False, [98, 111, 98]) (False, [121]))
      (Client_Properties.demo_client ST_PRE_LOGIN [] [] [] demo_fs, login_server) = Inr (c', s') \<and>
    fr_st c' = ST_PRE_LOGIN \<and> session_of (clients s' ! 0) = \<lparr>ss_st = CLT_PRE_LOGIN, ss_id = 1,
      ss_name = Some [98, 111, 98], ss_key = Some (AUTH_KEY_PLAINTEXT @ [120])\<rparr>)"
proof -
  let ?d = "demo_udb\<lparr>userdb := [\<lparr>u_id = 1, u_name = [98, 111, 98], u_key = AUTH_KEY_PLAINTEXT @ [120]\<rparr>]\<rparr>"
  have "udb_nameisvalid [98, 111, 98] = 0"
    by (rule udb_nameisvalid_UNAME_RE) (simp add: UNAME_RE_def name_char_def)
  then have db: "udb_inv ?d" "udb_map ?d [98, 111, 98] = Some \<lparr>u_id = 1, u_name = [98, 111, 98], u_key = AUTH_KEY_PLAINTEXT @ [120]\<rparr>"
    by (simp_all add: udb_inv_def udb_wf_def demo_udb_def udb_map_def)
  have "msg_ok 3 login_server" unfolding login_server_def by (rule demo_msg_ok) (auto simp: db)
  then have ses: "has_session 3 0 \<lparr>ss_st = CLT_PRE_LOGIN, ss_id = 0, ss_name = None, ss_key = None\<rparr> login_server"
    by (simp add: has_session_def login_server_def session_of_def)
  have acc: "udb_map (srv_udb login_server) [98, 111, 98] =
      Some \<lparr>u_id = 1, u_name = [98, 111, 98], u_key = AUTH_KEY_PLAINTEXT @ [120]\<rparr>"
    by (simp add: login_server_def db(2))
  note run = login_completes [OF _ _ _ ses _ _ _ _ _ _ _ acc, of "Client_Properties.demo_client ST_PRE_LOGIN [] [] [] demo_fs"
        False False _ "[120]" "demo_cmd_env []" "(7, demo_msg_env)" "(8, demo_msg_env)"]
  have right: "\<exists>c' s'. log_in 0 (demo_cmd_env []) (7, demo_msg_env) (8, demo_msg_env)
      (login_line (False, [98, 111, 98]) (False, [120]))
      (Client_Properties.demo_client ST_PRE_LOGIN [] [] [] demo_fs, login_server) = Inr (c', s') \<and>
    fr_st c' = ST_AUTH_OK \<and> session_of (clients s' ! 0) = \<lparr>ss_st = CLT_AUTH_OK, ss_id = 1,
      ss_name = Some [98, 111, 98], ss_key = Some (AUTH_KEY_PLAINTEXT @ [120])\<rparr>"
    using run [of "[120]"] by (auto simp: Client_Properties.demo_client_def is_cstring_def isspace_def has_session_def)
  have wrong: "\<exists>c' s'. log_in 0 (demo_cmd_env []) (7, demo_msg_env) (8, demo_msg_env)
      (login_line (False, [98, 111, 98]) (False, [121]))
      (Client_Properties.demo_client ST_PRE_LOGIN [] [] [] demo_fs, login_server) = Inr (c', s') \<and>
    fr_st c' = ST_PRE_LOGIN \<and> session_of (clients s' ! 0) = \<lparr>ss_st = CLT_PRE_LOGIN, ss_id = 1,
      ss_name = Some [98, 111, 98], ss_key = Some (AUTH_KEY_PLAINTEXT @ [120])\<rparr>"
    using run [of "[121]"] by (auto simp: Client_Properties.demo_client_def is_cstring_def isspace_def has_session_def)
  show ?thesis using right wrong by blast
qed

section \<open>A file transfer\<close>

text \<open>C6: When a client offers a file and another has started to download it and holds its first
  \<open>k\<close> octets, then the exchange of requests and data through the server ends: after one round for
  every 65376 missing octets and one more, the file of the downloading client has the offered
  name and the offered content, the partial file is gone, neither client has anything left to
  send, and the server's sessions are what they were, with nothing left to send to the two.\<close>

theorem download_completes:
  assumes srv: "peers lfd i j ida idb P s" and start: "exchanging ida idb oid f k nm pn (a, b)"
    and envs: "\<forall>e \<in> set es. env_ok (fst (fst e)) \<and> env_ok (fst (snd e))"
    and rounds: "length es = rounds_needed (length f - k)"
  shows "\<exists>a' b' s'. fetch_rounds (serve j i) (serve i j) es (a, b, s) = Inr (a', b', s') \<and>
    peers lfd i j ida idb P s' \<and>
    file_content (x_fs (fr_xfer b')) nm = Some f \<and> fs_names (x_fs (fr_xfer b')) pn = None \<and>
    fr_queue a' = [] \<and> fr_queue b' = [] \<and> fr_requests b' = fr_requests b"
  using relayed_peers.fetch_rounds_complete [OF start srv envs rounds] by blast

text \<open>Two clients in the server, of the identifiers 1 and 2.\<close>

definition pair_server :: server where
  "pair_server = demo_server [Server_Properties.demo_client 4 1 CLT_AUTH_OK (Some [97]) None,
     Server_Properties.demo_client 5 2 CLT_AUTH_OK (Some [98]) None] demo_udb"

lemma pair_peers: "peers 3 0 1 1 2 (proto_of pair_server) pair_server"
proof -
  let ?c = "\<lambda>i n. \<lparr>ss_st = CLT_AUTH_OK, ss_id = i, ss_name = Some n, ss_key = None\<rparr>"
  have ok: "msg_ok 3 pair_server"
    unfolding pair_server_def by (rule demo_msg_ok) (auto simp: demo_udb_inv)
  have ses: "pr_sess (proto_of pair_server) k = (if k = 0 then Some (?c 1 [97]) else if k = 1 then Some (?c 2 [98]) else None)" for k
    by (cases k) (auto simp: proto_of_def pair_server_def in_use_def session_of_def less_Suc_eq nth_Cons')
  have nx: "next_id (srv_udb pair_server) = 9" by (simp add: pair_server_def demo_udb_def)
  have "proto_inv (proto_of pair_server)"
  proof (rule proto_invI)
    show "pr_next (proto_of pair_server) \<noteq> 0" by (simp add: nx)
    show "u_id e \<noteq> 0 \<and> u_id e < pr_next (proto_of pair_server)" if "pr_acc (proto_of pair_server) n = Some e" for n e
      using that by (simp add: proto_of_def pair_server_def demo_udb_inv)
    show "ss_id c \<noteq> 0 \<and> ss_id c < pr_next (proto_of pair_server)" if "pr_sess (proto_of pair_server) k = Some c" for k c
      using that unfolding ses by (auto simp: nx split: if_splits)
  qed (unfold ses, auto split: if_splits)
  then show ?thesis
    using ok by (simp add: peers_def has_session_def pair_server_def in_use_def session_of_def)
qed

definition demo_offerer :: frelay where
  "demo_offerer = Client_Properties.demo_client ST_AUTH_OK [] [] [demo_entry TTYPE_OFFER 2 3 0 (- 1)]
     (demo_fs\<lparr>fs_names := [str ''f'' \<mapsto> 0], fs_inodes := [[1, 2, 3]]\<rparr>)"

definition demo_fetcher :: "mbuf list \<Rightarrow> frelay" where
  "demo_fetcher queue = Client_Properties.demo_client ST_AUTH_OK queue [] [demo_entry TTYPE_DOWNLOAD 1 3 1 3]
     (demo_fs\<lparr>fs_names := [str ''f.part'' \<mapsto> 0], fs_inodes := [[1]],
        fs_fds := [Some Reserved, Some Reserved, Some Reserved, Some (Opened 0 1 True)]\<rparr>)"

theorem download_completes_witness:
  "\<exists>m a' b' s'. fetch_rounds (serve 1 0) (serve 0 1) [((demo_msg_env, 7), (demo_msg_env, 8)), ((demo_msg_env, 9), (demo_msg_env, 10))]
     (demo_offerer, demo_fetcher [m], pair_server) = Inr (a', b', s') \<and>
     file_content (x_fs (fr_xfer b')) (str ''f'') = Some [1, 2, 3]"
proof -
  let ?es = "[((demo_msg_env, 7 :: u64), (demo_msg_env, 8)), ((demo_msg_env, 9), (demo_msg_env, 10))]"
  obtain m where m: "clt_reply 7 MSG_TYPE_GETFILE_REQ 1 5 [u64_attr MSG_ATTR_OFFERID 9,
      u64_attr MSG_ATTR_OFFSET 1, u64_attr MSG_ATTR_SIZE 2] = Inr m"
    "carries MSG_TYPE_GETFILE_REQ 0 1 5 (part_request 9 1 2) m"
    by (rule clt_reply_carries [where cs = "[u64_attr MSG_ATTR_OFFERID 9, u64_attr MSG_ATTR_OFFSET 1, u64_attr MSG_ATTR_SIZE 2]"
          and as = "part_request 9 1 2" and t = MSG_TYPE_GETFILE_REQ and dst = 1 and x = 5 and ts = 7])
      (simp_all add: part_request_def u64_attr_def attr_calls length_tlv_encode ROUNDUP8_def)
  note defs = Client_Properties.demo_client_def demo_entry_def entry_def demo_fs_def
  have "offers 2 9 [1, 2, 3] demo_offerer"
    by (rule offersI [where i = 0 and ino = 0 and n = "str ''f''", OF _ _ _ refl refl])
      (simp_all add: demo_offerer_def defs reads_def fd_lowest_def)
  moreover have "fetches 1 9 [1, 2, 3] 1 (str ''f'') (str ''f.part'') (demo_fetcher [m])"
    by (rule fetchesI [where i = 0 and ino = 0, OF _ _ _ _ _ _ refl refl])
      (simp_all add: demo_fetcher_def defs appends_def fd_get_def str_eq_iff)
  moreover have "right_size [1, 2, 3 :: byte] 1 2" by (simp add: right_size_def next_part_def)
  ultimately have "exchanging 1 2 9 [1, 2, 3] 1 (str ''f'') (str ''f.part'') (demo_offerer, demo_fetcher [m])"
    using m(2) unfolding exchanging_def by (auto simp: demo_fetcher_def Client_Properties.demo_client_def)
  moreover have "\<forall>e \<in> set ?es. env_ok (fst (fst e)) \<and> env_ok (fst (snd e))"
    by (simp add: env_ok_def demo_msg_env_def)
  moreover have "length ?es = rounds_needed (length [1, 2, 3 :: byte] - 1)"
    by (simp add: rounds_needed_def)
  ultimately show ?thesis using download_completes [OF pair_peers] by blast
qed

text \<open>C3: From the command to the file: a client that is logged in types an offer of a file of its own
  for a peer, the peer receives the offer and its user accepts it. Then, whatever the file holds, the
  dialogue of the two clients through the server ends with a file of the offered name and content at
  the peer, and no partial file; the offering client's path gives the name only by its last component.
  Every message on the way is handled by the server, whose sessions stay what they are.\<close>

theorem offered_file_arrives:
  assumes srv: "peers lfd i j ida idb P s"
    and a: "can_offer f fn a" "arg_ok (q, fn)" and b: "can_receive f (posix_basename fn) b"
    and cenvs: "0 < ce_now cea" "0 < ce_now ceb" and envs: "env_ok enva" "env_ok envb"
    and es: "\<forall>e \<in> set es. env_ok (fst (fst e)) \<and> env_ok (fst (snd e))"
    and rounds: "length es = rounds_needed (length f)"
  shows "\<exists>a' b' s'. send_file (serve j i) (serve i j) ida idb (q, fn) (cea, ceb) ((enva, ta), (envb, tb)) es (a, b, s) =
      Inr (a', b', s') \<and> peers lfd i j ida idb P s' \<and>
    file_content (x_fs (fr_xfer b')) (posix_basename fn) = Some f \<and>
    fs_names (x_fs (fr_xfer b')) (part (posix_basename fn)) = None \<and>
    fr_queue a' = [] \<and> fr_queue b' = [] \<and> fr_requests b' = fr_requests b"
  by (rule relayed_peers.file_arrives [OF a b srv cenvs envs es rounds])

theorem offered_file_arrives_witness:
  "\<exists>a' b' s'. send_file (serve 1 0) (serve 0 1) 1 2 (False, str ''/d/f'') (demo_cmd_env [], demo_cmd_env [])
      ((demo_msg_env, 5), (demo_msg_env, 6)) [((demo_msg_env, 7), (demo_msg_env, 8)), ((demo_msg_env, 9), (demo_msg_env, 10))]
      (demo_peer [str ''/d/f'' \<mapsto> 0] [[1, 2, 3]], demo_peer (\<lambda>_. None) [], pair_server) = Inr (a', b', s') \<and>
    file_content (x_fs (fr_xfer b')) (str ''f'') = Some [1, 2, 3]"
proof -
  have bn: "posix_basename (str ''/d/f'') = str ''f''" by (simp add: posix_basename_def str_def)
  have "can_offer [1, 2, 3] (str ''/d/f'') (demo_peer [str ''/d/f'' \<mapsto> 0] [[1, 2, 3]])"
    by (simp add: can_offer_def demo_peer_def Client_Properties.demo_client_def demo_fs_def file_content_def fd_lowest_def is_cstring_def str_def)
  moreover have "can_receive [1, 2, 3] (posix_basename (str ''/d/f'')) (demo_peer (\<lambda>_. None) [])"
    by (simp add: bn can_receive_def demo_peer_def Client_Properties.demo_client_def demo_cfg_def demo_fs_def fd_lowest_def)
  moreover have "arg_ok (False, str ''/d/f'')" by (simp add: str_def isspace_def)
  moreover have "env_ok demo_msg_env" by (simp add: env_ok_def demo_msg_env_def)
  ultimately show ?thesis
    using offered_file_arrives [OF pair_peers, of "[1, 2, 3]" "str ''/d/f''" "demo_peer [str ''/d/f'' \<mapsto> 0] [[1, 2, 3]]" False
        "demo_peer (\<lambda>_. None) []" "demo_cmd_env []" "demo_cmd_env []" demo_msg_env demo_msg_env
        "[((demo_msg_env, 7), (demo_msg_env, 8)), ((demo_msg_env, 9), (demo_msg_env, 10))]" 5 6]
    by (auto simp: bn demo_cmd_env_def rounds_needed_def)
qed

section \<open>The configuration\<close>

text \<open>C36: Whatever the arguments, the environment and the files hold, both programs either exit while
  they read their configuration or have one in which every variable has its type and no string is
  missing; no file can make them store a value of the wrong type or outside the variables.\<close>

theorem configuration_total:
  "((\<exists>k. clt_init_config env files args = Inr (Exit k)) \<or>
     (\<exists>s. clt_init_config env files args = Inr (Go s) \<and> same_types clt_defaults (co_vars s) \<and>
        CV_STR None \<notin> set (co_vars s))) \<and>
   ((\<exists>k. srv_init_config env files args = Inr (Exit k)) \<or>
     (\<exists>s. srv_init_config env files args = Inr (Go s) \<and> same_types srv_defaults (co_vars s) \<and>
        CV_STR None \<notin> set (co_vars s)))"
  using clt_init_ok [of env files args] srv_init_ok [of env files args]
  by (simp add: clt_ok_def srv_ok_def typed_def)

text \<open>C37: A user name given to the client overrides the default configuration file, but a port given to the
  server does not: the server reads that file after its options, so the file's port is the one it
  listens on.\<close>

theorem default_file_precedence:
  assumes "u \<noteq> []" and "good_value q" and "length q \<le> 3000"
    and "files srv_config_path = Some (str ''listenport='' @ q @ [10])"
  shows "(\<exists>s. clt_init_config env files [str ''-u'', u] = Inr (Go s) \<and> cf_username (clt_cfg_of env s) = Some u) \<and>
    (\<exists>s. srv_init_config env files [str ''-p'', p] = Inr (Go s) \<and> cv_str (co_vars s ! 1) = Some q)"
proof
  obtain s where "clt_init_config env files [str ''-u'', u] = Inr (Go s)" "co_vars s ! 6 = CV_STR (Some u)"
    by (rule clt_user_option [OF assms(1)])
  then show "\<exists>s. clt_init_config env files [str ''-u'', u] = Inr (Go s) \<and> cf_username (clt_cfg_of env s) = Some u"
    by (simp add: clt_cfg_of_def Let_def)
  obtain s where "srv_init_config env files [str ''-p'', p] = Inr (Go s)" "co_vars s ! 1 = CV_STR (Some q)"
    by (rule srv_port_option [of files q env p]) (use assms in simp_all)
  then show "\<exists>s. srv_init_config env files [str ''-p'', p] = Inr (Go s) \<and> cv_str (co_vars s ! 1) = Some q"
    by simp
qed

definition demo_conf_env :: conf_env where
  "demo_conf_env = \<lparr>en_creatable = (\<lambda>_. False), en_writes = 0, en_errno = (\<lambda>_. False), en_home = None,
     en_user = None, en_tty = (\<lambda>_. False)\<rparr>"

theorem default_file_precedence_witness:
  "\<exists>s. srv_init_config demo_conf_env [srv_config_path \<mapsto> str ''listenport=99'' @ [10]] [str ''-p'', str ''1234''] =
     Inr (Go s) \<and> cv_str (co_vars s ! 1) = Some (str ''99'')"
proof -
  have "good_value (str ''99'')" by (simp add: good_value_def str_def isspace_def)
  moreover have "str ''listenport='' @ str ''99'' @ [10] = str ''listenport=99'' @ [10]" by (simp add: str_def)
  ultimately show ?thesis
    using default_file_precedence [of "str ''x''" "str ''99''" "[srv_config_path \<mapsto> str ''listenport=99'' @ [10]]"
        demo_conf_env "str ''1234''"] by (auto simp: str_def)
qed
section \<open>The log\<close>

text \<open>C35: In file mode, and in a build without the system log, a message whose priority is within the
  level is written to the log file as one entry, and any other leaves the logger as it is. The entry is the
  time with microseconds and zone, source, process and priority as the header file documents, the place
  in the source, and the formatted text; no line feed is added. Where functions share the \<^verbatim>\<open>va_list\<close> of
  their caller, the text is the format with the text of the error for each \<^verbatim>\<open>%m\<close>, if every \<^verbatim>\<open>%m\<close> in it is
  a conversion of its own (\<open>m_safe\<close>: not the end of \<^verbatim>\<open>%%m\<close>, which the code cuts in two, and without a
  width). Where they do not share it, the format is cut at the \<^verbatim>\<open>%m\<close>, every piece is formatted with the
  arguments from the first one on, and the texts are joined by the text of the error. (Names of source
  files and functions and the text of the error have no percent sign, the texts of \<^verbatim>\<open>strftime\<close> the
  lengths its formats give them.)\<close>

theorem log_line_written:
  assumes s: "lg_init s" "lg_mode s AND LOG_TO_FILE \<noteq> 0" "\<not> le_syslog env"
    and time: "\<And>u. 5 < length (le_time env u)" "\<And>u. length (le_time env u) < 32" "\<And>u. length (le_zone env u) = 5"
      "\<And>u. 0 \<notin> set (le_zone env u)" "length (le_junk env) = 32"
    and plain: "37 \<notin> set file" "37 \<notin> set func" "37 \<notin> set (err_text env)"
  shows "let tv = ntime_to_timeval (ntime_get (le_clock env)); zone = le_zone env (tv_sec tv);
      head = le_time env (tv_sec tv) @ [46] @ pad_number (str ''06'') (tv_usec tv < 0) (dec_digits (nat \<bar>tv_usec tv\<bar>)) @
        take 3 zone @ [58] @ drop 3 zone @ [32] @ lg_ident s @ [91] @ dec_digits (le_pid env) @ str '']:'' @
        print_int pri @ str '': '';
      writes = (\<lambda>t. xlogprintf env file func line pri fmt as s =
        (if pri \<le> lg_level s
         then Inr (s\<lparr>lg_out := lg_out s @ [(lg_file s, head @ log_place file func line @ t)]\<rparr>) else Inr s))
    in (le_shared env \<and> m_safe fmt \<longrightarrow>
          (\<forall>t rest. vprintf (Some (err_text env)) fmt as = Inr (t, rest) \<longrightarrow> writes t)) \<and>
       (\<not> le_shared env \<longrightarrow>
          (\<forall>ts. list_all2 (formatted as) (m_pieces fmt) ts \<longrightarrow> writes (joined_by (err_text env) ts)))"
proof -
  have pl: "37 \<notin> set (log_place file func line)" by (rule log_place_plain [OF plain(1,2)])
  note head = log_head_text [OF time(2,1,3,4,5), where ident = "lg_ident s" and pri = pri]
  note fl = xlogprintf_file [OF s(1,2,3) head]
  let ?pl = "log_place file func line" and ?et = "err_text env"
  have shared: "log_body True ?et (?pl @ fmt) as = Inr (?pl @ t)"
    if safe: "m_safe fmt" and "vprintf (Some ?et) fmt as = Inr (t, rest)" for t rest
    using that(2) log_body_plain [OF pl, of ?et fmt as] log_body_once [OF safe plain(3), of as] by simp
  have apart: "log_body False ?et (?pl @ fmt) as = Inr (?pl @ joined_by ?et ts)"
    if "list_all2 (formatted as) (m_pieces fmt) ts" for ts
    by (rule log_body_apart_plain [OF plain(3) pl that])
  show ?thesis
    unfolding Let_def fl by (intro conjI impI allI; (elim conjE)?) (simp_all add: shared apart)
qed

definition demo_log_env :: "bool \<Rightarrow> log_env" where
  "demo_log_env shared = \<lparr>le_syslog = False, le_clock = Some \<lparr>ts_sec = 7, ts_nsec = 5000\<rparr>,
     le_time = (\<lambda>_. str ''2016-01-01T00:00:07''), le_zone = (\<lambda>_. str ''+0100''), le_pid = 42, le_errno = 2,
     le_strerror = (\<lambda>_. Some (str ''No such file'')), le_sysm = (\<lambda>_. []), le_shared = shared, le_junk = replicate 32 0\<rparr>"

definition demo_logger :: logger where
  "demo_logger = \<lparr>lg_init = True, lg_level = LOG_WARNING, lg_mode = LOG_TO_FILE, lg_ident = str ''frelay'',
     lg_file = stderr_file, lg_sysname = None, lg_out = [], lg_sys = []\<rparr>"

theorem log_line_written_witness:
  "(\<exists>s t. xlogprintf (demo_log_env True) (str ''f.c'') (str ''g'') 3 LOG_ERR (str ''%s: %m (%d)'')
       [LA_STR (Some (str ''x'')), LA_INT 5] demo_logger = Inr s \<and>
     lg_out s = [(stderr_file, t @ str ''(f.c:g:3) x: No such file (5)'')]) \<and>
   (\<exists>s t. xlogprintf (demo_log_env False) (str ''f.c'') (str ''g'') 3 LOG_ERR (str ''%d: %m (%d), %m'')
       [LA_INT 5, LA_INT 6] demo_logger = Inr s \<and>
     lg_out s = [(stderr_file, t @ str ''(f.c:g:3) 5: No such file (5), No such file'')])"
proof -
  note defs = str_def directive_def spec_char_def convert_def print_arg_def pad_text_def pad_number_def
    spec_width_def spec_flags_def spec_precision_def digits_val_def dec_digits.simps
  have safe: "m_safe (str ''%s: %m (%d)'')" by (simp_all add: defs)
  have v: "vprintf (Some (str ''No such file'')) (str ''%s: %m (%d)'') [LA_STR (Some (str ''x'')), LA_INT 5] =
      Inr (str ''x: No such file (5)'', [])"
    by (simp add: defs)
  have "m_pieces (str ''%d: %m (%d), %m'') = [str ''%d: '', str '' (%d), '', []]"
    by code_simp
  moreover have "vprintf None (str ''%d: '') [LA_INT 5, LA_INT 6] = Inr (str ''5: '', [LA_INT 6])"
    "vprintf None (str '' (%d), '') [LA_INT 5, LA_INT 6] = Inr (str '' (5), '', [LA_INT 6])"
    by (simp_all add: defs)
  ultimately have w: "list_all2 (formatted [LA_INT 5, LA_INT 6]) (m_pieces (str ''%d: %m (%d), %m'')) [str ''5: '', str '' (5), '', []]"
    by simp
  have pl: "log_place (str ''f.c'') (str ''g'') 3 = str ''(f.c:g:3) ''"
    by (simp add: log_place_def str_def print_int_def dec_digits.simps)
  have "\<exists>s t. xlogprintf (demo_log_env True) (str ''f.c'') (str ''g'') 3 LOG_ERR (str ''%s: %m (%d)'')
       [LA_STR (Some (str ''x'')), LA_INT 5] demo_logger = Inr s \<and>
     lg_out s = [(stderr_file, t @ str ''(f.c:g:3) x: No such file (5)'')]"
    using log_line_written [of demo_logger "demo_log_env True" "str ''f.c''" "str ''g''" LOG_ERR 3 "str ''%s: %m (%d)''"
        "[LA_STR (Some (str ''x'')), LA_INT 5]", unfolded Let_def, THEN conjunct1] v safe
    by (auto simp: demo_logger_def demo_log_env_def err_text_def pl LOG_ERR_def LOG_WARNING_def LOG_TO_FILE_def)
      (auto simp: str_def)
  moreover have "\<exists>s t. xlogprintf (demo_log_env False) (str ''f.c'') (str ''g'') 3 LOG_ERR (str ''%d: %m (%d), %m'')
       [LA_INT 5, LA_INT 6] demo_logger = Inr s \<and>
     lg_out s = [(stderr_file, t @ str ''(f.c:g:3) 5: No such file (5), No such file'')]"
    using log_line_written [of demo_logger "demo_log_env False" "str ''f.c''" "str ''g''" LOG_ERR 3 "str ''%d: %m (%d), %m''"
        "[LA_INT 5, LA_INT 6]", unfolded Let_def, THEN conjunct2] w
    by (auto simp: demo_logger_def demo_log_env_def err_text_def pl LOG_ERR_def LOG_WARNING_def LOG_TO_FILE_def)
      (auto simp: str_def)
  ultimately show ?thesis by blast
qed

end
