(* ===== verification/Util.thy ===== *)
theory Util
  imports Frelay_Base
begin

text \<open>
  src/util.c: the functions on file descriptors. \<^verbatim>\<open>fcntl()\<close> is that of POSIX with the constants of
  Linux: \<^verbatim>\<open>F_SETFL\<close> changes the status flags of an open file and ignores the access mode and the
  flags for its creation, among them \<^verbatim>\<open>O_CLOEXEC\<close>; whether a descriptor is closed by \<^verbatim>\<open>exec()\<close> is not
  a status flag.
\<close>

unbundle bit_operations_syntax

definition O_NONBLOCK :: u32 where "O_NONBLOCK = 0x800"
definition O_CLOEXEC :: u32 where "O_CLOEXEC = 0x80000"

text \<open>\<^verbatim>\<open>O_APPEND\<close>, \<^verbatim>\<open>O_NONBLOCK\<close>, \<^verbatim>\<open>O_ASYNC\<close>, \<^verbatim>\<open>O_DIRECT\<close> and \<^verbatim>\<open>O_NOATIME\<close>.\<close>

definition setfl_mask :: u32 where "setfl_mask = 0x46C00"

record descriptor =
  de_flags :: u32
  de_cloexec :: bool

definition fcntl_getfl :: "descriptor option \<Rightarrow> int" where
  "fcntl_getfl d = (case d of None \<Rightarrow> - 1 | Some f \<Rightarrow> uint (de_flags f))"

definition fcntl_setfl :: "u32 \<Rightarrow> descriptor option \<Rightarrow> int \<times> descriptor option" where
  "fcntl_setfl v d =
     (case d of
        None \<Rightarrow> (- 1, None)
      | Some f \<Rightarrow> (0, Some (f\<lparr>de_flags := (de_flags f AND NOT setfl_mask) OR (v AND setfl_mask)\<rparr>)))"

definition set_nonblocking :: "descriptor option \<Rightarrow> int \<times> descriptor option" where
  "set_nonblocking d =
     (let flags = fcntl_getfl d
      in if flags < 0 then (- 1, d) else fcntl_setfl (of_int flags OR O_NONBLOCK) d)"

definition set_cloexec :: "descriptor option \<Rightarrow> int \<times> descriptor option" where
  "set_cloexec d =
     (let flags = fcntl_getfl d
      in if flags < 0 then (- 1, d) else fcntl_setfl (of_int flags OR O_CLOEXEC) d)"

lemma mask_merge: "((x :: u32) AND NOT m) OR ((x OR y) AND m) = x OR (y AND m)"
  by (rule bit_word_eqI) (auto simp: bit_simps)

text \<open>The one sets its flag and nothing else; the other reports success and changes nothing.\<close>

lemma set_nonblocking_flag:
  "set_nonblocking (Some f) = (0, Some (f\<lparr>de_flags := de_flags f OR O_NONBLOCK\<rparr>))"
proof -
  have "O_NONBLOCK AND setfl_mask = O_NONBLOCK" by (simp add: O_NONBLOCK_def setfl_mask_def)
  then show ?thesis by (simp add: set_nonblocking_def fcntl_getfl_def fcntl_setfl_def mask_merge)
qed

lemma set_cloexec_nothing: "set_cloexec (Some f) = (0, Some f)"
proof -
  have "O_CLOEXEC AND setfl_mask = 0" by (simp add: O_CLOEXEC_def setfl_mask_def)
  then show ?thesis by (simp add: set_cloexec_def fcntl_getfl_def fcntl_setfl_def mask_merge)
qed

lemma set_flags_closed: "set_nonblocking None = (- 1, None)" "set_cloexec None = (- 1, None)"
  by (simp_all add: set_nonblocking_def set_cloexec_def fcntl_getfl_def)

end
