(* ===== verification/Spec2Isabelle.thy ===== *)
theory Spec2Isabelle
  imports Wire_Properties Server_Properties File_Properties System_Properties Util
begin

text \<open>
  Frelay: a chat-room-like server that relays file transfers between its users, and a command
  line client. This library models the C sources of the two programs and proves what makes them
  correct, and what makes them fail.

  \<^bold>\<open>The program and the theories.\<close> Both programs exchange framed messages over TCP.
  \<^item> \<open>Frelay_Base\<close>: machine integers, C strings, byte lists, and results: a function that may end
    the process, leave an object or dereference a null pointer returns a sum, with a
    \<open>fault\<close> on the left; every \<^verbatim>\<open>die_if\<close> of the code is \<open>Inl Die\<close>.
    \<open>Clib\<close>: the functions of the C library the code calls (\<^verbatim>\<open>fgets\<close>,
    \<^verbatim>\<open>strtoull\<close>, \<^verbatim>\<open>strtol\<close>, printing of numbers).
  \<^item> \<open>Bendian\<close> (src/lib/bendian.h), \<open>Stricmp\<close> (src/lib/stricmp.c), \<open>Prng\<close>
    (src/lib/prng.c), \<open>Ntime\<close> (src/lib/ntime.c), \<open>Logprintf\<close> (src/lib/logprintf.c), \<open>Util\<close> (src/util.c),
    \<open>Statcodes\<close> (src/statcodes.c): the small libraries.
  \<^item> \<open>Message\<close> (src/message.c, src/message.h): message buffers \<open>mbuf\<close>, header fields,
    attributes. \<open>Msg_Queue\<close>: the send queue, its interface as the locale \<open>msg_queue\<close>, which
    a plain list implements and the linked list of the code refines. \<open>Framing\<close>: the read and
    write loops over partial reads and writes.
  \<^item> \<open>Userdb\<close> (src/srvuserdb.c): the accounts and their file; the interface is the locale
    \<open>user_store\<close>.
  \<^item> \<open>Server\<close>, \<open>Server_Msg\<close>, \<open>Server_IO\<close> (src/srvmain.c): the state
    \<open>server\<close> (configuration, client table, select sets, user database, message of the day), the
    message handlers \<open>process_msg\<close>, and the main loop \<open>srv_main\<close> over a list of events.
    \<open>Session\<close>: the abstract protocol of sessions and accounts, and the proof that every message
    handled is a step of it. \<open>Server_Answers\<close>: every request is answered; \<open>Server_Login\<close>: what
    the answers to a login are.
  \<^item> \<open>Cfgparse\<close> (src/cfgparse.c): configuration files.
  \<^item> \<open>Files\<close>: the file system calls used by the client, on an explicit state of names, inodes
    and descriptors; \<open>Transfer_List\<close> (src/transfer.c): offers and downloads.
  \<^item> \<open>Client\<close>, \<open>Client_Cmd\<close>, \<open>Client_Msg\<close>, \<open>Client_IO\<close> (src/cltmain.c): the state
    \<open>frelay\<close> (configuration, connection, send queue, pending requests, transfers, console), every
    command of \<^verbatim>\<open>process_stdin()\<close>, every message of \<^verbatim>\<open>process_srvmsg()\<close>, and the main
    loop \<open>clt_main\<close>. On top of them, \<open>Client_Line\<close> shows how any typed line splits into words and becomes a command,
    \<open>Client_Transfer\<close> and \<open>Client_Offer\<close> follow a file from the offer to the last part,
    \<open>Client_Login\<close> a login through client and server, and \<open>Client_Faults\<close> the messages that
    end a client.
  \<^item> \<open>Config\<close> (src/cltmain.c, src/srvmain.c, src/cltcfg.def.h, src/srvcfg.def.h): options, defaults and
    configuration files, the listening socket, and both programs from their arguments on
    (\<open>clt_program\<close>, \<open>srv_program\<close>).
  \<^item> \<open>Wire_Properties\<close>, \<open>Server_Properties\<close>, \<open>File_Properties\<close>,
    \<open>Client_Properties\<close>, \<open>System_Properties\<close>: the properties, each with a witness at concrete
    inputs; the last spans the programs: a login, a file sent by one client to another, the
    configuration of both, and the log.
    What the two clients need of the server is the locale \<open>two_way\<close>; \<open>Server_Forward\<close> shows that
    the server's handlers carry a message from one connection to another, and \<open>Server_Relay\<close>
    interprets the locale with them.

  \<^bold>\<open>Correspondence.\<close> A definition has the name of the function it models. A struct is a record
  whose fields carry the names of the code, with a prefix where they would clash; linked lists are lists,
  except in \<open>Msg_Queue\<close>, where the pointers matter. Global variables are fields of the state
  record, which every function takes and returns. Results of system calls (\<^verbatim>\<open>accept\<close>,
  \<^verbatim>\<open>read\<close>, \<^verbatim>\<open>write\<close>, \<^verbatim>\<open>select\<close>, \<^verbatim>\<open>time\<close>) and the contents of fresh
  memory are arguments; the theorems hold for all of them. Integers that can wrap are words of
  their width. What the client prints is a list of lines in its state, in the order of the calls of
  \<^verbatim>\<open>printcon()\<close>; log output has no effect on the state of the programs and is left out there.

  \<^bold>\<open>What the lemmas show.\<close> Invariants: \<open>rx_inv\<close> and \<open>tx_inv\<close> of buffers and queues,
  \<open>fd_inv\<close> and \<open>loop_inv\<close> of the server, \<open>proto_inv\<close> of the protocol,
  \<open>udb_inv\<close> of the accounts, \<open>xfer_inv\<close> of the transfers and \<open>clt_inv\<close> of the client, each
  kept by every operation; \<open>xfer_inv\<close> with the descriptors that \<open>make_filenames\<close> loses counted in.
  Round trips: byte order, headers, attributes, streams, accounts, configuration files, transfer
  identifiers. Refinement: \<open>session_step\<close> by the server, \<open>msg_queue\<close> by the linked list.
  Failures: the inputs for which the result is a fault.

  \<^bold>\<open>Bounds.\<close> No fuel is used: loops over lists are structural, the others have a measure; the
  rejection loop of \<open>uni_draw\<close>, which need not end, is an option. Streams are read with a list of
  read sizes, and the number of reads needed is bounded by the length of the stream.

  \<^bold>\<open>Not modelled.\<close> The wrappers of memory allocation in src/util.c, which the model takes to
  succeed except where the size depends on a peer; src/auth.c (compiled out); code for debug builds only;
  and the separate Python front end. \<open>Logprintf\<close> models the logger on its own: the other theories
  leave its calls out, since no state depends on them.
\<close>

end
